(* ===== verification/Prelude.thy ===== *)
theory Prelude
  imports Complex_Main "HOL-Library.Word"
begin

text \<open>
  Shared vocabulary of the development.
  \<^item> \<open>js\<close>: the JavaScript values the program type-tests (\<open>typeof\<close>, \<open>Number.isInteger\<close>,
    \<open>Array.isArray\<close>), for the functions that validate untrusted input.
  \<^item> \<open>jmap\<close>: an ES \<open>Map\<close>, an association list in insertion order. Re-setting a key keeps its
    place, a new key goes to the end, iteration follows the list: the order is observable in
    this program, which evicts \<open>keys().next().value\<close>.
  \<^item> \<open>etime\<close>: a millisecond instant or \<open>Infinity\<close>, with its linear order.
  \<^item> the locale \<open>finite_map\<close>, the contract every component relies on when it keeps its state
    in a \<open>Map\<close>, interpreted on \<open>jmap\<close>.
  Numbers: millisecond clocks, counters and byte counts are \<open>int\<close> or \<open>nat\<close>. JavaScript
  computes them as doubles, which are exact up to \<open>2 ^ 53\<close>; where the code itself guards that
  range (\<open>Number.isSafeInteger\<close>) the guard is part of the model.
\<close>

named_theorems jmap_simps \<open>lookup, update and deletion in an insertion-ordered map\<close>

section \<open>JavaScript values\<close>

text \<open>A JavaScript number: a finite value, or one of the three non-finite ones.\<close>

datatype jsnum = Fin rat | NaN | PosInf | NegInf

datatype js = Undefined | Null | JBool bool | JNum jsnum | JBig int | JStr string
  | JArr "js list" | JObj "(string \<times> js) list"

abbreviation jint :: "int \<Rightarrow> js" where
  "jint i \<equiv> JNum (Fin (of_int i))"

text \<open>\<open>Number.isFinite\<close>, \<open>Number.isInteger\<close> and \<open>Number.isSafeInteger\<close>, false on every
  value that is not a number.\<close>

fun num_is_finite :: "js \<Rightarrow> bool" where
  "num_is_finite (JNum (Fin _)) = True"
| "num_is_finite _ = False"

fun num_is_integer :: "js \<Rightarrow> bool" where
  "num_is_integer (JNum (Fin r)) = (of_int \<lfloor>r\<rfloor> = r)"
| "num_is_integer _ = False"

definition max_safe_integer :: int where
  "max_safe_integer = 2 ^ 53 - 1"

definition is_safe_integer :: "int \<Rightarrow> bool" where
  "is_safe_integer i \<longleftrightarrow> \<bar>i\<bar> \<le> max_safe_integer"

text \<open>The integer a number value denotes, where \<open>num_is_integer\<close> holds.\<close>

fun num_int :: "js \<Rightarrow> int" where
  "num_int (JNum (Fin r)) = \<lfloor>r\<rfloor>"
| "num_int _ = 0"

fun num_is_safe :: "js \<Rightarrow> bool" where
  "num_is_safe v = (num_is_integer v \<and> is_safe_integer (num_int v))"

text \<open>A property read: \<open>Undefined\<close> where the object has no such field.\<close>

definition obj_get :: "(string \<times> js) list \<Rightarrow> string \<Rightarrow> js" where
  "obj_get fs k = (case map_of fs k of None \<Rightarrow> Undefined | Some v \<Rightarrow> v)"

lemma num_is_integer_jint [simp]: "num_is_integer (jint i)"
  by simp

lemma num_int_jint [simp]: "num_int (jint i) = i"
  by simp

section \<open>Instants: milliseconds or Infinity\<close>

datatype etime = At int | Infinity

instantiation etime :: linorder
begin

fun less_eq_etime :: "etime \<Rightarrow> etime \<Rightarrow> bool" where
  "less_eq_etime (At a) (At b) = (a \<le> b)"
| "less_eq_etime _ Infinity = True"
| "less_eq_etime Infinity (At _) = False"

definition less_etime :: "etime \<Rightarrow> etime \<Rightarrow> bool" where
  "less_etime a b \<longleftrightarrow> a \<le> b \<and> \<not> b \<le> a"

instance
proof
  fix x y z :: etime
  show "(x < y) = (x \<le> y \<and> \<not> y \<le> x)" by (simp add: less_etime_def)
  show "x \<le> x" by (cases x) auto
  show "x \<le> y \<Longrightarrow> y \<le> z \<Longrightarrow> x \<le> z" by (cases x; cases y; cases z) auto
  show "x \<le> y \<Longrightarrow> y \<le> x \<Longrightarrow> x = y" by (cases x; cases y) auto
  show "x \<le> y \<or> y \<le> x" by (cases x; cases y) auto
qed

end

lemma etime_less_simps [simp]:
  "At a < At b \<longleftrightarrow> a < b"
  "At a < Infinity"
  "Infinity < x \<longleftrightarrow> False"
  by (auto simp: less_etime_def)

section \<open>Insertion-ordered maps\<close>

type_synonym ('k, 'v) jmap = "('k \<times> 'v) list"

abbreviation mget :: "('k, 'v) jmap \<Rightarrow> 'k \<Rightarrow> 'v option" where
  "mget \<equiv> map_of"

abbreviation mhas :: "('k, 'v) jmap \<Rightarrow> 'k \<Rightarrow> bool" where
  "mhas m k \<equiv> map_of m k \<noteq> None"

abbreviation mkeys :: "('k, 'v) jmap \<Rightarrow> 'k list" where
  "mkeys m \<equiv> map fst m"

fun mset_key :: "'k \<Rightarrow> 'v \<Rightarrow> ('k, 'v) jmap \<Rightarrow> ('k, 'v) jmap" where
  "mset_key k v [] = [(k, v)]"
| "mset_key k v ((k', v') # m) = (if k = k' then (k, v) # m else (k', v') # mset_key k v m)"

definition mdelete :: "'k \<Rightarrow> ('k, 'v) jmap \<Rightarrow> ('k, 'v) jmap" where
  "mdelete k m = filter (\<lambda>p. fst p \<noteq> k) m"

definition minvar :: "('k, 'v) jmap \<Rightarrow> bool" where
  "minvar m \<longleftrightarrow> distinct (mkeys m)"

lemma mget_mset_key [simp, jmap_simps]: "mget (mset_key k v m) = (mget m)(k \<mapsto> v)"
  by (induction m rule: mset_key.induct) auto

lemma mget_mdelete [simp, jmap_simps]: "mget (mdelete k m) = (mget m)(k := None)"
proof
  fix x show "mget (mdelete k m) x = ((mget m)(k := None)) x"
    by (induction m) (auto simp: mdelete_def)
qed

lemma mkeys_mset_key: "mkeys (mset_key k v m) = (if k \<in> set (mkeys m) then mkeys m else mkeys m @ [k])"
  by (induction m rule: mset_key.induct) auto

lemma mkeys_mdelete: "mkeys (mdelete k m) = filter (\<lambda>x. x \<noteq> k) (mkeys m)"
  by (induction m) (auto simp: mdelete_def)

lemma mget_None_iff: "mget m k = None \<longleftrightarrow> k \<notin> set (mkeys m)"
  by (simp add: map_of_eq_None_iff)

lemma mget_Some_in: "mget m k = Some v \<Longrightarrow> (k, v) \<in> set m"
  by (rule map_of_SomeD)

lemma minvar_Nil [simp, intro]: "minvar []"
  by (simp add: minvar_def)

lemma minvar_mset_key [simp, intro]: "minvar m \<Longrightarrow> minvar (mset_key k v m)"
  by (simp add: minvar_def mkeys_mset_key)

lemma minvar_mdelete [simp, intro]: "minvar m \<Longrightarrow> minvar (mdelete k m)"
  by (simp add: minvar_def mkeys_mdelete)

lemma minvar_filter [simp, intro]: "minvar m \<Longrightarrow> minvar (filter P m)"
  unfolding minvar_def by (simp add: distinct_map_filter)

lemma minvar_get_iff: "minvar m \<Longrightarrow> mget m k = Some v \<longleftrightarrow> (k, v) \<in> set m"
  by (simp add: minvar_def)

lemma length_mset_key:
  "length (mset_key k v m) = (if mhas m k then length m else Suc (length m))"
  by (induction m rule: mset_key.induct) auto

lemma length_mdelete_le: "length (mdelete k m) \<le> length m"
  by (simp add: mdelete_def)

lemma mdelete_idle: "mget m k = None \<Longrightarrow> mdelete k m = m"
  by (force simp: mdelete_def filter_id_conv mget_None_iff)

lemma length_mdelete:
  "minvar m \<Longrightarrow> length (mdelete k m) = (if mhas m k then length m - 1 else length m)"
proof (induction m)
  case Nil
  then show ?case by (simp add: mdelete_def)
next
  case (Cons p m)
  then have inv: "minvar m" and fresh: "fst p \<notin> set (mkeys m)" by (auto simp: minvar_def)
  show ?case
  proof (cases "fst p = k")
    case True
    with fresh have "mdelete k m = m"
      by (simp add: mdelete_idle mget_None_iff)
    with True show ?thesis by (cases p) (simp add: mdelete_def)
  next
    case False
    have pos: "mhas m k \<Longrightarrow> 0 < length m" by (cases m) auto
    have "length (mdelete k (p # m)) = Suc (length (mdelete k m))"
      using False by (simp add: mdelete_def)
    with False pos Cons.IH [OF inv] show ?thesis by (cases p) auto
  qed
qed

lemma set_mset_key_subset: "set (mset_key k v m) \<subseteq> insert (k, v) (set m)"
  by (induction m rule: mset_key.induct) auto

lemma set_mset_key:
  "minvar m \<Longrightarrow> set (mset_key k v m) = insert (k, v) {p \<in> set m. fst p \<noteq> k}"
  by (induction m rule: mset_key.induct) (force simp: minvar_def)+

lemma mset_key_fresh: "mget m k = None \<Longrightarrow> mset_key k v m = m @ [(k, v)]"
  by (induction m rule: mset_key.induct) (auto split: if_splits)

text \<open>The entry of a key splits the map; an update and a deletion happen at that place.\<close>

lemma mget_split:
  assumes "minvar m" and "mget m k = Some l"
  obtains pre post where "m = pre @ (k, l) # post" and "\<And>v. mset_key k v m = pre @ (k, v) # post"
    and "mdelete k m = pre @ post"
proof -
  from mget_Some_in [OF assms(2)] obtain pre post where m: "m = pre @ (k, l) # post"
    by (auto dest: split_list)
  then have fresh: "k \<notin> set (mkeys pre)" "k \<notin> set (mkeys post)" using assms(1) by (auto simp: minvar_def)
  have "mset_key k v (pre @ (k, l) # post) = pre @ (k, v) # post" for v
    using fresh(1) by (induction pre) auto
  moreover have "mdelete k m = pre @ post"
    using fresh mdelete_idle [of pre k] mdelete_idle [of post k] by (simp add: m mdelete_def mget_None_iff)
  ultimately show thesis using that m by blast
qed

text \<open>How many entries satisfy a test, and how an update or a deletion changes that.\<close>

definition mcount :: "('v \<Rightarrow> bool) \<Rightarrow> ('k, 'v) jmap \<Rightarrow> int" where
  "mcount P m = int (length (filter (\<lambda>q. P (snd q)) m))"

definition has :: "('v \<Rightarrow> bool) \<Rightarrow> 'v option \<Rightarrow> int" where
  "has P v = (case v of None \<Rightarrow> 0 | Some x \<Rightarrow> if P x then 1 else 0)"

lemma has_simps [simp]: "has P None = 0" "has P (Some x) = (if P x then 1 else 0)"
  by (simp_all add: has_def)

lemma mcount_Nil [simp]: "mcount P [] = 0"
  by (simp add: mcount_def)

lemma mcount_nonneg [simp]: "0 \<le> mcount P m"
  by (simp add: mcount_def)

lemma mcount_set:
  assumes "minvar m"
  shows "mcount P (mset_key k v m) = mcount P m - has P (mget m k) + (if P v then 1 else 0)"
proof (cases "mget m k")
  case None
  then show ?thesis by (simp add: mset_key_fresh mcount_def)
next
  case (Some v0)
  obtain pre post where m: "m = pre @ (k, v0) # post" "\<And>v. mset_key k v m = pre @ (k, v) # post" "mdelete k m = pre @ post"
    by (rule mget_split [OF assms Some]) blast
  show ?thesis unfolding m(2) mcount_def using Some m(1) by simp
qed

lemma mcount_delete:
  assumes "minvar m"
  shows "mcount P (mdelete k m) = mcount P m - has P (mget m k)"
proof (cases "mget m k")
  case None
  then show ?thesis by (simp add: mdelete_idle)
next
  case (Some v0)
  obtain pre post where m: "m = pre @ (k, v0) # post" "\<And>v. mset_key k v m = pre @ (k, v) # post" "mdelete k m = pre @ post"
    by (rule mget_split [OF assms Some]) blast
  show ?thesis unfolding m(3) mcount_def using Some m(1) by simp
qed

lemma mcount_pos: "mget m k = Some v \<Longrightarrow> P v \<Longrightarrow> 1 \<le> mcount P m"
proof -
  assume "mget m k = Some v" "P v"
  then have "(k, v) \<in> set (filter (\<lambda>q. P (snd q)) m)" by (auto dest: mget_Some_in)
  then have "0 < length (filter (\<lambda>q. P (snd q)) m)" by (rule length_pos_if_in_set)
  then show ?thesis unfolding mcount_def by linarith
qed

lemma mcount_map: "mcount P (map (\<lambda>(k, v). (k, f v)) m) = mcount (\<lambda>v. P (f v)) m"
  by (induction m) (auto simp: mcount_def)

lemma minvar_map [simp]: "minvar (map (\<lambda>(k, v). (k, f v)) m) = minvar m"
proof -
  have "mkeys (map (\<lambda>(k, v). (k, f v)) m) = mkeys m" by (induction m) auto
  then show ?thesis unfolding minvar_def by (rule arg_cong)
qed

lemma mcount_filter_le: "mcount P (filter Q m) \<le> mcount P m"
  by (induction m) (auto simp: mcount_def)

section \<open>The map contract\<close>

text \<open>What a component relies on when it stores its state in a \<open>Map\<close>: lookup after every
  operation, and an invariant the operations keep.\<close>

locale finite_map =
  fixes empty :: "'m"
    and get :: "'m \<Rightarrow> 'k \<Rightarrow> 'v option"
    and put :: "'k \<Rightarrow> 'v \<Rightarrow> 'm \<Rightarrow> 'm"
    and del :: "'k \<Rightarrow> 'm \<Rightarrow> 'm"
    and card_of :: "'m \<Rightarrow> nat"
    and wf :: "'m \<Rightarrow> bool"
  assumes get_empty: "get empty k = None"
    and get_put: "wf m \<Longrightarrow> get (put k v m) = (get m)(k \<mapsto> v)"
    and get_del: "wf m \<Longrightarrow> get (del k m) = (get m)(k := None)"
    and wf_empty: "wf empty"
    and wf_put: "wf m \<Longrightarrow> wf (put k v m)"
    and wf_del: "wf m \<Longrightarrow> wf (del k m)"
    and card_of_eq: "wf m \<Longrightarrow> card_of m = card (dom (get m))"
    and finite_dom: "wf m \<Longrightarrow> finite (dom (get m))"
begin

lemma card_put_fresh: "wf m \<Longrightarrow> get m k = None \<Longrightarrow> card_of (put k v m) = Suc (card_of m)"
  by (simp add: card_of_eq wf_put get_put finite_dom domIff)

lemma card_put_known: "wf m \<Longrightarrow> get m k \<noteq> None \<Longrightarrow> card_of (put k v m) = card_of m"
  by (simp add: card_of_eq wf_put get_put insert_absorb domIff)

lemma card_del_known: "wf m \<Longrightarrow> get m k \<noteq> None \<Longrightarrow> Suc (card_of (del k m)) = card_of m"
  using card_Suc_Diff1 [of "dom (get m)" k] by (simp add: card_of_eq wf_del get_del finite_dom domIff)

lemma card_put_le: "wf m \<Longrightarrow> card_of (put k v m) \<le> Suc (card_of m)"
  by (cases "get m k = None") (auto simp: card_put_fresh card_put_known)

end

lemma minvar_card: "minvar m \<Longrightarrow> length m = card (dom (mget m))"
  unfolding minvar_def dom_map_of_conv_image_fst
  by (metis distinct_card length_map list.set_map)

interpretation jm: finite_map "[]" mget mset_key mdelete length minvar
  by unfold_locales (auto simp: minvar_card finite_dom_map_of)

section \<open>Lists\<close>

lemma int_div_less:
  fixes c :: int
  assumes "0 < d" and "n < c * d"
  shows "n div d < c"
proof (rule ccontr)
  assume "\<not> n div d < c"
  then have "c * d \<le> n div d * d" using assms(1) by (intro mult_right_mono) auto
  also have "\<dots> \<le> n" using div_mult_mod_eq [of n d] pos_mod_sign [OF assms(1), of n] by linarith
  finally show False using assms(2) by simp
qed

text \<open>\<open>padStart\<close>: a string filled on the left up to a width, unchanged when already as wide.\<close>

definition pad_start :: "nat \<Rightarrow> char \<Rightarrow> string \<Rightarrow> string" where
  "pad_start n c s = replicate (n - length s) c @ s"

lemma length_pad_start [simp]: "length (pad_start n c s) = max n (length s)"
  by (simp add: pad_start_def max_def)

lemma pad_start_eq_Nil [simp]: "pad_start n c s = [] \<longleftrightarrow> n = 0 \<and> s = []"
  by (auto simp: pad_start_def)

text \<open>\<open>filter\<close> and sums: what a deletion takes from a total.\<close>

lemma sum_list_filter_split:
  fixes f :: "'a \<Rightarrow> int"
  shows "sum_list (map f xs) = sum_list (map f (filter P xs)) + sum_list (map f (filter (\<lambda>x. \<not> P x) xs))"
  by (induction xs) auto

end
