(* ===== verification/HexId.thy ===== *)
theory HexId
  imports Prelude
begin

unbundle bit_operations_syntax

text \<open>
  The identifier layer: \<open>src/src/utils/hexid.js\<close> and \<open>src/src/pubsub/ids.js\<close>. Ids are
  \<open>int\<close>s (the source's BigInt), hex strings are \<open>string\<close>s, a thrown error is \<open>Inl\<close>. The
  module's mutable width bindings are the record \<open>keyspace\<close>, an argument of every function
  that reads them. The theory proves the encode/decode round trips, the composition round
  trip of region and hash, that the 32-bit-chunk \<open>clz264\<close> loop computes the leading-zero
  count, that a stratum is the length of the common prefix, and that XOR is a metric with a
  unique closest id (the locale \<open>id_metric\<close>, interpreted on \<open>xorDistance\<close>).
\<close>

section \<open>Keyspace profile\<close>

datatype id_error = TypeError | RangeError | BadIdType | BadIdRange

text \<open>The private \<open>_hashBits\<close>, \<open>_regionBits\<close>, \<open>_configured\<close> and the exported widths. The
  other exported bindings are functions of \<open>HASH_BITS\<close> and \<open>S2_BITS\<close>, recomputed with them.\<close>

record keyspace =
  raw_hashBits :: nat
  raw_regionBits :: nat
  configured :: bool
  HASH_BITS :: nat
  S2_BITS :: nat

definition recompute :: "keyspace \<Rightarrow> keyspace" where
  "recompute ks = ks\<lparr>HASH_BITS := raw_hashBits ks, S2_BITS := raw_regionBits ks\<rparr>"

definition ID_BITS :: "keyspace \<Rightarrow> nat" where
  "ID_BITS ks = S2_BITS ks + HASH_BITS ks"

definition HEX_CHARS :: "keyspace \<Rightarrow> nat" where
  "HEX_CHARS ks = (ID_BITS ks + 3) div 4"

definition MAX_HASH :: "keyspace \<Rightarrow> int" where
  "MAX_HASH ks = push_bit (HASH_BITS ks) 1 - 1"

definition MAX_ID :: "keyspace \<Rightarrow> int" where
  "MAX_ID ks = push_bit (ID_BITS ks) 1 - 1"

definition MAX_S2 :: "keyspace \<Rightarrow> int" where
  "MAX_S2 ks = push_bit (S2_BITS ks) 1 - 1"

definition AUTH_VERIFY_RELAXED :: "keyspace \<Rightarrow> bool" where
  "AUTH_VERIFY_RELAXED ks \<longleftrightarrow> HASH_BITS ks < 256"

definition production :: keyspace where
  "production = recompute
     \<lparr>raw_hashBits = 256, raw_regionBits = 8, configured = False, HASH_BITS = 0, S2_BITS = 0\<rparr>"

text \<open>\<open>configureKeyspace\<close>: the assignments are sequential, so a rejected \<open>regionBits\<close> throws
  after \<open>_hashBits\<close> was assigned and before the widths are recomputed.\<close>

definition set_hashBits :: "js \<Rightarrow> keyspace \<Rightarrow> id_error option \<times> keyspace" where
  "set_hashBits v ks = (case v of
      JNum _ \<Rightarrow> if \<not> num_is_integer v \<or> num_int v < 8 \<or> num_int v > 256 then (Some RangeError, ks)
               else (None, ks\<lparr>raw_hashBits := nat (num_int v)\<rparr>)
    | _ \<Rightarrow> (None, ks))"

definition set_regionBits :: "js \<Rightarrow> keyspace \<Rightarrow> id_error option \<times> keyspace" where
  "set_regionBits v ks = (case v of
      JNum _ \<Rightarrow> if \<not> num_is_integer v \<or> num_int v < 0 \<or> num_int v > 16 then (Some RangeError, ks)
               else (None, ks\<lparr>raw_regionBits := nat (num_int v)\<rparr>)
    | _ \<Rightarrow> (None, ks))"

definition configureKeyspace :: "js \<Rightarrow> js \<Rightarrow> keyspace \<Rightarrow> id_error option \<times> keyspace" where
  "configureKeyspace hb rb ks = (case set_hashBits hb ks of
      (Some e, ks1) \<Rightarrow> (Some e, ks1)
    | (None, ks1) \<Rightarrow> (case set_regionBits rb ks1 of
        (Some e, ks2) \<Rightarrow> (Some e, ks2)
      | (None, ks2) \<Rightarrow> (None, (recompute ks2)\<lparr>configured := True\<rparr>)))"

section \<open>Hex digits\<close>

definition hexd :: "nat \<Rightarrow> char" where
  "hexd n = ''0123456789abcdef'' ! n"

definition is_hex_char :: "char \<Rightarrow> bool" where
  "is_hex_char c = (let k = (of_char c :: nat) in
     (48 \<le> k \<and> k \<le> 57) \<or> (97 \<le> k \<and> k \<le> 102) \<or> (65 \<le> k \<and> k \<le> 70))"

definition is_lower_hex_char :: "char \<Rightarrow> bool" where
  "is_lower_hex_char c = (let k = (of_char c :: nat) in
     (48 \<le> k \<and> k \<le> 57) \<or> (97 \<le> k \<and> k \<le> 102))"

definition hexv :: "char \<Rightarrow> nat" where
  "hexv c = (let k = (of_char c :: nat) in
     if k \<le> 57 then k - 48 else if 97 \<le> k then k - 87 else k - 55)"

text \<open>\<open>String.prototype.toLowerCase\<close> on code units below 256.\<close>

definition lower_char :: "char \<Rightarrow> char" where
  "lower_char c = (let k = (of_char c :: nat) in
     if (65 \<le> k \<and> k \<le> 90) \<or> (192 \<le> k \<and> k \<le> 222 \<and> k \<noteq> 215) then char_of (k + 32) else c)"

definition lc :: "string \<Rightarrow> string" where
  "lc s = map lower_char s"

text \<open>\<open>BigInt.prototype.toString(16)\<close> on a non-negative value, and \<open>BigInt('0x' + h)\<close>.\<close>

fun hex_digits :: "nat \<Rightarrow> string" where
  "hex_digits n = (if n < 16 then [hexd n] else hex_digits (n div 16) @ [hexd (n mod 16)])"

declare hex_digits.simps [simp del]

definition hex_val :: "string \<Rightarrow> nat" where
  "hex_val s = foldl (\<lambda>a c. 16 * a + hexv c) 0 s"

definition all_hex :: "string \<Rightarrow> bool" where
  "all_hex s \<longleftrightarrow> s \<noteq> [] \<and> list_all is_hex_char s"

section \<open>Encoding\<close>

definition toHex :: "keyspace \<Rightarrow> js \<Rightarrow> id_error + string" where
  "toHex ks v = (case v of
      JBig i \<Rightarrow> if i < 0 \<or> i > MAX_ID ks then Inl RangeError
               else Inr (pad_start (HEX_CHARS ks) (CHR ''0'') (hex_digits (nat i)))
    | _ \<Rightarrow> Inl TypeError)"

definition fromHex :: "keyspace \<Rightarrow> js \<Rightarrow> id_error + int" where
  "fromHex ks v = (case v of
      JStr h \<Rightarrow> if length h \<noteq> HEX_CHARS ks then Inl BadIdRange
               else if \<not> all_hex h then Inl BadIdRange
               else Inr (int (hex_val h))
    | _ \<Rightarrow> Inl BadIdType)"

definition isHexId :: "keyspace \<Rightarrow> js \<Rightarrow> bool" where
  "isHexId ks v = (case v of JStr h \<Rightarrow> length h = HEX_CHARS ks \<and> all_hex h | _ \<Rightarrow> False)"

definition strip_0x :: "string \<Rightarrow> string" where
  "strip_0x s = (case s of
      a # b # t \<Rightarrow> if a = CHR ''0'' \<and> (b = CHR ''x'' \<or> b = CHR ''X'') then t else s
    | _ \<Rightarrow> s)"

definition asId :: "keyspace \<Rightarrow> js \<Rightarrow> id_error + int" where
  "asId ks v = (case v of
      JBig i \<Rightarrow> if i < 0 \<or> i > MAX_ID ks then Inl BadIdRange else Inr i
    | JStr s \<Rightarrow> (let h = strip_0x s in
        if \<not> all_hex h then Inl BadIdType
        else (let n = int (hex_val h) in if n > MAX_ID ks then Inl BadIdRange else Inr n))
    | _ \<Rightarrow> Inl BadIdType)"

text \<open>\<open>randomU256\<close>: the 32 bytes of \<open>crypto.getRandomValues\<close> are the argument.\<close>

definition randomU256 :: "keyspace \<Rightarrow> 8 word list \<Rightarrow> int" where
  "randomU256 ks bytes = foldl (\<lambda>n b. push_bit 8 n OR uint b) 0 bytes AND MAX_HASH ks"

text \<open>The pub/sub helpers of \<open>ids.js\<close>: a fixed 66-character egress form and the lenient
  lowercase test \<open>/^[0-9a-f]{1,66}$/\<close>.\<close>

definition idHex :: "int \<Rightarrow> string" where
  "idHex big = pad_start 66 (CHR ''0'')
     (if big < 0 then CHR ''-'' # hex_digits (nat (- big)) else hex_digits (nat big))"

definition ps_isHexId :: "string \<Rightarrow> bool" where
  "ps_isHexId s \<longleftrightarrow> 1 \<le> length s \<and> length s \<le> 66 \<and> list_all is_lower_hex_char s"

section \<open>Composition and distance\<close>

definition assembleId :: "keyspace \<Rightarrow> js \<Rightarrow> js \<Rightarrow> id_error + int" where
  "assembleId ks s2Prefix hash256 =
     (if \<not> num_is_integer s2Prefix \<or> num_int s2Prefix < 0 \<or> num_int s2Prefix > MAX_S2 ks
      then Inl RangeError
      else (case hash256 of
          JBig h \<Rightarrow> if h < 0 \<or> h > MAX_HASH ks then Inl RangeError
                   else Inr (push_bit (HASH_BITS ks) (num_int s2Prefix) OR h)
        | _ \<Rightarrow> Inl RangeError))"

definition extractS2Prefix :: "keyspace \<Rightarrow> js \<Rightarrow> id_error + int" where
  "extractS2Prefix ks v = (case v of JBig i \<Rightarrow> Inr (drop_bit (HASH_BITS ks) i) | _ \<Rightarrow> Inl TypeError)"

definition extractHash :: "keyspace \<Rightarrow> js \<Rightarrow> id_error + int" where
  "extractHash ks v = (case v of JBig i \<Rightarrow> Inr (i AND MAX_HASH ks) | _ \<Rightarrow> Inl TypeError)"

definition s2PrefixOfHex :: "keyspace \<Rightarrow> js \<Rightarrow> id_error + int" where
  "s2PrefixOfHex ks v = (if \<not> isHexId ks v then Inl RangeError
     else (case v of JStr h \<Rightarrow> Inr (int (hex_val (take 2 h))) | _ \<Rightarrow> Inl RangeError))"

definition xorDistance :: "int \<Rightarrow> int \<Rightarrow> int" where
  "xorDistance a b = a XOR b"

text \<open>\<open>Math.clz32\<close>, and the loop of \<open>clz264\<close> over 32-bit chunks, highest first.\<close>

fun bit_len :: "nat \<Rightarrow> nat" where
  "bit_len n = (if n = 0 then 0 else Suc (bit_len (n div 2)))"

declare bit_len.simps [simp del]

definition clz32 :: "int \<Rightarrow> int" where
  "clz32 x = 32 - int (bit_len (nat (x mod 2 ^ 32)))"

fun clz_loop :: "nat \<Rightarrow> int \<Rightarrow> nat \<Rightarrow> int" where
  "clz_loop idb n 0 = int idb"
| "clz_loop idb n (Suc i) =
     (let chunk = drop_bit (i * 32) n AND 0xFFFFFFFF in
      if chunk \<noteq> 0 then int idb - 1 - (int i * 32 + (31 - clz32 chunk))
      else clz_loop idb n i)"

definition clz264 :: "keyspace \<Rightarrow> js \<Rightarrow> id_error + int" where
  "clz264 ks v = (case v of
      JBig n \<Rightarrow> if n = 0 then Inr (int (ID_BITS ks))
               else Inr (clz_loop (ID_BITS ks) n ((ID_BITS ks + 31) div 32))
    | _ \<Rightarrow> Inl TypeError)"

definition stratumOf :: "keyspace \<Rightarrow> int \<Rightarrow> int \<Rightarrow> int" where
  "stratumOf ks selfId peerId = (case clz264 ks (JBig (selfId XOR peerId)) of
      Inr c \<Rightarrow> min (int (ID_BITS ks) - 1) c | Inl _ \<Rightarrow> 0)"

section \<open>Hex digit lemmas\<close>

lemma less16_cases:
  "(n::nat) < 16 \<Longrightarrow> n \<in> set [0, 1, 2, 3, 4, 5, 6, 7, 8, 9, 10, 11, 12, 13, 14, 15]"
proof -
  assume "n < 16"
  then have "n \<in> set [0..<16]" by simp
  also have "[0..<16] = [0, 1, 2, 3, 4, 5, 6, 7, 8, 9, 10, 11, 12, 13, 14, 15]"
    by (simp add: upt_rec)
  finally show ?thesis .
qed

lemma hexv_hexd [simp]: "n < 16 \<Longrightarrow> hexv (hexd n) = n"
  by (drule less16_cases) (auto simp: hexv_def hexd_def Let_def)

lemma is_hex_hexd [simp]: "n < 16 \<Longrightarrow> is_hex_char (hexd n)"
  by (drule less16_cases) (auto simp: is_hex_char_def hexd_def Let_def)

lemma is_lower_hex_hexd [simp]: "n < 16 \<Longrightarrow> is_lower_hex_char (hexd n)"
  by (drule less16_cases) (auto simp: is_lower_hex_char_def hexd_def Let_def)

lemma hex_char_cases: "is_hex_char c \<Longrightarrow> c \<in> set ''0123456789ABCDEFabcdef''"
proof -
  assume "is_hex_char c"
  then have "(of_char c :: nat) \<in> set ([48..<58] @ [65..<71] @ [97..<103])"
    unfolding is_hex_char_def Let_def set_append set_upt by auto
  also have "[48..<58] @ [65..<71] @ [97..<103] = map of_char ''0123456789ABCDEFabcdef''"
    by (simp add: upt_rec)
  finally have "(of_char c :: nat) \<in> of_char ` set ''0123456789ABCDEFabcdef''"
    unfolding set_map .
  then show ?thesis by (auto dest!: of_char_eq_iff [THEN iffD1] simp only: image_iff)
qed

lemma hexv_less [simp]: "is_hex_char c \<Longrightarrow> hexv c < 16"
  by (drule hex_char_cases) (auto simp: hexv_def Let_def)

lemma hexd_hexv [simp]: "is_hex_char c \<Longrightarrow> hexd (hexv c) = lower_char c"
  by (drule hex_char_cases) (auto simp: hexv_def hexd_def lower_char_def char_of_def Let_def bit_0)

lemma hex_val_Nil [simp]: "hex_val [] = 0"
  by (simp add: hex_val_def)

lemma hex_val_snoc [simp]: "hex_val (s @ [c]) = 16 * hex_val s + hexv c"
  by (simp add: hex_val_def)

lemma hex_val_append: "hex_val (s @ t) = hex_val s * 16 ^ length t + hex_val t"
proof (induction t rule: rev_induct)
  case (snoc c t)
  have "hex_val (s @ t @ [c]) = 16 * hex_val (s @ t) + hexv c"
    using hex_val_snoc [of "s @ t" c] by simp
  with snoc.IH show ?case by (simp add: algebra_simps)
qed simp

lemma hex_val_zeros [simp]: "hex_val (replicate n (CHR ''0'')) = 0"
proof (induction n)
  case (Suc n)
  have "hex_val (replicate n (CHR ''0'') @ [CHR ''0'']) = 0"
    using Suc.IH by (simp add: hexv_def)
  then show ?case by (simp add: replicate_append_same)
qed simp

lemma hex_val_pad_start [simp]: "hex_val (pad_start n (CHR ''0'') s) = hex_val s"
  by (simp add: pad_start_def hex_val_append)

lemma hex_val_hex_digits [simp]: "hex_val (hex_digits n) = n"
proof (induction n rule: hex_digits.induct)
  case (1 n)
  show ?case
  proof (cases "n < 16")
    case True
    then show ?thesis using hex_val_snoc [of "[]" "hexd n"]
      by (simp add: hex_digits.simps [of n])
  next
    case False
    with 1 show ?thesis by (simp add: hex_digits.simps [of n])
  qed
qed

lemma hex_digits_hex: "list_all is_hex_char (hex_digits n) \<and> hex_digits n \<noteq> []"
proof (induction n rule: hex_digits.induct)
  case (1 n)
  then show ?case by (cases "n < 16") (auto simp: hex_digits.simps [of n])
qed

lemma hex_digits_lower: "list_all is_lower_hex_char (hex_digits n)"
proof (induction n rule: hex_digits.induct)
  case (1 n)
  then show ?case by (cases "n < 16") (auto simp: hex_digits.simps [of n])
qed

lemma length_hex_digits: "0 < w \<Longrightarrow> n < 16 ^ w \<Longrightarrow> length (hex_digits n) \<le> w"
proof (induction n arbitrary: w rule: hex_digits.induct)
  case (1 n)
  show ?case
  proof (cases "n < 16")
    case True
    with "1.prems" show ?thesis by (simp add: hex_digits.simps [of n])
  next
    case False
    with "1.prems" obtain v where w: "w = Suc v" by (cases w) auto
    with False "1.prems" have "0 < v" "n div 16 < 16 ^ v"
      by (cases v; auto simp: less_mult_imp_div_less mult.commute)+
    with "1.IH" False have "length (hex_digits (n div 16)) \<le> v" by blast
    with False w show ?thesis by (simp add: hex_digits.simps [of n])
  qed
qed

lemma hex_val_less: "list_all is_hex_char s \<Longrightarrow> hex_val s < 16 ^ length s"
proof (induction s rule: rev_induct)
  case (snoc c s)
  then have "hex_val s < 16 ^ length s" and "hexv c < 16" by auto
  then show ?case by simp
qed simp

text \<open>Printing the value of a non-empty hex string at its own width gives it back in lower case.\<close>

lemma hex_digits_Suc: "d < 16 \<Longrightarrow> 0 < a \<Longrightarrow> hex_digits (16 * a + d) = hex_digits a @ [hexd d]"
  by (simp add: hex_digits.simps [of "16 * a + d"])

lemma pad_start_snoc: "pad_start (Suc n) c (s @ [x]) = pad_start n c s @ [x]"
  by (simp add: pad_start_def)

lemma pad_hex_digits_hex_val:
  "s \<noteq> [] \<Longrightarrow> list_all is_hex_char s \<Longrightarrow> pad_start (length s) (CHR ''0'') (hex_digits (hex_val s)) = lc s"
proof (induction s rule: rev_induct)
  case (snoc c s)
  then have c: "is_hex_char c" and s: "list_all is_hex_char s" by auto
  have d0: "hex_digits 0 = [CHR ''0'']" by (simp add: hex_digits.simps hexd_def)
  have d1: "hex_digits (hexv c) = [lower_char c]"
    using c by (simp add: hex_digits.simps [of "hexv c"])
  show ?case
  proof (cases "s = []")
    case True
    then show ?thesis using d1 hex_val_snoc [of "[]" c] by (simp add: lc_def pad_start_def)
  next
    case False
    with snoc.IH s have IH: "pad_start (length s) (CHR ''0'') (hex_digits (hex_val s)) = lc s" by simp
    show ?thesis
    proof (cases "hex_val s = 0")
      case True
      from False have "pad_start (length s) (CHR ''0'') [CHR ''0''] = replicate (length s) (CHR ''0'')"
        by (cases "length s") (auto simp: pad_start_def replicate_append_same)
      with IH True d0 have "lc s = replicate (length s) (CHR ''0'')" by simp
      with True d1 show ?thesis by (simp add: lc_def pad_start_def)
    next
      case False
      with c have "hex_digits (hex_val (s @ [c])) = hex_digits (hex_val s) @ [lower_char c]"
        by (simp add: hex_digits_Suc)
      with IH show ?thesis by (simp add: pad_start_snoc lc_def)
    qed
  qed
qed simp

section \<open>Well-formed keyspaces\<close>

definition ks_wf :: "keyspace \<Rightarrow> bool" where
  "ks_wf ks \<longleftrightarrow> 8 \<le> raw_hashBits ks \<and> raw_hashBits ks \<le> 256 \<and> raw_regionBits ks \<le> 16
     \<and> 8 \<le> HASH_BITS ks \<and> HASH_BITS ks \<le> 256 \<and> S2_BITS ks \<le> 16"

lemma ks_wf_production [simp]: "ks_wf production"
  by (simp add: ks_wf_def production_def recompute_def)

lemma production_widths [simp]:
  "HASH_BITS production = 256" "S2_BITS production = 8" "ID_BITS production = 264"
  "HEX_CHARS production = 66"
  by (simp_all add: production_def recompute_def ID_BITS_def HEX_CHARS_def)

lemma ks_wf_ID_BITS: "ks_wf ks \<Longrightarrow> 8 \<le> ID_BITS ks"
  by (simp add: ks_wf_def ID_BITS_def)

lemma MAX_ID_eq: "MAX_ID ks = 2 ^ ID_BITS ks - 1"
  by (simp add: MAX_ID_def push_bit_eq_mult)

lemma MAX_HASH_eq: "MAX_HASH ks = 2 ^ HASH_BITS ks - 1"
  by (simp add: MAX_HASH_def push_bit_eq_mult)

lemma MAX_HASH_mask: "MAX_HASH ks = mask (HASH_BITS ks)"
  by (simp add: MAX_HASH_eq mask_eq_exp_minus_1)

lemma and_MAX_HASH: "i AND MAX_HASH ks = i mod 2 ^ HASH_BITS ks"
  by (simp add: MAX_HASH_mask flip: take_bit_eq_mask take_bit_eq_mod)

lemma exp_ID_BITS_le: "(2::nat) ^ ID_BITS ks \<le> 16 ^ HEX_CHARS ks"
proof -
  have "ID_BITS ks \<le> 4 * HEX_CHARS ks" by (simp add: HEX_CHARS_def)
  then have "(2::nat) ^ ID_BITS ks \<le> 2 ^ (4 * HEX_CHARS ks)" by (rule power_increasing) simp
  also have "\<dots> = 16 ^ HEX_CHARS ks" by (simp add: power_mult)
  finally show ?thesis .
qed

section \<open>Round trips\<close>

lemma id_in_hex_range: "0 \<le> i \<Longrightarrow> i \<le> MAX_ID ks \<Longrightarrow> nat i < 16 ^ HEX_CHARS ks"
proof -
  assume "0 \<le> i" "i \<le> MAX_ID ks"
  then have "nat i < 2 ^ ID_BITS ks" by (simp add: MAX_ID_eq nat_less_iff)
  then show ?thesis using exp_ID_BITS_le [of ks] by linarith
qed

lemma pad_start_hex: "list_all is_hex_char s \<Longrightarrow> list_all is_hex_char (pad_start n (CHR ''0'') s)"
  by (auto simp: pad_start_def list_all_iff is_hex_char_def)

text \<open>Every id in range survives the wire: for a well-formed keyspace, \<open>toHex\<close> prints each id
  of \<open>[0, MAX_ID]\<close> at exactly \<open>HEX_CHARS\<close> characters and \<open>fromHex\<close> reads the same id back.\<close>

theorem toHex_fromHex:
  assumes "ks_wf ks" and "0 \<le> i" and "i \<le> MAX_ID ks"
  shows "\<exists>h. toHex ks (JBig i) = Inr h \<and> length h = HEX_CHARS ks \<and> fromHex ks (JStr h) = Inr i"
proof -
  let ?h = "pad_start (HEX_CHARS ks) (CHR ''0'') (hex_digits (nat i))"
  have pos: "0 < HEX_CHARS ks" using ks_wf_ID_BITS [OF assms(1)] by (simp add: HEX_CHARS_def)
  have len: "length ?h = HEX_CHARS ks"
    using length_hex_digits [OF pos id_in_hex_range [OF assms(2,3)]] by simp
  have "all_hex ?h"
    using hex_digits_hex [of "nat i"] pad_start_hex len pos by (auto simp: all_hex_def)
  with assms(2,3) len show ?thesis by (auto simp: toHex_def fromHex_def)
qed

theorem toHex_fromHex_witness:
  "\<exists>h. toHex production (JBig 255) = Inr h \<and> length h = HEX_CHARS production
     \<and> fromHex production (JStr h) = Inr 255"
  by (rule toHex_fromHex) (simp_all add: MAX_ID_eq)

text \<open>Reading a hex id and printing it gives the lower-case spelling of the same string,
  whenever the id width is a whole number of hex digits (264 in production): \<open>fromHex\<close> and
  \<open>toHex\<close> identify exactly the mixed-case spellings of one id.\<close>

theorem fromHex_toHex:
  assumes "4 dvd ID_BITS ks" and "fromHex ks (JStr h) = Inr i"
  shows "toHex ks (JBig i) = Inr (lc h)"
proof -
  from assms(2) have len: "length h = HEX_CHARS ks" and hx: "all_hex h" and i: "i = int (hex_val h)"
    by (auto simp: fromHex_def split: if_splits)
  have "hex_val h < 16 ^ HEX_CHARS ks" using hx len hex_val_less [of h] by (simp add: all_hex_def)
  also have "(16::nat) ^ HEX_CHARS ks = 2 ^ (4 * HEX_CHARS ks)" by (simp add: power_mult)
  also have "4 * HEX_CHARS ks = ID_BITS ks" using assms(1) by (auto simp: HEX_CHARS_def)
  finally have "int (hex_val h) \<le> MAX_ID ks" by (simp add: MAX_ID_eq)
  moreover have "pad_start (HEX_CHARS ks) (CHR ''0'') (hex_digits (hex_val h)) = lc h"
    using hx len pad_hex_digits_hex_val [of h] by (simp add: all_hex_def)
  ultimately show ?thesis using i by (simp add: toHex_def)
qed

theorem fromHex_toHex_witness:
  "toHex production (JBig (int (hex_val (replicate 66 (CHR ''A''))))) = Inr (lc (replicate 66 (CHR ''A'')))"
proof -
  have "fromHex production (JStr (replicate 66 (CHR ''A'')))
      = Inr (int (hex_val (replicate 66 (CHR ''A''))))"
    by (simp add: fromHex_def all_hex_def is_hex_char_def list_all_iff)
  then show ?thesis by (rule fromHex_toHex [rotated]) simp
qed

lemma or_shifted_add: "0 \<le> h \<Longrightarrow> h < 2 ^ n \<Longrightarrow> push_bit n p OR h = p * 2 ^ n + (h :: int)"
proof -
  assume h: "0 \<le> h" "h < 2 ^ n"
  have "push_bit n p AND take_bit n h = 0"
    by (rule bit_eqI) (auto simp: bit_simps)
  with h have "push_bit n p AND h = 0" by (simp add: take_bit_int_eq_self)
  then show ?thesis by (simp add: push_bit_eq_mult flip: disjunctive_add_eq_or)
qed

text \<open>An address is its region and its hash: \<open>assembleId\<close> of a region prefix and a hash in
  range succeeds with an id in \<open>[0, MAX_ID]\<close> from which \<open>extractS2Prefix\<close> and \<open>extractHash\<close>
  recover both components, for every keyspace profile.\<close>

theorem assembleId_extract:
  assumes "0 \<le> p" and "p \<le> MAX_S2 ks" and "0 \<le> h" and "h \<le> MAX_HASH ks"
  shows "\<exists>i. assembleId ks (jint p) (JBig h) = Inr i \<and> 0 \<le> i \<and> i \<le> MAX_ID ks
     \<and> extractS2Prefix ks (JBig i) = Inr p \<and> extractHash ks (JBig i) = Inr h"
proof -
  let ?n = "HASH_BITS ks"
  let ?i = "p * 2 ^ ?n + h"
  have h: "h < 2 ^ ?n" using assms(4) by (simp add: MAX_HASH_eq)
  have p: "p < 2 ^ S2_BITS ks" using assms(2) by (simp add: MAX_S2_def push_bit_eq_mult)
  have a: "assembleId ks (jint p) (JBig h) = Inr ?i"
    using assms h by (simp add: assembleId_def or_shifted_add)
  have "?i < (p + 1) * 2 ^ ?n" using h by (simp add: algebra_simps)
  also have "\<dots> \<le> 2 ^ S2_BITS ks * 2 ^ ?n" using p by (intro mult_right_mono) auto
  also have "\<dots> = 2 ^ ID_BITS ks" by (simp add: ID_BITS_def power_add)
  finally have "?i \<le> MAX_ID ks" by (simp add: MAX_ID_eq)
  moreover have "extractS2Prefix ks (JBig ?i) = Inr p"
    using assms(3) h by (simp add: extractS2Prefix_def drop_bit_eq_div)
  moreover have "extractHash ks (JBig ?i) = Inr h"
    using assms(3) h by (simp add: extractHash_def and_MAX_HASH)
  ultimately show ?thesis using a assms by auto
qed

theorem assembleId_extract_witness:
  "\<exists>i. assembleId production (jint 200) (JBig 12345) = Inr i \<and> 0 \<le> i \<and> i \<le> MAX_ID production
     \<and> extractS2Prefix production (JBig i) = Inr 200 \<and> extractHash production (JBig i) = Inr 12345"
  by (rule assembleId_extract) (simp_all add: MAX_S2_def MAX_HASH_eq push_bit_eq_mult)

section \<open>Leading zeros and strata\<close>

lemma bit_len_0 [simp]: "bit_len 0 = 0"
  by (simp add: bit_len.simps)

lemma bit_len_pos: "0 < n \<Longrightarrow> bit_len n = Suc (bit_len (n div 2))"
  by (simp add: bit_len.simps [of n])

lemma bit_len_bounds: "0 < n \<Longrightarrow> 2 ^ (bit_len n - 1) \<le> n \<and> n < 2 ^ bit_len n"
proof (induction n rule: bit_len.induct)
  case (1 n)
  then have len: "bit_len n = Suc (bit_len (n div 2))" by (simp add: bit_len_pos)
  show ?case
  proof (cases "n div 2 = 0")
    case True
    with len "1.prems" show ?thesis by simp
  next
    case False
    with 1 have IH: "2 ^ (bit_len (n div 2) - 1) \<le> n div 2" "n div 2 < 2 ^ bit_len (n div 2)" by auto
    from False have "bit_len (n div 2) = Suc (bit_len (n div 2) - 1)" by (simp add: bit_len_pos)
    then have "2 ^ bit_len (n div 2) = 2 * (2::nat) ^ (bit_len (n div 2) - 1)"
      by (metis power_Suc)
    moreover have "2 * (n div 2) \<le> n" "n < 2 * (n div 2) + 2" by arith+
    ultimately have "2 * 2 ^ (bit_len (n div 2) - 1) \<le> n" "n < 2 * 2 ^ bit_len (n div 2)"
      using IH by linarith+
    with len \<open>bit_len (n div 2) = Suc (bit_len (n div 2) - 1)\<close> show ?thesis
      by (metis diff_Suc_1 power_Suc)
  qed
qed

lemma bit_len_div: "n div 2 ^ k \<noteq> 0 \<Longrightarrow> bit_len n = k + bit_len (n div 2 ^ k)"
proof (induction k arbitrary: n)
  case (Suc k)
  have d: "n div 2 ^ Suc k = n div 2 div 2 ^ k" by (simp add: div_mult2_eq)
  with Suc.prems have "n div 2 div 2 ^ k \<noteq> 0" by simp
  then have "bit_len (n div 2) = k + bit_len (n div 2 div 2 ^ k)" by (rule Suc.IH)
  moreover have "0 < n" using Suc.prems by (cases n) auto
  ultimately show ?case using d by (simp add: bit_len_pos)
qed simp

lemma clz_loop_bit_len:
  "0 < n \<Longrightarrow> n < 2 ^ (32 * k) \<Longrightarrow> clz_loop idb n k = int idb - int (bit_len (nat n))"
proof (induction k)
  case (Suc i)
  let ?c = "n div 2 ^ (32 * i)"
  have lt: "?c < 2 ^ 32"
  proof -
    have "n < 2 ^ 32 * 2 ^ (32 * i)" using Suc.prems(2) by (simp add: power_add)
    then show ?thesis by (rule int_div_less [rotated]) simp
  qed
  have "drop_bit (i * 32) n AND 0xFFFFFFFF = take_bit 32 ?c"
    by (simp add: drop_bit_eq_div mult.commute take_bit_eq_mask mask_eq_exp_minus_1)
  also have "\<dots> = ?c"
    using lt Suc.prems(1) by (intro take_bit_int_eq_self) (simp_all add: pos_imp_zdiv_nonneg_iff)
  finally have chunk: "drop_bit (i * 32) n AND 0xFFFFFFFF = ?c" .
  show ?case
  proof (cases "?c = 0")
    case True
    then have "n < 2 ^ (32 * i)" using Suc.prems(1) by (simp add: zdiv_eq_0_iff)
    with True chunk Suc show ?thesis by simp
  next
    case False
    have nc: "nat ?c = nat n div 2 ^ (32 * i)"
      using Suc.prems(1) by (simp add: nat_div_distrib nat_power_eq)
    have "0 \<le> ?c" using Suc.prems(1) by (simp add: pos_imp_zdiv_nonneg_iff)
    with False have "nat n div 2 ^ (32 * i) \<noteq> 0" by (simp add: nc [symmetric])
    then have "bit_len (nat n) = 32 * i + bit_len (nat ?c)"
      unfolding nc by (rule bit_len_div)
    moreover have "?c mod 2 ^ 32 = ?c" using lt Suc.prems(1) by (simp add: pos_imp_zdiv_nonneg_iff)
    ultimately show ?thesis using False chunk by (simp add: clz32_def Let_def)
  qed
qed simp

text \<open>The chunked loop is the leading-zero count: for every non-zero id of the keyspace,
  \<open>clz264\<close> returns the \<open>c\<close> for which \<open>n\<close> lies in \<open>[2^(ID_BITS-1-c), 2^(ID_BITS-c))\<close>.\<close>

lemma clz264_correct:
  assumes "0 < n" and "n < 2 ^ ID_BITS ks"
  shows "\<exists>c. clz264 ks (JBig n) = Inr (int c) \<and> c < ID_BITS ks
     \<and> 2 ^ (ID_BITS ks - 1 - c) \<le> n \<and> n < 2 ^ (ID_BITS ks - c)"
proof -
  let ?L = "bit_len (nat n)"
  let ?k = "(ID_BITS ks + 31) div 32"
  have "ID_BITS ks \<le> 32 * ?k" by simp
  then have "(2::int) ^ ID_BITS ks \<le> 2 ^ (32 * ?k)" by (rule power_increasing) simp
  from clz_loop_bit_len [OF assms(1) order_less_le_trans [OF assms(2) this]]
  have loop: "clz_loop (ID_BITS ks) n ?k = int (ID_BITS ks) - int ?L" .
  have b: "2 ^ (?L - 1) \<le> nat n" "nat n < 2 ^ ?L"
    using bit_len_bounds [of "nat n"] assms(1) by auto
  have pos: "0 < ?L" using assms(1) by (simp add: bit_len_pos)
  have "nat n < 2 ^ ID_BITS ks" using assms by (simp add: nat_less_iff)
  with b(1) have "(2::nat) ^ (?L - 1) < 2 ^ ID_BITS ks" by linarith
  then have le: "?L \<le> ID_BITS ks" by simp
  have n1: "2 ^ (?L - 1) \<le> n" using b(1) assms(1) by (simp add: le_nat_iff)
  have n2: "n < 2 ^ ?L" using b(2) assms(1) by (simp add: nat_less_iff)
  let ?c = "ID_BITS ks - ?L"
  have e1: "ID_BITS ks - 1 - ?c = ?L - 1" and e2: "ID_BITS ks - ?c = ?L" using le pos by auto
  have "clz264 ks (JBig n) = Inr (int ?c)" using loop assms(1) le by (simp add: clz264_def)
  moreover have "?c < ID_BITS ks" using pos le by simp
  ultimately show ?thesis using n1 n2 e1 e2 by (intro exI [of _ ?c]) simp
qed

lemma xor_range:
  "0 \<le> a \<Longrightarrow> a < 2 ^ n \<Longrightarrow> 0 \<le> b \<Longrightarrow> b < 2 ^ n \<Longrightarrow> 0 \<le> a XOR b \<and> a XOR b < (2 ^ n :: int)"
  by (metis XOR_upper XOR_lower)

lemma top_bit: "2 ^ m \<le> (x::int) \<Longrightarrow> x < 2 ^ Suc m \<Longrightarrow> bit x m"
proof -
  assume x: "2 ^ m \<le> x" "x < 2 ^ Suc m"
  then have "x div 2 ^ m < 2" by (intro int_div_less) auto
  moreover have "1 \<le> x div 2 ^ m" using x(1) zdiv_mono1 [of "2 ^ m" x "2 ^ m"] by simp
  ultimately have "x div 2 ^ m = 1" by linarith
  then show "bit x m" by (simp add: bit_iff_odd)
qed

text \<open>A stratum is a shared prefix: for two distinct ids of the keyspace, \<open>stratumOf\<close> is the
  number \<open>s < ID_BITS\<close> of leading bits they share. The ids agree above bit \<open>ID_BITS - s\<close> and
  differ at bit \<open>ID_BITS - 1 - s\<close>.\<close>

theorem stratumOf_common_prefix:
  assumes "0 \<le> a" "a \<le> MAX_ID ks" "0 \<le> b" "b \<le> MAX_ID ks" "a \<noteq> b"
  shows "\<exists>s. stratumOf ks a b = int s \<and> s < ID_BITS ks
     \<and> drop_bit (ID_BITS ks - s) a = drop_bit (ID_BITS ks - s) b
     \<and> bit a (ID_BITS ks - 1 - s) \<noteq> bit b (ID_BITS ks - 1 - s)"
proof -
  let ?x = "a XOR b"
  have "0 \<le> ?x \<and> ?x < 2 ^ ID_BITS ks" using assms by (intro xor_range) (auto simp: MAX_ID_eq)
  moreover have "?x \<noteq> 0" using assms(5) by (metis xor_self_eq xor.assoc xor.right_neutral)
  ultimately have x: "0 < ?x" "?x < 2 ^ ID_BITS ks" by linarith+
  from clz264_correct [OF x] obtain c where c: "clz264 ks (JBig ?x) = Inr (int c)" "c < ID_BITS ks"
    and lo: "2 ^ (ID_BITS ks - 1 - c) \<le> ?x" and hi: "?x < 2 ^ (ID_BITS ks - c)" by blast
  have "drop_bit (ID_BITS ks - c) ?x = 0" 
    using div_pos_pos_trivial [OF order_less_imp_le [OF x(1)] hi] by (simp add: drop_bit_eq_div)
  then have pre: "drop_bit (ID_BITS ks - c) a = drop_bit (ID_BITS ks - c) b"
    by (metis drop_bit_xor xor_self_eq xor.assoc xor.right_neutral)
  have "ID_BITS ks - c = Suc (ID_BITS ks - 1 - c)" using c(2) by simp
  with lo hi have "bit ?x (ID_BITS ks - 1 - c)" by (intro top_bit) auto
  then have "bit a (ID_BITS ks - 1 - c) \<noteq> bit b (ID_BITS ks - 1 - c)" by (simp add: bit_xor_iff)
  with c pre show ?thesis by (intro exI [of _ c]) (simp add: stratumOf_def)
qed

theorem stratumOf_common_prefix_witness:
  "\<exists>s. stratumOf production 6 9 = int s \<and> s < ID_BITS production
     \<and> drop_bit (ID_BITS production - s) (6::int) = drop_bit (ID_BITS production - s) 9
     \<and> bit (6::int) (ID_BITS production - 1 - s) \<noteq> bit (9::int) (ID_BITS production - 1 - s)"
  by (rule stratumOf_common_prefix) (simp_all add: MAX_ID_eq)

section \<open>The distance contract\<close>

text \<open>What routing and root election rely on: a metric in which every target has exactly one
  closest member of a finite set.\<close>

locale id_metric =
  fixes dist :: "'a \<Rightarrow> 'a \<Rightarrow> int"
    and valid :: "'a \<Rightarrow> bool"
  assumes dist_nonneg: "valid a \<Longrightarrow> valid b \<Longrightarrow> 0 \<le> dist a b"
    and dist_zero: "dist a b = 0 \<longleftrightarrow> a = b"
    and dist_sym: "dist a b = dist b a"
    and dist_triangle: "valid a \<Longrightarrow> valid b \<Longrightarrow> valid c \<Longrightarrow> dist a c \<le> dist a b + dist b c"
    and dist_unidirectional: "dist a t = dist b t \<Longrightarrow> a = b"
begin

lemma dist_inj: "inj (\<lambda>a. dist a t)"
  by (rule injI) (rule dist_unidirectional)

lemma closest_exists:
  "finite S \<Longrightarrow> S \<noteq> {} \<Longrightarrow> \<exists>a\<in>S. \<forall>b\<in>S. b \<noteq> a \<longrightarrow> dist a t < dist b t"
proof -
  assume S: "finite S" "S \<noteq> {}"
  define a where "a = arg_min_on (\<lambda>b. dist b t) S"
  from S have a: "a \<in> S" unfolding a_def by (rule arg_min_if_finite)
  have "dist a t < dist b t" if "b \<in> S" "b \<noteq> a" for b
    using arg_min_if_finite(2) [OF S, of "\<lambda>b. dist b t"] that dist_unidirectional [of a t b]
    by (fastforce simp: a_def)
  with a show ?thesis by blast
qed

lemma closest_unique:
  "\<exists>!a. a \<in> S \<and> (\<forall>b\<in>S. dist a t \<le> dist b t)" if "finite S" "S \<noteq> {}"
  using closest_exists [OF that, of t] dist_unidirectional
  by (metis linorder_not_less order_less_imp_le order_refl)

end

lemma xor_cancel: "(a XOR b) XOR (b XOR c) = (a XOR c :: int)"
  by (simp add: xor.assoc flip: xor.assoc [of b b c])

lemma xor_le_add: "0 \<le> (x::int) \<Longrightarrow> 0 \<le> y \<Longrightarrow> x XOR y \<le> x + y"
proof -
  assume xy: "0 \<le> x" "0 \<le> y"
  have "(x XOR y) + (x AND y) = (x XOR y) OR (x AND y)"
    by (rule disjunctive_add_eq_or) (auto simp: bit_eq_iff bit_simps)
  also have "\<dots> = x OR y" by (auto simp: bit_eq_iff bit_simps)
  finally have "(x XOR y) + (x AND y) = x OR y" .
  moreover have "0 \<le> x AND y" using xy by simp
  ultimately show ?thesis using plus_and_or [of x y] by linarith
qed

interpretation xd: id_metric xorDistance "\<lambda>i. 0 \<le> i"
proof
  fix a b c t :: int
  show "0 \<le> a \<Longrightarrow> 0 \<le> b \<Longrightarrow> 0 \<le> xorDistance a b" by (simp add: xorDistance_def)
  show "xorDistance a b = 0 \<longleftrightarrow> a = b"
    unfolding xorDistance_def by (metis xor_self_eq xor.assoc xor.left_neutral xor.right_neutral)
  show "xorDistance a b = xorDistance b a" by (simp add: xorDistance_def xor.commute)
  show "0 \<le> a \<Longrightarrow> 0 \<le> b \<Longrightarrow> 0 \<le> c \<Longrightarrow> xorDistance a c \<le> xorDistance a b + xorDistance b c"
    using xor_le_add [of "a XOR b" "b XOR c"] by (simp add: xorDistance_def xor_cancel)
  show "xorDistance a t = xorDistance b t \<Longrightarrow> a = b"
    unfolding xorDistance_def by (metis xor_self_eq xor.assoc xor.right_neutral)
qed

text \<open>XOR is a metric on ids, and every target has exactly one closest member of a finite
  non-empty set of ids: the "XOR-closest node" that roots a topic is well defined.\<close>

theorem xorDistance_metric:
  "(xorDistance a b = 0 \<longleftrightarrow> a = b) \<and> xorDistance a b = xorDistance b a
   \<and> (0 \<le> a \<and> 0 \<le> b \<and> 0 \<le> c \<longrightarrow> xorDistance a c \<le> xorDistance a b + xorDistance b c)
   \<and> (finite S \<and> S \<noteq> {} \<longrightarrow> (\<exists>!n. n \<in> S \<and> (\<forall>m\<in>S. xorDistance n t \<le> xorDistance m t)))"
  by (intro conjI impI xd.dist_zero xd.dist_sym xd.dist_triangle xd.closest_unique) auto

theorem xorDistance_metric_witness:
  "xorDistance 5 6 \<le> xorDistance 5 9 + xorDistance 9 6
   \<and> (\<exists>!n. n \<in> {5, 6, 9} \<and> (\<forall>m\<in>{5, 6, 9}. xorDistance n 8 \<le> xorDistance m 8))"
  using xorDistance_metric [of 5 9 6 "{5, 6, 9}" 8] by simp

section \<open>Regions and profiles\<close>

text \<open>The cheap region read is the real one: where the region is one byte and the hash is a
  whole number of hex digits (the production layout), \<open>s2PrefixOfHex\<close>, which reads the first two
  characters, agrees with \<open>extractS2Prefix\<close> of the decoded id on every valid hex id.\<close>

theorem s2PrefixOfHex_extract:
  assumes "S2_BITS ks = 8" and "4 dvd HASH_BITS ks" and "fromHex ks (JStr h) = Inr i"
  shows "s2PrefixOfHex ks (JStr h) = extractS2Prefix ks (JBig i)"
proof -
  from assms(3) have len: "length h = HEX_CHARS ks" and hx: "all_hex h" and i: "i = int (hex_val h)"
    by (auto simp: fromHex_def split: if_splits)
  from assms(1,2) obtain m where m: "HASH_BITS ks = 4 * m" "length h = Suc (Suc m)"
    using len by (auto simp: HEX_CHARS_def ID_BITS_def)
  have "hex_val (drop 2 h) < 16 ^ m"
    using hex_val_less [of "drop 2 h"] hx m by (auto simp: all_hex_def list_all_iff dest: in_set_dropD)
  moreover have "hex_val h = hex_val (take 2 h) * 16 ^ m + hex_val (drop 2 h)"
    using hex_val_append [of "take 2 h" "drop 2 h"] m by simp
  ultimately have "hex_val h div 16 ^ m = hex_val (take 2 h)" by simp
  moreover have "(16::int) ^ m = 2 ^ HASH_BITS ks" by (simp add: m power_mult)
  ultimately have "int (hex_val h) div 2 ^ HASH_BITS ks = int (hex_val (take 2 h))"
    by (metis of_nat_numeral of_nat_power zdiv_int)
  then show ?thesis
    using len hx i by (simp add: s2PrefixOfHex_def isHexId_def extractS2Prefix_def drop_bit_eq_div)
qed

theorem s2PrefixOfHex_extract_witness:
  "s2PrefixOfHex production (JStr (replicate 66 (CHR ''7'')))
     = extractS2Prefix production (JBig (int (hex_val (replicate 66 (CHR ''7'')))))"
  by (rule s2PrefixOfHex_extract)
    (simp_all add: fromHex_def all_hex_def is_hex_char_def list_all_iff)

lemma set_hashBits_step:
  "set_hashBits v ks = (e, k) \<Longrightarrow> HASH_BITS k = HASH_BITS ks \<and> S2_BITS k = S2_BITS ks
     \<and> (ks_wf ks \<longrightarrow> ks_wf k) \<and> (e = None \<and> num_is_integer v \<longrightarrow> int (raw_hashBits k) = num_int v)"
  by (cases v; cases "num_is_integer v")
    (auto simp: set_hashBits_def ks_wf_def simp del: num_int.simps split: if_splits)

lemma set_regionBits_step:
  "set_regionBits v ks = (e, k) \<Longrightarrow> HASH_BITS k = HASH_BITS ks \<and> S2_BITS k = S2_BITS ks
     \<and> (ks_wf ks \<longrightarrow> ks_wf k) \<and> raw_hashBits k = raw_hashBits ks"
  by (cases v; cases "num_is_integer v")
    (auto simp: set_regionBits_def ks_wf_def simp del: num_int.simps split: if_splits)

lemma recompute_wf: "ks_wf ks \<Longrightarrow> ks_wf ((recompute ks)\<lparr>configured := b\<rparr>)"
  by (simp add: ks_wf_def recompute_def)

text \<open>\<open>configureKeyspace\<close> keeps every width in its documented range; when it returns, the
  exported widths are the requested ones, and when it throws, no exported width has changed.\<close>

theorem configureKeyspace_wf:
  assumes "ks_wf ks" and "configureKeyspace hb rb ks = (e, ks')"
  shows "ks_wf ks'
    \<and> (e = None \<longrightarrow> HASH_BITS ks' = raw_hashBits ks' \<and> S2_BITS ks' = raw_regionBits ks'
         \<and> (num_is_integer hb \<longrightarrow> int (HASH_BITS ks') = num_int hb) \<and> configured ks')
    \<and> (e \<noteq> None \<longrightarrow> HASH_BITS ks' = HASH_BITS ks \<and> S2_BITS ks' = S2_BITS ks)"
proof -
  obtain e1 k1 where h: "set_hashBits hb ks = (e1, k1)" by fastforce
  obtain e2 k2 where r: "set_regionBits rb k1 = (e2, k2)" by fastforce
  note steps = set_hashBits_step [OF h] set_regionBits_step [OF r]
  show ?thesis
  proof (cases "e1 = None \<and> e2 = None")
    case True
    with assms(2) h r have "e = None" "ks' = (recompute k2)\<lparr>configured := True\<rparr>"
      by (auto simp: configureKeyspace_def)
    then show ?thesis
      using steps assms(1) True recompute_wf [of k2 True] by (auto simp: recompute_def)
  next
    case False
    then show ?thesis using steps assms h r by (auto simp: configureKeyspace_def split: option.splits)
  qed
qed

theorem configureKeyspace_wf_witness:
  "ks_wf (snd (configureKeyspace (jint 64) Undefined production))
   \<and> int (HASH_BITS (snd (configureKeyspace (jint 64) Undefined production))) = 64"
proof -
  obtain e ks' where eq: "configureKeyspace (jint 64) Undefined production = (e, ks')" by fastforce
  then have "e = None"
    by (simp add: configureKeyspace_def set_hashBits_def set_regionBits_def)
  with configureKeyspace_wf [OF ks_wf_production eq] eq show ?thesis by simp
qed

text \<open>Half-applied configuration: a call whose \<open>regionBits\<close> is rejected has already stored its
  \<open>hashBits\<close>, and the next successful call, which names no width at all, applies it: the width of
  a call that threw becomes the keyspace's.\<close>

theorem configureKeyspace_half_applied:
  "configureKeyspace (jint 64) (jint 99) production = (Some RangeError, production\<lparr>raw_hashBits := 64\<rparr>)
   \<and> HASH_BITS (snd (configureKeyspace Undefined Undefined
        (snd (configureKeyspace (jint 64) (jint 99) production)))) = 64"
  by (simp add: configureKeyspace_def set_hashBits_def set_regionBits_def recompute_def)

end
