(* ===== verification/Canonical.thy ===== *)
theory Canonical
  imports HexId "HOL-Library.Char_ord" "HOL-Library.List_Lexorder"
begin

text \<open>
  The canonical encoding and the topic mint: \<open>canonical\<close>, \<open>resolveTopic\<close> and \<open>deriveTopicId\<close>
  of \<open>src/src/pubsub/post.js\<close>. Every signature and every content address of the protocol is
  taken over \<open>canonical(value)\<close>, so what the encoding identifies is what a signature covers:
  the theory proves that two JSON values have the same canonical encoding exactly when they
  have the same normal form (keys sorted, \<open>undefined\<close> fields dropped, non-finite numbers
  \<open>null\<close>). Parameters: \<open>ns\<close>, the decimal spelling of a finite number (ECMAScript
  Number::toString), \<open>sha\<close>, SHA-256 in hex, and \<open>rgn\<close>, the region-name table of
  \<open>region-names.js\<close>.
\<close>

section \<open>JSON.stringify on strings\<close>

definition esc :: "char \<Rightarrow> string" where
  "esc c = (let k = (of_char c :: nat) in
     if k = 34 then [CHR 0x5C, CHR 0x22]
     else if k = 92 then [CHR 0x5C, CHR 0x5C]
     else if k = 8 then [CHR 0x5C, CHR ''b'']
     else if k = 9 then [CHR 0x5C, CHR ''t'']
     else if k = 10 then [CHR 0x5C, CHR ''n'']
     else if k = 12 then [CHR 0x5C, CHR ''f'']
     else if k = 13 then [CHR 0x5C, CHR ''r'']
     else if k < 32 then [CHR 0x5C, CHR ''u'', CHR ''0'', CHR ''0'', hexd (k div 16), hexd (k mod 16)]
     else [c])"

definition json_str :: "string \<Rightarrow> string" where
  "json_str s = CHR 0x22 # concat (map esc s) @ [CHR 0x22]"

fun join :: "string list \<Rightarrow> string" where
  "join [] = []"
| "join [x] = x"
| "join (x # y # xs) = x @ CHR '','' # join (y # xs)"

section \<open>canonical\<close>

text \<open>JSON.stringify throws a TypeError on a BigInt anywhere in the value; \<open>None\<close> below.\<close>

fun has_big :: "js \<Rightarrow> bool" where
  "has_big (JBig _) = True"
| "has_big (JArr xs) = list_ex has_big xs"
| "has_big (JObj fs) = list_ex (\<lambda>(k, v). has_big v) fs"
| "has_big _ = False"

fun canonical_str :: "(rat \<Rightarrow> string) \<Rightarrow> js \<Rightarrow> string" where
  "canonical_str ns Undefined = ''null''"
| "canonical_str ns Null = ''null''"
| "canonical_str ns (JBool b) = (if b then ''true'' else ''false'')"
| "canonical_str ns (JNum (Fin r)) = ns r"
| "canonical_str ns (JNum _) = ''null''"
| "canonical_str ns (JBig _) = []"
| "canonical_str ns (JStr s) = json_str s"
| "canonical_str ns (JArr xs) = CHR ''['' # join (map (canonical_str ns) xs) @ '']''"
| "canonical_str ns (JObj fs) = CHR ''{'' # join
     (map (\<lambda>(k, v, c). json_str k @ CHR '':'' # c)
        (filter (\<lambda>(k, v, c). v \<noteq> Undefined)
           (sort_key fst (map (\<lambda>(k, v). (k, v, canonical_str ns v)) fs)))) @ ''}''"

definition canonical :: "(rat \<Rightarrow> string) \<Rightarrow> js \<Rightarrow> string option" where
  "canonical ns v = (if has_big v then None else Some (canonical_str ns v))"

section \<open>resolveTopic\<close>

datatype topic_error = TopicTypeError | OwnerRangeError | WriteRangeError | UnknownRegion
  | InvalidSelfRegion | RegionRequired | SystemRegion

record topic =
  t_region :: nat
  t_owner :: "string option"
  t_name :: string
  t_write :: string
  topicId :: string

definition BRIDGE_DIRECTORY_TOPIC :: string where
  "BRIDGE_DIRECTORY_TOPIC = ''axona:bridge-directory''"

definition AUTHOR_HEX_CHARS :: "keyspace \<Rightarrow> nat" where
  "AUTHOR_HEX_CHARS ks = (HASH_BITS ks + 3) div 4"

definition owner_ok :: "keyspace \<Rightarrow> string \<Rightarrow> bool" where
  "owner_ok ks ow \<longleftrightarrow> length ow = AUTHOR_HEX_CHARS ks \<and> list_all is_lower_hex_char ow"

definition topic_core :: "string option \<Rightarrow> string \<Rightarrow> string \<Rightarrow> js" where
  "topic_core owner name w = JObj [(''owner'', case owner of None \<Rightarrow> Null | Some x \<Rightarrow> JStr x),
     (''name'', JStr name), (''write'', JStr w)]"

text \<open>The write policy: no owner means open; an owner means owner-only unless told otherwise.\<close>

definition write_policy :: "string option \<Rightarrow> string option \<Rightarrow> topic_error + string" where
  "write_policy owner wr = (case owner of None \<Rightarrow> Inr ''open''
     | Some _ \<Rightarrow> (let w = (case wr of None \<Rightarrow> ''owner'' | Some w \<Rightarrow> w) in
         if w \<noteq> ''open'' \<and> w \<noteq> ''owner'' then Inl WriteRangeError else Inr w))"

definition region_code ::
  "('r \<Rightarrow> nat option) \<Rightarrow> 'r option \<Rightarrow> 'r option \<Rightarrow> topic_error + nat" where
  "region_code rgn region selfRegion = (case region of
      Some r \<Rightarrow> (case rgn r of None \<Rightarrow> Inl UnknownRegion | Some c \<Rightarrow> Inr c)
    | None \<Rightarrow> (case selfRegion of
        Some r \<Rightarrow> (case rgn r of None \<Rightarrow> Inl InvalidSelfRegion | Some c \<Rightarrow> Inr c)
      | None \<Rightarrow> Inl RegionRequired))"

definition isSystemRegion :: "nat \<Rightarrow> bool" where
  "isSystemRegion code \<longleftrightarrow> code = 0xFF"

definition resolveTopic ::
  "keyspace \<Rightarrow> (rat \<Rightarrow> string) \<Rightarrow> (string \<Rightarrow> string) \<Rightarrow> ('r \<Rightarrow> nat option)
   \<Rightarrow> 'r option \<Rightarrow> string option \<Rightarrow> js \<Rightarrow> string option \<Rightarrow> 'r option \<Rightarrow> topic_error + topic" where
  "resolveTopic ks ns sha rgn region owner name wr selfRegion = (case name of
      JStr nm \<Rightarrow>
        if nm = [] then Inl TopicTypeError
        else (let ownerLc = map_option lc owner in
          if (case ownerLc of None \<Rightarrow> False | Some x \<Rightarrow> \<not> owner_ok ks x) then Inl OwnerRangeError
          else (case write_policy ownerLc wr of
              Inl e \<Rightarrow> Inl e
            | Inr w \<Rightarrow> (case region_code rgn region selfRegion of
                Inl e \<Rightarrow> Inl e
              | Inr code \<Rightarrow>
                  if isSystemRegion code \<and> (nm \<noteq> BRIDGE_DIRECTORY_TOPIC \<or> ownerLc \<noteq> None)
                  then Inl SystemRegion
                  else (let prefix = pad_start 2 (CHR ''0'') (hex_digits code);
                            hash256 = sha (canonical_str ns (topic_core ownerLc nm w))
                        in Inr \<lparr>t_region = code, t_owner = ownerLc, t_name = nm, t_write = w,
                                topicId = prefix @ take (HEX_CHARS ks - 2) hash256\<rparr>))))
    | _ \<Rightarrow> Inl TopicTypeError)"

definition deriveTopicId ::
  "keyspace \<Rightarrow> (rat \<Rightarrow> string) \<Rightarrow> (string \<Rightarrow> string) \<Rightarrow> ('r \<Rightarrow> nat option)
   \<Rightarrow> 'r option \<Rightarrow> string option \<Rightarrow> js \<Rightarrow> string option \<Rightarrow> 'r option \<Rightarrow> topic_error + string" where
  "deriveTopicId ks ns sha rgn region owner name wr selfRegion =
     map_sum id topicId (resolveTopic ks ns sha rgn region owner name wr selfRegion)"

section \<open>Normal forms\<close>

text \<open>What \<open>canonical\<close> forgets, made explicit: \<open>jnorm\<close> sorts keys, drops \<open>undefined\<close> fields and
  turns \<open>undefined\<close> elements and non-finite numbers into \<open>null\<close>; \<open>render\<close> prints a value as it
  stands.\<close>

fun jnorm :: "js \<Rightarrow> js" where
  "jnorm Undefined = Null"
| "jnorm (JNum (Fin r)) = JNum (Fin r)"
| "jnorm (JNum _) = Null"
| "jnorm (JArr xs) = JArr (map jnorm xs)"
| "jnorm (JObj fs) = JObj (map (\<lambda>(k, v, n). (k, n))
     (filter (\<lambda>(k, v, n). v \<noteq> Undefined) (sort_key fst (map (\<lambda>(k, v). (k, v, jnorm v)) fs))))"
| "jnorm v = v"

fun render :: "(rat \<Rightarrow> string) \<Rightarrow> js \<Rightarrow> string" where
  "render ns (JBool b) = (if b then ''true'' else ''false'')"
| "render ns (JNum (Fin r)) = ns r"
| "render ns (JStr s) = json_str s"
| "render ns (JArr xs) = CHR ''['' # join (map (render ns) xs) @ '']''"
| "render ns (JObj fs) = CHR ''{'' # join (map (\<lambda>(k, v). json_str k @ CHR '':'' # render ns v) fs) @ ''}''"
| "render ns _ = ''null''"

fun normal :: "js \<Rightarrow> bool" where
  "normal Null = True"
| "normal (JBool _) = True"
| "normal (JNum (Fin _)) = True"
| "normal (JStr _) = True"
| "normal (JArr xs) = list_all normal xs"
| "normal (JObj fs) = list_all (\<lambda>(k, v). normal v) fs"
| "normal _ = False"

lemma sort_key_map_fst:
  "sort_key fst (map (\<lambda>(k, v). (k, g k v)) fs) = map (\<lambda>(k, v). (k, g k v)) (sort_key fst fs)"
proof -
  have *: "insort_key fst (k, g k v) (map (\<lambda>(k, v). (k, g k v)) xs)
      = map (\<lambda>(k, v). (k, g k v)) (insort_key fst (k, v) xs)" for k v xs
    by (induction xs) auto
  show ?thesis by (induction fs) (auto simp: *)
qed

lemma canonical_fields:
  "map h (filter (\<lambda>(k, v, c). v \<noteq> Undefined) (sort_key fst (map (\<lambda>(k, v). (k, v, f v)) fs)))
   = map (\<lambda>(k, v). h (k, v, f v)) (filter (\<lambda>(k, v). v \<noteq> Undefined) (sort_key fst fs))"
proof -
  have "map h (filter (\<lambda>(k, v, c). v \<noteq> Undefined) (map (\<lambda>(k, v). (k, v, f v)) gs))
      = map (\<lambda>(k, v). h (k, v, f v)) (filter (\<lambda>(k, v). v \<noteq> Undefined) gs)" for gs
    by (induction gs) auto
  then show ?thesis using sort_key_map_fst [of "\<lambda>k v. (v, f v)" fs] by simp
qed

lemma canonical_str_render: "\<not> has_big v \<Longrightarrow> canonical_str ns v = render ns (jnorm v)"
proof (induction v rule: jnorm.induct)
  case (4 xs)
  then have "map (canonical_str ns) xs = map (render ns \<circ> jnorm) xs"
    by (auto simp: list_ex_iff)
  then show ?case by (simp only: canonical_str.simps jnorm.simps render.simps map_map)
next
  case (5 fs)
  have "json_str k @ CHR '':'' # canonical_str ns v = json_str k @ CHR '':'' # render ns (jnorm v)"
    if "(k, v) \<in> set (filter (\<lambda>(k, v). v \<noteq> Undefined) (sort_key fst fs))" for k v
    using that 5 by (force simp: list_ex_iff)
  then show ?case
    unfolding canonical_str.simps jnorm.simps render.simps map_map canonical_fields
    by (auto intro!: arg_cong [where f = join])
qed simp_all

lemma normal_jnorm: "\<not> has_big v \<Longrightarrow> normal (jnorm v)"
proof (induction v rule: jnorm.induct)
  case (4 xs)
  then show ?case by (auto simp: list_all_iff list_ex_iff)
next
  case (5 fs)
  then show ?case by (force simp: list_all_iff list_ex_iff canonical_fields)
qed simp_all

section \<open>Unique decoding\<close>

text \<open>The escape code is prefix-free, and no escaped character starts with a double quote.\<close>

lemma esc_cases:
  obtains (plain) "esc c = [c]" "c \<noteq> CHR 0x22" "c \<noteq> CHR 0x5C"
  | (short) x where "esc c = [CHR 0x5C, x]" "x \<noteq> CHR ''u''"
      "(x, c) \<in> {(CHR 0x22, CHR 0x22), (CHR 0x5C, CHR 0x5C), (CHR ''b'', CHR 0x08),
         (CHR ''t'', CHR 0x09), (CHR ''n'', CHR 0x0A), (CHR ''f'', CHR 0x0C), (CHR ''r'', CHR 0x0D)}"
  | (hex) "esc c = [CHR 0x5C, CHR ''u'', CHR ''0'', CHR ''0'', hexd (of_char c div 16), hexd (of_char c mod 16)]"
      "(of_char c :: nat) < 32"
proof -
  let ?k = "of_char c :: nat"
  consider "?k \<in> {34, 92, 8, 9, 10, 12, 13}" | "?k < 32" "?k \<notin> {34, 92, 8, 9, 10, 12, 13}"
    | "32 \<le> ?k" "?k \<notin> {34, 92}" by fastforce
  then show thesis
  proof cases
    case 1
    then have "?k \<in> of_char ` {CHR 0x22, CHR 0x5C, CHR 0x08, CHR 0x09, CHR 0x0A, CHR 0x0C, CHR 0x0D}"
      by simp
    then have "c \<in> {CHR 0x22, CHR 0x5C, CHR 0x08, CHR 0x09, CHR 0x0A, CHR 0x0C, CHR 0x0D}"
      by (auto dest!: of_char_eq_iff [THEN iffD1] simp only: image_iff)
    then show ?thesis
      by (elim insertE emptyE) (rule short, simp add: esc_def, simp, simp)+
  next
    case 2
    then show ?thesis by (intro hex) (auto simp: esc_def Let_def)
  next
    case 3
    then show ?thesis by (intro plain) (auto simp: esc_def Let_def)
  qed
qed

lemma hexd_inj: "m < 16 \<Longrightarrow> n < 16 \<Longrightarrow> hexd m = hexd n \<Longrightarrow> m = n"
  by (metis hexv_hexd)

lemma hex_pair_inj:
  assumes "(of_char c :: nat) < 32" and "(of_char d :: nat) < 32"
    and "hexd (of_char c div 16) = hexd (of_char d div 16)"
    and "hexd (of_char c mod 16) = hexd (of_char d mod 16)"
  shows "c = d"
proof -
  have "(of_char c :: nat) div 16 = of_char d div 16" "(of_char c :: nat) mod 16 = of_char d mod 16"
    using assms by (auto intro!: hexd_inj)
  then have "(of_char c :: nat) = of_char d" by (metis div_mult_mod_eq)
  then show ?thesis by simp
qed

lemma esc_prefix: "esc c @ x = esc d @ y \<Longrightarrow> c = d \<and> x = y"
  by (cases c rule: esc_cases; cases d rule: esc_cases) (auto dest: hex_pair_inj)

lemma esc_no_quote: "esc c @ x \<noteq> CHR 0x22 # y"
  by (cases c rule: esc_cases) auto

lemma json_str_prefix: "json_str s @ r = json_str t @ u \<Longrightarrow> s = t \<and> r = u"
proof -
  have "concat (map esc s) @ CHR 0x22 # r = concat (map esc t) @ CHR 0x22 # u \<Longrightarrow> s = t \<and> r = u"
  proof (induction s arbitrary: t)
    case Nil
    then show ?case using esc_no_quote [symmetric] by (cases t) auto
  next
    case (Cons c s)
    then obtain d t' where t: "t = d # t'" using esc_no_quote by (cases t) auto
    with Cons.prems have "esc c @ concat (map esc s) @ CHR 0x22 # r
        = esc d @ concat (map esc t') @ CHR 0x22 # u" by simp
    from esc_prefix [OF this] Cons.IH t show ?case by simp
  qed
  then show "json_str s @ r = json_str t @ u \<Longrightarrow> s = t \<and> r = u" by (simp add: json_str_def)
qed

definition delim :: "string \<Rightarrow> bool" where
  "delim r \<longleftrightarrow> r = [] \<or> hd r \<in> {CHR '','', CHR '']'', CHR ''}''}"

lemma delim_simps [simp]:
  "delim []" "delim (CHR '','' # r)" "delim (CHR '']'' # r)" "delim (CHR ''}'' # r)"
  by (simp_all add: delim_def)

text \<open>Encoders that can be read back in front of a delimiter, and lists of them.\<close>

definition reads :: "('a \<Rightarrow> string) \<Rightarrow> ('a \<Rightarrow> bool) \<Rightarrow> 'a \<Rightarrow> bool" where
  "reads f Y x \<longleftrightarrow> (\<forall>y r s. Y y \<and> delim r \<and> delim s \<and> f x @ r = f y @ s \<longrightarrow> x = y \<and> r = s)"

lemma readsD: "reads f Y x \<Longrightarrow> f x @ r = f y @ s \<Longrightarrow> Y y \<Longrightarrow> delim r \<Longrightarrow> delim s \<Longrightarrow> x = y \<and> r = s"
  by (auto simp: reads_def)

fun rest :: "('a \<Rightarrow> string) \<Rightarrow> char \<Rightarrow> 'a list \<Rightarrow> string" where
  "rest f z [] = [z]"
| "rest f z (y # ys) = CHR '','' # f y @ rest f z ys"

lemma join_rest: "join (map f (x # xs)) @ z # r = f x @ rest f z xs @ r"
  by (induction xs arbitrary: x) auto

lemma delim_rest: "z \<in> {CHR '']'', CHR ''}''} \<Longrightarrow> delim (rest f z xs @ r)"
  by (cases xs) auto

lemma rest_inj:
  assumes z: "z \<in> {CHR '']'', CHR ''}''}"
  shows "\<forall>x\<in>set xs. reads f Y x \<Longrightarrow> list_all Y ys \<Longrightarrow> rest f z xs @ r = rest f z ys @ s
    \<Longrightarrow> xs = ys \<and> r = s"
proof (induction xs arbitrary: ys)
  case Nil
  then show ?case using z by (cases ys) auto
next
  case (Cons x xs)
  then obtain y ys' where ys: "ys = y # ys'" using z by (cases ys) auto
  with Cons.prems have "f x @ rest f z xs @ r = f y @ rest f z ys' @ s" by simp
  then have "x = y \<and> rest f z xs @ r = rest f z ys' @ s"
    using Cons.prems ys delim_rest [OF z] by (intro readsD [of f Y]) auto
  with Cons.IH [of ys'] Cons.prems ys show ?case by simp
qed

lemma join_inj:
  assumes z: "z \<in> {CHR '']'', CHR ''}''}"
    and xs: "\<forall>x\<in>set xs. reads f Y x" and ys: "list_all Y ys"
    and nz: "\<forall>x\<in>set xs \<union> set ys. f x \<noteq> [] \<and> hd (f x) \<noteq> z"
    and eq: "join (map f xs) @ z # r = join (map f ys) @ z # s"
  shows "xs = ys \<and> r = s"
proof (cases xs; cases ys)
  fix x xs' y ys' assume c: "xs = x # xs'" "ys = y # ys'"
  have "f x @ rest f z xs' @ r = f y @ rest f z ys' @ s"
    using eq unfolding c join_rest .
  then have "x = y \<and> rest f z xs' @ r = rest f z ys' @ s"
    using xs ys c delim_rest [OF z] by (intro readsD [of f Y]) auto
  with rest_inj [OF z, of xs' f Y ys' r s] xs ys c show ?thesis by simp
next
  fix y ys' assume c: "xs = []" "ys = y # ys'"
  with eq have "z # r = f y @ rest f z ys' @ s" unfolding c join_rest by simp
  with nz c show ?thesis by (cases "f y") auto
next
  fix x xs' assume c: "xs = x # xs'" "ys = []"
  with eq have "z # s = f x @ rest f z xs' @ r" unfolding c join_rest by simp
  with nz c show ?thesis by (cases "f x") auto
qed (use eq in auto)

text \<open>What the encoding relies on from Number::toString: distinct finite numbers have distinct,
  non-empty spellings over digits, sign, point and exponent.\<close>

definition num_chars :: "char set" where
  "num_chars = set ''0123456789+-.e''"

definition num_printer :: "(rat \<Rightarrow> string) \<Rightarrow> bool" where
  "num_printer ns \<longleftrightarrow> inj ns \<and> (\<forall>r. ns r \<noteq> [] \<and> set (ns r) \<subseteq> num_chars)"

lemma num_printer_hd: "num_printer ns \<Longrightarrow> ns q \<noteq> [] \<and> hd (ns q) \<in> num_chars"
  by (metis num_printer_def hd_in_set subsetD)

lemma num_printer_reads:
  assumes "num_printer ns" and "ns p @ r = ns q @ s" and "delim r" and "delim s"
  shows "p = q \<and> r = s"
proof -
  have tw: "takeWhile (\<lambda>c. c \<in> num_chars) (ns q @ t) = ns q" if "delim t" for q t
  proof -
    have "takeWhile (\<lambda>c. c \<in> num_chars) t = []"
      using that by (cases t) (auto simp: delim_def num_chars_def)
    moreover have "\<And>c. c \<in> set (ns q) \<Longrightarrow> c \<in> num_chars" using assms(1) by (auto simp: num_printer_def)
    ultimately show ?thesis by (simp add: takeWhile_append2)
  qed
  have "ns p = ns q" using tw [OF assms(3), of p] tw [OF assms(4), of q] assms(2) by simp
  with assms show ?thesis by (auto simp: num_printer_def inj_eq)
qed

text \<open>Printed values never begin with a closing bracket, and the first character tells the type.\<close>

fun first_chars :: "js \<Rightarrow> char set" where
  "first_chars (JBool b) = (if b then {CHR ''t''} else {CHR ''f''})"
| "first_chars (JNum (Fin _)) = num_chars"
| "first_chars (JStr _) = {CHR 0x22}"
| "first_chars (JArr _) = {CHR ''[''}"
| "first_chars (JObj _) = {CHR ''{''}"
| "first_chars _ = {CHR ''n''}"

lemma render_hd: "num_printer ns \<Longrightarrow> render ns v \<noteq> [] \<and> hd (render ns v) \<in> first_chars v"
  by (cases "(ns, v)" rule: render.cases) (auto simp: json_str_def dest: num_printer_hd)

lemma render_not_close:
  assumes "num_printer ns" and "z \<in> {CHR '']'', CHR ''}''}"
  shows "render ns v \<noteq> [] \<and> hd (render ns v) \<noteq> z"
proof -
  have "first_chars v \<inter> {CHR '']'', CHR ''}''} = {}"
    by (cases v rule: first_chars.cases) (auto simp: num_chars_def)
  with render_hd [OF assms(1), of v] assms(2) show ?thesis by blast
qed

definition field_str :: "(rat \<Rightarrow> string) \<Rightarrow> string \<times> js \<Rightarrow> string" where
  "field_str ns p = json_str (fst p) @ CHR '':'' # render ns (snd p)"

lemma render_obj: "render ns (JObj fs) = CHR ''{'' # join (map (field_str ns) fs) @ ''}''"
  by (simp add: field_str_def [abs_def] case_prod_unfold)

lemma field_reads:
  "reads (render ns) normal v \<Longrightarrow> reads (field_str ns) (\<lambda>p. normal (snd p)) (k, v)"
proof -
  assume v: "reads (render ns) normal v"
  show ?thesis unfolding reads_def
  proof (intro allI impI)
    fix p r s
    assume h: "normal (snd p) \<and> delim r \<and> delim s \<and> field_str ns (k, v) @ r = field_str ns p @ s"
    then have "json_str k @ CHR '':'' # render ns v @ r = json_str (fst p) @ CHR '':'' # render ns (snd p) @ s"
      by (simp add: field_str_def)
    from json_str_prefix [OF this] have k: "k = fst p" and "render ns v @ r = render ns (snd p) @ s"
      by auto
    with h readsD [OF v] have "v = snd p \<and> r = s" by blast
    with k show "(k, v) = p \<and> r = s" by (cases p) simp
  qed
qed

lemma same_first:
  assumes "num_printer ns" and "render ns v @ r = render ns w @ s"
  shows "\<exists>c. c \<in> first_chars v \<and> c \<in> first_chars w"
  using render_hd [OF assms(1), of v] render_hd [OF assms(1), of w] assms(2)
  by (metis hd_append2)

lemma reads_shapeI:
  assumes "num_printer ns"
    and "\<And>y r s. normal y \<Longrightarrow> first_chars v \<inter> first_chars y \<noteq> {} \<Longrightarrow> delim r \<Longrightarrow> delim s
       \<Longrightarrow> render ns v @ r = render ns y @ s \<Longrightarrow> v = y \<and> r = s"
  shows "reads (render ns) normal v"
  using assms same_first [OF assms(1)] unfolding reads_def by blast

lemma shape_arr: "first_chars (JArr xs) \<inter> first_chars y \<noteq> {} \<Longrightarrow> \<exists>ys. y = JArr ys"
  by (cases y rule: first_chars.cases) (auto simp: num_chars_def split: if_splits)

lemma shape_obj: "first_chars (JObj fs) \<inter> first_chars y \<noteq> {} \<Longrightarrow> \<exists>gs. y = JObj gs"
  by (cases y rule: first_chars.cases) (auto simp: num_chars_def split: if_splits)

lemma shape_atoms:
  "first_chars (JNum (Fin p)) \<inter> first_chars y \<noteq> {} \<Longrightarrow> \<exists>q. y = JNum (Fin q)"
  "first_chars (JStr t) \<inter> first_chars y \<noteq> {} \<Longrightarrow> \<exists>u. y = JStr u"
  "first_chars (JBool b) \<inter> first_chars y \<noteq> {} \<Longrightarrow> y = JBool b"
  "normal y \<Longrightarrow> first_chars Null \<inter> first_chars y \<noteq> {} \<Longrightarrow> y = Null"
  by (cases y rule: first_chars.cases; auto simp: num_chars_def split: if_splits)+

lemma reads_arr:
  assumes ns: "num_printer ns" and xs: "\<forall>x\<in>set xs. reads (render ns) normal x"
  shows "reads (render ns) normal (JArr xs)"
proof (rule reads_shapeI [OF ns])
  fix y r s
  assume y: "normal y" and f: "first_chars (JArr xs) \<inter> first_chars y \<noteq> {}" and "delim r" "delim s"
    and eq: "render ns (JArr xs) @ r = render ns y @ s"
  obtain ys where ys: "y = JArr ys" using shape_arr [OF f] by blast
  have "xs = ys \<and> r = s"
  proof (rule join_inj [of "CHR '']''" xs "render ns" normal])
    show "\<forall>x\<in>set xs \<union> set ys. render ns x \<noteq> [] \<and> hd (render ns x) \<noteq> CHR '']''"
      by (intro ballI render_not_close [OF ns]) simp
  qed (use xs y ys eq in auto)
  with ys show "JArr xs = y \<and> r = s" by simp
qed

lemma reads_obj:
  assumes ns: "num_printer ns" and fs: "\<forall>(k, v)\<in>set fs. reads (render ns) normal v"
  shows "reads (render ns) normal (JObj fs)"
proof (rule reads_shapeI [OF ns])
  fix y r s
  assume y: "normal y" and f: "first_chars (JObj fs) \<inter> first_chars y \<noteq> {}" and "delim r" "delim s"
    and eq: "render ns (JObj fs) @ r = render ns y @ s"
  obtain gs where gs: "y = JObj gs" using shape_obj [OF f] by blast
  have "fs = gs \<and> r = s"
  proof (rule join_inj [of "CHR ''}''" _ "field_str ns" "\<lambda>p. normal (snd p)"])
    show "\<forall>p\<in>set fs. reads (field_str ns) (\<lambda>p. normal (snd p)) p"
      using fs by (force intro: field_reads)
    show "list_all (\<lambda>p. normal (snd p)) gs" using y gs by (simp add: case_prod_unfold)
    show "\<forall>p\<in>set fs \<union> set gs. field_str ns p \<noteq> [] \<and> hd (field_str ns p) \<noteq> CHR ''}''"
      by (simp add: field_str_def json_str_def)
  qed (use eq gs in \<open>auto simp: render_obj simp del: render.simps\<close>)
  with gs show "JObj fs = y \<and> r = s" by simp
qed

lemma reads_num: "num_printer ns \<Longrightarrow> reads (render ns) normal (JNum (Fin p))"
proof (rule reads_shapeI)
  fix y r s
  assume ns: "num_printer ns" and f: "first_chars (JNum (Fin p)) \<inter> first_chars y \<noteq> {}"
    and d: "delim r" "delim s" and eq: "render ns (JNum (Fin p)) @ r = render ns y @ s"
  obtain q where "y = JNum (Fin q)" using shape_atoms(1) [OF f] by blast
  with num_printer_reads [OF ns _ d, of p q] eq show "JNum (Fin p) = y \<and> r = s" by simp
qed

lemma reads_str: "num_printer ns \<Longrightarrow> reads (render ns) normal (JStr t)"
proof (rule reads_shapeI)
  fix y r s
  assume f: "first_chars (JStr t) \<inter> first_chars y \<noteq> {}" and eq: "render ns (JStr t) @ r = render ns y @ s"
  obtain u where "y = JStr u" using shape_atoms(2) [OF f] by blast
  with json_str_prefix [of t r u s] eq show "JStr t = y \<and> r = s" by simp
qed

lemma reads_const:
  "num_printer ns \<Longrightarrow> reads (render ns) normal (JBool b)"
  "num_printer ns \<Longrightarrow> reads (render ns) normal Null"
  by (rule reads_shapeI; force dest!: shape_atoms(3,4))+

lemma render_reads: "num_printer ns \<Longrightarrow> normal v \<Longrightarrow> reads (render ns) normal v"
proof (induction v)
  case (JNum n)
  then show ?case by (cases n) (auto intro: reads_num)
next
  case (JArr xs)
  then show ?case by (intro reads_arr) (auto simp: list_all_iff)
next
  case (JObj fs)
  then show ?case by (intro reads_obj) (force simp: list_all_iff)+
qed (auto intro: reads_str reads_const)

section \<open>What a canonical encoding identifies\<close>

lemma canonical_eq_iff:
  assumes "num_printer ns" and "\<not> has_big v" and "\<not> has_big w"
  shows "canonical ns v = canonical ns w \<longleftrightarrow> jnorm v = jnorm w"
proof -
  have "render ns (jnorm v) = render ns (jnorm w) \<Longrightarrow> jnorm v = jnorm w"
    using readsD [OF render_reads [OF assms(1) normal_jnorm [OF assms(2)]], of "[]" "jnorm w" "[]"]
      normal_jnorm [OF assms(3)] by simp
  then show ?thesis using assms(2,3) by (auto simp: canonical_def canonical_str_render)
qed

text \<open>C31. Two values have the same canonical encoding exactly when they have the same normal form:
  sorting keys, dropping \<open>undefined\<close> fields and coercing to \<open>null\<close> is all that \<open>canonical\<close>
  forgets, so a signature or a content address over it covers everything else.\<close>

theorem canonical_injective:
  "num_printer ns \<and> \<not> has_big v \<and> \<not> has_big w
     \<longrightarrow> canonical ns v = canonical ns w \<longleftrightarrow> jnorm v = jnorm w"
  by (intro impI) (simp add: canonical_eq_iff)

text \<open>A number printer for concrete instances: numerator and denominator in unary.\<close>

definition unary_ns :: "rat \<Rightarrow> string" where
  "unary_ns r = (let p = quotient_of r in
     (if fst p < 0 then CHR ''-'' else CHR ''+'') # replicate (nat \<bar>fst p\<bar>) (CHR ''1'')
       @ CHR ''e'' # replicate (nat (snd p)) (CHR ''1''))"

lemma unary_split:
  "replicate m (CHR ''1'') @ CHR ''e'' # replicate n (CHR ''1'')
     = replicate m' (CHR ''1'') @ CHR ''e'' # replicate n' (CHR ''1'') \<Longrightarrow> m = m' \<and> n = n'"
proof -
  assume eq: "replicate m (CHR ''1'') @ CHR ''e'' # replicate n (CHR ''1'')
     = replicate m' (CHR ''1'') @ CHR ''e'' # replicate n' (CHR ''1'')"
  have tw: "takeWhile (\<lambda>c. c = CHR ''1'') (replicate k (CHR ''1'') @ CHR ''e'' # x) = replicate k (CHR ''1'')"
    for k x by (induction k) auto
  have "m = m'" using arg_cong [OF eq, of "\<lambda>l. length (takeWhile (\<lambda>c. c = CHR ''1'') l)"]
    unfolding tw by simp
  moreover have "m + n = m' + n'" using arg_cong [OF eq, of length] by simp
  ultimately show ?thesis by simp
qed

lemma num_printer_unary: "num_printer unary_ns"
proof -
  have "quotient_of r = quotient_of q" if eq: "unary_ns r = unary_ns q" for r q
  proof -
    from eq have sgn: "(fst (quotient_of r) < 0) = (fst (quotient_of q) < 0)"
      and mid: "replicate (nat \<bar>fst (quotient_of r)\<bar>) (CHR ''1'') @ CHR ''e''
          # replicate (nat (snd (quotient_of r))) (CHR ''1'')
        = replicate (nat \<bar>fst (quotient_of q)\<bar>) (CHR ''1'') @ CHR ''e''
          # replicate (nat (snd (quotient_of q))) (CHR ''1'')"
      unfolding unary_ns_def Let_def by (auto split: if_splits)
    note sgn
    moreover note unary_split [OF mid]
    moreover have "0 < snd (quotient_of r)" "0 < snd (quotient_of q)"
      by (simp_all add: quotient_of_denom_pos')
    ultimately show ?thesis by (intro prod_eqI) linarith+
  qed
  then have "inj unary_ns" by (intro injI) (metis quotient_of_inject)
  then show ?thesis by (auto simp: num_printer_def unary_ns_def Let_def num_chars_def)
qed

theorem canonical_injective_witness:
  "canonical unary_ns (JObj [(''b'', jint 1), (''a'', jint 2), (''u'', Undefined)])
     = canonical unary_ns (JObj [(''a'', jint 2), (''b'', jint 1)])
   \<and> canonical unary_ns (JArr [jint 1]) \<noteq> canonical unary_ns (JArr [jint 1, Null])"
  using num_printer_unary
    canonical_injective [of unary_ns "JObj [(''b'', jint 1), (''a'', jint 2), (''u'', Undefined)]"
      "JObj [(''a'', jint 2), (''b'', jint 1)]"]
    canonical_injective [of unary_ns "JArr [jint 1]" "JArr [jint 1, Null]"]
  by (simp add: less_char_def)

section \<open>Topic ids\<close>

lemma jnorm_topic_core:
  "jnorm (topic_core ow nm w) = JObj [(''name'', JStr nm),
     (''owner'', case ow of None \<Rightarrow> Null | Some x \<Rightarrow> JStr x), (''write'', JStr w)]"
  by (simp add: topic_core_def less_char_def split: option.splits)

lemma topic_core_inj:
  assumes "num_printer ns" and "canonical_str ns (topic_core ow nm w) = canonical_str ns (topic_core ow' nm' w')"
  shows "ow = ow' \<and> nm = nm' \<and> w = w'"
proof -
  have "jnorm (topic_core ow nm w) = jnorm (topic_core ow' nm' w')"
    using assms canonical_eq_iff [OF assms(1), of "topic_core ow nm w" "topic_core ow' nm' w'"]
    by (simp add: canonical_def topic_core_def split: option.splits)
  then show ?thesis by (auto simp: jnorm_topic_core split: option.splits)
qed

text \<open>The string whose hash a topic id carries.\<close>

definition topic_preimage :: "(rat \<Rightarrow> string) \<Rightarrow> topic \<Rightarrow> string" where
  "topic_preimage ns t = canonical_str ns (topic_core (t_owner t) (t_name t) (t_write t))"

lemma write_policy_cases:
  "write_policy ow wr = Inr w \<Longrightarrow> w \<in> {''open'', ''owner''} \<and> (ow = None \<longrightarrow> w = ''open'')
     \<and> (ow \<noteq> None \<and> wr = None \<longrightarrow> w = ''owner'')"
  by (auto simp: write_policy_def Let_def split: option.splits if_splits)

lemma resolveTopic_ok:
  assumes "resolveTopic ks ns sha rgn region owner name wr selfRegion = Inr t"
  shows "name = JStr (t_name t) \<and> t_name t \<noteq> [] \<and> t_owner t = map_option lc owner
    \<and> write_policy (t_owner t) wr = Inr (t_write t)
    \<and> region_code rgn region selfRegion = Inr (t_region t)
    \<and> (isSystemRegion (t_region t) \<longrightarrow> t_name t = BRIDGE_DIRECTORY_TOPIC \<and> t_owner t = None)
    \<and> topicId t = pad_start 2 (CHR ''0'') (hex_digits (t_region t))
        @ take (HEX_CHARS ks - 2) (sha (topic_preimage ns t))"
  using assms
  by (auto simp: resolveTopic_def topic_preimage_def Let_def split: js.splits if_splits sum.splits option.splits)

lemma region_prefix: "c < 256 \<Longrightarrow> length (pad_start 2 (CHR ''0'') (hex_digits c)) = 2"
  using length_hex_digits [of 2 c] by simp

text \<open>C30. A topic id authenticates its descriptor: if two descriptors resolve to the same topic id
  and the truncated hash does not collide on their two preimages, they name the same region,
  owner, name and write policy. A relay that recomputes the id from a signed descriptor has
  therefore checked the owner and the write policy it enforces.\<close>

theorem topicId_authenticates:
  assumes "num_printer ns"
    and "resolveTopic ks ns sha rgn r1 o1 n1 w1 s1 = Inr t" and "t_region t < 256"
    and "resolveTopic ks ns sha rgn r2 o2 n2 w2 s2 = Inr t'" and "t_region t' < 256"
    and "take (HEX_CHARS ks - 2) (sha (topic_preimage ns t)) = take (HEX_CHARS ks - 2) (sha (topic_preimage ns t'))
      \<longrightarrow> topic_preimage ns t = topic_preimage ns t'"
    and "topicId t = topicId t'"
  shows "t = t'"
proof -
  note a = resolveTopic_ok [OF assms(2)] and b = resolveTopic_ok [OF assms(4)]
  let ?p = "\<lambda>t. pad_start 2 (CHR ''0'') (hex_digits (t_region t))"
  from a b assms(7) region_prefix [OF assms(3)] region_prefix [OF assms(5)]
  have p: "?p t = ?p t'" and h: "take (HEX_CHARS ks - 2) (sha (topic_preimage ns t))
      = take (HEX_CHARS ks - 2) (sha (topic_preimage ns t'))"
    by (auto simp: append_eq_append_conv)
  have "t_region t = t_region t'"
    using arg_cong [OF p, of hex_val] by simp
  moreover from topic_core_inj [OF assms(1)] h assms(6)
  have "t_owner t = t_owner t'" "t_name t = t_name t'" "t_write t = t_write t'"
    unfolding topic_preimage_def by blast+
  ultimately show ?thesis using assms(7) by (intro topic.equality) simp_all
qed

text \<open>Every minted topic is well formed: in production, with a 64-digit lower-case hash, a
  resolved topic id is a valid 66-digit id whose first byte is the resolved region; a topic with
  no owner is open, one with an owner and no stated policy is owner-only; and a system region
  holds only the ownerless bridge directory.\<close>

theorem resolveTopic_wf:
  assumes "resolveTopic production ns sha rgn region owner name wr selfRegion = Inr t"
    and "t_region t < 256" and "\<And>x. length (sha x) = 64 \<and> list_all is_lower_hex_char (sha x)"
  shows "ps_isHexId (topicId t) \<and> length (topicId t) = 66
    \<and> int (hex_val (take 2 (topicId t))) = int (t_region t)
    \<and> (owner = None \<longrightarrow> t_write t = ''open'')
    \<and> (owner \<noteq> None \<and> wr = None \<longrightarrow> t_write t = ''owner'')
    \<and> (isSystemRegion (t_region t) \<longrightarrow> t_name t = BRIDGE_DIRECTORY_TOPIC \<and> owner = None)"
proof -
  note a = resolveTopic_ok [OF assms(1)]
  let ?p = "pad_start 2 (CHR ''0'') (hex_digits (t_region t))"
  let ?h = "sha (topic_preimage ns t)"
  have id: "topicId t = ?p @ ?h" using a assms(3) by simp
  have "list_all is_lower_hex_char ?p"
    using hex_digits_lower [of "t_region t"]
    by (auto simp: pad_start_def list_all_iff is_lower_hex_char_def)
  then have "ps_isHexId (topicId t)" "length (topicId t) = 66"
    using id assms(3) region_prefix [OF assms(2)] by (auto simp: ps_isHexId_def)
  moreover have "take 2 (topicId t) = ?p" using id region_prefix [OF assms(2)] by simp
  ultimately show ?thesis using a write_policy_cases [of "t_owner t" wr "t_write t"] by auto
qed

text \<open>The instance of the two theorems: a table with one region and a constant hash. The second
  descriptor omits the region and states a write policy, which an ownerless topic ignores.\<close>

definition sample_topic :: "unit option \<Rightarrow> string option \<Rightarrow> unit option \<Rightarrow> topic_error + topic" where
  "sample_topic region wr self = resolveTopic production unary_ns (\<lambda>_. replicate 64 (CHR ''a''))
     (\<lambda>_::unit. Some 0x89) region None (JStr ''hello'') wr self"

lemma sample_topic_ok:
  "wr = None \<or> wr = Some ''owner'' \<Longrightarrow> region = Some () \<or> region = None \<and> self = Some () \<Longrightarrow>
   sample_topic region wr self = Inr \<lparr>t_region = 0x89, t_owner = None, t_name = ''hello'',
     t_write = ''open'', topicId = pad_start 2 (CHR ''0'') (hex_digits 0x89) @ replicate 64 (CHR ''a'')\<rparr>"
  by (auto simp: sample_topic_def resolveTopic_def write_policy_def region_code_def isSystemRegion_def)

theorem topicId_authenticates_witness:
  "\<exists>t t'. sample_topic (Some ()) None None = Inr t \<and> sample_topic None (Some ''owner'') (Some ()) = Inr t'
     \<and> t = t'"
proof -
  obtain t t' where t: "sample_topic (Some ()) None None = Inr t" "t_region t = 0x89"
    and t': "sample_topic None (Some ''owner'') (Some ()) = Inr t'" "t_region t' = 0x89"
    and i: "topicId t = topicId t'" and p: "topic_preimage unary_ns t = topic_preimage unary_ns t'"
    by (simp add: sample_topic_ok topic_preimage_def)
  have "t = t'"
    by (rule topicId_authenticates [OF num_printer_unary t(1) [unfolded sample_topic_def] _
          t'(1) [unfolded sample_topic_def]]) (simp_all add: t(2) t'(2) i p)
  with t t' show ?thesis by blast
qed

theorem resolveTopic_wf_witness:
  "\<exists>t. sample_topic (Some ()) None None = Inr t \<and> ps_isHexId (topicId t) \<and> t_write t = ''open''"
proof -
  obtain t where t: "sample_topic (Some ()) None None = Inr t" and r: "t_region t = 0x89"
    by (simp add: sample_topic_ok)
  from resolveTopic_wf [OF t [unfolded sample_topic_def]] r t show ?thesis
    by (auto simp: list_all_iff is_lower_hex_char_def)
qed

end
