(* ===== verification/SignedExpiry.thy ===== *)
theory SignedExpiry
  imports Canonical
begin

text \<open>
  Signed message expiry: \<open>src/src/pubsub/signedExpiry.js\<close>. The V2 content address hashes
  \<open>canonical({d, exp, message, publisher, topicId})\<close> after validating the widths of the two
  ids and the range of the deadline. The theory proves that the address commits every field
  (equal V2 ids mean equal publisher, topic, deadline and message up to normal form, when the
  hash does not collide on the two preimages), that V1 and V2 preimages never coincide, that
  validation is never off, and that a validated deadline is exact: it and its
  \<open>CLOCK_SKEW\<close>-extended death stay inside the safe-integer range.
\<close>

datatype expiry_error = BAD_EXP | BAD_PROFILE_WIDTH | BAD_PUBLISHER_WIDTH | BAD_TOPICID_WIDTH
  | EXP_NOT_AFTER_TS | EXP_OVER_CEILING | CANONICAL_TYPE_ERROR

definition MSGID_DOMAIN_V2 :: string where
  "MSGID_DOMAIN_V2 = ''axona:pubsub-msgid:v2''"

definition TTL_CEILING :: int where
  "TTL_CEILING = 24 * 60 * 60 * 1000"

definition CLOCK_SKEW :: int where
  "CLOCK_SKEW = 5000"

definition PUBLISHER_WIDTH :: int where
  "PUBLISHER_WIDTH = 64"

definition TOPICID_WIDTH :: int where
  "TOPICID_WIDTH = 66"

definition isHexOfWidth :: "js \<Rightarrow> int \<Rightarrow> bool" where
  "isHexOfWidth v width = (case v of
      JStr s \<Rightarrow> int (length s) = width \<and> s \<noteq> [] \<and> list_all is_lower_hex_char s | _ \<Rightarrow> False)"

definition assertSafeExp :: "js \<Rightarrow> expiry_error + unit" where
  "assertSafeExp e = (if \<not> num_is_safe e then Inl BAD_EXP
     else if \<not> is_safe_integer (num_int e + CLOCK_SKEW) then Inl BAD_EXP else Inr ())"

text \<open>A destructuring default: the given value, or the default when it is \<open>undefined\<close>.\<close>

definition dflt :: "int \<Rightarrow> js \<Rightarrow> js" where
  "dflt d v = (if v = Undefined then jint d else v)"

definition assertV2Widths :: "js \<Rightarrow> js \<Rightarrow> js \<Rightarrow> js \<Rightarrow> expiry_error + unit" where
  "assertV2Widths publisher topic pubWidth topicWidth =
     (let pw = dflt PUBLISHER_WIDTH pubWidth; tw = dflt TOPICID_WIDTH topicWidth in
      if \<not> num_is_integer pw \<or> num_int pw \<le> 0 \<or> \<not> num_is_integer tw \<or> num_int tw \<le> 0
      then Inl BAD_PROFILE_WIDTH
      else if publisher \<noteq> Null \<and> \<not> isHexOfWidth publisher (num_int pw) then Inl BAD_PUBLISHER_WIDTH
      else if \<not> isHexOfWidth topic (num_int tw) then Inl BAD_TOPICID_WIDTH
      else Inr ())"

definition v2_core :: "js \<Rightarrow> js \<Rightarrow> js \<Rightarrow> js \<Rightarrow> js" where
  "v2_core publisher message topic e = JObj [(''d'', JStr MSGID_DOMAIN_V2), (''exp'', e),
     (''message'', message), (''publisher'', publisher), (''topicId'', topic)]"

definition msgIdV2Preimage :: "(rat \<Rightarrow> string) \<Rightarrow> js \<Rightarrow> js \<Rightarrow> js \<Rightarrow> js \<Rightarrow> string option" where
  "msgIdV2Preimage ns publisher message topic e = canonical ns (v2_core publisher message topic e)"

definition computeMsgIdV2 ::
  "(rat \<Rightarrow> string) \<Rightarrow> (string \<Rightarrow> string) \<Rightarrow> js \<Rightarrow> js \<Rightarrow> js \<Rightarrow> js \<Rightarrow> js \<Rightarrow> js \<Rightarrow> expiry_error + string" where
  "computeMsgIdV2 ns sha publisher message topic e pubWidth topicWidth =
     (case assertSafeExp e of Inl x \<Rightarrow> Inl x
      | Inr _ \<Rightarrow> (case assertV2Widths publisher topic pubWidth topicWidth of Inl x \<Rightarrow> Inl x
        | Inr _ \<Rightarrow> (case msgIdV2Preimage ns publisher message topic e of
            None \<Rightarrow> Inl CANONICAL_TYPE_ERROR | Some pre \<Rightarrow> Inr (sha pre))))"

definition v1_core :: "js \<Rightarrow> js \<Rightarrow> js" where
  "v1_core publisher message =
     JObj [(''publisher'', if publisher = Undefined then Null else publisher), (''message'', message)]"

definition computeMsgIdV1 ::
  "(rat \<Rightarrow> string) \<Rightarrow> (string \<Rightarrow> string) \<Rightarrow> js \<Rightarrow> js \<Rightarrow> expiry_error + string" where
  "computeMsgIdV1 ns sha publisher message = (case canonical ns (v1_core publisher message) of
      None \<Rightarrow> Inl CANONICAL_TYPE_ERROR | Some pre \<Rightarrow> Inr (sha pre))"

definition clampExp :: "js \<Rightarrow> expiry_error + int" where
  "clampExp ts = (if \<not> num_is_safe ts then Inl BAD_EXP
     else (let e = num_int ts + TTL_CEILING in
       if \<not> is_safe_integer (e + CLOCK_SKEW) then Inl BAD_EXP else Inr e))"

definition validateExp :: "js \<Rightarrow> js \<Rightarrow> expiry_error + int" where
  "validateExp ts e = (if \<not> num_is_safe ts \<or> \<not> num_is_safe e then Inl BAD_EXP
     else if \<not> num_int e > num_int ts then Inl EXP_NOT_AFTER_TS
     else if num_int e > num_int ts + TTL_CEILING then Inl EXP_OVER_CEILING
     else if \<not> is_safe_integer (num_int e + CLOCK_SKEW) then Inl BAD_EXP
     else Inr (num_int e))"

definition effectiveDeath :: "js \<Rightarrow> expiry_error + int" where
  "effectiveDeath e = (case assertSafeExp e of Inl x \<Rightarrow> Inl x | Inr _ \<Rightarrow> Inr (num_int e + CLOCK_SKEW))"

definition isBodyFresh :: "int \<Rightarrow> js \<Rightarrow> expiry_error + bool" where
  "isBodyFresh now e = (case effectiveDeath e of Inl x \<Rightarrow> Inl x | Inr d \<Rightarrow> Inr (now \<le> d))"

section \<open>Commitment\<close>

lemma jnorm_v2_core:
  "publisher \<noteq> Undefined \<Longrightarrow> topic \<noteq> Undefined \<Longrightarrow> e \<noteq> Undefined \<Longrightarrow>
   jnorm (v2_core publisher message topic e) = JObj ([(''d'', JStr MSGID_DOMAIN_V2), (''exp'', jnorm e)]
     @ (if message = Undefined then [] else [(''message'', jnorm message)])
     @ [(''publisher'', jnorm publisher), (''topicId'', jnorm topic)])"
  by (simp add: v2_core_def less_char_def)

lemma jnorm_v1_core:
  "jnorm (v1_core publisher message) = JObj ((if message = Undefined then [] else [(''message'', jnorm message)])
     @ [(''publisher'', if publisher = Undefined then Null else jnorm publisher)])"
  by (simp add: v1_core_def less_char_def)

lemma isHexOfWidthD: "isHexOfWidth v w \<Longrightarrow> \<exists>s. v = JStr s"
  by (auto simp: isHexOfWidth_def split: js.splits)

lemma computeMsgIdV2_ok:
  assumes "computeMsgIdV2 ns sha publisher message topic e pw tw = Inr m"
  shows "num_is_safe e \<and> is_safe_integer (num_int e + CLOCK_SKEW)
    \<and> (publisher = Null \<or> (\<exists>s. publisher = JStr s)) \<and> (\<exists>s. topic = JStr s) \<and> \<not> has_big message
    \<and> m = sha (canonical_str ns (v2_core publisher message topic e))"
  using assms
  by (auto simp: computeMsgIdV2_def assertSafeExp_def assertV2Widths_def msgIdV2Preimage_def canonical_def
      v2_core_def Let_def dest!: isHexOfWidthD split: sum.splits if_splits option.splits
      simp del: num_is_safe.simps)

lemma num_is_safe_JNum: "num_is_safe e \<Longrightarrow> e = jint (num_int e)"
  by (cases e rule: num_is_integer.cases) auto

lemma jint_eq_iff: "jint a = jint b \<longleftrightarrow> a = b"
  by simp

lemma v2_core_inj:
  assumes "num_printer ns" and "\<not> has_big m" and "\<not> has_big m'"
    and "p = Null \<or> (\<exists>s. p = JStr s)" and "p' = Null \<or> (\<exists>s. p' = JStr s)"
    and "canonical_str ns (v2_core p m (JStr t) (jint e)) = canonical_str ns (v2_core p' m' (JStr t') (jint e'))"
  shows "p = p' \<and> t = t' \<and> e = e' \<and> (m = Undefined) = (m' = Undefined) \<and> jnorm m = jnorm m'"
proof -
  have "\<not> has_big (v2_core p m (JStr t) (jint e))" "\<not> has_big (v2_core p' m' (JStr t') (jint e'))"
    using assms(2-5) by (auto simp: v2_core_def)
  then have "jnorm (v2_core p m (JStr t) (jint e)) = jnorm (v2_core p' m' (JStr t') (jint e'))"
    using canonical_eq_iff [OF assms(1)] assms(6) by (metis canonical_def)
  then show ?thesis using assms(4,5) by (auto simp: jnorm_v2_core split: if_splits)
qed

text \<open>A V2 message id commits everything its author signed: two computations that return the
  same id, with a hash that does not collide on the two preimages, were given the same publisher,
  the same topic, the same deadline and the same message (up to canonical normal form). A kill
  naming the id can therefore not carry another lifetime.\<close>

theorem msgIdV2_commits:
  assumes "num_printer ns"
    and "computeMsgIdV2 ns sha p m t e pw tw = Inr i"
    and "computeMsgIdV2 ns sha p' m' t' e' pw' tw' = Inr i"
    and "sha (canonical_str ns (v2_core p m t e)) = sha (canonical_str ns (v2_core p' m' t' e'))
      \<longrightarrow> canonical_str ns (v2_core p m t e) = canonical_str ns (v2_core p' m' t' e')"
  shows "p = p' \<and> t = t' \<and> e = e' \<and> (m = Undefined) = (m' = Undefined) \<and> jnorm m = jnorm m'"
proof -
  note a = computeMsgIdV2_ok [OF assms(2)] and b = computeMsgIdV2_ok [OF assms(3)]
  from a b obtain x x' where t: "t = JStr x" "t' = JStr x'" by auto
  have e: "e = jint (num_int e)" "e' = jint (num_int e')"
    using a b num_is_safe_JNum by blast+
  have "canonical_str ns (v2_core p m t e) = canonical_str ns (v2_core p' m' t' e')"
    using a b assms(4) by simp
  then have "canonical_str ns (v2_core p m (JStr x) (jint (num_int e)))
      = canonical_str ns (v2_core p' m' (JStr x') (jint (num_int e')))"
    using e t by metis
  with v2_core_inj [OF assms(1)] a b have "p = p'" "x = x'" "num_int e = num_int e'"
    "(m = Undefined) = (m' = Undefined) \<and> jnorm m = jnorm m'" by blast+
  then show ?thesis using e t by metis
qed

theorem msgIdV2_commits_witness:
  "\<exists>i. computeMsgIdV2 unary_ns id Null (JObj [(''x'', jint 1), (''u'', Undefined)]) (JStr ''ab'') (jint 7)
         Undefined (jint 2) = Inr i
     \<and> computeMsgIdV2 unary_ns id Null (JObj [(''x'', jint 1)]) (JStr ''ab'') (jint 7) Undefined (jint 2) = Inr i
     \<and> jnorm (JObj [(''x'', jint 1), (''u'', Undefined)]) = jnorm (JObj [(''x'', jint 1)])"
proof -
  have a: "computeMsgIdV2 unary_ns id Null (JObj [(''x'', jint 1), (''u'', Undefined)]) (JStr ''ab'') (jint 7)
      Undefined (jint 2) = Inr (canonical_str unary_ns (v2_core Null (JObj [(''x'', jint 1)]) (JStr ''ab'') (jint 7)))"
    and b: "computeMsgIdV2 unary_ns id Null (JObj [(''x'', jint 1)]) (JStr ''ab'') (jint 7)
      Undefined (jint 2) = Inr (canonical_str unary_ns (v2_core Null (JObj [(''x'', jint 1)]) (JStr ''ab'') (jint 7)))"
    by (simp_all add: computeMsgIdV2_def assertSafeExp_def assertV2Widths_def msgIdV2Preimage_def canonical_def
        v2_core_def dflt_def isHexOfWidth_def PUBLISHER_WIDTH_def TOPICID_WIDTH_def CLOCK_SKEW_def
        is_safe_integer_def max_safe_integer_def is_lower_hex_char_def less_char_def)
  from msgIdV2_commits [OF num_printer_unary a b] a b show ?thesis by auto
qed

text \<open>The V2 domain is disjoint from V1: no V1 message has the canonical preimage of any V2
  message, so the legacy and the signed-expiry addresses can be told apart byte by byte.\<close>

theorem v1_v2_preimages_differ:
  assumes "num_printer ns" and "\<not> has_big (v1_core p m)"
    and "computeMsgIdV2 ns sha p' m' t' e' pw tw = Inr i"
  shows "canonical ns (v1_core p m) \<noteq> msgIdV2Preimage ns p' m' t' e'"
proof -
  note b = computeMsgIdV2_ok [OF assms(3)]
  then obtain x where t: "t' = JStr x" and e: "e' = jint (num_int e')" using num_is_safe_JNum by blast
  have nd: "p' \<noteq> Undefined" "e' \<noteq> Undefined" using b e by auto
  have "\<not> has_big (v2_core p' m' t' e')"
  proof -
    have "\<not> has_big e'" by (subst e) simp
    with b show ?thesis by (auto simp: v2_core_def)
  qed
  moreover have "jnorm (v1_core p m) \<noteq> jnorm (v2_core p' m' t' e')"
    using nd t by (simp add: jnorm_v1_core jnorm_v2_core)
  ultimately show ?thesis
    using canonical_eq_iff [OF assms(1,2)] unfolding msgIdV2Preimage_def by simp
qed

theorem v1_v2_preimages_differ_witness:
  "canonical unary_ns (v1_core Null (JStr ''hi'')) \<noteq> msgIdV2Preimage unary_ns Null (JStr ''hi'') (JStr ''ab'') (jint 7)"
proof (rule v1_v2_preimages_differ [OF num_printer_unary])
  show "computeMsgIdV2 unary_ns id Null (JStr ''hi'') (JStr ''ab'') (jint 7) Undefined (jint 2)
      = Inr (canonical_str unary_ns (v2_core Null (JStr ''hi'') (JStr ''ab'') (jint 7)))"
    by (simp add: computeMsgIdV2_def assertSafeExp_def assertV2Widths_def msgIdV2Preimage_def canonical_def
        v2_core_def dflt_def isHexOfWidth_def PUBLISHER_WIDTH_def TOPICID_WIDTH_def CLOCK_SKEW_def
        is_safe_integer_def max_safe_integer_def is_lower_hex_char_def)
qed (simp add: v1_core_def)

section \<open>Lifetime\<close>

lemma num_is_safe_jint [simp]: "num_is_safe (jint i) = is_safe_integer i"
  by simp

lemmas safe_defs = TTL_CEILING_def CLOCK_SKEW_def is_safe_integer_def max_safe_integer_def

lemma validateExp_ok_iff:
  "validateExp ts e = Inr x \<longleftrightarrow> num_is_safe ts \<and> num_is_safe e \<and> x = num_int e
     \<and> num_int ts < x \<and> x \<le> num_int ts + TTL_CEILING \<and> is_safe_integer (x + CLOCK_SKEW)"
  unfolding validateExp_def by (auto simp del: num_is_safe.simps)

lemma effectiveDeath_ok_iff:
  "effectiveDeath e = Inr d \<longleftrightarrow> num_is_safe e \<and> is_safe_integer (num_int e + CLOCK_SKEW)
     \<and> d = num_int e + CLOCK_SKEW"
  unfolding effectiveDeath_def assertSafeExp_def by (auto simp del: num_is_safe.simps)

lemma clampExp_ok_iff:
  "clampExp ts = Inr c \<longleftrightarrow> num_is_safe ts \<and> c = num_int ts + TTL_CEILING \<and> is_safe_integer (c + CLOCK_SKEW)"
  unfolding clampExp_def Let_def by (auto simp del: num_is_safe.simps)

lemma safe_between: "is_safe_integer a \<Longrightarrow> is_safe_integer b \<Longrightarrow> a \<le> x \<Longrightarrow> x \<le> b \<Longrightarrow> is_safe_integer x"
  by (auto simp: is_safe_integer_def)

lemma clampExp_validates:
  assumes "clampExp ts = Inr c"
  shows "validateExp ts (jint c) = Inr c"
proof -
  from assms have c: "num_is_safe ts" "c = num_int ts + TTL_CEILING" "is_safe_integer (c + CLOCK_SKEW)"
    unfolding clampExp_ok_iff by blast+
  from c(1) have "is_safe_integer (num_int ts)" by simp
  then have "is_safe_integer c"
    using c(3) by (rule safe_between) (simp_all add: c(2) TTL_CEILING_def CLOCK_SKEW_def)
  then have "num_is_safe (jint c)" by (simp only: num_is_safe_jint)
  then show ?thesis
    using c unfolding validateExp_ok_iff num_int_jint by (simp add: TTL_CEILING_def del: num_is_safe.simps)
qed

text \<open>A validated deadline is exact and bounded: \<open>validateExp\<close> accepts precisely the safe
  deadlines in \<open>(ts, ts + TTL_CEILING]\<close> whose skewed death is still a safe integer, and then
  \<open>effectiveDeath\<close> returns that death; \<open>clampExp\<close> returns the largest deadline that
  \<open>validateExp\<close> accepts.\<close>

theorem validateExp_iff:
  "(validateExp ts e = Inr x \<longleftrightarrow> num_is_safe ts \<and> num_is_safe e \<and> x = num_int e
       \<and> num_int ts < x \<and> x \<le> num_int ts + TTL_CEILING \<and> is_safe_integer (x + CLOCK_SKEW))
   \<and> (validateExp ts e = Inr x \<longrightarrow> effectiveDeath e = Inr (x + CLOCK_SKEW))
   \<and> (clampExp ts = Inr c \<longrightarrow> validateExp ts (jint c) = Inr c
       \<and> (validateExp ts e = Inr x \<longrightarrow> x \<le> c))"
proof (intro conjI impI)
  assume "clampExp ts = Inr c"
  then show "validateExp ts (jint c) = Inr c" by (rule clampExp_validates)
qed (auto simp: validateExp_ok_iff effectiveDeath_ok_iff clampExp_ok_iff simp del: num_is_safe.simps)

theorem validateExp_iff_witness:
  "validateExp (jint 1000) (jint 2000) = Inr 2000 \<and> effectiveDeath (jint 2000) = Inr 7000
   \<and> clampExp (jint 1000) = Inr 86401000 \<and> validateExp (jint 1000) (jint 86401000) = Inr 86401000"
proof -
  have a: "validateExp (jint 1000) (jint 2000) = Inr 2000" and b: "clampExp (jint 1000) = Inr 86401000"
    by (simp_all add: validateExp_def clampExp_def TTL_CEILING_def CLOCK_SKEW_def
        is_safe_integer_def max_safe_integer_def)
  with validateExp_iff [of "jint 1000" "jint 2000" 2000 86401000] show ?thesis
    by (simp add: CLOCK_SKEW_def)
qed

text \<open>Expiry fails closed: a deadline that is no number, no integer, or outside the safe range
  (with its skew) is refused by every entry point that reads it, the freshness test included;
  and a fresh verdict is exactly \<open>now \<le> exp + CLOCK_SKEW\<close>.\<close>

theorem expiry_fails_closed:
  "(\<not> (num_is_safe e \<and> is_safe_integer (num_int e + CLOCK_SKEW)) \<longrightarrow>
      effectiveDeath e = Inl BAD_EXP \<and> isBodyFresh now e = Inl BAD_EXP
      \<and> computeMsgIdV2 ns sha p m t e pw tw = Inl BAD_EXP
      \<and> (\<forall>ts. \<exists>x. validateExp ts e = Inl x))
   \<and> (isBodyFresh now e = Inr b \<longrightarrow> b = (now \<le> num_int e + CLOCK_SKEW))"
  by (auto simp: effectiveDeath_def isBodyFresh_def computeMsgIdV2_def assertSafeExp_def validateExp_def
      simp del: num_is_integer.simps num_int.simps)

theorem expiry_fails_closed_witness:
  "isBodyFresh max_safe_integer (jint max_safe_integer) = Inl BAD_EXP
   \<and> isBodyFresh 12000 (jint 7000) = Inr True"
proof -
  have "\<not> is_safe_integer (num_int (jint max_safe_integer) + CLOCK_SKEW)"
    by (simp add: is_safe_integer_def max_safe_integer_def CLOCK_SKEW_def)
  then have "isBodyFresh max_safe_integer (jint max_safe_integer) = Inl BAD_EXP"
    using expiry_fails_closed [of "jint max_safe_integer" max_safe_integer] by blast
  moreover have "isBodyFresh 12000 (jint 7000) = Inr True"
    by (simp add: isBodyFresh_def effectiveDeath_def assertSafeExp_def CLOCK_SKEW_def
        is_safe_integer_def max_safe_integer_def)
  ultimately show ?thesis by simp
qed

end
