(* ===== verification/TombstoneAuth.thy ===== *)
theory TombstoneAuth
  imports SignedExpiry
begin

text \<open>
  The deletion-state core: \<open>src/src/pubsub/tombstoneAuth.js\<close>. Three bounded stores (bodies,
  candidate kills, authoritative tombstones) and the state machine over them. Every method is a
  state transformer; a verdict string is a constructor. \<open>ns\<close> is the number printer that
  \<open>canonical\<close> takes: record sizes are the UTF-8 length of the canonical encoding, as in the code.
  Time is always an argument, as in the code.
\<close>

section \<open>Constants and sizes\<close>

definition FUTURE_TOLERANCE_MS :: int where
  "FUTURE_TOLERANCE_MS = 30000"

definition TOMBSTONE_RECORD_MAX :: int where
  "TOMBSTONE_RECORD_MAX = 768"

definition SUBLIMIT_FRACTION :: int where
  "SUBLIMIT_FRACTION = 16"

record profile =
  tombMaxCount :: int
  candMax :: int
  recordMax :: int

definition RELAY_CAPS :: profile where
  "RELAY_CAPS = \<lparr>tombMaxCount = 32768, candMax = 8192, recordMax = TOMBSTONE_RECORD_MAX\<rparr>"

definition BROWSER_CAPS :: profile where
  "BROWSER_CAPS = \<lparr>tombMaxCount = 512, candMax = 128, recordMax = TOMBSTONE_RECORD_MAX\<rparr>"

definition claimRetention :: "int \<Rightarrow> int" where
  "claimRetention localReceipt = localReceipt + FUTURE_TOLERANCE_MS + TTL_CEILING + CLOCK_SKEW"

text \<open>\<open>TextEncoder\<close> length of a string of code units below 256.\<close>

definition canonicalBytes :: "string \<Rightarrow> int" where
  "canonicalBytes s = sum_list (map (\<lambda>c. if (of_char c :: nat) < 128 then 1 else 2) s)"

definition recBytesOf :: "(rat \<Rightarrow> string) \<Rightarrow> string \<Rightarrow> js \<Rightarrow> int" where
  "recBytesOf ns key rec = canonicalBytes key + canonicalBytes (canonical_str ns rec)"

definition authKey :: "string \<Rightarrow> string \<Rightarrow> string" where
  "authKey topic msgId = topic @ CHR ''|'' # msgId"

text \<open>\<open>k.slice(0, k.indexOf('|'))\<close>: without a bar \<open>indexOf\<close> is -1 and the last character goes.\<close>

definition topicOf :: "string \<Rightarrow> string" where
  "topicOf k = (if CHR ''|'' \<in> set k then takeWhile (\<lambda>c. c \<noteq> CHR ''|'') k else butlast k)"

text \<open>The first two parts of \<open>k.split('|')\<close>.\<close>

definition splitKey :: "string \<Rightarrow> string \<times> string" where
  "splitKey k = (takeWhile (\<lambda>c. c \<noteq> CHR ''|'') k,
     takeWhile (\<lambda>c. c \<noteq> CHR ''|'') (drop 1 (dropWhile (\<lambda>c. c \<noteq> CHR ''|'') k)))"

section \<open>Tallies\<close>

text \<open>The per-signer and per-topic counters. \<open>None\<close> is the \<open>NaN\<close> that decrementing an absent
  counter would store; the invariants below rule it out.\<close>

type_synonym tally = "(string, int option) jmap"

definition cnt :: "tally \<Rightarrow> string \<Rightarrow> int" where
  "cnt m k = (case mget m k of Some (Some n) \<Rightarrow> n | _ \<Rightarrow> 0)"

definition inc :: "string \<Rightarrow> tally \<Rightarrow> tally" where
  "inc k m = mset_key k (Some (cnt m k + 1)) m"

definition dec :: "string \<Rightarrow> tally \<Rightarrow> tally" where
  "dec k m = (case mget m k of
      Some (Some n) \<Rightarrow> if n - 1 \<le> 0 then mdelete k m else mset_key k (Some (n - 1)) m
    | _ \<Rightarrow> mset_key k None m)"

section \<open>BodyCache\<close>

record body =
  publisher :: string
  b_death :: int
  arrivedAt :: int

record body_cache =
  bc_max :: int
  bc_map :: "(string, body) jmap"

definition bc_put :: "string \<Rightarrow> body \<Rightarrow> body_cache \<Rightarrow> string option \<times> body_cache" where
  "bc_put k b c =
     (if \<not> mhas (bc_map c) k \<and> int (length (bc_map c)) \<ge> bc_max c then
        (case bc_map c of
           [] \<Rightarrow> (None, c\<lparr>bc_map := mset_key k b (bc_map c)\<rparr>)
         | (old, _) # _ \<Rightarrow> (Some old, c\<lparr>bc_map := mset_key k b (mdelete old (bc_map c))\<rparr>))
      else (None, c\<lparr>bc_map := mset_key k b (bc_map c)\<rparr>))"

definition bc_evict :: "string \<Rightarrow> body_cache \<Rightarrow> bool \<times> body_cache" where
  "bc_evict k c = (mhas (bc_map c) k, c\<lparr>bc_map := mdelete k (bc_map c)\<rparr>)"

section \<open>CandidateStore\<close>

datatype tag = Plain | Pending

record cand =
  signer :: string
  killBytes :: js
  c_tag :: tag
  bodyArrivedAt :: "int option"
  claimRet :: int
  c_bytes :: int

record cand_store =
  cs_max :: int
  cs_maxBytes :: int
  cs_perSignerMax :: int
  cs_perTopicMax :: int
  cs_recordMax :: int
  cs_map :: "(string, cand list) jmap"
  cs_total :: int
  cs_bytes :: int
  cs_perSigner :: tally
  cs_perTopic :: tally

datatype cand_verdict = DUP | REFUSED_CAND_RECORD | REFUSED_CAND_GLOBAL | REFUSED_CAND_BYTES
  | REFUSED_CAND_SIGNER | REFUSED_CAND_TOPIC | ADMITTED

text \<open>What every removal does to the counters.\<close>

definition cs_uncount :: "string \<Rightarrow> cand \<Rightarrow> cand_store \<Rightarrow> cand_store" where
  "cs_uncount k c s = s\<lparr>cs_total := cs_total s - 1, cs_bytes := cs_bytes s - c_bytes c,
     cs_perSigner := dec (signer c) (cs_perSigner s), cs_perTopic := dec (topicOf k) (cs_perTopic s)\<rparr>"

text \<open>\<open>reclaimExpired\<close>: per key the list is scanned from its end.\<close>

definition cs_reclaimExpired :: "int \<Rightarrow> cand_store \<Rightarrow> cand_store" where
  "cs_reclaimExpired now s =
     (let s1 = fold (\<lambda>(k, l) s. foldr (\<lambda>c s. if now > claimRet c then cs_uncount k c s else s) l s) (cs_map s) s
      in s1\<lparr>cs_map := filter (\<lambda>(k, l). l \<noteq> [])
            (map (\<lambda>(k, l). (k, filter (\<lambda>c. \<not> now > claimRet c) l)) (cs_map s))\<rparr>)"

definition cs_get :: "string \<Rightarrow> cand_store \<Rightarrow> cand list" where
  "cs_get k s = (case mget (cs_map s) k of None \<Rightarrow> [] | Some l \<Rightarrow> l)"

definition cand_rec :: "string \<Rightarrow> js \<Rightarrow> js" where
  "cand_rec sg kb = JObj [(''signer'', JStr sg), (''killBytes'', kb)]"

definition cs_push :: "string \<Rightarrow> cand \<Rightarrow> cand_store \<Rightarrow> cand_store" where
  "cs_push k c s = s\<lparr>cs_map := mset_key k (cs_get k s @ [c]) (cs_map s),
     cs_total := cs_total s + 1, cs_bytes := cs_bytes s + c_bytes c,
     cs_perSigner := inc (signer c) (cs_perSigner s), cs_perTopic := inc (topicOf k) (cs_perTopic s)\<rparr>"

definition cs_admit ::
  "(rat \<Rightarrow> string) \<Rightarrow> string \<Rightarrow> string \<Rightarrow> js \<Rightarrow> int \<Rightarrow> tag \<Rightarrow> int option \<Rightarrow> cand_store \<Rightarrow> cand_verdict \<times> cand_store" where
  "cs_admit ns k sg kb now tg arr s0 =
     (let s = cs_reclaimExpired now s0; l = cs_get k s in
      if list_ex (\<lambda>c. signer c = sg) l then (DUP, s)
      else (let b = recBytesOf ns k (cand_rec sg kb) in
        if b > cs_recordMax s then (REFUSED_CAND_RECORD, s)
        else if cs_total s \<ge> cs_max s then (REFUSED_CAND_GLOBAL, s)
        else if cs_bytes s + b > cs_maxBytes s then (REFUSED_CAND_BYTES, s)
        else if cnt (cs_perSigner s) sg \<ge> cs_perSignerMax s then (REFUSED_CAND_SIGNER, s)
        else if cnt (cs_perTopic s) (topicOf k) \<ge> cs_perTopicMax s then (REFUSED_CAND_TOPIC, s)
        else (ADMITTED, cs_push k \<lparr>signer = sg, killBytes = kb, c_tag = tg, bodyArrivedAt = arr,
                claimRet = claimRetention now, c_bytes = b\<rparr> s)))"

definition cs_find :: "string \<Rightarrow> string \<Rightarrow> cand_store \<Rightarrow> cand option" where
  "cs_find k sg s = find (\<lambda>c. signer c = sg) (cs_get k s)"

text \<open>The first element of a list that satisfies a test, updated in place.\<close>

fun update_first :: "('a \<Rightarrow> bool) \<Rightarrow> ('a \<Rightarrow> 'a) \<Rightarrow> 'a list \<Rightarrow> 'a list" where
  "update_first P f [] = []"
| "update_first P f (x # xs) = (if P x then f x # xs else x # update_first P f xs)"

definition cs_setTag :: "string \<Rightarrow> string \<Rightarrow> tag \<Rightarrow> int option \<Rightarrow> cand_store \<Rightarrow> cand_store" where
  "cs_setTag k sg tg arr s = (case mget (cs_map s) k of None \<Rightarrow> s
     | Some l \<Rightarrow> s\<lparr>cs_map := mset_key k
         (update_first (\<lambda>c. signer c = sg) (\<lambda>c. c\<lparr>c_tag := tg, bodyArrivedAt := arr\<rparr>) l) (cs_map s)\<rparr>)"

definition cs_demoteKey :: "string \<Rightarrow> cand_store \<Rightarrow> cand_store" where
  "cs_demoteKey k s = (case mget (cs_map s) k of None \<Rightarrow> s
     | Some l \<Rightarrow> s\<lparr>cs_map := mset_key k (map (\<lambda>c. c\<lparr>c_tag := Plain, bodyArrivedAt := None\<rparr>) l) (cs_map s)\<rparr>)"

fun remove_first :: "('a \<Rightarrow> bool) \<Rightarrow> 'a list \<Rightarrow> 'a list" where
  "remove_first P [] = []"
| "remove_first P (x # xs) = (if P x then xs else x # remove_first P xs)"

definition cs_remove :: "string \<Rightarrow> string \<Rightarrow> cand_store \<Rightarrow> bool \<times> cand_store" where
  "cs_remove k sg s = (case mget (cs_map s) k of None \<Rightarrow> (False, s)
     | Some l \<Rightarrow> (case find (\<lambda>c. signer c = sg) l of None \<Rightarrow> (False, s)
        | Some c \<Rightarrow> (let l' = remove_first (\<lambda>c. signer c = sg) l; s1 = cs_uncount k c s in
            (True, s1\<lparr>cs_map := (if l' = [] then mdelete k (cs_map s) else mset_key k l' (cs_map s))\<rparr>))))"

definition cs_purge :: "string \<Rightarrow> cand_store \<Rightarrow> nat \<times> cand_store" where
  "cs_purge k s = (case mget (cs_map s) k of None \<Rightarrow> (0, s)
     | Some l \<Rightarrow> (length l, (fold (cs_uncount k) l s)\<lparr>cs_map := mdelete k (cs_map s)\<rparr>))"

definition pendingOldestFirst :: "cand_store \<Rightarrow> (string \<times> cand) list" where
  "pendingOldestFirst s = sort_key (\<lambda>(k, c). case bodyArrivedAt c of None \<Rightarrow> 0 | Some t \<Rightarrow> t)
     (concat (map (\<lambda>(k, l). map (Pair k) (filter (\<lambda>c. c_tag c = Pending) l)) (cs_map s)))"

section \<open>TombstoneStore\<close>

record tomb =
  signerPubkey :: string
  t_death :: int
  t_killBytes :: js
  t_bytes :: int

record tomb_store =
  ts_maxCount :: int
  ts_maxBytes :: int
  ts_perSignerMax :: int
  ts_perTopicMax :: int
  ts_recordMax :: int
  ts_map :: "(string, tomb) jmap"
  ts_bytes :: int
  ts_perSigner :: tally
  ts_perTopic :: tally
  minDeath :: etime

datatype tomb_verdict = OK | REFUSED_RECORD_TOO_LARGE | REFUSED_GLOBAL_COUNT | REFUSED_GLOBAL_BYTES
  | REFUSED_SIGNER | REFUSED_TOPIC

definition ts_uncount :: "string \<Rightarrow> tomb \<Rightarrow> tomb_store \<Rightarrow> tomb_store" where
  "ts_uncount k r s = s\<lparr>ts_bytes := ts_bytes s - t_bytes r,
     ts_perSigner := dec (signerPubkey r) (ts_perSigner s), ts_perTopic := dec (topicOf k) (ts_perTopic s)\<rparr>"

definition min_death :: "(string, tomb) jmap \<Rightarrow> etime" where
  "min_death m = fold (\<lambda>(k, r) d. if At (t_death r) < d then At (t_death r) else d) m Infinity"

definition ts_reclaimExpired :: "int \<Rightarrow> tomb_store \<Rightarrow> tomb_store" where
  "ts_reclaimExpired now s = (if At now \<le> minDeath s then s
     else (let s1 = fold (\<lambda>(k, r) s. if now > t_death r then ts_uncount k r s else s) (ts_map s) s;
               live = filter (\<lambda>(k, r). \<not> now > t_death r) (ts_map s)
           in s1\<lparr>ts_map := live, minDeath := min_death live\<rparr>))"

definition tomb_rec :: "string \<Rightarrow> int \<Rightarrow> js \<Rightarrow> js" where
  "tomb_rec sg d kb = JObj [(''signerPubkey'', JStr sg), (''effectiveDeath'', jint d), (''killBytes'', kb)]"

definition ts_wouldAdmit ::
  "(rat \<Rightarrow> string) \<Rightarrow> string \<Rightarrow> string \<Rightarrow> string \<Rightarrow> int \<Rightarrow> js \<Rightarrow> tomb_store \<Rightarrow> tomb_verdict" where
  "ts_wouldAdmit ns topic k sg d kb s = (let b = recBytesOf ns k (tomb_rec sg d kb) in
     if b > ts_recordMax s then REFUSED_RECORD_TOO_LARGE
     else if int (length (ts_map s)) \<ge> ts_maxCount s then REFUSED_GLOBAL_COUNT
     else if ts_bytes s + b > ts_maxBytes s then REFUSED_GLOBAL_BYTES
     else if cnt (ts_perSigner s) sg \<ge> ts_perSignerMax s then REFUSED_SIGNER
     else if cnt (ts_perTopic s) topic \<ge> ts_perTopicMax s then REFUSED_TOPIC
     else OK)"

definition ts_insert ::
  "(rat \<Rightarrow> string) \<Rightarrow> string \<Rightarrow> string \<Rightarrow> string \<Rightarrow> int \<Rightarrow> js \<Rightarrow> tomb_store \<Rightarrow> tomb_store" where
  "ts_insert ns topic k sg d kb s = (let b = recBytesOf ns k (tomb_rec sg d kb) in
     s\<lparr>ts_map := mset_key k \<lparr>signerPubkey = sg, t_death = d, t_killBytes = kb, t_bytes = b\<rparr> (ts_map s),
       ts_bytes := ts_bytes s + b,
       minDeath := (if At d < minDeath s then At d else minDeath s),
       ts_perSigner := inc sg (ts_perSigner s), ts_perTopic := inc topic (ts_perTopic s)\<rparr>)"

section \<open>TombstoneAuthority\<close>

record effects =
  cacheRemovals :: nat
  fanouts :: nat
  candidatePurges :: nat
  liveEvictions :: nat
  suppressions :: nat
  demotions :: nat

record authority =
  tomb :: tomb_store
  cand :: cand_store
  bodies :: body_cache
  fx :: effects

definition tombCapsFor :: "profile \<Rightarrow> tomb_store" where
  "tombCapsFor p = (let sub = max 1 (tombMaxCount p div SUBLIMIT_FRACTION) in
     \<lparr>ts_maxCount = tombMaxCount p, ts_maxBytes = tombMaxCount p * recordMax p, ts_perSignerMax = sub,
      ts_perTopicMax = sub, ts_recordMax = recordMax p, ts_map = [], ts_bytes = 0, ts_perSigner = [],
      ts_perTopic = [], minDeath = Infinity\<rparr>)"

definition candCapsFor :: "profile \<Rightarrow> cand_store" where
  "candCapsFor p = (let sub = max 1 (candMax p div SUBLIMIT_FRACTION) in
     \<lparr>cs_max = candMax p, cs_maxBytes = candMax p * recordMax p, cs_perSignerMax = sub,
      cs_perTopicMax = sub, cs_recordMax = recordMax p, cs_map = [], cs_total = 0, cs_bytes = 0,
      cs_perSigner = [], cs_perTopic = []\<rparr>)"

definition new_authority :: "profile \<Rightarrow> int \<Rightarrow> authority" where
  "new_authority p bodyMax = \<lparr>tomb = tombCapsFor p, cand = candCapsFor p,
     bodies = \<lparr>bc_max = bodyMax, bc_map = []\<rparr>,
     fx = \<lparr>cacheRemovals = 0, fanouts = 0, candidatePurges = 0, liveEvictions = 0, suppressions = 0,
           demotions = 0\<rparr>\<rparr>"

datatype suppress_verdict = CONFIRMED | REFUSED_MISMATCH_TOMB | REFUSED_EXPIRED
  | REFUSED_CAP tomb_verdict | SUPPRESSED

definition suppress ::
  "(rat \<Rightarrow> string) \<Rightarrow> string \<Rightarrow> string \<Rightarrow> string \<Rightarrow> js \<Rightarrow> int \<Rightarrow> int \<Rightarrow> authority \<Rightarrow> suppress_verdict \<times> authority" where
  "suppress ns topic msgId sg kb death now a0 =
     (let k = authKey topic msgId; a = a0\<lparr>tomb := ts_reclaimExpired now (tomb a0)\<rparr> in
      case mget (ts_map (tomb a)) k of
        Some existing \<Rightarrow> (if signerPubkey existing = sg then CONFIRMED else REFUSED_MISMATCH_TOMB, a)
      | None \<Rightarrow>
          if now > death then (REFUSED_EXPIRED, a)
          else (let v = ts_wouldAdmit ns topic k sg death kb (tomb a) in
            if v \<noteq> OK then (REFUSED_CAP v, a)
            else (let (had, bs) = bc_evict k (bodies a); (n, cs) = cs_purge k (cand a) in
              (SUPPRESSED, a\<lparr>tomb := ts_insert ns topic k sg death kb (tomb a), bodies := bs, cand := cs,
                 fx := (fx a)\<lparr>
                   cacheRemovals := cacheRemovals (fx a) + (if had then 1 else 0),
                   fanouts := fanouts (fx a) + 1,
                   candidatePurges := candidatePurges (fx a) + (if n > 0 then 1 else 0),
                   suppressions := suppressions (fx a) + 1\<rparr>\<rparr>))))"

definition putBody :: "string \<Rightarrow> body \<Rightarrow> authority \<Rightarrow> authority" where
  "putBody k b a = (case bc_put k b (bodies a) of
      (None, bs) \<Rightarrow> a\<lparr>bodies := bs\<rparr>
    | (Some ev, bs) \<Rightarrow> if ev = [] then a\<lparr>bodies := bs\<rparr>
        else a\<lparr>bodies := bs, cand := cs_demoteKey ev (cand a),
          fx := (fx a)\<lparr>liveEvictions := liveEvictions (fx a) + 1, demotions := demotions (fx a) + 1\<rparr>\<rparr>)"

datatype kill_verdict = KILL_CONFIRMED | DROP_MISMATCH_TOMB | KILL_SUPPRESSED | KILL_DROP_EXPIRED
  | KILL_PENDING suppress_verdict cand_verdict | DROP_NONAUTHOR_BODYPRESENT | CANDIDATE cand_verdict

definition onKill ::
  "(rat \<Rightarrow> string) \<Rightarrow> string \<Rightarrow> string \<Rightarrow> string \<Rightarrow> js \<Rightarrow> int \<Rightarrow> authority \<Rightarrow> kill_verdict \<times> authority" where
  "onKill ns topic msgId sg kb now a0 =
     (let k = authKey topic msgId; a = a0\<lparr>tomb := ts_reclaimExpired now (tomb a0)\<rparr> in
      case mget (ts_map (tomb a)) k of
        Some t \<Rightarrow> (if signerPubkey t = sg then KILL_CONFIRMED else DROP_MISMATCH_TOMB, a)
      | None \<Rightarrow> (case mget (bc_map (bodies a)) k of
          Some b \<Rightarrow>
            if publisher b = sg then
              (let (r, a1) = suppress ns topic msgId sg kb (b_death b) now a in
               if r = SUPPRESSED then (KILL_SUPPRESSED, a1)
               else if r = REFUSED_EXPIRED then (KILL_DROP_EXPIRED, a1)
               else (let (v, cs) = cs_admit ns k sg kb now Pending (Some (arrivedAt b)) (cand a1)
                     in (KILL_PENDING r v, a1\<lparr>cand := cs\<rparr>)))
            else (DROP_NONAUTHOR_BODYPRESENT, a)
        | None \<Rightarrow> (let (v, cs) = cs_admit ns k sg kb now Plain None (cand a)
                  in (CANDIDATE v, a\<lparr>cand := cs\<rparr>))))"

definition isSuppressed :: "string \<Rightarrow> string \<Rightarrow> int \<Rightarrow> authority \<Rightarrow> bool" where
  "isSuppressed topic msgId now a = (case mget (ts_map (tomb a)) (authKey topic msgId) of
      None \<Rightarrow> False | Some r \<Rightarrow> \<not> now > t_death r)"

datatype body_verdict = SUPPRESSED_TOMBSTONE | BODY_DROP_EXPIRED | BODY_SUPPRESSED
  | BODY_PENDING suppress_verdict | DELIVERED

definition onBody ::
  "(rat \<Rightarrow> string) \<Rightarrow> string \<Rightarrow> string \<Rightarrow> string \<Rightarrow> int \<Rightarrow> int \<Rightarrow> authority \<Rightarrow> body_verdict \<times> authority" where
  "onBody ns topic msgId pub death now a0 =
     (let k = authKey topic msgId; a = a0\<lparr>tomb := ts_reclaimExpired now (tomb a0)\<rparr> in
      if isSuppressed topic msgId now a then (SUPPRESSED_TOMBSTONE, a)
      else if now > death then (BODY_DROP_EXPIRED, a)
      else (let a1 = putBody k \<lparr>publisher = pub, b_death = death, arrivedAt = now\<rparr> a in
        case cs_find k pub (cand a1) of
          Some match \<Rightarrow>
            (let (r, a2) = suppress ns topic msgId pub (killBytes match) death now a1 in
             if r = SUPPRESSED \<or> r = CONFIRMED then (BODY_SUPPRESSED, a2)
             else if r = REFUSED_EXPIRED then (BODY_DROP_EXPIRED, a2)
             else (BODY_PENDING r, a2\<lparr>cand := cs_setTag k pub Pending (Some now) (cand a2)\<rparr>))
        | None \<Rightarrow>
            if cs_get k (cand a1) \<noteq> [] then
              (let (n, cs) = cs_purge k (cand a1) in
               (DELIVERED, a1\<lparr>cand := cs, fx := (fx a1)\<lparr>candidatePurges :=
                  candidatePurges (fx a1) + (if n > 0 then 1 else 0)\<rparr>\<rparr>))
            else (DELIVERED, a1)))"

definition evictBody :: "string \<Rightarrow> string \<Rightarrow> authority \<Rightarrow> bool \<times> authority" where
  "evictBody topic msgId a = (let k = authKey topic msgId; (had, bs) = bc_evict k (bodies a) in
     (had, a\<lparr>bodies := bs, cand := cs_demoteKey k (cand a),
        fx := (fx a)\<lparr>demotions := demotions (fx a) + (if had then 1 else 0)\<rparr>\<rparr>))"

definition retry_one :: "(rat \<Rightarrow> string) \<Rightarrow> int \<Rightarrow> string \<times> cand \<Rightarrow> authority \<Rightarrow> authority" where
  "retry_one ns now p a = (let (k, c) = p in
     case mget (bc_map (bodies a)) k of
       None \<Rightarrow> a
     | Some b \<Rightarrow>
         if publisher b = signer c \<and> now \<le> b_death b then
           (let (t, m) = splitKey k; (r, a1) = suppress ns t m (signer c) (killBytes c) (b_death b) now a in
            if r = SUPPRESSED then a1\<lparr>cand := snd (cs_remove k (signer c) (cand a1))\<rparr> else a1)
         else a)"

definition reclaimAndRetry :: "(rat \<Rightarrow> string) \<Rightarrow> int \<Rightarrow> authority \<Rightarrow> authority" where
  "reclaimAndRetry ns now a0 =
     (let a = a0\<lparr>tomb := ts_reclaimExpired now (tomb a0), cand := cs_reclaimExpired now (cand a0)\<rparr>
      in fold (retry_one ns now) (pendingOldestFirst (cand a)) a)"

end
