(* ===== verification/TombstoneStores.thy ===== *)
theory TombstoneStores
  imports TombstoneAuth "HOL-Library.Multiset"
begin

text \<open>
  The two bounded stores of \<open>tombstoneAuth.js\<close>: their counters are exact, their caps hold, and both
  are refusal-only stores, a contract stated as a locale and interpreted on \<open>TombstoneStore\<close> and on
  \<open>CandidateStore\<close>.
\<close>

section \<open>Books\<close>

text \<open>A tally counts, for each name, the items of a list that carry it.\<close>

definition tallies :: "('i \<Rightarrow> string) \<Rightarrow> 'i list \<Rightarrow> tally \<Rightarrow> bool" where
  "tallies f xs m \<longleftrightarrow> minvar m \<and>
     (\<forall>k. mget m k = (let n = length (filter (\<lambda>x. f x = k) xs) in if n = 0 then None else Some (Some (int n))))"

lemma tallies_Nil [simp]: "tallies f [] []"
  by (simp add: tallies_def)

lemma cnt_tallies: "tallies f xs m \<Longrightarrow> cnt m k = int (length (filter (\<lambda>x. f x = k) xs))"
  by (simp add: tallies_def cnt_def Let_def)

lemma tallies_inc: "tallies f xs m \<Longrightarrow> tallies f (x # xs) (inc (f x) m)"
  by (auto simp: tallies_def inc_def cnt_def Let_def)

text \<open>Only the multiset of items matters, so an item can be removed from anywhere.\<close>

lemma tallies_mset: "mset xs = mset ys \<Longrightarrow> tallies f xs m \<longleftrightarrow> tallies f ys m"
  unfolding tallies_def by (metis mset_filter size_mset)

lemma tallies_dec: "tallies f (x # xs) m \<Longrightarrow> tallies f xs (dec (f x) m)"
  by (auto simp: tallies_def dec_def Let_def)

lemma tallies_decs: "tallies f (xs @ ys) m \<Longrightarrow> tallies f ys (fold (\<lambda>x. dec (f x)) xs m)"
  by (induction xs arbitrary: m) (auto dest: tallies_dec)

text \<open>The books a store keeps on its items: how many, how many bytes, how many per signer and
  per topic.\<close>

definition books ::
  "('i \<Rightarrow> string) \<Rightarrow> ('i \<Rightarrow> string) \<Rightarrow> ('i \<Rightarrow> int) \<Rightarrow> 'i list \<Rightarrow> int \<Rightarrow> int \<Rightarrow> tally \<Rightarrow> tally \<Rightarrow> bool" where
  "books sg tp by xs n b ps pt \<longleftrightarrow>
     n = int (length xs) \<and> b = sum_list (map by xs) \<and> tallies sg xs ps \<and> tallies tp xs pt"

lemma books_mset: "mset xs = mset ys \<Longrightarrow> books sg tp by xs n b ps pt \<longleftrightarrow> books sg tp by ys n b ps pt"
  unfolding books_def by (metis tallies_mset mset_map sum_mset_sum_list size_mset)

lemma books_add:
  "books sg tp by xs n b ps pt \<Longrightarrow> books sg tp by (x # xs) (n + 1) (b + by x) (inc (sg x) ps) (inc (tp x) pt)"
  by (auto simp: books_def intro: tallies_inc)

lemma books_remove:
  "books sg tp by (xs @ ys) n b ps pt \<Longrightarrow>
   books sg tp by ys (n - int (length xs)) (b - sum_list (map by xs)) (fold (\<lambda>x. dec (sg x)) xs ps)
     (fold (\<lambda>x. dec (tp x)) xs pt)"
  by (auto simp: books_def intro: tallies_decs)

lemma tallies_map: "tallies f xs m \<longleftrightarrow> tallies id (map f xs) m"
  by (simp add: tallies_def filter_map comp_def)

lemma books_cong:
  assumes "map (\<lambda>x. (sg x, tp x, by x)) xs = map (\<lambda>x. (sg x, tp x, by x)) ys"
  shows "books sg tp by xs n b ps pt \<longleftrightarrow> books sg tp by ys n b ps pt"
proof -
  have "map sg xs = map sg ys" "map tp xs = map tp ys" "map by xs = map by ys"
    using arg_cong [OF assms, of "map fst"] arg_cong [OF assms, of "map (fst \<circ> snd)"]
      arg_cong [OF assms, of "map (snd \<circ> snd)"] by (simp_all add: comp_def)
  moreover have "length xs = length ys" using assms by (rule map_eq_imp_length_eq)
  ultimately show ?thesis unfolding books_def tallies_map [of sg] tallies_map [of tp] by simp
qed

text \<open>Dropping items only lowers the books.\<close>

lemma books_shrink:
  assumes "books sg tp by xs n b ps pt" and "books sg tp by ys n' b' ps' pt'"
    and "mset ys \<subseteq># mset xs" and "\<And>x. x \<in> set xs \<Longrightarrow> 0 \<le> by x"
  shows "n' \<le> n" and "b' \<le> b" and "cnt ps' k \<le> cnt ps k" and "cnt pt' k \<le> cnt pt k"
proof -
  have fl: "length (filter P ys) \<le> length (filter P xs)" for P
    using size_mset_mono [OF multiset_filter_mono [OF assms(3), of P]] by (simp flip: mset_filter)
  from fl [of "\<lambda>_. True"] show "n' \<le> n" using assms(1,2) by (simp add: books_def)
  have t: "tallies sg xs ps" "tallies tp xs pt" "tallies sg ys ps'" "tallies tp ys pt'"
    using assms(1,2) by (auto simp: books_def)
  show "cnt ps' k \<le> cnt ps k" "cnt pt' k \<le> cnt pt k"
    by (simp_all add: fl cnt_tallies [OF t(1)] cnt_tallies [OF t(2)] cnt_tallies [OF t(3)] cnt_tallies [OF t(4)])
  from assms(3) obtain zs where m: "mset xs = mset ys + zs" by (metis subset_mset.le_iff_add)
  have "0 \<le> (\<Sum>x\<in>#zs. by x)"
  proof -
    have "\<forall>x \<in># zs. 0 \<le> by x" using assms(4) m by (metis set_mset_mset union_iff)
    then show ?thesis by (induction zs) auto
  qed
  moreover have "b = b' + (\<Sum>x\<in>#zs. by x)"
    using assms(1,2) m by (simp add: books_def flip: sum_mset_sum_list)
  ultimately show "b' \<le> b" by simp
qed

section \<open>The books of the two stores\<close>

definition tomb_ok :: "tomb_store \<Rightarrow> bool" where
  "tomb_ok s \<longleftrightarrow> minvar (ts_map s)
     \<and> books (signerPubkey \<circ> snd) (topicOf \<circ> fst) (t_bytes \<circ> snd) (ts_map s)
         (int (length (ts_map s))) (ts_bytes s) (ts_perSigner s) (ts_perTopic s)
     \<and> (\<forall>p \<in> set (ts_map s). minDeath s \<le> At (t_death (snd p)))"

text \<open>Within capacity: count, bytes, the two sublimits and the size of each record.\<close>

definition tomb_bounded :: "tomb_store \<Rightarrow> bool" where
  "tomb_bounded s \<longleftrightarrow> int (length (ts_map s)) \<le> ts_maxCount s \<and> ts_bytes s \<le> ts_maxBytes s
     \<and> (\<forall>k. cnt (ts_perSigner s) k \<le> ts_perSignerMax s) \<and> (\<forall>k. cnt (ts_perTopic s) k \<le> ts_perTopicMax s)
     \<and> (\<forall>p \<in> set (ts_map s). 0 \<le> t_bytes (snd p) \<and> t_bytes (snd p) \<le> ts_recordMax s)"

definition cs_items :: "cand_store \<Rightarrow> (string \<times> cand) list" where
  "cs_items s = concat (map (\<lambda>(k, l). map (Pair k) l) (cs_map s))"

definition cand_ok :: "cand_store \<Rightarrow> bool" where
  "cand_ok s \<longleftrightarrow> minvar (cs_map s)
     \<and> books (signer \<circ> snd) (topicOf \<circ> fst) (c_bytes \<circ> snd) (cs_items s)
         (cs_total s) (cs_bytes s) (cs_perSigner s) (cs_perTopic s)
     \<and> (\<forall>(k, l) \<in> set (cs_map s). l \<noteq> [] \<and> distinct (map signer l))"

definition cand_bounded :: "cand_store \<Rightarrow> bool" where
  "cand_bounded s \<longleftrightarrow> cs_total s \<le> cs_max s \<and> cs_bytes s \<le> cs_maxBytes s
     \<and> (\<forall>k. cnt (cs_perSigner s) k \<le> cs_perSignerMax s) \<and> (\<forall>k. cnt (cs_perTopic s) k \<le> cs_perTopicMax s)
     \<and> (\<forall>p \<in> set (cs_items s). 0 \<le> c_bytes (snd p) \<and> c_bytes (snd p) \<le> cs_recordMax s)"

lemma canonicalBytes_nonneg [simp]: "0 \<le> canonicalBytes s"
  unfolding canonicalBytes_def by (induction s) auto

lemma recBytesOf_nonneg [simp]: "0 \<le> recBytesOf ns k r"
  by (simp add: recBytesOf_def)

subsection \<open>Removing a list of items\<close>

definition ts_uncounts :: "(string \<times> tomb) list \<Rightarrow> tomb_store \<Rightarrow> tomb_store" where
  "ts_uncounts = fold (\<lambda>(k, r). ts_uncount k r)"

lemma ts_uncounts_fields [simp]:
  "ts_map (ts_uncounts xs s) = ts_map s" "minDeath (ts_uncounts xs s) = minDeath s"
  "ts_maxCount (ts_uncounts xs s) = ts_maxCount s" "ts_maxBytes (ts_uncounts xs s) = ts_maxBytes s"
  "ts_perSignerMax (ts_uncounts xs s) = ts_perSignerMax s" "ts_perTopicMax (ts_uncounts xs s) = ts_perTopicMax s"
  "ts_recordMax (ts_uncounts xs s) = ts_recordMax s"
  "ts_bytes (ts_uncounts xs s) = ts_bytes s - sum_list (map (t_bytes \<circ> snd) xs)"
  "ts_perSigner (ts_uncounts xs s) = fold (\<lambda>x. dec ((signerPubkey \<circ> snd) x)) xs (ts_perSigner s)"
  "ts_perTopic (ts_uncounts xs s) = fold (\<lambda>x. dec ((topicOf \<circ> fst) x)) xs (ts_perTopic s)"
  by (induction xs arbitrary: s) (auto simp: ts_uncounts_def ts_uncount_def split: prod.splits)

lemma ts_reclaim_uncounts:
  "fold (\<lambda>(k, r) s. if now > t_death r then ts_uncount k r s else s) xs s =
   ts_uncounts (filter (\<lambda>p. now > t_death (snd p)) xs) s"
  by (induction xs arbitrary: s) (auto simp: ts_uncounts_def split: prod.splits)

definition cs_uncounts :: "(string \<times> cand) list \<Rightarrow> cand_store \<Rightarrow> cand_store" where
  "cs_uncounts = fold (\<lambda>(k, c). cs_uncount k c)"

lemma cs_uncounts_fields [simp]:
  "cs_map (cs_uncounts xs s) = cs_map s"
  "cs_max (cs_uncounts xs s) = cs_max s" "cs_maxBytes (cs_uncounts xs s) = cs_maxBytes s"
  "cs_perSignerMax (cs_uncounts xs s) = cs_perSignerMax s" "cs_perTopicMax (cs_uncounts xs s) = cs_perTopicMax s"
  "cs_recordMax (cs_uncounts xs s) = cs_recordMax s"
  "cs_total (cs_uncounts xs s) = cs_total s - int (length xs)"
  "cs_bytes (cs_uncounts xs s) = cs_bytes s - sum_list (map (c_bytes \<circ> snd) xs)"
  "cs_perSigner (cs_uncounts xs s) = fold (\<lambda>x. dec ((signer \<circ> snd) x)) xs (cs_perSigner s)"
  "cs_perTopic (cs_uncounts xs s) = fold (\<lambda>x. dec ((topicOf \<circ> fst) x)) xs (cs_perTopic s)"
  by (induction xs arbitrary: s) (auto simp: cs_uncounts_def cs_uncount_def split: prod.splits)

lemma cs_purge_uncounts: "fold (cs_uncount k) l s = cs_uncounts (map (Pair k) l) s"
  by (induction l arbitrary: s) (auto simp: cs_uncounts_def)

lemma cs_reclaim_uncounts:
  "fold (\<lambda>(k, l) s. foldr (\<lambda>c s. if now > claimRet c then cs_uncount k c s else s) l s) m s =
   cs_uncounts (concat (map (\<lambda>(k, l). map (Pair k) (rev (filter (\<lambda>c. now > claimRet c) l))) m)) s"
proof -
  have "foldr (\<lambda>c s. if now > claimRet c then cs_uncount k c s else s) l s =
        cs_uncounts (map (Pair k) (rev (filter (\<lambda>c. now > claimRet c) l))) s" for k l s
    by (induction l arbitrary: s) (auto simp: cs_uncounts_def)
  then show ?thesis by (induction m arbitrary: s) (auto simp: cs_uncounts_def)
qed

subsection \<open>Every operation keeps the books\<close>

text \<open>Because no deadline is below \<open>minDeath\<close>, the guard of \<open>reclaimExpired\<close> skips only scans that
  would have removed nothing.\<close>

lemma mset_split: "mset xs = mset (filter P xs @ filter (\<lambda>x. \<not> P x) xs)"
  by simp

lemma ts_reclaim_scan:
  assumes "\<not> At now \<le> minDeath s"
  defines "live \<equiv> filter (\<lambda>p. \<not> now > t_death (snd p)) (ts_map s)"
  shows "ts_reclaimExpired now s =
     (ts_uncounts (filter (\<lambda>p. now > t_death (snd p)) (ts_map s)) s)\<lparr>ts_map := live, minDeath := min_death live\<rparr>"
  using assms unfolding ts_reclaimExpired_def ts_reclaim_uncounts by (simp add: Let_def case_prod_unfold)

lemma ts_reclaim_map:
  assumes "tomb_ok s"
  shows "ts_map (ts_reclaimExpired now s) = filter (\<lambda>p. \<not> now > t_death (snd p)) (ts_map s)"
proof (cases "At now \<le> minDeath s")
  case True
  have "\<not> now > t_death (snd p)" if "p \<in> set (ts_map s)" for p
    using assms True that unfolding tomb_ok_def
    by (metis order_trans less_eq_etime.simps(1) linorder_not_less)
  then show ?thesis using True by (simp add: ts_reclaimExpired_def filter_id_conv)
qed (simp add: ts_reclaim_scan)

lemma min_death_le: "min_death m \<le> d \<longleftrightarrow> d = Infinity \<or> (\<exists>p \<in> set m. At (t_death (snd p)) \<le> d)"
proof -
  have "fold (\<lambda>(k, r) d. if At (t_death r) < d then At (t_death r) else d) m e \<le> d \<longleftrightarrow>
        e \<le> d \<or> (\<exists>p \<in> set m. At (t_death (snd p)) \<le> d)" for e
    by (induction m arbitrary: e) (auto split: prod.splits)
  then show ?thesis by (cases d) (auto simp: min_death_def)
qed

lemma tomb_ok_reclaim: 
  assumes "tomb_ok s"
  shows "tomb_ok (ts_reclaimExpired now s)"
proof (cases "At now \<le> minDeath s")
  case False
  let ?d = "\<lambda>p. now > t_death (snd p)"
  let ?b = "books (signerPubkey \<circ> snd) (topicOf \<circ> fst) (t_bytes \<circ> snd)"
  have "?b (filter ?d (ts_map s) @ filter (\<lambda>p. \<not> ?d p) (ts_map s)) (int (length (ts_map s))) (ts_bytes s)
          (ts_perSigner s) (ts_perTopic s)"
    using assms books_mset [OF mset_split [of "ts_map s" ?d]] unfolding tomb_ok_def by blast
  from books_remove [OF this]
  have "?b (filter (\<lambda>p. \<not> ?d p) (ts_map s)) (int (length (ts_map s)) - int (length (filter ?d (ts_map s))))
     (ts_bytes (ts_uncounts (filter ?d (ts_map s)) s)) (ts_perSigner (ts_uncounts (filter ?d (ts_map s)) s))
     (ts_perTopic (ts_uncounts (filter ?d (ts_map s)) s))" by simp
  moreover have "int (length (ts_map s)) - int (length (filter ?d (ts_map s))) =
      int (length (filter (\<lambda>p. \<not> ?d p) (ts_map s)))"
    using sum_length_filter_compl [of ?d "ts_map s"] by linarith
  moreover have "minvar (filter (\<lambda>p. \<not> ?d p) (ts_map s))"
    using assms by (simp add: tomb_ok_def minvar_def distinct_map_filter)
  moreover have "\<forall>p \<in> set m. min_death m \<le> At (t_death (snd p))" for m
    by (auto simp: min_death_le)
  ultimately show ?thesis unfolding tomb_ok_def ts_reclaim_scan [OF False] by simp
qed (simp add: assms ts_reclaimExpired_def)

lemma ts_reclaim_caps [simp]:
  "ts_maxCount (ts_reclaimExpired now s) = ts_maxCount s" "ts_maxBytes (ts_reclaimExpired now s) = ts_maxBytes s"
  "ts_perSignerMax (ts_reclaimExpired now s) = ts_perSignerMax s"
  "ts_perTopicMax (ts_reclaimExpired now s) = ts_perTopicMax s" "ts_recordMax (ts_reclaimExpired now s) = ts_recordMax s"
  by (simp_all add: ts_reclaimExpired_def Let_def ts_reclaim_uncounts)

lemma tomb_bounded_reclaim:
  assumes "tomb_ok s" "tomb_bounded s"
  shows "tomb_bounded (ts_reclaimExpired now s)"
proof -
  let ?s = "ts_reclaimExpired now s"
  have sub: "mset (ts_map ?s) \<subseteq># mset (ts_map s)" by (simp add: ts_reclaim_map assms multiset_filter_subset)
  have b: "0 \<le> (t_bytes \<circ> snd) x" if "x \<in> set (ts_map s)" for x
    using assms(2) that by (simp add: tomb_bounded_def)
  note sh = books_shrink [OF _ _ sub b]
  have bk: "books (signerPubkey \<circ> snd) (topicOf \<circ> fst) (t_bytes \<circ> snd) (ts_map x)
      (int (length (ts_map x))) (ts_bytes x) (ts_perSigner x) (ts_perTopic x)" if "tomb_ok x" for x
    using that by (simp add: tomb_ok_def)
  note sh = sh [OF bk [OF assms(1)] bk [OF tomb_ok_reclaim [OF assms(1)]]]
  have "\<forall>p \<in> set (ts_map ?s). 0 \<le> t_bytes (snd p) \<and> t_bytes (snd p) \<le> ts_recordMax s"
    using assms by (simp add: tomb_bounded_def ts_reclaim_map)
  with assms(2) sh show ?thesis unfolding tomb_bounded_def ts_reclaim_caps by (meson order_trans)
qed

definition tomb_of :: "(rat \<Rightarrow> string) \<Rightarrow> string \<Rightarrow> string \<Rightarrow> int \<Rightarrow> js \<Rightarrow> tomb" where
  "tomb_of ns k sg d kb = \<lparr>signerPubkey = sg, t_death = d, t_killBytes = kb,
     t_bytes = recBytesOf ns k (tomb_rec sg d kb)\<rparr>"

lemma tomb_of_fields [simp]:
  "signerPubkey (tomb_of ns k sg d kb) = sg" "t_death (tomb_of ns k sg d kb) = d"
  "t_killBytes (tomb_of ns k sg d kb) = kb" "t_bytes (tomb_of ns k sg d kb) = recBytesOf ns k (tomb_rec sg d kb)"
  by (simp_all add: tomb_of_def)

lemma ts_insert_fields [simp]:
  "ts_map (ts_insert ns t k sg d kb s) = mset_key k (tomb_of ns k sg d kb) (ts_map s)"
  "ts_bytes (ts_insert ns t k sg d kb s) = ts_bytes s + recBytesOf ns k (tomb_rec sg d kb)"
  "ts_perSigner (ts_insert ns t k sg d kb s) = inc sg (ts_perSigner s)"
  "ts_perTopic (ts_insert ns t k sg d kb s) = inc t (ts_perTopic s)"
  "minDeath (ts_insert ns t k sg d kb s) = min (At d) (minDeath s)"
  "ts_maxCount (ts_insert ns t k sg d kb s) = ts_maxCount s" "ts_maxBytes (ts_insert ns t k sg d kb s) = ts_maxBytes s"
  "ts_perSignerMax (ts_insert ns t k sg d kb s) = ts_perSignerMax s"
  "ts_perTopicMax (ts_insert ns t k sg d kb s) = ts_perTopicMax s"
  "ts_recordMax (ts_insert ns t k sg d kb s) = ts_recordMax s"
  by (auto simp: ts_insert_def tomb_of_def Let_def min_def not_le)

lemma tomb_ok_insert:
  assumes "tomb_ok s" "mget (ts_map s) k = None" "t = topicOf k"
  shows "tomb_ok (ts_insert ns t k sg d kb s)"
proof -
  let ?r = "(k, tomb_of ns k sg d kb)"
  have m: "mset_key k (tomb_of ns k sg d kb) (ts_map s) = ts_map s @ [?r]"
    by (rule mset_key_fresh [OF assms(2)])
  have "books (signerPubkey \<circ> snd) (topicOf \<circ> fst) (t_bytes \<circ> snd) (?r # ts_map s)
     (int (length (ts_map s)) + 1) (ts_bytes s + (t_bytes \<circ> snd) ?r)
     (inc ((signerPubkey \<circ> snd) ?r) (ts_perSigner s)) (inc ((topicOf \<circ> fst) ?r) (ts_perTopic s))"
    using assms(1) unfolding tomb_ok_def by (blast intro: books_add)
  then have "books (signerPubkey \<circ> snd) (topicOf \<circ> fst) (t_bytes \<circ> snd) (ts_map s @ [?r])
     (int (length (ts_map s @ [?r]))) (ts_bytes s + recBytesOf ns k (tomb_rec sg d kb))
     (inc sg (ts_perSigner s)) (inc t (ts_perTopic s))"
    using books_mset [of "?r # ts_map s" "ts_map s @ [?r]"] assms(3) by (simp add: add.commute)
  moreover have "minvar (ts_map s @ [?r])"
    using minvar_mset_key [of "ts_map s" k] assms(1) m unfolding tomb_ok_def by metis
  moreover have "\<forall>p \<in> set (ts_map s @ [?r]). min (At d) (minDeath s) \<le> At (t_death (snd p))"
    using assms(1) by (auto simp: tomb_ok_def min_le_iff_disj)
  ultimately show ?thesis unfolding tomb_ok_def ts_insert_fields m by blast
qed

lemma cnt_inc: "cnt (inc k m) j = cnt m j + (if j = k then 1 else 0)"
  by (simp add: cnt_def inc_def)

lemma ts_wouldAdmit_OK:
  "ts_wouldAdmit ns t k sg d kb s = OK \<longleftrightarrow> recBytesOf ns k (tomb_rec sg d kb) \<le> ts_recordMax s
     \<and> int (length (ts_map s)) < ts_maxCount s \<and> ts_bytes s + recBytesOf ns k (tomb_rec sg d kb) \<le> ts_maxBytes s
     \<and> cnt (ts_perSigner s) sg < ts_perSignerMax s \<and> cnt (ts_perTopic s) t < ts_perTopicMax s"
  by (auto simp: ts_wouldAdmit_def Let_def)

lemma tomb_bounded_insert:
  assumes "tomb_bounded s" "mget (ts_map s) k = None" "ts_wouldAdmit ns t k sg d kb s = OK"
  shows "tomb_bounded (ts_insert ns t k sg d kb s)"
  using assms unfolding tomb_bounded_def ts_wouldAdmit_OK
  by (auto simp: mset_key_fresh cnt_inc)

subsection \<open>The candidate store\<close>

lemma cs_items_split:
  "cs_map s = pre @ (k, l) # post \<Longrightarrow>
   cs_items s = concat (map (\<lambda>(k, l). map (Pair k) l) pre) @ map (Pair k) l
     @ concat (map (\<lambda>(k, l). map (Pair k) l) post)"
  by (simp add: cs_items_def)

lemma cs_reclaim_items:
  "cs_items (cs_reclaimExpired now s) = filter (\<lambda>p. \<not> now > claimRet (snd p)) (cs_items s)"
proof -
  have "concat (map (\<lambda>(k, l). map (Pair k) l) (filter (\<lambda>(k, l). l \<noteq> [])
          (map (\<lambda>(k, l). (k, filter (\<lambda>c. \<not> now > claimRet c) l)) m))) =
        filter (\<lambda>p. \<not> now > claimRet (snd p)) (concat (map (\<lambda>(k, l). map (Pair k) l) m))" for m
    by (induction m) (auto simp: filter_map comp_def)
  then show ?thesis by (simp add: cs_items_def cs_reclaimExpired_def Let_def)
qed

definition dead_items :: "int \<Rightarrow> cand_store \<Rightarrow> (string \<times> cand) list" where
  "dead_items now s =
     concat (map (\<lambda>(k, l). map (Pair k) (rev (filter (\<lambda>c. now > claimRet c) l))) (cs_map s))"

lemma mset_dead_items: "mset (dead_items now s) = mset (filter (\<lambda>p. now > claimRet (snd p)) (cs_items s))"
proof -
  have "mset (concat (map (\<lambda>(k, l). map (Pair k) (rev (filter (\<lambda>c. now > claimRet c) l))) m)) =
     mset (filter (\<lambda>p. now > claimRet (snd p)) (concat (map (\<lambda>(k, l). map (Pair k) l) m)))" for m
    by (induction m) (auto simp: filter_map comp_def rev_map mset_rev simp flip: mset_filter)
  then show ?thesis by (simp add: dead_items_def cs_items_def)
qed

lemma cs_reclaim_eq:
  "cs_reclaimExpired now s = (cs_uncounts (dead_items now s) s)\<lparr>cs_map := filter (\<lambda>(k, l). l \<noteq> [])
            (map (\<lambda>(k, l). (k, filter (\<lambda>c. \<not> now > claimRet c) l)) (cs_map s))\<rparr>"
  unfolding cs_reclaimExpired_def cs_reclaim_uncounts dead_items_def by (simp add: Let_def)

lemma cs_reclaim_caps [simp]:
  "cs_max (cs_reclaimExpired now s) = cs_max s" "cs_maxBytes (cs_reclaimExpired now s) = cs_maxBytes s"
  "cs_perSignerMax (cs_reclaimExpired now s) = cs_perSignerMax s"
  "cs_perTopicMax (cs_reclaimExpired now s) = cs_perTopicMax s" "cs_recordMax (cs_reclaimExpired now s) = cs_recordMax s"
  by (simp_all add: cs_reclaim_eq)

definition lists_ok :: "(string, cand list) jmap \<Rightarrow> bool" where
  "lists_ok m \<longleftrightarrow> minvar m \<and> (\<forall>(k, l) \<in> set m. l \<noteq> [] \<and> distinct (map signer l))"

lemma lists_ok_set: "lists_ok m \<Longrightarrow> l \<noteq> [] \<Longrightarrow> distinct (map signer l) \<Longrightarrow> lists_ok (mset_key k l m)"
  using set_mset_key_subset [of k l m] unfolding lists_ok_def by fast

lemma lists_ok_delete: "lists_ok m \<Longrightarrow> lists_ok (mdelete k m)"
  unfolding lists_ok_def by (auto simp: mdelete_def)

lemma cand_ok_iff:
  "cand_ok s \<longleftrightarrow> lists_ok (cs_map s) \<and> books (signer \<circ> snd) (topicOf \<circ> fst) (c_bytes \<circ> snd) (cs_items s)
         (cs_total s) (cs_bytes s) (cs_perSigner s) (cs_perTopic s)"
  by (auto simp: cand_ok_def lists_ok_def)

text \<open>Two shapes cover every removal: the counters lose a list of items and the map loses the same
  items; the caps are untouched.\<close>

lemma cand_ok_removed:
  assumes "cand_ok s" "lists_ok m" "mset (cs_items s) = mset (xs @ cs_items (s\<lparr>cs_map := m\<rparr>))"
  shows "cand_ok ((cs_uncounts xs s)\<lparr>cs_map := m\<rparr>)"
proof -
  have "books (signer \<circ> snd) (topicOf \<circ> fst) (c_bytes \<circ> snd) (xs @ cs_items (s\<lparr>cs_map := m\<rparr>))
     (cs_total s) (cs_bytes s) (cs_perSigner s) (cs_perTopic s)"
    using assms(1) books_mset [OF assms(3)] unfolding cand_ok_iff by blast
  from books_remove [OF this] assms(2) show ?thesis by (simp add: cand_ok_iff cs_items_def)
qed

lemma cand_bounded_sub:
  assumes "cand_ok s" "cand_bounded s" "cand_ok s'" "mset (cs_items s') \<subseteq># mset (cs_items s)"
    and "cs_max s' = cs_max s" "cs_maxBytes s' = cs_maxBytes s" "cs_perSignerMax s' = cs_perSignerMax s"
      "cs_perTopicMax s' = cs_perTopicMax s" "cs_recordMax s' = cs_recordMax s"
  shows "cand_bounded s'"
proof -
  have b: "0 \<le> (c_bytes \<circ> snd) x" if "x \<in> set (cs_items s)" for x
    using assms(2) that by (simp add: cand_bounded_def)
  have "set (cs_items s') \<subseteq> set (cs_items s)" using assms(4) by (metis set_mset_mono set_mset_mset)
  then have "\<forall>p \<in> set (cs_items s'). 0 \<le> c_bytes (snd p) \<and> c_bytes (snd p) \<le> cs_recordMax s"
    using assms(2) unfolding cand_bounded_def by blast
  moreover note books_shrink [OF assms(1) [unfolded cand_ok_def, THEN conjunct2, THEN conjunct1]
      assms(3) [unfolded cand_ok_def, THEN conjunct2, THEN conjunct1] assms(4) b]
  ultimately show ?thesis using assms(2) unfolding cand_bounded_def assms(5-9) by (meson order_trans)
qed

lemma cs_reclaim_keys:
  "mkeys (filter (\<lambda>(k, l). l \<noteq> []) (map (\<lambda>(k, l). (k, filter P l)) m)) =
   map fst (filter (\<lambda>(k, l). filter P l \<noteq> []) m)"
  by (induction m) auto

lemma lists_ok_reclaim:
  "lists_ok m \<Longrightarrow> lists_ok (filter (\<lambda>(k, l). l \<noteq> []) (map (\<lambda>(k, l). (k, filter P l)) m))"
  unfolding lists_ok_def minvar_def cs_reclaim_keys
  by (auto simp: distinct_map_filter)

lemma cand_ok_reclaim:
  assumes "cand_ok s"
  shows "cand_ok (cs_reclaimExpired now s)"
  unfolding cs_reclaim_eq
proof (rule cand_ok_removed [OF assms lists_ok_reclaim])
  show "lists_ok (cs_map s)" using assms by (simp add: cand_ok_iff)
  show "mset (cs_items s) = mset (dead_items now s @ cs_items (s\<lparr>cs_map := filter (\<lambda>(k, l). l \<noteq> [])
            (map (\<lambda>(k, l). (k, filter (\<lambda>c. \<not> now > claimRet c) l)) (cs_map s))\<rparr>))"
    using mset_split [of "cs_items s" "\<lambda>p. now > claimRet (snd p)"] cs_reclaim_items [of now s]
    by (simp add: mset_dead_items cs_reclaim_eq cs_items_def)
qed

lemma cand_bounded_reclaim: "cand_ok s \<Longrightarrow> cand_bounded s \<Longrightarrow> cand_bounded (cs_reclaimExpired now s)"
  by (rule cand_bounded_sub [of s]) (auto simp: cand_ok_reclaim cs_reclaim_items multiset_filter_subset)

text \<open>Re-tagging leaves the books alone.\<close>

lemma cand_ok_retag:
  assumes "cand_ok s" "mget (cs_map s) k = Some l" "map signer l' = map signer l" "map c_bytes l' = map c_bytes l"
  shows "cand_ok (s\<lparr>cs_map := mset_key k l' (cs_map s)\<rparr>)"
    and "cand_bounded s \<Longrightarrow> cand_bounded (s\<lparr>cs_map := mset_key k l' (cs_map s)\<rparr>)"
proof -
  from assms(1,2) obtain pre post where m: "cs_map s = pre @ (k, l) # post" 
    and m': "mset_key k l' (cs_map s) = pre @ (k, l') # post"
    by (auto simp: cand_ok_def elim: mget_split)
  let ?s = "s\<lparr>cs_map := mset_key k l' (cs_map s)\<rparr>"
  let ?f = "\<lambda>x. ((signer \<circ> snd) x, (topicOf \<circ> fst) x, (c_bytes \<circ> snd) x)"
  have len: "length l' = length l" using assms(3) by (rule map_eq_imp_length_eq)
  have nth: "signer (l' ! i) = signer (l ! i) \<and> c_bytes (l' ! i) = c_bytes (l ! i)" if "i < length l" for i
    using that len assms(3,4) by (metis nth_map)
  have "map ?f (map (Pair k) l') = map ?f (map (Pair k) l)"
    by (rule nth_equalityI) (simp_all add: len nth)
  then have eq: "map ?f (cs_items ?s) = map ?f (cs_items s)"
    unfolding m' cs_items_split [OF m] by (simp add: cs_items_def)
  have "l' \<noteq> []" "distinct (map signer l')" using assms m len by (auto simp: cand_ok_def)
  then have "lists_ok (mset_key k l' (cs_map s))"
    using assms(1) by (simp add: cand_ok_iff lists_ok_set)
  with assms(1) show ok: "cand_ok ?s"
    by (simp add: cand_ok_iff books_cong [of "signer \<circ> snd" "topicOf \<circ> fst" "c_bytes \<circ> snd", OF eq])
  let ?B = "\<lambda>z. (\<lambda>p. c_bytes (snd p)) ` set (cs_items z)"
  have "?B ?s = ?B s"
    using arg_cong [OF eq, of "\<lambda>z. set (map (snd \<circ> snd) z)"] by (simp add: comp_def)
  moreover have "(\<forall>p \<in> set (cs_items z). Q (c_bytes (snd p))) \<longleftrightarrow> (\<forall>b \<in> ?B z. Q b)" for z Q
    by simp
  ultimately have "(\<forall>p \<in> set (cs_items ?s). Q (c_bytes (snd p))) \<longleftrightarrow> (\<forall>p \<in> set (cs_items s). Q (c_bytes (snd p)))" for Q
    by metis
  from this [of "\<lambda>b. 0 \<le> b \<and> b \<le> cs_recordMax s"] show "cand_bounded s \<Longrightarrow> cand_bounded ?s"
    unfolding cand_bounded_def by simp
qed

lemma update_first_map: "(\<And>x. g (f x) = g x) \<Longrightarrow> map g (update_first P f l) = map g l"
  by (induction l) auto

lemma cand_ok_setTag: "cand_ok s \<Longrightarrow> cand_ok (cs_setTag k sg tg arr s)"
  by (auto simp: cs_setTag_def update_first_map intro!: cand_ok_retag(1) split: option.splits)

lemma cand_bounded_setTag: "cand_ok s \<Longrightarrow> cand_bounded s \<Longrightarrow> cand_bounded (cs_setTag k sg tg arr s)"
  by (auto simp: cs_setTag_def update_first_map intro!: cand_ok_retag(2) split: option.splits)

lemma cand_ok_demoteKey: "cand_ok s \<Longrightarrow> cand_ok (cs_demoteKey k s)"
  by (auto simp: cs_demoteKey_def intro!: cand_ok_retag(1) split: option.splits)

lemma cand_bounded_demoteKey: "cand_ok s \<Longrightarrow> cand_bounded s \<Longrightarrow> cand_bounded (cs_demoteKey k s)"
  by (auto simp: cs_demoteKey_def intro!: cand_ok_retag(2) split: option.splits)

lemma cs_get_Some: "mget (cs_map s) k = Some l \<Longrightarrow> cs_get k s = l"
  by (simp add: cs_get_def)

lemma cs_items_purge:
  assumes "cand_ok s" "mget (cs_map s) k = Some l"
  shows "mset (cs_items s) = mset (map (Pair k) l @ cs_items (s\<lparr>cs_map := mdelete k (cs_map s)\<rparr>))"
proof -
  from assms obtain pre post where m: "cs_map s = pre @ (k, l) # post" "mdelete k (cs_map s) = pre @ post"
    by (auto simp: cand_ok_def elim: mget_split)
  show ?thesis unfolding cs_items_split [OF m(1)] m(2) by (simp add: cs_items_def)
qed

lemma cs_purge_Some:
  "mget (cs_map s) k = Some l \<Longrightarrow> snd (cs_purge k s) = (cs_uncounts (map (Pair k) l) s)\<lparr>cs_map := mdelete k (cs_map s)\<rparr>"
  by (simp add: cs_purge_def cs_purge_uncounts)

lemma cand_ok_purge:
  assumes "cand_ok s"
  shows "cand_ok (snd (cs_purge k s))"
proof (cases "mget (cs_map s) k")
  case (Some l)
  show ?thesis unfolding cs_purge_Some [OF Some]
    using assms cs_items_purge [OF assms Some] by (intro cand_ok_removed) (auto simp: cand_ok_iff lists_ok_delete)
qed (simp add: assms cs_purge_def)

lemma cand_purge_sub:
  assumes "cand_ok s"
  shows "mset (cs_items (snd (cs_purge k s))) \<subseteq># mset (cs_items s)"
proof (cases "mget (cs_map s) k")
  case (Some l)
  have "cs_items (snd (cs_purge k s)) = cs_items (s\<lparr>cs_map := mdelete k (cs_map s)\<rparr>)"
    by (simp add: cs_purge_Some [OF Some] cs_items_def)
  then show ?thesis by (simp add: cs_items_purge [OF assms Some])
qed (simp add: cs_purge_def)

lemma cs_purge_caps [simp]:
  "cs_max (snd (cs_purge k s)) = cs_max s" "cs_maxBytes (snd (cs_purge k s)) = cs_maxBytes s"
  "cs_perSignerMax (snd (cs_purge k s)) = cs_perSignerMax s" "cs_perTopicMax (snd (cs_purge k s)) = cs_perTopicMax s"
  "cs_recordMax (snd (cs_purge k s)) = cs_recordMax s"
  by (auto simp: cs_purge_def cs_purge_uncounts split: option.splits)

lemma cand_bounded_purge: "cand_ok s \<Longrightarrow> cand_bounded s \<Longrightarrow> cand_bounded (snd (cs_purge k s))"
  by (rule cand_bounded_sub [of s]) (auto simp: cand_ok_purge cand_purge_sub)

lemma cs_purge_get: "mget (cs_map (snd (cs_purge k s))) = (mget (cs_map s))(k := None)"
  by (auto simp: cs_purge_def cs_purge_uncounts split: option.splits)

text \<open>\<open>retry_one\<close> removes a candidate only after \<open>suppress\<close> has purged its key, so \<open>remove\<close> finds nothing.\<close>

lemma cs_remove_absent: "mget (cs_map s) k = None \<Longrightarrow> cs_remove k sg s = (False, s)"
  by (simp add: cs_remove_def)

lemma cs_push_items:
  assumes "cand_ok s"
  shows "mset (cs_items (cs_push k c s)) = add_mset (k, c) (mset (cs_items s))"
proof (cases "mget (cs_map s) k")
  case None
  then show ?thesis by (simp add: cs_items_def cs_push_def cs_get_def mset_key_fresh)
next
  case (Some l)
  with assms obtain pre post where m: "cs_map s = pre @ (k, l) # post"
      "\<And>v. mset_key k v (cs_map s) = pre @ (k, v) # post"
    by (auto simp: cand_ok_def elim: mget_split)
  show ?thesis unfolding cs_items_split [OF m(1)] cs_push_def m(2) cs_get_Some [OF Some]
    by (simp add: cs_items_def)
qed

lemma cs_push_fields [simp]:
  "cs_max (cs_push k c s) = cs_max s" "cs_maxBytes (cs_push k c s) = cs_maxBytes s"
  "cs_perSignerMax (cs_push k c s) = cs_perSignerMax s" "cs_perTopicMax (cs_push k c s) = cs_perTopicMax s"
  "cs_recordMax (cs_push k c s) = cs_recordMax s" "cs_total (cs_push k c s) = cs_total s + 1"
  "cs_bytes (cs_push k c s) = cs_bytes s + c_bytes c" "cs_perSigner (cs_push k c s) = inc (signer c) (cs_perSigner s)"
  "cs_perTopic (cs_push k c s) = inc (topicOf k) (cs_perTopic s)"
  by (simp_all add: cs_push_def)

lemma cand_ok_push:
  assumes "cand_ok s" "signer c \<notin> signer ` set (cs_get k s)"
  shows "cand_ok (cs_push k c s)"
proof -
  have "books (signer \<circ> snd) (topicOf \<circ> fst) (c_bytes \<circ> snd) ((k, c) # cs_items s) (cs_total s + 1)
    (cs_bytes s + (c_bytes \<circ> snd) (k, c)) (inc ((signer \<circ> snd) (k, c)) (cs_perSigner s))
    (inc ((topicOf \<circ> fst) (k, c)) (cs_perTopic s))"
    using assms(1) unfolding cand_ok_iff by (blast intro: books_add)
  moreover have "distinct (map signer (cs_get k s))"
    using assms(1) by (auto simp: cand_ok_def cs_get_def dest!: mget_Some_in split: option.splits)
  then have "lists_ok (cs_map (cs_push k c s))"
    using assms by (simp add: cs_push_def cand_ok_iff lists_ok_set)
  ultimately show ?thesis using books_mset [of "(k, c) # cs_items s" "cs_items (cs_push k c s)"]
    by (simp add: cand_ok_iff cs_push_items [OF assms(1)])
qed

definition cs_admits :: "string \<Rightarrow> cand \<Rightarrow> cand_store \<Rightarrow> bool" where
  "cs_admits k c s \<longleftrightarrow> signer c \<notin> signer ` set (cs_get k s) \<and> 0 \<le> c_bytes c \<and> c_bytes c \<le> cs_recordMax s
     \<and> cs_total s < cs_max s \<and> cs_bytes s + c_bytes c \<le> cs_maxBytes s
     \<and> cnt (cs_perSigner s) (signer c) < cs_perSignerMax s \<and> cnt (cs_perTopic s) (topicOf k) < cs_perTopicMax s"

lemma cand_bounded_push:
  assumes "cand_ok s" "cand_bounded s" "cs_admits k c s"
  shows "cand_bounded (cs_push k c s)"
proof -
  have "set (cs_items (cs_push k c s)) = insert (k, c) (set (cs_items s))"
    using arg_cong [OF cs_push_items [OF assms(1)], of set_mset] by simp
  with assms(2,3) show ?thesis unfolding cand_bounded_def cs_admits_def by (auto simp: cnt_inc)
qed

text \<open>\<open>admit\<close> reclaims, then either refuses or pushes exactly one candidate.\<close>

lemma cs_admit_cases:
  obtains (refused) v where "v \<noteq> ADMITTED" and "cs_admit ns k sg kb now tg arr s = (v, cs_reclaimExpired now s)"
  | (admitted) c where "cs_admit ns k sg kb now tg arr s = (ADMITTED, cs_push k c (cs_reclaimExpired now s))"
      and "cs_admits k c (cs_reclaimExpired now s)" and "signer c = sg" and "killBytes c = kb"
      and "c_tag c = tg" and "bodyArrivedAt c = arr" and "claimRet c = claimRetention now"
proof -
  let ?s = "cs_reclaimExpired now s"
  let ?b = "recBytesOf ns k (cand_rec sg kb)"
  let ?c = "\<lparr>signer = sg, killBytes = kb, c_tag = tg, bodyArrivedAt = arr, claimRet = claimRetention now, c_bytes = ?b\<rparr>"
  show thesis
  proof (cases "cs_admits k ?c ?s")
    case True
    then have "cs_admit ns k sg kb now tg arr s = (ADMITTED, cs_push k ?c ?s)"
      by (auto simp: cs_admits_def cs_admit_def Let_def list_ex_iff)
    with True show thesis by (intro admitted) auto
  next
    case False
    then show thesis by (intro refused [of "fst (cs_admit ns k sg kb now tg arr s)"])
       (auto simp: cs_admits_def cs_admit_def Let_def list_ex_iff)
  qed
qed

lemma cand_ok_admit: "cand_ok s \<Longrightarrow> cand_ok (snd (cs_admit ns k sg kb now tg arr s))"
  by (rule cs_admit_cases [of ns k sg kb now tg arr s])
    (auto simp: cand_ok_reclaim cs_admits_def intro!: cand_ok_push)

lemma cand_bounded_admit:
  "cand_ok s \<Longrightarrow> cand_bounded s \<Longrightarrow> cand_bounded (snd (cs_admit ns k sg kb now tg arr s))"
  by (rule cs_admit_cases [of ns k sg kb now tg arr s])
    (auto simp: cand_ok_reclaim cand_bounded_reclaim intro!: cand_bounded_push)

section \<open>Refusal-only stores\<close>

text \<open>The contract both stores promise: within their caps, an item leaves only when it is dead, an
  item enters only when the store admits it. What follows for any sequence of reclamations and
  admissions at one time is proved here once.\<close>

locale refusal_store =
  fixes items :: "'s \<Rightarrow> 'i list"
    and dead :: "int \<Rightarrow> 'i \<Rightarrow> bool"
    and reclaim :: "int \<Rightarrow> 's \<Rightarrow> 's"
    and admits :: "'i \<Rightarrow> 's \<Rightarrow> bool"
    and add :: "'i \<Rightarrow> 's \<Rightarrow> 's"
    and invar :: "'s \<Rightarrow> bool"
    and cap :: "'s \<Rightarrow> int"
  assumes items_reclaim: "invar s \<Longrightarrow> items (reclaim now s) = filter (\<lambda>i. \<not> dead now i) (items s)"
    and items_add: "invar s \<Longrightarrow> admits i s \<Longrightarrow> mset (items (add i s)) = add_mset i (mset (items s))"
    and invar_reclaim: "invar s \<Longrightarrow> invar (reclaim now s)"
    and invar_add: "invar s \<Longrightarrow> admits i s \<Longrightarrow> invar (add i s)"
    and within_cap: "invar s \<Longrightarrow> int (length (items s)) \<le> cap s"
    and cap_reclaim: "cap (reclaim now s) = cap s"
    and cap_add: "cap (add i s) = cap s"
begin

inductive evolves :: "int \<Rightarrow> 's \<Rightarrow> 's \<Rightarrow> bool" for now where
  stay: "evolves now s s"
| reclaimed: "evolves now s s' \<Longrightarrow> evolves now s (reclaim now s')"
| added: "evolves now s s' \<Longrightarrow> admits i s' \<Longrightarrow> \<not> dead now i \<Longrightarrow> evolves now s (add i s')"

lemma evolves_trans: "evolves now s' s'' \<Longrightarrow> evolves now s s' \<Longrightarrow> evolves now s s''"
  by (induction rule: evolves.induct) (auto intro: evolves.intros)

lemma evolves_invar: "evolves now s s' \<Longrightarrow> invar s \<Longrightarrow> invar s'"
  by (induction rule: evolves.induct) (auto intro: invar_reclaim invar_add)

lemma evolves_cap: "evolves now s s' \<Longrightarrow> cap s' = cap s"
  by (induction rule: evolves.induct) (auto simp: cap_reclaim cap_add)

lemma set_items_add: "invar s \<Longrightarrow> admits i s \<Longrightarrow> set (items (add i s)) = insert i (set (items s))"
  using arg_cong [OF items_add, of s i set_mset] by simp

lemma evolves_keeps:
  "evolves now s s' \<Longrightarrow> invar s \<Longrightarrow> i \<in> set (items s) \<Longrightarrow> \<not> dead now i \<Longrightarrow> i \<in> set (items s')"
  by (induction rule: evolves.induct) (auto simp: items_reclaim set_items_add evolves_invar)

lemma evolves_new:
  "evolves now s s' \<Longrightarrow> invar s \<Longrightarrow> i \<in> set (items s') \<Longrightarrow> i \<in> set (items s) \<or> \<not> dead now i"
  by (induction rule: evolves.induct) (auto simp: items_reclaim set_items_add evolves_invar)

lemma evolves_bounded: "evolves now s s' \<Longrightarrow> invar s \<Longrightarrow> int (length (items s')) \<le> cap s"
  using within_cap [OF evolves_invar] evolves_cap by fastforce

end

definition ts_admits :: "(rat \<Rightarrow> string) \<Rightarrow> string \<times> tomb \<Rightarrow> tomb_store \<Rightarrow> bool" where
  "ts_admits ns p s \<longleftrightarrow> mget (ts_map s) (fst p) = None
     \<and> snd p = tomb_of ns (fst p) (signerPubkey (snd p)) (t_death (snd p)) (t_killBytes (snd p))
     \<and> ts_wouldAdmit ns (topicOf (fst p)) (fst p) (signerPubkey (snd p)) (t_death (snd p)) (t_killBytes (snd p)) s = OK"

definition ts_add :: "(rat \<Rightarrow> string) \<Rightarrow> string \<times> tomb \<Rightarrow> tomb_store \<Rightarrow> tomb_store" where
  "ts_add ns p = ts_insert ns (topicOf (fst p)) (fst p) (signerPubkey (snd p)) (t_death (snd p)) (t_killBytes (snd p))"

definition tomb_inv :: "tomb_store \<Rightarrow> bool" where
  "tomb_inv s \<longleftrightarrow> tomb_ok s \<and> tomb_bounded s"

definition cand_inv :: "cand_store \<Rightarrow> bool" where
  "cand_inv s \<longleftrightarrow> cand_ok s \<and> cand_bounded s"

interpretation ts: refusal_store ts_map "\<lambda>now p. now > t_death (snd p)" ts_reclaimExpired "ts_admits ns" "ts_add ns"
  tomb_inv ts_maxCount for ns
proof unfold_locales
  fix s :: tomb_store and i :: "string \<times> tomb" and now :: int
  show "tomb_inv s \<Longrightarrow> ts_map (ts_reclaimExpired now s) = filter (\<lambda>i. \<not> t_death (snd i) < now) (ts_map s)"
    by (simp add: tomb_inv_def ts_reclaim_map)
  show "tomb_inv s \<Longrightarrow> tomb_inv (ts_reclaimExpired now s)"
    by (simp add: tomb_inv_def tomb_ok_reclaim tomb_bounded_reclaim)
  show "tomb_inv s \<Longrightarrow> int (length (ts_map s)) \<le> ts_maxCount s"
    by (simp add: tomb_inv_def tomb_bounded_def)
  assume adm: "ts_admits ns i s"
  then have "ts_map (ts_add ns i s) = ts_map s @ [i]"
    by (cases i) (simp add: ts_admits_def ts_add_def mset_key_fresh)
  then show "mset (ts_map (ts_add ns i s)) = add_mset i (mset (ts_map s))" by simp
  show "tomb_inv s \<Longrightarrow> tomb_inv (ts_add ns i s)"
    using adm by (simp add: tomb_inv_def ts_admits_def ts_add_def tomb_ok_insert tomb_bounded_insert)
qed (simp_all add: ts_add_def)

interpretation cs: refusal_store cs_items "\<lambda>now p. now > claimRet (snd p)" cs_reclaimExpired
  "\<lambda>p. cs_admits (fst p) (snd p)" "\<lambda>p. cs_push (fst p) (snd p)" cand_inv cs_max
proof unfold_locales
  fix s :: cand_store and i :: "string \<times> cand" and now :: int
  show "cand_inv s \<Longrightarrow> int (length (cs_items s)) \<le> cs_max s"
    by (simp add: cand_inv_def cand_ok_def cand_bounded_def books_def)
  show "cand_inv s \<Longrightarrow> cs_admits (fst i) (snd i) s \<Longrightarrow> cand_inv (cs_push (fst i) (snd i) s)"
    unfolding cand_inv_def using cand_ok_push cand_bounded_push cs_admits_def by blast
qed (simp_all add: cs_reclaim_items cand_inv_def cs_push_items cand_ok_reclaim cand_bounded_reclaim)

lemma cs_admit_evolves: "cs.evolves now s (snd (cs_admit ns k sg kb now tg arr s))"
proof (rule cs_admit_cases [of ns k sg kb now tg arr s])
  fix c assume c: "cs_admit ns k sg kb now tg arr s = (ADMITTED, cs_push k c (cs_reclaimExpired now s))"
    "cs_admits k c (cs_reclaimExpired now s)" "claimRet c = claimRetention now"
  then show ?thesis
    using cs.added [of now s "cs_reclaimExpired now s" "(k, c)"]
    by (simp add: cs.stay cs.reclaimed claimRetention_def FUTURE_TOLERANCE_MS_def TTL_CEILING_def CLOCK_SKEW_def)
qed (simp add: cs.stay cs.reclaimed)

end
