(* ===== verification/TombstoneLaws.thy ===== *)
theory TombstoneLaws
  imports TombstoneStores
begin

text \<open>
  The deletion state machine: an event is a kill, a body, an outside eviction or a retry round. The
  invariant of every reachable state, and the properties of \<open>TombstoneAuthority\<close>.
\<close>

section \<open>The state machine\<close>

datatype event =
    Kill string string string js int
  | Body string string string int int
  | Evict string string
  | Retry int

definition auth_step :: "(rat \<Rightarrow> string) \<Rightarrow> event \<Rightarrow> authority \<Rightarrow> authority" where
  "auth_step ns e a = (case e of
      Kill t m sg kb now \<Rightarrow> snd (onKill ns t m sg kb now a)
    | Body t m pub d now \<Rightarrow> snd (onBody ns t m pub d now a)
    | Evict t m \<Rightarrow> snd (evictBody t m a)
    | Retry now \<Rightarrow> reclaimAndRetry ns now a)"

definition auth_run :: "(rat \<Rightarrow> string) \<Rightarrow> event list \<Rightarrow> authority \<Rightarrow> authority" where
  "auth_run ns = fold (auth_step ns)"

text \<open>Ids are hex strings, so they contain no bar; that is all the key encoding needs.\<close>

definition bar_free :: "string \<Rightarrow> bool" where
  "bar_free s \<longleftrightarrow> CHR ''|'' \<notin> set s"

fun event_ok :: "event \<Rightarrow> bool" where
  "event_ok (Kill t m sg kb now) \<longleftrightarrow> bar_free t \<and> bar_free m"
| "event_ok (Body t m pub d now) \<longleftrightarrow> bar_free t \<and> bar_free m"
| "event_ok (Evict t m) \<longleftrightarrow> bar_free t \<and> bar_free m"
| "event_ok (Retry now) \<longleftrightarrow> True"

fun event_time :: "event \<Rightarrow> int option" where
  "event_time (Kill t m sg kb now) = Some now"
| "event_time (Body t m pub d now) = Some now"
| "event_time (Evict t m) = None"
| "event_time (Retry now) = Some now"

lemma topicOf_authKey: "bar_free t \<Longrightarrow> topicOf (authKey t m) = t"
  by (auto simp: topicOf_def authKey_def bar_free_def takeWhile_append)

lemma takeWhile_bar_free: "bar_free m \<Longrightarrow> takeWhile (\<lambda>c. c \<noteq> CHR ''|'') m = m"
  by (auto simp: bar_free_def takeWhile_eq_all_conv)

lemma splitKey_authKey:
  assumes "bar_free t" "bar_free m"
  shows "splitKey (authKey t m) = (t, m)"
proof -
  have "takeWhile (\<lambda>c. c \<noteq> CHR ''|'') (t @ CHR ''|'' # m) = t" "dropWhile (\<lambda>c. c \<noteq> CHR ''|'') (t @ CHR ''|'' # m) = CHR ''|'' # m"
    using assms(1) by (induction t) (auto simp: bar_free_def)
  then show ?thesis by (simp add: splitKey_def authKey_def takeWhile_bar_free [OF assms(2)])
qed

lemma suppress_cases:
  fixes a :: authority
  defines "T \<equiv> \<lambda>now. ts_reclaimExpired now (tomb a)"
  obtains (idle) v where "v \<noteq> SUPPRESSED" and "suppress ns t m sg kb d now a = (v, a\<lparr>tomb := T now\<rparr>)"
  | (commit) f where "suppress ns t m sg kb d now a = (SUPPRESSED, a\<lparr>tomb := ts_insert ns t (authKey t m) sg d kb (T now),
         bodies := snd (bc_evict (authKey t m) (bodies a)), cand := snd (cs_purge (authKey t m) (cand a)), fx := f\<rparr>)"
      and "mget (ts_map (T now)) (authKey t m) = None" and "now \<le> d"
      and "ts_wouldAdmit ns t (authKey t m) sg d kb (T now) = OK"
proof -
  let ?k = "authKey t m"
  show thesis
  proof (cases "mget (ts_map (T now)) ?k = None \<and> now \<le> d \<and> ts_wouldAdmit ns t ?k sg d kb (T now) = OK")
    case True
    then show thesis
      by (intro commit [of "fx (snd (suppress ns t m sg kb d now a))"])
        (simp_all add: suppress_def T_def Let_def case_prod_beta)
  next
    case False
    then show thesis
      by (intro idle [of "fst (suppress ns t m sg kb d now a)"])
        (auto simp: suppress_def T_def Let_def split: option.splits)
  qed
qed

lemma suppress_evolves:
  assumes "bar_free t"
  shows "ts.evolves ns now (tomb a) (tomb (snd (suppress ns t m sg kb d now a)))"
proof (cases rule: suppress_cases [where a = a and ns = ns and t = t and m = m and sg = sg and kb = kb and d = d and now = now])
  case (commit f)
  have "ts.evolves ns now (tomb a) (ts_add ns (authKey t m, tomb_of ns (authKey t m) sg d kb) (ts_reclaimExpired now (tomb a)))"
    using commit assms
    by (intro ts.added ts.reclaimed ts.stay) (simp_all add: ts_admits_def topicOf_authKey)
  then show ?thesis using commit assms by (simp add: ts_add_def topicOf_authKey)
qed (simp add: ts.stay ts.reclaimed)

subsection \<open>Where every entry comes from\<close>

text \<open>A signed kill for a key, and a verified body for a key, among the events seen so far.\<close>

definition killed :: "event set \<Rightarrow> string \<Rightarrow> string \<Rightarrow> js \<Rightarrow> bool" where
  "killed E k sg kb \<longleftrightarrow> (\<exists>t m now. Kill t m sg kb now \<in> E \<and> k = authKey t m)"

definition embodied :: "event set \<Rightarrow> string \<Rightarrow> string \<Rightarrow> int \<Rightarrow> bool" where
  "embodied E k pub d \<longleftrightarrow> (\<exists>t m now. Body t m pub d now \<in> E \<and> k = authKey t m)"

definition tomb_traced :: "event set \<Rightarrow> tomb_store \<Rightarrow> bool" where
  "tomb_traced E s \<longleftrightarrow> (\<forall>(k, r) \<in> set (ts_map s).
     killed E k (signerPubkey r) (t_killBytes r) \<and> embodied E k (signerPubkey r) (t_death r))"

definition cand_traced :: "event set \<Rightarrow> cand_store \<Rightarrow> bool" where
  "cand_traced E s \<longleftrightarrow> (\<forall>(k, c) \<in> set (cs_items s). killed E k (signer c) (killBytes c))"

definition body_inv :: "event set \<Rightarrow> body_cache \<Rightarrow> bool" where
  "body_inv E c \<longleftrightarrow> minvar (bc_map c) \<and> 1 \<le> bc_max c \<and> int (length (bc_map c)) \<le> bc_max c
     \<and> (\<forall>(k, b) \<in> set (bc_map c). embodied E k (publisher b) (b_death b))"

definition apart :: "tomb_store \<Rightarrow> body_cache \<Rightarrow> bool" where
  "apart s c \<longleftrightarrow> (\<forall>k. mhas (ts_map s) k \<longrightarrow> \<not> mhas (bc_map c) k)"

definition auth_inv :: "event set \<Rightarrow> authority \<Rightarrow> bool" where
  "auth_inv E a \<longleftrightarrow> (\<forall>e \<in> E. event_ok e) \<and> tomb_inv (tomb a) \<and> cand_inv (cand a)
     \<and> tomb_traced E (tomb a) \<and> cand_traced E (cand a) \<and> body_inv E (bodies a) \<and> apart (tomb a) (bodies a)"

lemma in_cs_items: "(k, c) \<in> set (cs_items s) \<longleftrightarrow> (\<exists>l. (k, l) \<in> set (cs_map s) \<and> c \<in> set l)"
  by (force simp: cs_items_def)

lemma cand_traced_retag:
  assumes "cand_traced E s" "mget (cs_map s) k = Some l"
    and "\<And>c'. c' \<in> set l' \<Longrightarrow> \<exists>c \<in> set l. signer c' = signer c \<and> killBytes c' = killBytes c"
  shows "cand_traced E (s\<lparr>cs_map := mset_key k l' (cs_map s)\<rparr>)"
  unfolding cand_traced_def
proof (clarify)
  fix k' c' assume "(k', c') \<in> set (cs_items (s\<lparr>cs_map := mset_key k l' (cs_map s)\<rparr>))"
  then obtain l0 where "(k', l0) \<in> insert (k, l') (set (cs_map s))" "c' \<in> set l0"
    using set_mset_key_subset [of k l' "cs_map s"] by (auto simp: in_cs_items)
  then consider "k' = k" "c' \<in> set l'" | "(k', c') \<in> set (cs_items s)" by (auto simp: in_cs_items)
  then show "killed E k' (signer c') (killBytes c')"
  proof cases
    case 1
    then obtain c where "c \<in> set l" "signer c' = signer c" "killBytes c' = killBytes c" using assms(3) by blast
    moreover have "(k, c) \<in> set (cs_items s)" using mget_Some_in [OF assms(2)] \<open>c \<in> set l\<close> by (auto simp: in_cs_items)
    ultimately show ?thesis using assms(1) 1(1) by (force simp: cand_traced_def)
  qed (use assms(1) in \<open>auto simp: cand_traced_def\<close>)
qed

lemma set_update_first: "c' \<in> set (update_first P f l) \<Longrightarrow> \<exists>c \<in> set l. c' = c \<or> c' = f c"
  by (induction l) (auto split: if_splits)

lemma cand_traced_setTag: "cand_traced E s \<Longrightarrow> cand_traced E (cs_setTag k sg tg arr s)"
  by (fastforce simp: cs_setTag_def dest!: set_update_first intro!: cand_traced_retag split: option.splits)

lemma cand_traced_demoteKey: "cand_traced E s \<Longrightarrow> cand_traced E (cs_demoteKey k s)"
  by (fastforce simp: cs_demoteKey_def intro!: cand_traced_retag split: option.splits)

lemma cand_traced_sub:
  "cand_traced E s \<Longrightarrow> mset (cs_items s') \<subseteq># mset (cs_items s) \<Longrightarrow> cand_traced E s'"
  unfolding cand_traced_def by (metis (no_types, lifting) mset_subset_eqD set_mset_mset)

lemma cand_traced_reclaim: "cand_traced E s \<Longrightarrow> cand_traced E (cs_reclaimExpired now s)"
  by (rule cand_traced_sub) (auto simp: cs_reclaim_items multiset_filter_subset)

lemma cand_inv_ops:
  assumes "cand_inv s"
  shows "cand_inv (cs_reclaimExpired now s)" and "cand_inv (snd (cs_purge k s))"
    and "cand_inv (cs_setTag k sg tg arr s)" and "cand_inv (cs_demoteKey k s)"
    and "cand_inv (snd (cs_admit ns k sg kb now tg arr s))"
  using assms by (auto simp: cand_inv_def cand_ok_reclaim cand_bounded_reclaim cand_ok_purge cand_bounded_purge
      cand_ok_setTag cand_bounded_setTag cand_ok_demoteKey cand_bounded_demoteKey cand_ok_admit cand_bounded_admit)

lemma cand_traced_purge: "cand_inv s \<Longrightarrow> cand_traced E s \<Longrightarrow> cand_traced E (snd (cs_purge k s))"
  by (rule cand_traced_sub) (auto simp: cand_purge_sub cand_inv_def)

lemma cand_traced_admit:
  assumes "cand_inv s" "cand_traced E s" "killed E k sg kb"
  shows "cand_traced E (snd (cs_admit ns k sg kb now tg arr s))"
proof (cases rule: cs_admit_cases [where ns = ns and k = k and sg = sg and kb = kb and now = now and tg = tg and arr = arr and s = s])
  case (refused v)
  then show ?thesis by (simp add: cand_traced_reclaim assms)
next
  case (admitted c)
  have "cand_inv (cs_reclaimExpired now s)" using assms(1) by (rule cand_inv_ops)
  then have "set (cs_items (cs_push k c (cs_reclaimExpired now s))) = insert (k, c) (set (cs_items (cs_reclaimExpired now s)))"
    using cs.set_items_add [of _ "(k, c)"] admitted(2) by simp
  with admitted assms(3) cand_traced_reclaim [OF assms(2), of now] show ?thesis
    by (simp add: cand_traced_def)
qed

lemma tomb_inv_reclaim: "tomb_inv s \<Longrightarrow> tomb_inv (ts_reclaimExpired now s)"
  by (rule ts.invar_reclaim)

lemma tomb_traced_reclaim: "tomb_inv s \<Longrightarrow> tomb_traced E s \<Longrightarrow> tomb_traced E (ts_reclaimExpired now s)"
  by (auto simp: tomb_traced_def ts.items_reclaim)

lemma ts_reclaim_get:
  assumes "tomb_inv s"
  shows "mget (ts_map (ts_reclaimExpired now s)) k = Some r \<longleftrightarrow> mget (ts_map s) k = Some r \<and> now \<le> t_death r"
proof -
  have "minvar (ts_map s)" using assms by (simp add: tomb_inv_def tomb_ok_def)
  then show ?thesis by (auto simp: ts.items_reclaim [OF assms] minvar_get_iff)
qed

lemma apart_reclaim: "tomb_inv s \<Longrightarrow> apart s c \<Longrightarrow> apart (ts_reclaimExpired now s) c"
  unfolding apart_def by (metis option.exhaust option.distinct(1) ts_reclaim_get)

subsection \<open>Every operation keeps the invariant\<close>

lemma auth_inv_reclaim: "auth_inv E a \<Longrightarrow> auth_inv E (a\<lparr>tomb := ts_reclaimExpired now (tomb a)\<rparr>)"
  by (simp add: auth_inv_def tomb_inv_reclaim tomb_traced_reclaim apart_reclaim)

lemma auth_inv_cand: "auth_inv E a \<Longrightarrow> cand_inv c \<Longrightarrow> cand_traced E c \<Longrightarrow> auth_inv E (a\<lparr>cand := c\<rparr>)"
  by (simp add: auth_inv_def)

lemma auth_inv_fx [simp]: "auth_inv E (a\<lparr>fx := f\<rparr>) \<longleftrightarrow> auth_inv E a"
  by (simp add: auth_inv_def)

lemma body_inv_evict:
  assumes "body_inv E c"
  shows "body_inv E (snd (bc_evict k c))"
proof -
  have "int (length (mdelete k (bc_map c))) \<le> bc_max c"
    using assms length_mdelete_le [of k "bc_map c"] unfolding body_inv_def by linarith
  moreover have "set (mdelete k (bc_map c)) \<subseteq> set (bc_map c)" by (auto simp: mdelete_def)
  ultimately show ?thesis using assms unfolding body_inv_def bc_evict_def by auto
qed

lemma apart_evict: "apart s c \<Longrightarrow> apart s (snd (bc_evict k c))"
  by (auto simp: apart_def bc_evict_def)

lemma bc_put_get:
  "mget (bc_map (snd (bc_put k b c))) j = Some x \<Longrightarrow> j = k \<and> x = b \<or> j \<noteq> k \<and> mget (bc_map c) j = Some x"
  by (auto simp: bc_put_def split: if_splits list.splits)

lemma body_inv_put:
  assumes "body_inv E c" "embodied E k (publisher b) (b_death b)"
  shows "body_inv E (snd (bc_put k b c))"
proof -
  let ?c = "snd (bc_put k b c)"
  have inv: "minvar (bc_map ?c)" and caps: "bc_max ?c = bc_max c"
    using assms(1) by (auto simp: body_inv_def bc_put_def split: list.splits prod.splits)
  have "int (length (bc_map ?c)) \<le> bc_max c"
    using assms(1) length_mdelete [of "bc_map c" "fst (hd (bc_map c))"]
    by (auto simp: body_inv_def bc_put_def length_mset_key split: list.splits)
  moreover have "\<forall>(j, x) \<in> set (bc_map ?c). embodied E j (publisher x) (b_death x)"
  proof (clarify)
    fix j x assume "(j, x) \<in> set (bc_map ?c)"
    then have "mget (bc_map ?c) j = Some x" using inv by (simp add: minvar_get_iff)
    then show "embodied E j (publisher x) (b_death x)"
      using bc_put_get [of k b c j x] assms mget_Some_in by (fastforce simp: body_inv_def)
  qed
  ultimately show ?thesis using assms(1) inv caps by (simp add: body_inv_def)
qed

lemma auth_inv_putBody:
  assumes "auth_inv E a" "embodied E k (publisher b) (b_death b)" "\<not> mhas (ts_map (tomb a)) k"
  shows "auth_inv E (putBody k b a)"
proof -
  have "body_inv E (snd (bc_put k b (bodies a)))"
    using assms by (intro body_inv_put) (auto simp: auth_inv_def)
  moreover have "apart (tomb a) (snd (bc_put k b (bodies a)))"
    unfolding apart_def using assms(1,3) bc_put_get [of k b "bodies a"]
    by (metis auth_inv_def apart_def not_None_eq)
  ultimately show ?thesis using assms(1)
    by (auto simp: putBody_def auth_inv_def cand_inv_ops cand_traced_demoteKey split: prod.splits option.splits)
qed

lemma auth_inv_suppress:
  assumes "auth_inv E a" "killed E (authKey t m) sg kb" "embodied E (authKey t m) sg d" "bar_free t"
  shows "auth_inv E (snd (suppress ns t m sg kb d now a))"
proof (cases rule: suppress_cases [where a = a and ns = ns and t = t and m = m and sg = sg and kb = kb and d = d and now = now])
  case (idle v)
  then show ?thesis using auth_inv_reclaim [OF assms(1)] by simp
next
  case (commit f)
  let ?T = "ts_reclaimExpired now (tomb a)" and ?k = "authKey t m"
  from auth_inv_reclaim [OF assms(1), of now]
  have T: "tomb_inv ?T" "tomb_traced E ?T" "apart ?T (bodies a)" by (auto simp: auth_inv_def)
  have "tomb_inv (ts_insert ns t ?k sg d kb ?T)"
    using T(1) commit assms(4) by (simp add: tomb_inv_def tomb_ok_insert tomb_bounded_insert topicOf_authKey)
  moreover have "tomb_traced E (ts_insert ns t ?k sg d kb ?T)"
    using T(2) assms(2,3) by (simp add: tomb_traced_def mset_key_fresh [OF commit(2)])
  moreover have "apart (ts_insert ns t ?k sg d kb ?T) (snd (bc_evict ?k (bodies a)))"
    using T(3) by (simp add: apart_def bc_evict_def)
  ultimately show ?thesis using assms(1) commit(1)
    by (simp add: auth_inv_def body_inv_evict cand_inv_ops cand_traced_purge)
qed

lemma auth_inv_evictBody: "auth_inv E a \<Longrightarrow> auth_inv E (snd (evictBody t m a))"
  by (auto simp: evictBody_def Let_def auth_inv_def case_prod_beta body_inv_evict apart_evict cand_inv_ops cand_traced_demoteKey)

lemma auth_inv_onKill:
  assumes "auth_inv E a0" "Kill t m sg kb now \<in> E"
  shows "auth_inv E (snd (onKill ns t m sg kb now a0))"
proof -
  let ?k = "authKey t m" and ?a = "a0\<lparr>tomb := ts_reclaimExpired now (tomb a0)\<rparr>"
  have a: "auth_inv E ?a" using assms(1) by (rule auth_inv_reclaim)
  have k: "killed E ?k sg kb" and bf: "bar_free t" using assms by (auto simp: killed_def auth_inv_def)
  have adm: "auth_inv E (x\<lparr>cand := snd (cs_admit ns ?k sg kb now tg arr (cand x))\<rparr>)" if "auth_inv E x" for x tg arr
    using that k by (intro auth_inv_cand) (auto simp: auth_inv_def cand_inv_ops cand_traced_admit)
  have sup: "auth_inv E (snd (suppress ns t m sg kb (b_death b) now ?a))"
    if "mget (bc_map (bodies a0)) ?k = Some b" "publisher b = sg" for b
  proof (rule auth_inv_suppress [OF a k _ bf])
    show "embodied E ?k sg (b_death b)"
      using assms(1) that mget_Some_in [OF that(1)] by (force simp: auth_inv_def body_inv_def)
  qed
  show ?thesis
    using a adm [OF a] adm [OF sup] sup
    by (auto simp: onKill_def Let_def case_prod_beta split: option.splits)
qed

lemma not_suppressed_absent:
  assumes "tomb_inv (tomb a)" "\<not> isSuppressed t m now (a\<lparr>tomb := ts_reclaimExpired now (tomb a)\<rparr>)"
  shows "mget (ts_map (ts_reclaimExpired now (tomb a))) (authKey t m) = None"
  using assms(2) iffD1 [OF ts_reclaim_get [OF assms(1), of now "authKey t m"]]
  by (auto simp: isSuppressed_def linorder_not_less split: option.splits)

lemma cs_find_item: "cs_find k sg s = Some c \<Longrightarrow> (k, c) \<in> set (cs_items s) \<and> signer c = sg"
  by (auto simp: cs_find_def cs_get_def find_Some_iff in_cs_items dest!: mget_Some_in split: option.splits)

lemma auth_inv_onBody:
  assumes "auth_inv E a0" "Body t m pub d now \<in> E"
  shows "auth_inv E (snd (onBody ns t m pub d now a0))"
proof -
  let ?k = "authKey t m" and ?a = "a0\<lparr>tomb := ts_reclaimExpired now (tomb a0)\<rparr>"
  let ?b = "\<lparr>publisher = pub, b_death = d, arrivedAt = now\<rparr>"
  have a: "auth_inv E ?a" using assms(1) by (rule auth_inv_reclaim)
  have e: "embodied E ?k pub d" and bf: "bar_free t" using assms by (auto simp: embodied_def auth_inv_def)
  show ?thesis
  proof (cases "isSuppressed t m now ?a \<or> now > d")
    case True
    then show ?thesis using a by (auto simp: onBody_def Let_def)
  next
    case False
    then have "mget (ts_map (tomb ?a)) ?k = None"
      using not_suppressed_absent assms(1) by (simp add: auth_inv_def)
    then have p: "auth_inv E (putBody ?k ?b ?a)" using a e by (intro auth_inv_putBody) auto
    have s: "auth_inv E (snd (suppress ns t m pub (killBytes c) d now (putBody ?k ?b ?a)))"
      if "cs_find ?k pub (cand (putBody ?k ?b ?a)) = Some c" for c
    proof (rule auth_inv_suppress [OF p _ e bf])
      show "killed E ?k pub (killBytes c)"
        using cs_find_item [OF that] p by (force simp: auth_inv_def cand_traced_def)
    qed
    have "auth_inv E (x\<lparr>cand := cs_setTag ?k pub Pending (Some now) (cand x)\<rparr>)"
      "auth_inv E (x\<lparr>cand := snd (cs_purge ?k (cand x))\<rparr>)" if "auth_inv E x" for x
      using that by (auto intro!: auth_inv_cand simp: cand_inv_ops cand_traced_setTag cand_traced_purge auth_inv_def)
    note t = this
    have "auth_inv E (x\<lparr>cand := snd (cs_purge ?k (cand x)), fx := f\<rparr>)" if "auth_inv E x" for x f
      using t(2) [OF that] by (simp add: auth_inv_def)
    with False p s t(1) [OF s] show ?thesis
      by (auto simp: onBody_def Let_def case_prod_beta split: option.splits)
  qed
qed

lemma killed_split:
  assumes "auth_inv E a" "killed E k sg kb"
  obtains t m where "splitKey k = (t, m)" "k = authKey t m" "bar_free t"
  using assms splitKey_authKey that unfolding killed_def auth_inv_def
  by (metis event_ok.simps(1))

lemma auth_inv_retry_one:
  assumes "auth_inv E a" "killed E (fst p) (signer (snd p)) (killBytes (snd p))"
  shows "auth_inv E (retry_one ns now p a)"
proof -
  obtain k c where p: "p = (k, c)" by (cases p)
  with assms(2) have killed: "killed E k (signer c) (killBytes c)" by simp
  obtain t m where k: "splitKey k = (t, m)" "k = authKey t m" "bar_free t" using killed_split [OF assms(1) killed] .
  have s: "auth_inv E (snd (suppress ns t m (signer c) (killBytes c) (b_death b) now a))"
    if "mget (bc_map (bodies a)) k = Some b" "publisher b = signer c" for b
    using assms(1) killed k(2,3) that mget_Some_in [OF that(1)]
    by (intro auth_inv_suppress) (force simp: auth_inv_def body_inv_def)+
  have r: "cs_remove k (signer c) (cand (snd (suppress ns t m (signer c) (killBytes c) d now a))) =
      (False, cand (snd (suppress ns t m (signer c) (killBytes c) d now a)))"
    if "fst (suppress ns t m (signer c) (killBytes c) d now a) = SUPPRESSED" for d
  proof (cases rule: suppress_cases [where a = a and ns = ns and t = t and m = m and sg = "signer c"
        and kb = "killBytes c" and d = d and now = now])
    case (commit f)
    then show ?thesis using k(2) by (simp add: cs_remove_absent cs_purge_get)
  qed (use that in auto)
  show ?thesis using assms(1) s r
    by (auto simp: retry_one_def p k(1) Let_def case_prod_beta split: option.splits)
qed

lemma auth_inv_reclaimAndRetry:
  assumes "auth_inv E a0"
  shows "auth_inv E (reclaimAndRetry ns now a0)"
proof -
  let ?a = "a0\<lparr>tomb := ts_reclaimExpired now (tomb a0), cand := cs_reclaimExpired now (cand a0)\<rparr>"
  have a: "auth_inv E ?a"
    using auth_inv_cand [OF auth_inv_reclaim [OF assms]] assms
    by (auto simp: auth_inv_def cand_inv_ops cand_traced_reclaim)
  have "\<forall>p \<in> set (pendingOldestFirst (cand ?a)). p \<in> set (cs_items (cand ?a))"
    by (auto simp: pendingOldestFirst_def in_cs_items)
  with a have "\<forall>p \<in> set (pendingOldestFirst (cand ?a)). killed E (fst p) (signer (snd p)) (killBytes (snd p))"
    by (fastforce simp: auth_inv_def cand_traced_def)
  moreover have "\<forall>p \<in> set ps. killed E (fst p) (signer (snd p)) (killBytes (snd p)) \<Longrightarrow> auth_inv E x \<Longrightarrow>
      auth_inv E (fold (retry_one ns now) ps x)" for ps x
    by (induction ps arbitrary: x) (auto simp: auth_inv_retry_one)
  ultimately show ?thesis using a by (simp add: reclaimAndRetry_def Let_def)
qed

lemma traced_mono:
  assumes "E \<subseteq> E'"
  shows "tomb_traced E s \<Longrightarrow> tomb_traced E' s" and "cand_traced E c \<Longrightarrow> cand_traced E' c"
    and "body_inv E b \<Longrightarrow> body_inv E' b"
proof -
  have k: "killed E k sg kb \<Longrightarrow> killed E' k sg kb" for k sg kb
    unfolding killed_def using assms by blast
  have e: "embodied E k sg d \<Longrightarrow> embodied E' k sg d" for k sg d
    unfolding embodied_def using assms by blast
  show "tomb_traced E s \<Longrightarrow> tomb_traced E' s" "cand_traced E c \<Longrightarrow> cand_traced E' c" "body_inv E b \<Longrightarrow> body_inv E' b"
    unfolding tomb_traced_def cand_traced_def body_inv_def using k e by fastforce+
qed

lemma auth_inv_mono: "auth_inv E a \<Longrightarrow> E \<subseteq> E' \<Longrightarrow> \<forall>e \<in> E'. event_ok e \<Longrightarrow> auth_inv E' a"
  by (simp add: auth_inv_def traced_mono [of E E'])

lemma auth_inv_step:
  assumes "auth_inv E a" "event_ok e"
  shows "auth_inv (insert e E) (auth_step ns e a)"
proof -
  have "auth_inv (insert e E) a"
    by (rule auth_inv_mono [OF assms(1)]) (use assms in \<open>auto simp: auth_inv_def\<close>)
  then show ?thesis
    by (cases e) (simp_all add: auth_step_def auth_inv_onKill auth_inv_onBody auth_inv_evictBody auth_inv_reclaimAndRetry)
qed

definition profile_ok :: "profile \<Rightarrow> bool" where
  "profile_ok p \<longleftrightarrow> 0 \<le> tombMaxCount p \<and> 0 \<le> candMax p \<and> 0 \<le> recordMax p"

lemma auth_inv_new:
  assumes "profile_ok p" "1 \<le> n"
  shows "auth_inv {} (new_authority p n)"
proof -
  have "tomb_inv (tombCapsFor p)" "cand_inv (candCapsFor p)"
    using assms(1) by (auto simp: tomb_inv_def tomb_ok_def tomb_bounded_def cand_inv_def cand_ok_def cand_bounded_def
        books_def tombCapsFor_def candCapsFor_def cs_items_def Let_def profile_ok_def cnt_def)
  then show ?thesis using assms(2)
    by (simp add: auth_inv_def new_authority_def tomb_traced_def cand_traced_def body_inv_def apart_def
        tombCapsFor_def candCapsFor_def cs_items_def Let_def)
qed

lemma auth_inv_run:
  assumes "profile_ok p" "1 \<le> n" "\<forall>e \<in> set es. event_ok e"
  shows "auth_inv (set es) (auth_run ns es (new_authority p n))"
proof -
  have "auth_inv (E \<union> set es) (fold (auth_step ns) es a)" if "auth_inv E a" for E a
    using that assms(3)
  proof (induction es arbitrary: E a)
    case (Cons e es)
    then show ?case using Cons.IH [OF auth_inv_step [of E a e ns]] by simp
  qed simp
  from this [OF auth_inv_new [OF assms(1,2)]] show ?thesis by (simp add: auth_run_def)
qed

subsection \<open>Evolution of the tombstones under one event\<close>

lemma reclaim_evolves: "ts.evolves ns now s (ts_reclaimExpired now s)"
  by (intro ts.reclaimed ts.stay)

lemma putBody_tomb [simp]: "tomb (putBody k b a) = tomb a"
  by (auto simp: putBody_def split: prod.splits option.splits)

lemma onKill_evolves:
  assumes "bar_free t"
  shows "ts.evolves ns now (tomb a) (tomb (snd (onKill ns t m sg kb now a)))"
  using reclaim_evolves [of ns now "tomb a"]
    ts.evolves_trans [OF suppress_evolves [OF assms, of ns now "a\<lparr>tomb := ts_reclaimExpired now (tomb a)\<rparr>" m sg kb]]
  by (auto simp: onKill_def Let_def case_prod_beta split: option.splits)

lemma onBody_evolves:
  assumes "bar_free t"
  shows "ts.evolves ns now (tomb a) (tomb (snd (onBody ns t m pub d now a)))"
proof -
  let ?a = "putBody (authKey t m) \<lparr>publisher = pub, b_death = d, arrivedAt = now\<rparr> (a\<lparr>tomb := ts_reclaimExpired now (tomb a)\<rparr>)"
  have "ts.evolves ns now (tomb a) (tomb (snd (suppress ns t m pub kb d now ?a)))" for kb
    using ts.evolves_trans [OF suppress_evolves [OF assms, of ns now ?a m pub kb d]] reclaim_evolves by simp
  then show ?thesis using reclaim_evolves [of ns now "tomb a"]
    by (auto simp: onBody_def Let_def case_prod_beta split: option.splits)
qed

lemma retry_one_evolves:
  assumes "auth_inv E a" "killed E (fst p) (signer (snd p)) (killBytes (snd p))"
  shows "ts.evolves ns now (tomb a) (tomb (retry_one ns now p a))"
proof -
  obtain t m where "splitKey (fst p) = (t, m)" "bar_free t" using killed_split [OF assms] by metis
  then show ?thesis using suppress_evolves [of t ns now a m]
    by (auto simp: retry_one_def Let_def case_prod_beta ts.stay split: option.splits)
qed

lemma retry_evolves:
  assumes "\<forall>p \<in> set ps. killed E (fst p) (signer (snd p)) (killBytes (snd p))" "auth_inv E a"
  shows "ts.evolves ns now (tomb a) (tomb (fold (retry_one ns now) ps a))"
  using assms
proof (induction ps arbitrary: a)
  case (Cons p ps)
  then have "ts.evolves ns now (tomb a) (tomb (retry_one ns now p a))" by (intro retry_one_evolves) auto
  moreover have "ts.evolves ns now (tomb (retry_one ns now p a)) (tomb (fold (retry_one ns now) ps (retry_one ns now p a)))"
    using Cons by (auto simp: auth_inv_retry_one)
  ultimately show ?case by (auto intro: ts.evolves_trans)
qed (simp add: ts.stay)

lemma reclaimAndRetry_evolves:
  assumes "auth_inv E a"
  shows "ts.evolves ns now (tomb a) (tomb (reclaimAndRetry ns now a))"
proof -
  let ?a = "a\<lparr>tomb := ts_reclaimExpired now (tomb a), cand := cs_reclaimExpired now (cand a)\<rparr>"
  have i: "auth_inv E ?a"
    using auth_inv_cand [OF auth_inv_reclaim [OF assms]] assms
    by (auto simp: auth_inv_def cand_inv_ops cand_traced_reclaim)
  have "\<forall>p \<in> set (pendingOldestFirst (cand ?a)). killed E (fst p) (signer (snd p)) (killBytes (snd p))"
    using i by (fastforce simp: pendingOldestFirst_def auth_inv_def cand_traced_def in_cs_items)
  from ts.evolves_trans [OF retry_evolves [OF this i]] show ?thesis
    using reclaim_evolves [of ns now "tomb a"] by (simp add: reclaimAndRetry_def Let_def)
qed

text \<open>An event at time \<open>now\<close> evolves the tombstones at \<open>now\<close>; an outside body eviction leaves them alone.\<close>

lemma step_evolves:
  assumes "auth_inv E a" "event_ok e" "\<And>t. event_time e = Some t \<Longrightarrow> t = now"
  shows "ts.evolves ns now (tomb a) (tomb (auth_step ns e a))"
  using assms
  by (cases e) (auto simp: auth_step_def onKill_evolves onBody_evolves reclaimAndRetry_evolves evictBody_def Let_def case_prod_beta ts.stay)

lemma step_keeps_live:
  assumes "auth_inv E a" "event_ok e" "(k, r) \<in> set (ts_map (tomb a))" "\<And>t. event_time e = Some t \<Longrightarrow> t \<le> t_death r"
  shows "(k, r) \<in> set (ts_map (tomb (auth_step ns e a)))"
proof -
  let ?now = "case event_time e of None \<Rightarrow> t_death r | Some t \<Rightarrow> t"
  have "ts.evolves ns ?now (tomb a) (tomb (auth_step ns e a))"
    using assms(1,2) by (intro step_evolves) auto
  then show ?thesis
    by (rule ts.evolves_keeps) (use assms in \<open>auto simp: auth_inv_def split: option.splits\<close>)
qed

lemma run_keeps_live:
  assumes "auth_inv E a" "\<forall>e \<in> set es. event_ok e" "(k, r) \<in> set (ts_map (tomb a))"
    and "\<forall>e \<in> set es. \<forall>t. event_time e = Some t \<longrightarrow> t \<le> t_death r"
  shows "(k, r) \<in> set (ts_map (tomb (auth_run ns es a))) \<and> (\<exists>E. auth_inv E (auth_run ns es a))"
  using assms unfolding auth_run_def
proof (induction es arbitrary: a E)
  case (Cons e es)
  have "auth_inv (insert e E) (auth_step ns e a)" using Cons.prems by (simp add: auth_inv_step)
  moreover have "(k, r) \<in> set (ts_map (tomb (auth_step ns e a)))"
    using Cons.prems by (intro step_keeps_live) auto
  ultimately show ?case using Cons by auto
qed auto

lemma auth_inv_get: "auth_inv E a \<Longrightarrow> mget (ts_map (tomb a)) k = Some r \<longleftrightarrow> (k, r) \<in> set (ts_map (tomb a))"
  by (simp add: auth_inv_def tomb_inv_def tomb_ok_def minvar_get_iff)

lemma authKey_inject:
  "bar_free t \<Longrightarrow> bar_free m \<Longrightarrow> bar_free t' \<Longrightarrow> bar_free m' \<Longrightarrow> authKey t m = authKey t' m' \<longleftrightarrow> t = t' \<and> m = m'"
  by (metis prod.inject splitKey_authKey)

subsection \<open>The caps never change\<close>

definition ts_caps :: "tomb_store \<Rightarrow> int list" where
  "ts_caps s = [ts_maxCount s, ts_maxBytes s, ts_perSignerMax s, ts_perTopicMax s, ts_recordMax s]"

definition cs_caps :: "cand_store \<Rightarrow> int list" where
  "cs_caps s = [cs_max s, cs_maxBytes s, cs_perSignerMax s, cs_perTopicMax s, cs_recordMax s]"

definition caps :: "authority \<Rightarrow> int list \<times> int list \<times> int" where
  "caps a = (ts_caps (tomb a), cs_caps (cand a), bc_max (bodies a))"

lemma ts_caps_ops [simp]:
  "ts_caps (ts_reclaimExpired now s) = ts_caps s" "ts_caps (ts_insert ns t k sg d kb s) = ts_caps s"
  by (simp_all add: ts_caps_def)

lemma cs_caps_ops [simp]:
  "cs_caps (cs_reclaimExpired now s) = cs_caps s" "cs_caps (snd (cs_purge k s)) = cs_caps s"
  "cs_caps (cs_push k c s) = cs_caps s" "cs_caps (cs_setTag k sg tg arr s) = cs_caps s" "cs_caps (cs_demoteKey k s) = cs_caps s"
  by (simp_all add: cs_caps_def cs_setTag_def cs_demoteKey_def split: option.split)

lemma cs_caps_admit [simp]: "cs_caps (snd (cs_admit ns k sg kb now tg arr s)) = cs_caps s"
  by (rule cs_admit_cases [of ns k sg kb now tg arr s]) auto

lemma cs_caps_remove [simp]: "cs_caps (snd (cs_remove k sg s)) = cs_caps s"
  by (simp add: cs_caps_def cs_remove_def cs_uncount_def Let_def split: option.split)

lemma caps_suppress [simp]: "caps (snd (suppress ns t m sg kb d now a)) = caps a"
  by (rule suppress_cases [of ns t m sg kb d now a]) (auto simp: caps_def bc_evict_def)

lemma caps_upd [simp]:
  "caps (a\<lparr>tomb := ts_reclaimExpired now (tomb a)\<rparr>) = caps a"
  "cs_caps c = cs_caps (cand a) \<Longrightarrow> caps (a\<lparr>cand := c\<rparr>) = caps a" "caps (a\<lparr>fx := f\<rparr>) = caps a"
  by (simp_all add: caps_def)

lemma caps_putBody [simp]: "caps (putBody k b a) = caps a"
  by (auto simp: putBody_def caps_def bc_put_def split: prod.splits option.splits list.splits if_splits)

lemma caps_onKill: "caps (snd (onKill ns t m sg kb now a)) = caps a"
  by (simp add: onKill_def Let_def case_prod_beta split: option.split)

lemma caps_onBody: "caps (snd (onBody ns t m pub d now a)) = caps a"
  by (simp add: onBody_def Let_def case_prod_beta split: option.split)

lemma caps_retry_one: "caps (retry_one ns now p a) = caps a"
  by (simp add: retry_one_def Let_def case_prod_beta split: option.split)

lemma caps_run: "caps (auth_run ns es a) = caps a"
proof -
  have "caps (fold (retry_one ns now) ps x) = caps x" for now ps x
    by (induction ps arbitrary: x) (auto simp: caps_retry_one)
  moreover have "caps (snd (evictBody t m x)) = caps x"
    "caps (x\<lparr>tomb := ts_reclaimExpired now (tomb x), cand := cs_reclaimExpired now (cand x)\<rparr>) = caps x" for t m x now
    by (simp_all add: evictBody_def Let_def case_prod_beta caps_def bc_evict_def)
  ultimately have "caps (auth_step ns e x) = caps x" for e x
    by (cases e) (simp_all add: auth_step_def caps_onKill caps_onBody reclaimAndRetry_def Let_def)
  then show ?thesis by (induction es arbitrary: a) (auto simp: auth_run_def)
qed

section \<open>Properties\<close>

lemma run_bounds:
  assumes "auth_inv E a"
  shows "int (length (ts_map (tomb a))) \<le> ts_maxCount (tomb a)"
    and "(\<Sum>(k, r) \<leftarrow> ts_map (tomb a). t_bytes r) \<le> ts_maxBytes (tomb a)"
    and "int (length (filter (\<lambda>p. signerPubkey (snd p) = x) (ts_map (tomb a)))) \<le> ts_perSignerMax (tomb a)"
    and "int (length (filter (\<lambda>p. topicOf (fst p) = x) (ts_map (tomb a)))) \<le> ts_perTopicMax (tomb a)"
    and "int (length (cs_items (cand a))) \<le> cs_max (cand a)"
    and "(\<Sum>(k, c) \<leftarrow> cs_items (cand a). c_bytes c) \<le> cs_maxBytes (cand a)"
    and "int (length (filter (\<lambda>p. signer (snd p) = x) (cs_items (cand a)))) \<le> cs_perSignerMax (cand a)"
    and "int (length (filter (\<lambda>p. topicOf (fst p) = x) (cs_items (cand a)))) \<le> cs_perTopicMax (cand a)"
    and "int (length (bc_map (bodies a))) \<le> bc_max (bodies a)"
proof -
  have T: "tomb_ok (tomb a)" "tomb_bounded (tomb a)" and C: "cand_ok (cand a)" "cand_bounded (cand a)"
    using assms by (auto simp: auth_inv_def tomb_inv_def cand_inv_def)
  show "int (length (ts_map (tomb a))) \<le> ts_maxCount (tomb a)"
    "(\<Sum>(k, r) \<leftarrow> ts_map (tomb a). t_bytes r) \<le> ts_maxBytes (tomb a)"
    "int (length (cs_items (cand a))) \<le> cs_max (cand a)" "(\<Sum>(k, c) \<leftarrow> cs_items (cand a). c_bytes c) \<le> cs_maxBytes (cand a)"
    using T C by (auto simp: tomb_ok_def tomb_bounded_def cand_ok_def cand_bounded_def books_def case_prod_unfold comp_def)
  have t: "tallies (signerPubkey \<circ> snd) (ts_map (tomb a)) (ts_perSigner (tomb a))"
    "tallies (topicOf \<circ> fst) (ts_map (tomb a)) (ts_perTopic (tomb a))"
    "tallies (signer \<circ> snd) (cs_items (cand a)) (cs_perSigner (cand a))"
    "tallies (topicOf \<circ> fst) (cs_items (cand a)) (cs_perTopic (cand a))"
    using T C by (auto simp: tomb_ok_def cand_ok_def books_def)
  note c = cnt_tallies [OF t(1), of x] cnt_tallies [OF t(2), of x] cnt_tallies [OF t(3), of x] cnt_tallies [OF t(4), of x]
  show "int (length (filter (\<lambda>p. signerPubkey (snd p) = x) (ts_map (tomb a)))) \<le> ts_perSignerMax (tomb a)"
    "int (length (filter (\<lambda>p. topicOf (fst p) = x) (ts_map (tomb a)))) \<le> ts_perTopicMax (tomb a)"
    "int (length (filter (\<lambda>p. signer (snd p) = x) (cs_items (cand a)))) \<le> cs_perSignerMax (cand a)"
    "int (length (filter (\<lambda>p. topicOf (fst p) = x) (cs_items (cand a)))) \<le> cs_perTopicMax (cand a)"
    using T(2) C(2) c unfolding tomb_bounded_def cand_bounded_def comp_def by (metis (no_types, lifting))+
  show "int (length (bc_map (bodies a))) \<le> bc_max (bodies a)" using assms by (simp add: auth_inv_def body_inv_def)
qed

text \<open>C29. Whatever kills, bodies, evictions and retries arrive, in whatever order and at whatever
  times, the deletion state stays within its profile: the number of tombstones, their bytes and the
  share of each signer and each topic are at most the caps of the profile; likewise for the
  candidate kills; and at most \<open>n\<close> bodies are cached.\<close>

theorem deletion_state_bounded:
  fixes ns :: "rat \<Rightarrow> string"
  assumes "profile_ok p" "1 \<le> n" "\<forall>e \<in> set es. event_ok e"
  defines "a \<equiv> auth_run ns es (new_authority p n)"
  shows "int (length (ts_map (tomb a))) \<le> tombMaxCount p
    \<and> (\<Sum>(k, r) \<leftarrow> ts_map (tomb a). t_bytes r) \<le> tombMaxCount p * recordMax p
    \<and> int (length (filter (\<lambda>q. signerPubkey (snd q) = x) (ts_map (tomb a)))) \<le> max 1 (tombMaxCount p div 16)
    \<and> int (length (filter (\<lambda>q. topicOf (fst q) = x) (ts_map (tomb a)))) \<le> max 1 (tombMaxCount p div 16)
    \<and> int (length (cs_items (cand a))) \<le> candMax p
    \<and> (\<Sum>(k, c) \<leftarrow> cs_items (cand a). c_bytes c) \<le> candMax p * recordMax p
    \<and> int (length (filter (\<lambda>q. signer (snd q) = x) (cs_items (cand a)))) \<le> max 1 (candMax p div 16)
    \<and> int (length (filter (\<lambda>q. topicOf (fst q) = x) (cs_items (cand a)))) \<le> max 1 (candMax p div 16)
    \<and> int (length (bc_map (bodies a))) \<le> n"
proof -
  have i: "auth_inv (set es) a" unfolding a_def using assms(1-3) by (rule auth_inv_run)
  have "caps a = caps (new_authority p n)" unfolding a_def by (rule caps_run)
  then have c: "ts_maxCount (tomb a) = tombMaxCount p" "ts_maxBytes (tomb a) = tombMaxCount p * recordMax p"
    "ts_perSignerMax (tomb a) = max 1 (tombMaxCount p div 16)" "ts_perTopicMax (tomb a) = max 1 (tombMaxCount p div 16)"
    "cs_max (cand a) = candMax p" "cs_maxBytes (cand a) = candMax p * recordMax p"
    "cs_perSignerMax (cand a) = max 1 (candMax p div 16)" "cs_perTopicMax (cand a) = max 1 (candMax p div 16)"
    "bc_max (bodies a) = n"
    by (simp_all add: caps_def ts_caps_def cs_caps_def new_authority_def tombCapsFor_def candCapsFor_def Let_def SUBLIMIT_FRACTION_def)
  show ?thesis using run_bounds [OF i] unfolding c by blast
qed

text \<open>C28. Authority is earned locally. A tombstone that the node holds after any run names a
  message whose body this node received and verified, with the killer as its publisher and with
  the body's own committed deadline, and a signed kill of that very message by that publisher.\<close>

theorem tombstone_provenance:
  assumes "profile_ok p" "1 \<le> n" "\<forall>e \<in> set es. event_ok e"
    and "mget (ts_map (tomb (auth_run ns es (new_authority p n)))) k = Some r"
  shows "\<exists>t m now now'. k = authKey t m
     \<and> Body t m (signerPubkey r) (t_death r) now \<in> set es
     \<and> Kill t m (signerPubkey r) (t_killBytes r) now' \<in> set es"
proof -
  have i: "auth_inv (set es) (auth_run ns es (new_authority p n))" using assms(1-3) by (rule auth_inv_run)
  then have "killed (set es) k (signerPubkey r) (t_killBytes r)" "embodied (set es) k (signerPubkey r) (t_death r)"
    using mget_Some_in [OF assms(4)] by (auto simp: auth_inv_def tomb_traced_def)
  then obtain t m t' m' now now' where
    K: "Kill t m (signerPubkey r) (t_killBytes r) now' \<in> set es" "k = authKey t m" and
    B: "Body t' m' (signerPubkey r) (t_death r) now \<in> set es" "k = authKey t' m'"
    unfolding killed_def embodied_def by blast
  moreover have "t' = t \<and> m' = m"
    using K B assms(3) authKey_inject [of t' m' t m] by (metis event_ok.simps(1,2))
  ultimately show ?thesis by blast
qed

lemma suppressed_now:
  assumes "auth_inv E a" "(authKey t m, r) \<in> set (ts_map (tomb a))" "now \<le> t_death r"
  shows "isSuppressed t m now a" and "isSuppressed t m now (a\<lparr>tomb := ts_reclaimExpired now (tomb a)\<rparr>)"
proof -
  have i: "tomb_inv (tomb a)" using assms(1) by (simp add: auth_inv_def)
  have g: "mget (ts_map (tomb a)) (authKey t m) = Some r" using assms(1,2) by (simp add: auth_inv_get)
  then show "isSuppressed t m now a" using assms(3) by (simp add: isSuppressed_def)
  from g assms(3) have "mget (ts_map (ts_reclaimExpired now (tomb a))) (authKey t m) = Some r"
    by (simp add: ts_reclaim_get [OF i])
  then show "isSuppressed t m now (a\<lparr>tomb := ts_reclaimExpired now (tomb a)\<rparr>)"
    using assms(3) by (simp add: isSuppressed_def)
qed

text \<open>C1. A deletion lasts until the committed deadline. Once a message has a tombstone, no later
  events (capacity pressure, other kills, body floods, retries) at times up to the deadline remove
  it; a copy of the message that arrives then is dropped as suppressed, whatever publisher and
  deadline it claims, and no body is cached for it.\<close>

theorem suppression_persists:
  fixes ns :: "rat \<Rightarrow> string"
  assumes "profile_ok p" "1 \<le> n" "\<forall>e \<in> set (es @ later). event_ok e"
    and "mget (ts_map (tomb (auth_run ns es (new_authority p n)))) (authKey t m) = Some r"
    and "\<forall>e \<in> set later. \<forall>now. event_time e = Some now \<longrightarrow> now \<le> t_death r" and "now \<le> t_death r"
  defines "a \<equiv> auth_run ns (es @ later) (new_authority p n)"
  shows "isSuppressed t m now a \<and> fst (onBody ns t m pub d now a) = SUPPRESSED_TOMBSTONE
     \<and> mget (bc_map (bodies (snd (onBody ns t m pub d now a)))) (authKey t m) = None"
proof -
  let ?b = "auth_run ns es (new_authority p n)"
  have ib: "auth_inv (set es) ?b" using assms(1-3) by (intro auth_inv_run) auto
  with assms(4) have "(authKey t m, r) \<in> set (ts_map (tomb ?b))" by (simp add: auth_inv_get)
  from run_keeps_live [OF ib _ this assms(5)] assms(3) obtain E
    where r: "(authKey t m, r) \<in> set (ts_map (tomb a))" and ia: "auth_inv E a"
    unfolding a_def auth_run_def by auto
  note s = suppressed_now [OF ia r assms(6)]
  have "mget (ts_map (tomb a)) (authKey t m) = Some r" using r ia by (simp add: auth_inv_get)
  then have "mget (bc_map (bodies a)) (authKey t m) = None" using ia by (auto simp: auth_inv_def apart_def)
  with s show ?thesis by (simp add: onBody_def Let_def)
qed

lemma suppress_committed:
  assumes "suppress ns t m sg kb d now a = (SUPPRESSED, a')"
  shows "mget (ts_map (tomb a')) (authKey t m) = Some (tomb_of ns (authKey t m) sg d kb)" and "now \<le> d"
    and "mget (bc_map (bodies a')) (authKey t m) = None" and "mget (cs_map (cand a')) (authKey t m) = None"
proof -
  have "mget (ts_map (tomb a')) (authKey t m) = Some (tomb_of ns (authKey t m) sg d kb) \<and> now \<le> d
    \<and> mget (bc_map (bodies a')) (authKey t m) = None \<and> mget (cs_map (cand a')) (authKey t m) = None"
  proof (cases rule: suppress_cases [where a = a and ns = ns and t = t and m = m and sg = sg and kb = kb and d = d and now = now])
    case (commit f)
    then have "a' = a\<lparr>tomb := ts_insert ns t (authKey t m) sg d kb (ts_reclaimExpired now (tomb a)),
         bodies := snd (bc_evict (authKey t m) (bodies a)), cand := snd (cs_purge (authKey t m) (cand a)), fx := f\<rparr>"
      using assms by simp
    then show ?thesis using commit(3) by (simp add: bc_evict_def cs_purge_get)
  qed (use assms in simp)
  then show "mget (ts_map (tomb a')) (authKey t m) = Some (tomb_of ns (authKey t m) sg d kb)" "now \<le> d"
    "mget (bc_map (bodies a')) (authKey t m) = None" "mget (cs_map (cand a')) (authKey t m) = None" by auto
qed

lemma onKill_committed:
  assumes "onKill ns t m sg kb now a = (KILL_SUPPRESSED, a')"
  obtains b where "mget (bc_map (bodies a)) (authKey t m) = Some b" and "publisher b = sg"
    and "suppress ns t m sg kb (b_death b) now (a\<lparr>tomb := ts_reclaimExpired now (tomb a)\<rparr>) = (SUPPRESSED, a')"
proof -
  let ?S = "\<lambda>b. suppress ns t m sg kb (b_death b) now (a\<lparr>tomb := ts_reclaimExpired now (tomb a)\<rparr>)"
  have "\<exists>b. mget (bc_map (bodies a)) (authKey t m) = Some b \<and> publisher b = sg \<and> fst (?S b) = SUPPRESSED \<and> snd (?S b) = a'"
    using assms by (simp add: onKill_def Let_def case_prod_beta split: option.splits if_splits)
  then show thesis using that by (metis prod.collapse)
qed

text \<open>Commitment is idempotent and fails closed on a foreign signer. When a kill commits, a
  repeat by the same signer up to the deadline is \<open>CONFIRMED\<close>, a kill by anyone else is dropped, and
  both leave bodies, candidates, effect counters and the tombstone as they were.\<close>

theorem committed_kill_idempotent:
  assumes "profile_ok p" "1 \<le> n" "\<forall>e \<in> set es. event_ok e" "bar_free t" "bar_free m"
    and "onKill ns t m sg kb now (auth_run ns es (new_authority p n)) = (KILL_SUPPRESSED, a)"
  shows "\<exists>r. mget (ts_map (tomb a)) (authKey t m) = Some r \<and> signerPubkey r = sg \<and> now \<le> t_death r
     \<and> mget (bc_map (bodies a)) (authKey t m) = None
     \<and> (\<forall>sg' kb' now'. now' \<le> t_death r \<longrightarrow>
          (\<exists>a'. onKill ns t m sg' kb' now' a = (if sg' = sg then KILL_CONFIRMED else DROP_MISMATCH_TOMB, a')
             \<and> bodies a' = bodies a \<and> cand a' = cand a \<and> fx a' = fx a
             \<and> mget (ts_map (tomb a')) (authKey t m) = Some r))"
proof -
  let ?a0 = "auth_run ns es (new_authority p n)" and ?k = "authKey t m"
  let ?a1 = "?a0\<lparr>tomb := ts_reclaimExpired now (tomb ?a0)\<rparr>"
  have i0: "auth_inv (set es) ?a0" using assms(1-3) by (rule auth_inv_run)
  have "auth_inv (insert (Kill t m sg kb now) (set es)) (auth_step ns (Kill t m sg kb now) ?a0)"
    using assms(4,5) by (intro auth_inv_step [OF i0]) simp
  then have ia: "auth_inv (insert (Kill t m sg kb now) (set es)) a" by (simp add: auth_step_def assms(6))
  obtain b where "mget (bc_map (bodies ?a0)) ?k = Some b" "publisher b = sg"
      and b: "suppress ns t m sg kb (b_death b) now ?a1 = (SUPPRESSED, a)"
    by (rule onKill_committed [OF assms(6)])
  let ?r = "tomb_of ns ?k sg (b_death b) kb"
  note g = suppress_committed [OF b]
  have inv: "tomb_inv (tomb a)" using ia by (simp add: auth_inv_def)
  have keep: "mget (ts_map (ts_reclaimExpired now' (tomb a))) ?k = Some ?r" if "now' \<le> t_death ?r" for now'
    using g(1) that by (simp add: ts_reclaim_get [OF inv])
  have again: "onKill ns t m sg' kb' now' a =
      (if sg' = sg then KILL_CONFIRMED else DROP_MISMATCH_TOMB, a\<lparr>tomb := ts_reclaimExpired now' (tomb a)\<rparr>)"
    if "now' \<le> t_death ?r" for sg' kb' now'
    using keep [OF that] by (simp add: onKill_def Let_def eq_commute)
  have rest: "\<exists>a'. onKill ns t m sg' kb' now' a = (if sg' = sg then KILL_CONFIRMED else DROP_MISMATCH_TOMB, a')
       \<and> bodies a' = bodies a \<and> cand a' = cand a \<and> fx a' = fx a \<and> mget (ts_map (tomb a')) ?k = Some ?r"
    if "now' \<le> t_death ?r" for sg' kb' now'
    unfolding again [OF that] using keep [OF that] by simp
  have "signerPubkey ?r = sg" "now \<le> t_death ?r" using g(2) by simp_all
  with g(1,3) rest show ?thesis by blast
qed

lemma ts_reclaim_skip: "At now \<le> minDeath s \<Longrightarrow> ts_reclaimExpired now s = s"
  by (simp add: ts_reclaimExpired_def)

lemma ts_reclaim_idem: "ts_reclaimExpired now (ts_reclaimExpired now s) = ts_reclaimExpired now s"
proof (cases "At now \<le> minDeath s")
  case False
  have "At now \<le> min_death (filter (\<lambda>p. \<not> now > t_death (snd p)) m)" for m
  proof (rule ccontr)
    assume "\<not> At now \<le> min_death (filter (\<lambda>p. \<not> now > t_death (snd p)) m)"
    then have "min_death (filter (\<lambda>p. \<not> now > t_death (snd p)) m) \<le> At (now - 1)"
      by (cases "min_death (filter (\<lambda>p. \<not> now > t_death (snd p)) m)") auto
    then show False by (auto simp: min_death_le)
  qed
  then have "At now \<le> minDeath (ts_reclaimExpired now s)" by (simp add: ts_reclaim_scan [OF False])
  then show ?thesis by (rule ts_reclaim_skip)
qed (simp add: ts_reclaim_skip)

lemma bc_put_evicted: "bc_put k b c = (Some ev, c') \<Longrightarrow> ev \<noteq> k"
  by (auto simp: bc_put_def split: if_splits list.splits)

lemma cs_find_demote: "j \<noteq> k \<Longrightarrow> cs_find k sg (cs_demoteKey j s) = cs_find k sg s"
  by (auto simp: cs_find_def cs_get_def cs_demoteKey_def split: option.splits)

lemma cs_find_putBody: "cs_find k sg (cand (putBody k b a)) = cs_find k sg (cand a)"
  using bc_put_evicted [of k b "bodies a"]
  by (auto simp: putBody_def cs_find_demote split: prod.splits option.splits)

lemma cs_reclaim_absent:
  "mget (cs_map s) k = None \<Longrightarrow> mget (cs_map (cs_reclaimExpired now s)) k = None"
proof -
  assume "mget (cs_map s) k = None"
  moreover have "fst ` set (cs_map (cs_reclaimExpired now s)) \<subseteq> fst ` set (cs_map s)"
    by (force simp: cs_reclaim_eq)
  ultimately show ?thesis by (auto simp: mget_None_iff)
qed

lemma bc_put_self: "mget (bc_map (snd (bc_put k b c))) k = Some b"
  by (auto simp: bc_put_def split: list.splits)

lemma putBody_get: "mget (bc_map (bodies (putBody k b a))) k = Some b"
  using bc_put_self [of k b "bodies a"] by (auto simp: putBody_def split: prod.splits option.splits)

lemma suppress_commits:
  assumes "mget (ts_map (ts_reclaimExpired now (tomb a))) (authKey t m) = None" "now \<le> d"
    and "ts_wouldAdmit ns t (authKey t m) sg d kb (ts_reclaimExpired now (tomb a)) = OK"
  shows "\<exists>a'. suppress ns t m sg kb d now a = (SUPPRESSED, a')
    \<and> tomb a' = ts_insert ns t (authKey t m) sg d kb (ts_reclaimExpired now (tomb a))"
  using assms by (simp add: suppress_def Let_def case_prod_beta)

text \<open>C35. A deletion does not depend on the order in which the kill and the message arrive. If the
  two stores have room, kill first (held as a candidate until the body proves its author) and body
  first (killed on the spot) end with the same tombstone store, holding the kill under the
  message's own deadline, and in both orders neither the body nor a candidate remains.\<close>

theorem kill_body_order:
  assumes "mget (ts_map (tomb a)) (authKey t m) = None" "mget (bc_map (bodies a)) (authKey t m) = None"
    and "mget (cs_map (cand a)) (authKey t m) = None" "tomb_inv (tomb a)" "now1 \<le> d" "now2 \<le> d"
    and "fst (cs_admit ns (authKey t m) sg kb now1 Plain None (cand a)) = ADMITTED"
    and "ts_wouldAdmit ns t (authKey t m) sg d kb (ts_reclaimExpired now2 (ts_reclaimExpired now1 (tomb a))) = OK"
  defines "kb_first \<equiv> snd (onBody ns t m sg d now2 (snd (onKill ns t m sg kb now1 a)))"
    and "body_first \<equiv> snd (onKill ns t m sg kb now2 (snd (onBody ns t m sg d now1 a)))"
  shows "tomb kb_first = tomb body_first
    \<and> mget (ts_map (tomb kb_first)) (authKey t m) = Some (tomb_of ns (authKey t m) sg d kb)
    \<and> (\<forall>x \<in> {kb_first, body_first}. mget (bc_map (bodies x)) (authKey t m) = None
         \<and> mget (cs_map (cand x)) (authKey t m) = None)"
proof -
  let ?k = "authKey t m" and ?b = "\<lambda>now. \<lparr>publisher = sg, b_death = d, arrivedAt = now\<rparr>"
  let ?T1 = "ts_reclaimExpired now1 (tomb a)" let ?T2 = "ts_reclaimExpired now2 ?T1"
  have T: "mget (ts_map ?T1) ?k = None" "mget (ts_map ?T2) ?k = None"
    using assms(1,4) ts_reclaim_get [OF assms(4)] ts_reclaim_get [OF tomb_inv_reclaim [OF assms(4)]]
    by (metis option.exhaust option.distinct(1))+
  obtain c where c: "cs_admit ns ?k sg kb now1 Plain None (cand a) = (ADMITTED, cs_push ?k c (cs_reclaimExpired now1 (cand a)))"
      "signer c = sg" "killBytes c = kb"
    by (rule cs_admit_cases [of ns ?k sg kb now1 Plain None "cand a"]) (use assms(7) in auto)
  let ?a1 = "a\<lparr>tomb := ?T1, cand := cs_push ?k c (cs_reclaimExpired now1 (cand a))\<rparr>"
  have kill: "snd (onKill ns t m sg kb now1 a) = ?a1" using T(1) assms(2) c(1) by (simp add: onKill_def Let_def)
  have get: "cs_find ?k sg (cand ?a1) = Some c"
    using c(2) cs_reclaim_absent [OF assms(3), of now1] by (simp add: cs_find_def cs_get_def cs_push_def)
  let ?a2 = "putBody ?k (?b now2) (?a1\<lparr>tomb := ?T2\<rparr>)"
  obtain x where x: "suppress ns t m sg kb d now2 ?a2 = (SUPPRESSED, x)" "tomb x = ts_insert ns t ?k sg d kb ?T2"
    using suppress_commits [of now2 ?a2 t m d ns sg kb] T(2) assms(6,8) by (auto simp: ts_reclaim_idem)
  have kf: "kb_first = x"
    using T(2) assms(6) get x(1) c(3) unfolding kb_first_def kill
    by (simp add: onBody_def Let_def isSuppressed_def cs_find_putBody)
  let ?b1 = "putBody ?k (?b now1) (a\<lparr>tomb := ?T1\<rparr>)"
  have nf: "cs_find ?k sg (cand ?b1) = None" unfolding cs_find_putBody using assms(3) by (simp add: cs_find_def cs_get_def)
  define b1 where "b1 = snd (onBody ns t m sg d now1 a)"
  have b1: "tomb b1 = ?T1" "mget (bc_map (bodies b1)) ?k = Some (?b now1)"
    unfolding b1_def using T(1) assms(5) nf putBody_get [of ?k "?b now1" "a\<lparr>tomb := ?T1\<rparr>"]
    by (simp_all add: onBody_def Let_def isSuppressed_def case_prod_beta)
  obtain y where y: "suppress ns t m sg kb d now2 (b1\<lparr>tomb := ?T2\<rparr>) = (SUPPRESSED, y)" "tomb y = ts_insert ns t ?k sg d kb ?T2"
    using suppress_commits [of now2 "b1\<lparr>tomb := ?T2\<rparr>" t m d ns sg kb] T(2) assms(6,8) by (auto simp: ts_reclaim_idem)
  have "body_first = y" unfolding body_first_def b1_def [symmetric] using T(2) b1 y(1) by (simp add: onKill_def Let_def)
  with kf x y suppress_committed [OF x(1)] suppress_committed [OF y(1)] show ?thesis by simp
qed

text \<open>The \<open>minDeath\<close> shortcut of tombstone reclamation is exact: in every reachable state a
  reclamation at \<open>now\<close> leaves exactly the tombstones whose deadline is not past, in their order, and
  the byte total and the per-signer and per-topic counters are those of what is left.\<close>

theorem reclaim_exact:
  fixes ns :: "rat \<Rightarrow> string"
  assumes "profile_ok p" "1 \<le> n" "\<forall>e \<in> set es. event_ok e"
  defines "s \<equiv> tomb (auth_run ns es (new_authority p n))"
  shows "ts_map (ts_reclaimExpired now s) = filter (\<lambda>q. now \<le> t_death (snd q)) (ts_map s)
    \<and> ts_bytes (ts_reclaimExpired now s) = (\<Sum>q \<leftarrow> ts_map (ts_reclaimExpired now s). t_bytes (snd q))
    \<and> cnt (ts_perSigner (ts_reclaimExpired now s)) x
        = int (length (filter (\<lambda>q. signerPubkey (snd q) = x) (ts_map (ts_reclaimExpired now s))))
    \<and> cnt (ts_perTopic (ts_reclaimExpired now s)) x
        = int (length (filter (\<lambda>q. topicOf (fst q) = x) (ts_map (ts_reclaimExpired now s))))"
proof -
  have i: "tomb_inv s" unfolding s_def using auth_inv_run [OF assms(1-3)] by (simp add: auth_inv_def)
  let ?s = "ts_reclaimExpired now s"
  have "tomb_ok ?s" using tomb_inv_reclaim [OF i] by (simp add: tomb_inv_def)
  then have b: "ts_bytes ?s = (\<Sum>q \<leftarrow> ts_map ?s. t_bytes (snd q))"
    and t: "tallies (signerPubkey \<circ> snd) (ts_map ?s) (ts_perSigner ?s)" "tallies (topicOf \<circ> fst) (ts_map ?s) (ts_perTopic ?s)"
    by (auto simp: tomb_ok_def books_def comp_def)
  show ?thesis using b cnt_tallies [OF t(1), of x] cnt_tallies [OF t(2), of x]
    by (simp add: ts.items_reclaim [OF i] linorder_not_less)
qed

subsection \<open>Concrete runs\<close>

definition sample_events :: "event list" where
  "sample_events = [Body ''t1'' ''m1'' ''alice'' 9 0, Kill ''t1'' ''m1'' ''alice'' Null 1]"

lemma profile_ok_relay: "profile_ok RELAY_CAPS"
  by (simp add: profile_ok_def RELAY_CAPS_def TOMBSTONE_RECORD_MAX_def)

lemma sample_events_ok: "\<forall>e \<in> set sample_events. event_ok e"
  by (simp add: sample_events_def bar_free_def)

lemma sample_get:
  "mget (ts_map (tomb (auth_run unary_ns sample_events (new_authority RELAY_CAPS 4)))) (authKey ''t1'' ''m1'')
     = Some (tomb_of unary_ns (authKey ''t1'' ''m1'') ''alice'' 9 Null)"
  by code_simp

theorem deletion_state_bounded_witness:
  "int (length (ts_map (tomb (auth_run unary_ns sample_events (new_authority RELAY_CAPS 4))))) \<le> 32768"
  using deletion_state_bounded [OF profile_ok_relay, of 4 sample_events unary_ns] sample_events_ok
  by (simp add: RELAY_CAPS_def)

theorem tombstone_provenance_witness:
  "\<exists>t m now now'. authKey ''t1'' ''m1'' = authKey t m
     \<and> Body t m ''alice'' 9 now \<in> set sample_events \<and> Kill t m ''alice'' Null now' \<in> set sample_events"
  using tombstone_provenance [OF profile_ok_relay _ sample_events_ok sample_get] by simp

theorem suppression_persists_witness:
  "isSuppressed ''t1'' ''m1'' 9 (auth_run unary_ns (sample_events @ [Kill ''t2'' ''m2'' ''bob'' Null 8])
     (new_authority RELAY_CAPS 4))"
proof -
  have "\<forall>e \<in> set (sample_events @ [Kill ''t2'' ''m2'' ''bob'' Null 8]). event_ok e"
    by (simp add: sample_events_def bar_free_def)
  from suppression_persists [OF profile_ok_relay _ this sample_get] show ?thesis by simp
qed

theorem committed_kill_idempotent_witness:
  "\<exists>a. onKill unary_ns ''t1'' ''m1'' ''alice'' Null 1
       (auth_run unary_ns [Body ''t1'' ''m1'' ''alice'' 9 0] (new_authority RELAY_CAPS 4)) = (KILL_SUPPRESSED, a)
     \<and> fst (onKill unary_ns ''t1'' ''m1'' ''mallory'' Null 1 a) = DROP_MISMATCH_TOMB"
proof -
  let ?x = "onKill unary_ns ''t1'' ''m1'' ''alice'' Null 1
       (auth_run unary_ns [Body ''t1'' ''m1'' ''alice'' 9 0] (new_authority RELAY_CAPS 4))"
  have "fst ?x = KILL_SUPPRESSED" by code_simp
  then have x: "?x = (KILL_SUPPRESSED, snd ?x)" by (metis prod.collapse)
  have ok: "\<forall>e \<in> set [Body ''t1'' ''m1'' ''alice'' 9 0]. event_ok e" "bar_free ''t1''" "bar_free ''m1''"
    by (simp_all add: bar_free_def)
  from committed_kill_idempotent [OF profile_ok_relay _ ok x]
  have "\<exists>a'. onKill unary_ns ''t1'' ''m1'' ''mallory'' Null 1 (snd ?x)
      = (if ''mallory'' = ''alice'' then KILL_CONFIRMED else DROP_MISMATCH_TOMB, a')"
    by (metis one_le_numeral)
  then have "fst (onKill unary_ns ''t1'' ''m1'' ''mallory'' Null 1 (snd ?x)) = DROP_MISMATCH_TOMB" by auto
  with x show ?thesis by (intro exI [of _ "snd ?x"]) simp
qed

theorem kill_body_order_witness:
  "tomb (snd (onBody unary_ns ''t1'' ''m1'' ''alice'' 9 2
       (snd (onKill unary_ns ''t1'' ''m1'' ''alice'' Null 1 (new_authority RELAY_CAPS 4)))))
   = tomb (snd (onKill unary_ns ''t1'' ''m1'' ''alice'' Null 2
       (snd (onBody unary_ns ''t1'' ''m1'' ''alice'' 9 1 (new_authority RELAY_CAPS 4)))))"
proof -
  let ?a = "new_authority RELAY_CAPS 4"
  have "mget (ts_map (tomb ?a)) (authKey ''t1'' ''m1'') = None" "mget (bc_map (bodies ?a)) (authKey ''t1'' ''m1'') = None"
    "mget (cs_map (cand ?a)) (authKey ''t1'' ''m1'') = None"
    by (simp_all add: new_authority_def tombCapsFor_def candCapsFor_def Let_def)
  moreover have "tomb_inv (tomb ?a)" using auth_inv_new [OF profile_ok_relay, of 4] by (simp add: auth_inv_def)
  moreover have "fst (cs_admit unary_ns (authKey ''t1'' ''m1'') ''alice'' Null 1 Plain None (cand ?a)) = ADMITTED"
    by code_simp
  moreover have "ts_wouldAdmit unary_ns ''t1'' (authKey ''t1'' ''m1'') ''alice'' 9 Null
      (ts_reclaimExpired 2 (ts_reclaimExpired 1 (tomb ?a))) = OK" by code_simp
  ultimately show ?thesis using kill_body_order [of ?a "''t1''" "''m1''" 1 9 2 unary_ns "''alice''" Null] by simp
qed

theorem reclaim_exact_witness:
  "ts_map (ts_reclaimExpired 10 (tomb (auth_run unary_ns sample_events (new_authority RELAY_CAPS 4))))
     = filter (\<lambda>q. 10 \<le> t_death (snd q)) (ts_map (tomb (auth_run unary_ns sample_events (new_authority RELAY_CAPS 4))))"
  using reclaim_exact [OF profile_ok_relay _ sample_events_ok, of 4 10 unary_ns] by simp

end
