(* ===== verification/Pacing.thy ===== *)
theory Pacing
  imports Prelude
begin

text \<open>
  Rate limiting, as several components of the kernel do it: an attempt toward an identity is asked
  for, and if it is granted the window advances at the moment of issue. The contract is the locale
  \<open>paced\<close>; its consequence, that granted attempts are at least a window apart, is proved once and
  used by the mark table (\<open>DeadPeers\<close>), the attempt guard and the presence valve (\<open>AttemptGuard\<close>).
\<close>

section \<open>Attempts in a history\<close>

text \<open>A history interleaves tries at a time with other operations of the component.\<close>

datatype 'e act = Try rat | Do 'e

fun attempts_in ::
  "(rat \<Rightarrow> 's \<Rightarrow> bool \<times> 's) \<Rightarrow> (rat \<Rightarrow> 's \<Rightarrow> 's) \<Rightarrow> ('e \<Rightarrow> 's \<Rightarrow> 's) \<Rightarrow> 'e act list \<Rightarrow> 's \<Rightarrow> rat list" where
  "attempts_in ask issue step [] s = []"
| "attempts_in ask issue step (Try t # es) s =
     (if fst (ask t s) then t # attempts_in ask issue step es (issue t (snd (ask t s)))
      else attempts_in ask issue step es (snd (ask t s)))"
| "attempts_in ask issue step (Do e # es) s = attempts_in ask issue step es (step e s)"

text \<open>A predicate that holds of every state of the history.\<close>

fun throughout ::
  "('s \<Rightarrow> bool) \<Rightarrow> (rat \<Rightarrow> 's \<Rightarrow> bool \<times> 's) \<Rightarrow> (rat \<Rightarrow> 's \<Rightarrow> 's) \<Rightarrow> ('e \<Rightarrow> 's \<Rightarrow> 's) \<Rightarrow> 'e act list \<Rightarrow> 's \<Rightarrow> bool" where
  "throughout P ask issue step [] s \<longleftrightarrow> P s"
| "throughout P ask issue step (Try t # es) s \<longleftrightarrow> P s \<and>
     throughout P ask issue step es (if fst (ask t s) then issue t (snd (ask t s)) else snd (ask t s))"
| "throughout P ask issue step (Do e # es) s \<longleftrightarrow> P s \<and> throughout P ask issue step es (step e s)"

lemma throughout_head: "throughout P ask issue step es s \<Longrightarrow> P s"
  by (cases "(P, ask, issue, step, es, s)" rule: throughout.cases) auto

lemma throughout_conj:
  assumes "throughout P ask issue step es s" "Q s"
    and "\<And>t s. Q s \<Longrightarrow> Q (snd (ask t s))" "\<And>t s. Q s \<Longrightarrow> Q (issue t s)" "\<And>e s. Q s \<Longrightarrow> Q (step e s)"
  shows "throughout (\<lambda>s. Q s \<and> P s) ask issue step es s"
  using assms(1,2)
proof (induction es arbitrary: s)
  case (Cons a es)
  then show ?case using assms(3-5) by (cases a) auto
qed simp

fun act_time :: "('e \<Rightarrow> rat) \<Rightarrow> 'e act \<Rightarrow> rat" where
  "act_time time (Try t) = t"
| "act_time time (Do e) = time e"

abbreviation clocked :: "('e \<Rightarrow> rat) \<Rightarrow> 'e act list \<Rightarrow> bool" where
  "clocked time es \<equiv> sorted (map (act_time time) es)"

section \<open>The contract\<close>

locale paced =
  fixes ask :: "rat \<Rightarrow> 's \<Rightarrow> bool \<times> 's"
    and issue :: "rat \<Rightarrow> 's \<Rightarrow> 's"
    and step :: "'e \<Rightarrow> 's \<Rightarrow> 's"
    and time :: "'e \<Rightarrow> rat"
    and tracked :: "'s \<Rightarrow> bool"
    and next_at :: "'s \<Rightarrow> rat"
    and window :: rat
  assumes ask_waits: "tracked s \<Longrightarrow> fst (ask t s) \<Longrightarrow> next_at s \<le> t"
    and ask_next: "tracked s \<Longrightarrow> \<not> fst (ask t s) \<Longrightarrow> next_at (snd (ask t s)) = next_at s"
    and issue_next: "tracked s \<Longrightarrow> fst (ask t s) \<Longrightarrow> t + window \<le> next_at (issue t (snd (ask t s)))"
    and step_next: "tracked s \<Longrightarrow> tracked (step e s) \<Longrightarrow> d \<le> next_at s \<Longrightarrow> d \<le> time e + window \<Longrightarrow>
      d \<le> next_at (step e s)"
begin

lemma attempts_spaced_from:
  assumes "throughout tracked ask issue step es s" "clocked time es" "d \<le> next_at s"
    and "\<forall>a \<in> set es. d \<le> act_time time a + window" "0 \<le> window"
  shows "(\<forall>t \<in> set (attempts_in ask issue step es s). d \<le> t)
     \<and> sorted_wrt (\<lambda>t t'. t + window \<le> t') (attempts_in ask issue step es s)"
  using assms
proof (induction es arbitrary: s d)
  case (Cons a es)
  have tr: "tracked s" using Cons.prems(1) by (rule throughout_head)
  show ?case
  proof (cases a)
    case (Do e)
    have "tracked (step e s)" using Cons.prems(1) Do by (auto dest: throughout_head)
    with tr have "d \<le> next_at (step e s)" using Cons.prems Do by (intro step_next) auto
    then show ?thesis using Cons.IH [of "step e s" d] Cons.prems Do by simp
  next
    case (Try t)
    show ?thesis
    proof (cases "fst (ask t s)")
      case False
      then show ?thesis using Cons.IH [of "snd (ask t s)" d] Cons.prems Try tr by (simp add: ask_next)
    next
      case True
      have "d \<le> t" using ask_waits [OF tr True] Cons.prems(3) by simp
      moreover have "\<forall>b \<in> set es. t + window \<le> act_time time b + window" using Cons.prems(2) Try by simp
      moreover have "throughout tracked ask issue step es (issue t (snd (ask t s)))"
        using Cons.prems(1) Try True by simp
      ultimately have "(\<forall>u \<in> set (attempts_in ask issue step es (issue t (snd (ask t s)))). t + window \<le> u)
        \<and> sorted_wrt (\<lambda>t t'. t + window \<le> t') (attempts_in ask issue step es (issue t (snd (ask t s))))"
        using Cons.IH [of "issue t (snd (ask t s))" "t + window"] issue_next [OF tr True] Cons.prems(2,5) by simp
      with \<open>d \<le> t\<close> Try True Cons.prems(5) show ?thesis by fastforce
    qed
  qed
qed simp

text \<open>Granted attempts are at least a window apart.\<close>

lemma attempts_spaced:
  assumes "throughout tracked ask issue step es s" "clocked time es" "0 \<le> window"
  shows "sorted_wrt (\<lambda>t t'. t + window \<le> t') (attempts_in ask issue step es s)"
proof (cases es)
  case (Cons a as)
  let ?d = "min (next_at s) (act_time time a + window)"
  have "\<forall>b \<in> set es. ?d \<le> act_time time b + window"
    using assms(2) Cons by (auto simp: min_le_iff_disj)
  then show ?thesis using attempts_spaced_from [OF assms(1,2), of ?d] assms(3) by simp
qed simp

end

text \<open>Spacing bounds the number of attempts in an interval.\<close>

lemma spaced_count:
  fixes w :: rat
  assumes "sorted_wrt (\<lambda>t t'. t + w \<le> t') ts" "\<forall>t \<in> set ts. a \<le> t \<and> t \<le> b" "ts \<noteq> []"
  shows "of_nat (length ts - 1) * w \<le> b - a"
  using assms
proof (induction ts arbitrary: a)
  case (Cons t ts)
  show ?case
  proof (cases ts)
    case (Cons u us)
    have "\<forall>x \<in> set ts. t + w \<le> x \<and> x \<le> b" using Cons.prems by auto
    with Cons.IH [of "t + w"] Cons.prems Cons have "of_nat (length ts - 1) * w \<le> b - (t + w)" by auto
    moreover have "of_nat (length (t # ts) - 1) * w = of_nat (length ts - 1) * w + w"
      using Cons by (simp add: algebra_simps)
    ultimately show ?thesis using Cons.prems(2) by auto
  qed (use Cons in auto)
qed simp

end
