(* ===== verification/DeadPeers.thy ===== *)
theory DeadPeers
  imports Pacing
begin

text \<open>
  The dead-peer mark table and its automaton: \<open>src/src/dht/DeadPeers.js\<close>. The table is a map from
  identities to marks. The clocks are arguments: \<open>now\<close> is the monotonic clock, \<open>wall\<close> the wall clock;
  both are exact rationals (rounding of the doubles is not modelled). A \<open>dueAt\<close> of \<open>None\<close> is the
  code's \<open>Infinity\<close>. Counts in the configuration are whole numbers.
\<close>

section \<open>State\<close>

record mark_cfg =
  B :: rat
  factor :: rat
  A_max :: nat
  R_refill :: rat
  M_marks :: int
  M_hyst :: int
  M_policy :: int

definition MARK_DEFAULTS :: mark_cfg where
  "MARK_DEFAULTS = \<lparr>B = 30000, factor = 2, A_max = 4, R_refill = 60000, M_marks = 256, M_hyst = 32, M_policy = 1024\<rparr>"

datatype mark_kind = Loss | Policy

record mark =
  kind :: mark_kind
  cause :: string
  at_wall :: rat
  attempts :: nat
  dueAt :: "rat option"
  token :: bool
  seq :: nat

record mark_stats =
  fails :: nat
  consumed :: nat
  refilled :: nat
  evicted :: nat
  refusedFull :: nat
  policyRefused :: nat
  ineligibleUnmarked :: nat

record dead_peers =
  cfg :: mark_cfg
  marks :: "(int, mark) jmap"
  fullLatched :: bool
  policyCount :: int
  last_seq :: nat
  m_stats :: mark_stats

text \<open>The constructor. An option that is not a finite number is \<open>None\<close>.\<close>

definition num_opt :: "'a::linorder option \<Rightarrow> 'a \<Rightarrow> 'a \<Rightarrow> 'a" where
  "num_opt v d mn = (case v of Some n \<Rightarrow> max mn n | None \<Rightarrow> d)"

definition new_cfg :: "rat option \<Rightarrow> rat option \<Rightarrow> nat option \<Rightarrow> rat option \<Rightarrow> int option \<Rightarrow> int option \<Rightarrow> int option \<Rightarrow> mark_cfg" where
  "new_cfg b f am r mm mh mp = \<lparr>B = num_opt b (B MARK_DEFAULTS) 0, factor = num_opt f (factor MARK_DEFAULTS) 1,
     A_max = num_opt am (A_max MARK_DEFAULTS) 1, R_refill = num_opt r (R_refill MARK_DEFAULTS) 0,
     M_marks = num_opt mm (M_marks MARK_DEFAULTS) 1, M_hyst = num_opt mh (M_hyst MARK_DEFAULTS) 0,
     M_policy = num_opt mp (M_policy MARK_DEFAULTS) 1\<rparr>"

definition new_dead_peers :: "mark_cfg \<Rightarrow> dead_peers" where
  "new_dead_peers c = \<lparr>cfg = c, marks = [], fullLatched = False, policyCount = 0, last_seq = 0,
     m_stats = \<lparr>fails = 0, consumed = 0, refilled = 0, evicted = 0, refusedFull = 0, policyRefused = 0,
       ineligibleUnmarked = 0\<rparr>\<rparr>"

section \<open>Operations\<close>

definition schedule :: "mark_cfg \<Rightarrow> rat \<Rightarrow> nat \<Rightarrow> rat" where
  "schedule c now n = (if n \<ge> A_max c then now + R_refill c else now + B c * factor c ^ (n - 1))"

definition lossCount :: "dead_peers \<Rightarrow> int" where
  "lossCount s = int (length (marks s)) - policyCount s"

definition policyFull :: "dead_peers \<Rightarrow> bool" where
  "policyFull s \<longleftrightarrow> policyCount s \<ge> M_policy (cfg s)"

definition marksFull :: "dead_peers \<Rightarrow> bool" where
  "marksFull s = fullLatched s"

definition latch :: "dead_peers \<Rightarrow> dead_peers" where
  "latch s = (if lossCount s \<ge> M_marks (cfg s) then s\<lparr>fullLatched := True\<rparr>
     else if lossCount s < M_marks (cfg s) - M_hyst (cfg s) then s\<lparr>fullLatched := False\<rparr> else s)"

text \<open>The oldest exhausted and waiting loss mark; ties keep the earlier one, as the scan does.\<close>

definition evictable :: "mark_cfg \<Rightarrow> mark \<Rightarrow> bool" where
  "evictable c m \<longleftrightarrow> kind m = Loss \<and> attempts m \<ge> A_max c \<and> \<not> token m"

definition find_victim :: "mark_cfg \<Rightarrow> (int, mark) jmap \<Rightarrow> (int \<times> mark) option" where
  "find_victim c ms = fold (\<lambda>(k, m) v. if \<not> evictable c m then v
     else (case v of None \<Rightarrow> Some (k, m) | Some (_, vm) \<Rightarrow> if seq m < seq vm then Some (k, m) else v)) ms None"

definition admitWrite :: "dead_peers \<Rightarrow> bool \<times> dead_peers" where
  "admitWrite s = (if lossCount s < M_marks (cfg s) then (True, s)
     else (case find_victim (cfg s) (marks s) of
        None \<Rightarrow> (False, s\<lparr>m_stats := (m_stats s)\<lparr>refusedFull := refusedFull (m_stats s) + 1\<rparr>\<rparr>)
      | Some (k, _) \<Rightarrow> (True, s\<lparr>marks := mdelete k (marks s),
          m_stats := (m_stats s)\<lparr>evicted := evicted (m_stats s) + 1\<rparr>\<rparr>)))"

definition write_mark :: "int \<Rightarrow> mark \<Rightarrow> dead_peers \<Rightarrow> dead_peers" where
  "write_mark i m s = s\<lparr>marks := mset_key i (m\<lparr>seq := last_seq s + 1\<rparr>) (marks s), last_seq := last_seq s + 1\<rparr>"

definition dp_add :: "int \<Rightarrow> rat \<Rightarrow> rat \<Rightarrow> dead_peers \<Rightarrow> dead_peers" where
  "dp_add i now wall s = (if mhas (marks s) i then s
     else (let (ok, s1) = admitWrite s in
       if \<not> ok then s1
       else latch (write_mark i \<lparr>kind = Loss, cause = ''unknown'', at_wall = wall, attempts = 0,
              dueAt = Some (now + B (cfg s1)), token = False, seq = 0\<rparr> s1)))"

definition dp_delete :: "int \<Rightarrow> dead_peers \<Rightarrow> bool \<times> dead_peers" where
  "dp_delete i s = (let s1 = s\<lparr>marks := mdelete i (marks s)\<rparr>;
     s2 = (case mget (marks s) i of
        Some m \<Rightarrow> if kind m = Policy then s1\<lparr>policyCount := max 0 (policyCount s - 1)\<rparr> else s1
      | None \<Rightarrow> s1) in (mhas (marks s) i, latch s2))"

definition dp_clear :: "dead_peers \<Rightarrow> dead_peers" where
  "dp_clear s = s\<lparr>marks := [], policyCount := 0, fullLatched := False\<rparr>"

definition dp_bind :: "int \<Rightarrow> dead_peers \<Rightarrow> bool \<times> dead_peers" where
  "dp_bind i s = dp_delete i s"

definition eligible :: "int \<Rightarrow> rat \<Rightarrow> dead_peers \<Rightarrow> bool \<times> dead_peers" where
  "eligible i now s = (case mget (marks s) i of
      None \<Rightarrow> (let ok = \<not> (fullLatched s \<or> policyFull s) in
        (ok, if ok then s else s\<lparr>m_stats := (m_stats s)\<lparr>ineligibleUnmarked := ineligibleUnmarked (m_stats s) + 1\<rparr>\<rparr>))
    | Some m \<Rightarrow>
        if kind m = Policy then (False, s)
        else if (case dueAt m of None \<Rightarrow> True | Some d \<Rightarrow> now < d) then (False, s)
        else if attempts m < A_max (cfg s) then (True, s)
        else (True, if token m then s else s\<lparr>marks := mset_key i (m\<lparr>token := True\<rparr>) (marks s),
            m_stats := (m_stats s)\<lparr>refilled := refilled (m_stats s) + 1\<rparr>\<rparr>))"

definition cause_or :: "string \<Rightarrow> string" where
  "cause_or c = (if c = [] then ''unknown'' else c)"

definition dp_fail :: "int \<Rightarrow> string \<Rightarrow> rat option \<Rightarrow> rat \<Rightarrow> rat \<Rightarrow> dead_peers \<Rightarrow> mark option \<times> dead_peers" where
  "dp_fail i c atO now wall0 s =
     (let wall = (case atO of Some x \<Rightarrow> x | None \<Rightarrow> wall0);
          counted = (\<lambda>s. s\<lparr>m_stats := (m_stats s)\<lparr>fails := fails (m_stats s) + 1\<rparr>\<rparr>) in
      case mget (marks s) i of
        Some m \<Rightarrow>
          if kind m = Policy then (Some m, s)
          else (let n = min (attempts m + 1) (A_max (cfg s));
                    m' = m\<lparr>attempts := n, cause := cause_or c, at_wall := wall, token := False,
                           dueAt := Some (schedule (cfg s) now n)\<rparr>
                in (Some m', counted (s\<lparr>marks := mset_key i m' (marks s)\<rparr>)))
      | None \<Rightarrow>
          (let (ok, s1) = admitWrite s in
           if \<not> ok then (None, s1)
           else (let m' = \<lparr>kind = Loss, cause = cause_or c, at_wall = wall, attempts = 1,
                     dueAt = Some (schedule (cfg s1) now 1), token = False, seq = last_seq s1 + 1\<rparr>
                 in (Some m', latch (counted (write_mark i m' s1))))))"

definition dp_consume :: "int \<Rightarrow> rat \<Rightarrow> dead_peers \<Rightarrow> dead_peers" where
  "dp_consume i now s = (case mget (marks s) i of
      None \<Rightarrow> s
    | Some m \<Rightarrow>
        if kind m \<noteq> Loss then s
        else (let s1 = s\<lparr>m_stats := (m_stats s)\<lparr>consumed := consumed (m_stats s) + 1\<rparr>\<rparr> in
          if attempts m \<ge> A_max (cfg s)
          then s1\<lparr>marks := mset_key i (m\<lparr>token := False, dueAt := Some (now + R_refill (cfg s))\<rparr>) (marks s)\<rparr>
          else s1))"

definition markPolicy :: "int \<Rightarrow> string \<Rightarrow> rat option \<Rightarrow> rat \<Rightarrow> dead_peers \<Rightarrow> dead_peers" where
  "markPolicy i c atO wall0 s =
     (let wall = (case atO of Some x \<Rightarrow> x | None \<Rightarrow> wall0);
          fresh = (\<lambda>s. let s1 = write_mark i \<lparr>kind = Policy, cause = c, at_wall = wall, attempts = 0, dueAt = None,
                            token = False, seq = 0\<rparr> s
                      in latch (s1\<lparr>policyCount := policyCount s1 + 1\<rparr>));
          refuse = s\<lparr>m_stats := (m_stats s)\<lparr>policyRefused := policyRefused (m_stats s) + 1\<rparr>\<rparr> in
      case mget (marks s) i of
        Some m \<Rightarrow>
          if kind m = Policy then s\<lparr>marks := mset_key i (m\<lparr>cause := c, at_wall := wall\<rparr>) (marks s)\<rparr>
          else if policyFull s then refuse
          else fresh (s\<lparr>marks := mdelete i (marks s)\<rparr>)
      | None \<Rightarrow> if policyFull s then refuse else fresh s)"

definition dp_mark :: "int \<Rightarrow> string \<Rightarrow> string \<Rightarrow> rat option \<Rightarrow> rat \<Rightarrow> rat \<Rightarrow> dead_peers \<Rightarrow> dead_peers" where
  "dp_mark i k c atO now wall s = (if k = ''policy'' then markPolicy i (cause_or c) atO wall s
     else snd (dp_fail i (cause_or c) atO now wall s))"

record stats_view =
  v_size :: nat
  v_loss :: int
  v_policy :: int
  exhausted :: nat
  exhaustedWaiting :: nat
  v_marksFull :: bool
  v_policyFull :: bool

definition dp_stats :: "dead_peers \<Rightarrow> stats_view" where
  "dp_stats s = (let ex = filter (\<lambda>p. kind (snd p) = Loss \<and> attempts (snd p) \<ge> A_max (cfg s)) (marks s) in
     \<lparr>v_size = length (marks s), v_loss = lossCount s, v_policy = policyCount s, exhausted = length ex,
      exhaustedWaiting = length (filter (\<lambda>p. \<not> token (snd p)) ex), v_marksFull = fullLatched s,
      v_policyFull = policyFull s\<rparr>)"

section \<open>Counting marks\<close>

definition kcount :: "mark_kind \<Rightarrow> (int, mark) jmap \<Rightarrow> int" where
  "kcount kd ms = mcount (\<lambda>m. kind m = kd) ms"

abbreviation is_kind :: "mark_kind \<Rightarrow> mark option \<Rightarrow> int" where
  "is_kind kd \<equiv> has (\<lambda>m. kind m = kd)"

lemma kcount_Nil [simp]: "kcount kd [] = 0"
  by (simp add: kcount_def)

lemma kcount_nonneg [simp]: "0 \<le> kcount kd ms"
  by (simp add: kcount_def)

lemma kcount_set:
  "minvar ms \<Longrightarrow> kcount kd (mset_key i m ms) = kcount kd ms - is_kind kd (mget ms i) + (if kind m = kd then 1 else 0)"
  unfolding kcount_def by (rule mcount_set)

lemma kcount_delete: "minvar ms \<Longrightarrow> kcount kd (mdelete i ms) = kcount kd ms - is_kind kd (mget ms i)"
  unfolding kcount_def by (rule mcount_delete)

lemma kcount_pos: "mget ms i = Some m \<Longrightarrow> kind m = kd \<Longrightarrow> 1 \<le> kcount kd ms"
  unfolding kcount_def by (rule mcount_pos)

lemma length_kcount: "int (length ms) = kcount Loss ms + kcount Policy ms"
proof -
  have "kind m = Policy \<longleftrightarrow> kind m \<noteq> Loss" for m :: mark by (cases "kind m") auto
  then have "(\<lambda>p. kind (snd p) = Policy) = (\<lambda>p :: int \<times> mark. kind (snd p) \<noteq> Loss)" by (intro ext)
  then show ?thesis using sum_length_filter_compl [of "\<lambda>p. kind (snd p) = Loss" ms] by (simp add: kcount_def mcount_def)
qed

lemma find_victim_correct:
  "(case find_victim c ms of
      None \<Rightarrow> \<forall>p \<in> set ms. \<not> evictable c (snd p)
    | Some v \<Rightarrow> v \<in> set ms \<and> evictable c (snd v) \<and> (\<forall>p \<in> set ms. evictable c (snd p) \<longrightarrow> seq (snd v) \<le> seq (snd p)))"
proof -
  let ?f = "\<lambda>(k, m) v. if \<not> evictable c m then v
     else (case v of None \<Rightarrow> Some (k, m) | Some (_, vm) \<Rightarrow> if seq m < seq vm then Some (k, m) else v)"
  let ?P = "\<lambda>ms v. case v of None \<Rightarrow> \<forall>p \<in> set ms. \<not> evictable c (snd p)
    | Some v \<Rightarrow> v \<in> set ms \<and> evictable c (snd v) \<and> (\<forall>p \<in> set ms. evictable c (snd p) \<longrightarrow> seq (snd v) \<le> seq (snd p))"
  have "?P (pre @ ms) (fold ?f ms v)" if "?P pre v" for pre v
    using that
  proof (induction ms arbitrary: pre v)
    case (Cons p ms)
    have "?P (pre @ [p]) (?f p v)" using Cons.prems by (auto split: option.splits prod.splits)
    from Cons.IH [OF this, unfolded append_assoc append_Cons append_Nil] show ?case by (simp only: fold_simps)
  qed (simp only: fold_simps append_Nil2)
  from this [of "[]" None] show ?thesis unfolding find_victim_def append_Nil by simp
qed

section \<open>The invariant\<close>

definition cfg_ok :: "mark_cfg \<Rightarrow> bool" where
  "cfg_ok c \<longleftrightarrow> 0 \<le> B c \<and> 1 \<le> factor c \<and> 1 \<le> A_max c \<and> 0 \<le> R_refill c \<and> 1 \<le> M_marks c \<and> 0 \<le> M_hyst c \<and> 1 \<le> M_policy c"

definition mark_ok :: "mark_cfg \<Rightarrow> mark \<Rightarrow> bool" where
  "mark_ok c m \<longleftrightarrow> attempts m \<le> A_max c \<and> (dueAt m = None \<longleftrightarrow> kind m = Policy)
     \<and> (token m \<longrightarrow> kind m = Loss \<and> attempts m = A_max c)"

definition latch_ok :: "dead_peers \<Rightarrow> bool" where
  "latch_ok s \<longleftrightarrow> (M_marks (cfg s) \<le> lossCount s \<longrightarrow> fullLatched s)
     \<and> (lossCount s < M_marks (cfg s) - M_hyst (cfg s) \<longrightarrow> \<not> fullLatched s)"

definition dp_ok :: "mark_cfg \<Rightarrow> dead_peers \<Rightarrow> bool" where
  "dp_ok c s \<longleftrightarrow> cfg s = c \<and> minvar (marks s) \<and> policyCount s = kcount Policy (marks s)
     \<and> kcount Loss (marks s) \<le> M_marks c \<and> kcount Policy (marks s) \<le> M_policy c
     \<and> (\<forall>i m. mget (marks s) i = Some m \<longrightarrow> mark_ok c m) \<and> latch_ok s"

text \<open>The part of the invariant that \<open>_latch\<close> does not establish.\<close>

definition dp_pre :: "mark_cfg \<Rightarrow> dead_peers \<Rightarrow> bool" where
  "dp_pre c s \<longleftrightarrow> cfg s = c \<and> minvar (marks s) \<and> policyCount s = kcount Policy (marks s)
     \<and> kcount Loss (marks s) \<le> M_marks c \<and> kcount Policy (marks s) \<le> M_policy c
     \<and> (\<forall>i m. mget (marks s) i = Some m \<longrightarrow> mark_ok c m)"

lemma lossCount_kcount: "policyCount s = kcount Policy (marks s) \<Longrightarrow> lossCount s = kcount Loss (marks s)"
  by (simp add: lossCount_def length_kcount)

lemma latch_fields [simp]:
  "cfg (latch s) = cfg s" "marks (latch s) = marks s" "policyCount (latch s) = policyCount s" "lossCount (latch s) = lossCount s"
  by (simp_all add: latch_def lossCount_def)

lemma dp_ok_latch: "cfg_ok c \<Longrightarrow> dp_pre c s \<Longrightarrow> dp_ok c (latch s)"
  by (auto simp: dp_ok_def dp_pre_def latch_ok_def latch_def lossCount_def cfg_ok_def)

lemma dp_ok_pre: "dp_ok c s \<Longrightarrow> dp_pre c s"
  by (simp add: dp_ok_def dp_pre_def)

text \<open>Changing a mark in place, without changing its kind, keeps everything.\<close>

lemma dp_ok_touch:
  assumes "dp_ok c s" "mget (marks s) i = Some m" "kind m' = kind m" "mark_ok c m'"
  shows "dp_ok c (s\<lparr>marks := mset_key i m' (marks s)\<rparr>)"
proof -
  have k: "kcount kd (mset_key i m' (marks s)) = kcount kd (marks s)" for kd
    using assms by (simp add: dp_ok_def kcount_set)
  then have "length (mset_key i m' (marks s)) = length (marks s)" using assms(2) by (simp add: length_mset_key)
  with assms k show ?thesis by (auto simp: dp_ok_def latch_ok_def lossCount_def)
qed

lemma dp_ok_stats [simp]: "dp_ok c (s\<lparr>m_stats := x\<rparr>) \<longleftrightarrow> dp_ok c s"
  by (simp add: dp_ok_def latch_ok_def lossCount_def)

lemma dp_ok_stats_marks [simp]: "dp_ok c (s\<lparr>m_stats := x, marks := y\<rparr>) \<longleftrightarrow> dp_ok c (s\<lparr>marks := y\<rparr>)"
  by (simp add: dp_ok_def latch_ok_def lossCount_def)

lemma dp_pre_stats [simp]: "dp_pre c (s\<lparr>m_stats := x\<rparr>) \<longleftrightarrow> dp_pre c s"
  by (simp add: dp_pre_def)

lemma dp_pre_write_loss:
  assumes "dp_pre c s" "mget (marks s) i = None" "kcount Loss (marks s) < M_marks c" "kind m = Loss" "mark_ok c m"
  shows "dp_pre c (write_mark i m s)"
  using assms by (auto simp: dp_pre_def write_mark_def kcount_set mark_ok_def)

text \<open>\<open>_admitWrite\<close>: a permitted write has room, and only an exhausted, waiting loss mark may go.\<close>

lemma admitWrite_cases:
  assumes "dp_ok c s"
  obtains (room) "admitWrite s = (True, s)" "kcount Loss (marks s) < M_marks c"
  | (refuse) x where "admitWrite s = (False, s\<lparr>m_stats := x\<rparr>)" "kcount Loss (marks s) = M_marks c"
      "\<forall>p \<in> set (marks s). \<not> evictable c (snd p)"
  | (evict) k m x where "admitWrite s = (True, s\<lparr>marks := mdelete k (marks s), m_stats := x\<rparr>)" "mget (marks s) k = Some m"
      "evictable c m" "kcount Loss (marks s) = M_marks c"
      "\<forall>p \<in> set (marks s). evictable c (snd p) \<longrightarrow> seq m \<le> seq (snd p)"
proof (cases "lossCount s < M_marks (cfg s)")
  case True
  then show thesis using room assms by (auto simp: admitWrite_def dp_ok_def lossCount_kcount)
next
  case False
  then have full: "kcount Loss (marks s) = M_marks c" using assms by (auto simp: dp_ok_def lossCount_kcount)
  show thesis
  proof (cases "find_victim (cfg s) (marks s)")
    case None
    then show thesis using refuse [OF _ full] False assms find_victim_correct [where c = c and ms = "marks s"]
      by (auto simp: admitWrite_def dp_ok_def)
  next
    case (Some v)
    then have "v \<in> set (marks s)" "evictable c (snd v)" "\<forall>p \<in> set (marks s). evictable c (snd p) \<longrightarrow> seq (snd v) \<le> seq (snd p)"
      using find_victim_correct [where c = c and ms = "marks s"] assms by (auto simp: dp_ok_def)
    with Some False full assms show thesis
      by (intro evict [where k = "fst v" and m = "snd v"]) (auto simp: admitWrite_def dp_ok_def minvar_get_iff split: prod.splits)
  qed
qed

lemma admitWrite_ok:
  assumes "cfg_ok c" "dp_ok c s" "admitWrite s = (ok, s1)"
  shows "ok \<Longrightarrow> dp_pre c s1 \<and> kcount Loss (marks s1) < M_marks c" and "\<not> ok \<Longrightarrow> dp_ok c s1"
    and "\<And>j. mget (marks s1) j = None \<or> mget (marks s1) j = mget (marks s) j"
proof -
  have "(ok \<longrightarrow> dp_pre c s1 \<and> kcount Loss (marks s1) < M_marks c) \<and> (\<not> ok \<longrightarrow> dp_ok c s1)
     \<and> (\<forall>j. mget (marks s1) j = None \<or> mget (marks s1) j = mget (marks s) j)"
    using assms(2)
  proof (cases rule: admitWrite_cases)
    case (evict k m x)
    then show ?thesis using assms(2,3)
      by (auto simp: dp_ok_def dp_pre_def kcount_delete evictable_def)
  qed (use assms in \<open>auto simp: dp_ok_pre\<close>)
  then show "ok \<Longrightarrow> dp_pre c s1 \<and> kcount Loss (marks s1) < M_marks c" "\<not> ok \<Longrightarrow> dp_ok c s1"
    "\<And>j. mget (marks s1) j = None \<or> mget (marks s1) j = mget (marks s) j" by auto
qed

lemma dp_ok_new: "cfg_ok c \<Longrightarrow> dp_ok c (new_dead_peers c)"
  by (auto simp: dp_ok_def new_dead_peers_def latch_ok_def lossCount_def cfg_ok_def)

lemma dp_ok_add:
  assumes "cfg_ok c" "dp_ok c s"
  shows "dp_ok c (dp_add i now wall s)"
proof (cases "mhas (marks s) i")
  case False
  obtain ok s1 where a: "admitWrite s = (ok, s1)" by (cases "admitWrite s")
  note ao = admitWrite_ok [OF assms a]
  have "mget (marks s1) i = None" using ao(3) [of i] False by auto
  then show ?thesis using False assms a ao(1,2)
    by (auto simp: dp_add_def mark_ok_def intro!: dp_ok_latch dp_pre_write_loss)
qed (simp add: dp_add_def assms)

lemma dp_ok_fail:
  assumes "cfg_ok c" "dp_ok c s"
  shows "dp_ok c (snd (dp_fail i cs atO now wall s))"
proof (cases "mget (marks s) i")
  case None
  obtain ok s1 where a: "admitWrite s = (ok, s1)" by (cases "admitWrite s")
  note ao = admitWrite_ok [OF assms a]
  have "mget (marks s1) i = None" using ao(3) [of i] None by auto
  then show ?thesis using None assms a ao(1,2)
    by (auto simp: dp_fail_def Let_def mark_ok_def cfg_ok_def intro!: dp_ok_latch dp_pre_write_loss)
next
  case (Some m)
  then have "mark_ok c m" "cfg s = c" using assms(2) by (auto simp: dp_ok_def)
  then show ?thesis using Some assms
    by (auto simp: dp_fail_def Let_def mark_ok_def intro!: dp_ok_touch)
qed

lemma not_policy [simp]: "kind m \<noteq> Policy \<longleftrightarrow> kind m = Loss"
  by (cases "kind m") auto

lemma dp_ok_eligible:
  assumes "dp_ok c s"
  shows "dp_ok c (snd (eligible i now s))"
proof (cases "mget (marks s) i")
  case (Some m)
  have mk: "mark_ok c m" and c: "cfg s = c" using Some assms by (auto simp: dp_ok_def)
  have "dp_ok c (s\<lparr>marks := mset_key i (m\<lparr>token := True\<rparr>) (marks s)\<rparr>)" if "kind m = Loss" "\<not> attempts m < A_max c"
    using mk that by (intro dp_ok_touch [OF assms Some]) (auto simp: mark_ok_def)
  then show ?thesis using Some assms c by (auto simp: eligible_def)
qed (simp add: eligible_def Let_def assms)

lemma dp_ok_consume:
  assumes "dp_ok c s"
  shows "dp_ok c (dp_consume i now s)"
proof (cases "mget (marks s) i")
  case (Some m)
  then have "mark_ok c m" using assms by (auto simp: dp_ok_def)
  then have "mark_ok c (m\<lparr>token := False, dueAt := Some d\<rparr>)" if "kind m = Loss" for d using that by (simp add: mark_ok_def)
  with Some assms dp_ok_touch [OF assms Some] show ?thesis by (auto simp: dp_consume_def Let_def)
qed (simp add: dp_consume_def assms)

lemma dp_ok_delete:
  assumes "cfg_ok c" "dp_ok c s"
  shows "dp_ok c (snd (dp_delete i s))"
proof (cases "mget (marks s) i")
  case None
  then show ?thesis using assms(2) unfolding dp_delete_def Let_def
    by (auto simp: mdelete_idle intro!: dp_ok_latch [OF assms(1)] dp_ok_pre)
next
  case (Some m)
  have "1 \<le> kcount (kind m) (marks s)" using Some by (rule kcount_pos) simp
  then have "dp_pre c (if kind m = Policy then s\<lparr>marks := mdelete i (marks s), policyCount := max 0 (policyCount s - 1)\<rparr>
      else s\<lparr>marks := mdelete i (marks s)\<rparr>)"
    using assms(2) Some by (auto simp: dp_pre_def dp_ok_def kcount_delete)
  from dp_ok_latch [OF assms(1) this] show ?thesis using Some by (simp add: dp_delete_def Let_def)
qed

lemma dp_ok_clear: "cfg_ok c \<Longrightarrow> dp_ok c s \<Longrightarrow> dp_ok c (dp_clear s)"
  by (auto simp: dp_clear_def dp_ok_def latch_ok_def lossCount_def cfg_ok_def)

lemma dp_ok_policy:
  assumes "cfg_ok c" "dp_ok c s"
  shows "dp_ok c (markPolicy i cs atO wall s)"
proof -
  define w where "w = (case atO of Some x \<Rightarrow> x | None \<Rightarrow> wall)"
  let ?m = "\<lparr>kind = Policy, cause = cs, at_wall = w, attempts = 0, dueAt = None, token = False, seq = 0\<rparr>"
  have fresh: "dp_ok c (latch ((write_mark i ?m x)\<lparr>policyCount := policyCount x + 1\<rparr>))"
    if "dp_pre c x" "mget (marks x) i = None" "\<not> policyFull x" for x
    using that by (intro dp_ok_latch [OF assms(1)]) (auto simp: dp_pre_def write_mark_def kcount_set mark_ok_def policyFull_def)
  show ?thesis
  proof (cases "mget (marks s) i")
    case None
    then show ?thesis using fresh [OF dp_ok_pre [OF assms(2)]] assms(2)
      by (auto simp: markPolicy_def Let_def w_def write_mark_def)
  next
    case (Some m)
    have mk: "mark_ok c m" using Some assms(2) by (auto simp: dp_ok_def)
    have "dp_pre c (s\<lparr>marks := mdelete i (marks s)\<rparr>)" if "kind m = Loss"
      using Some assms(2) that by (auto simp: dp_pre_def dp_ok_def kcount_delete)
    with fresh [of "s\<lparr>marks := mdelete i (marks s)\<rparr>"]
    have "kind m = Loss \<Longrightarrow> \<not> policyFull s \<Longrightarrow>
       dp_ok c (latch ((write_mark i ?m (s\<lparr>marks := mdelete i (marks s)\<rparr>))\<lparr>policyCount := policyCount s + 1\<rparr>))"
      by (simp add: policyFull_def)
    moreover have "kind m = Policy \<Longrightarrow> dp_ok c (s\<lparr>marks := mset_key i (m\<lparr>cause := cs, at_wall := w\<rparr>) (marks s)\<rparr>)"
      using mk by (intro dp_ok_touch [OF assms(2) Some]) (auto simp: mark_ok_def)
    ultimately show ?thesis using Some assms(2)
      by (cases "kind m") (auto simp: markPolicy_def Let_def w_def write_mark_def)
  qed
qed

section \<open>Histories\<close>

datatype dp_event =
    DMark int string string "rat option" rat rat
  | DAdd int rat rat
  | DEligible int rat
  | DConsume int rat
  | DDelete int rat
  | DClear rat

fun dp_step :: "dp_event \<Rightarrow> dead_peers \<Rightarrow> dead_peers" where
  "dp_step (DMark i k cs atO now wall) s = dp_mark i k cs atO now wall s"
| "dp_step (DAdd i now wall) s = dp_add i now wall s"
| "dp_step (DEligible i now) s = snd (eligible i now s)"
| "dp_step (DConsume i now) s = dp_consume i now s"
| "dp_step (DDelete i now) s = snd (dp_delete i s)"
| "dp_step (DClear now) s = dp_clear s"

fun dp_time :: "dp_event \<Rightarrow> rat" where
  "dp_time (DMark i k cs atO now wall) = now"
| "dp_time (DAdd i now wall) = now"
| "dp_time (DEligible i now) = now"
| "dp_time (DConsume i now) = now"
| "dp_time (DDelete i now) = now"
| "dp_time (DClear now) = now"

lemma dp_ok_step: "cfg_ok c \<Longrightarrow> dp_ok c s \<Longrightarrow> dp_ok c (dp_step e s)"
  by (cases e) (simp_all add: dp_mark_def dp_ok_policy dp_ok_fail dp_ok_add dp_ok_eligible dp_ok_consume dp_ok_delete dp_ok_clear)

lemma dp_ok_run: "cfg_ok c \<Longrightarrow> dp_ok c s \<Longrightarrow> dp_ok c (fold dp_step es s)"
  by (induction es arbitrary: s) (simp_all add: dp_ok_step)

text \<open>What an operation does to the mark of an identity it does not name: nothing, or eviction.\<close>

lemma write_mark_get [simp]: "mget (marks (write_mark i m s)) j = (if j = i then Some (m\<lparr>seq := last_seq s + 1\<rparr>) else mget (marks s) j)"
  by (simp add: write_mark_def)

lemma fail_other:
  assumes "dp_ok c s" "j \<noteq> i"
  shows "mget (marks (snd (dp_fail i cs atO now wall s))) j = mget (marks s) j
     \<or> (mget (marks (snd (dp_fail i cs atO now wall s))) j = None \<and> mget (marks s) i = None
        \<and> (\<exists>m. mget (marks s) j = Some m \<and> evictable c m \<and> kcount Loss (marks s) = M_marks c
            \<and> (\<forall>p \<in> set (marks s). evictable c (snd p) \<longrightarrow> seq m \<le> seq (snd p))))"
proof (cases "mget (marks s) i")
  case None
  show ?thesis using assms(1)
  proof (cases rule: admitWrite_cases)
    case (evict k m x)
    then show ?thesis using None assms by (cases "k = j") (auto simp: dp_fail_def Let_def)
  qed (use None assms in \<open>auto simp: dp_fail_def Let_def\<close>)
qed (use assms in \<open>auto simp: dp_fail_def Let_def\<close>)

lemma add_other:
  assumes "dp_ok c s" "j \<noteq> i"
  shows "mget (marks (dp_add i now wall s)) j = mget (marks s) j \<or> mget (marks (dp_add i now wall s)) j = None"
  using assms(1)
proof (cases rule: admitWrite_cases)
  case (evict k m x)
  then show ?thesis using assms by (auto simp: dp_add_def)
qed (use assms in \<open>auto simp: dp_add_def\<close>)

lemma policy_other: "j \<noteq> i \<Longrightarrow> mget (marks (markPolicy i cs atO wall s)) j = mget (marks s) j"
  by (auto simp: markPolicy_def Let_def split: option.splits)

lemma eligible_other: "j \<noteq> i \<Longrightarrow> mget (marks (snd (eligible i now s))) j = mget (marks s) j"
  by (auto simp: eligible_def Let_def split: option.splits)

lemma consume_other: "j \<noteq> i \<Longrightarrow> mget (marks (dp_consume i now s)) j = mget (marks s) j"
  by (auto simp: dp_consume_def Let_def split: option.splits)

lemma delete_get: "mget (marks (snd (dp_delete i s))) j = (if j = i then None else mget (marks s) j)"
  by (auto simp: dp_delete_def Let_def split: option.splits)

fun dp_subject :: "dp_event \<Rightarrow> int option" where
  "dp_subject (DMark i k cs atO now wall) = Some i"
| "dp_subject (DAdd i now wall) = Some i"
| "dp_subject (DEligible i now) = Some i"
| "dp_subject (DConsume i now) = Some i"
| "dp_subject (DDelete i now) = Some i"
| "dp_subject (DClear now) = None"

lemma step_other:
  assumes "dp_ok c s" "dp_subject e \<noteq> Some j"
  shows "mget (marks (dp_step e s)) j = mget (marks s) j \<or> mget (marks (dp_step e s)) j = None"
proof -
  have f: "mget (marks (snd (dp_fail i cs atO now wall s))) j = mget (marks s) j
      \<or> mget (marks (snd (dp_fail i cs atO now wall s))) j = None" if "j \<noteq> i" for i cs atO now wall
    using fail_other [OF assms(1) that, of cs atO now wall] by (elim disjE conjE) simp_all
  show ?thesis
  proof (cases e)
    case (DMark i k cs atO now wall)
    then show ?thesis using f [of i "cause_or cs" atO now wall] assms(2) by (simp add: dp_mark_def policy_other)
  qed (use assms add_other [OF assms(1)] in \<open>auto simp: eligible_other consume_other delete_get dp_clear_def\<close>)
qed

section \<open>Pacing of an exhausted identity\<close>

definition is_exhausted :: "mark_cfg \<Rightarrow> int \<Rightarrow> dead_peers \<Rightarrow> bool" where
  "is_exhausted c i s \<longleftrightarrow> (case mget (marks s) i of None \<Rightarrow> False | Some m \<Rightarrow> kind m = Loss \<and> attempts m = A_max c)"

definition exhausted_mark :: "mark_cfg \<Rightarrow> int \<Rightarrow> dead_peers \<Rightarrow> bool" where
  "exhausted_mark c i s \<longleftrightarrow> dp_ok c s \<and> is_exhausted c i s"

definition due :: "int \<Rightarrow> dead_peers \<Rightarrow> rat" where
  "due i s = (case mget (marks s) i of None \<Rightarrow> 0 | Some m \<Rightarrow> (case dueAt m of None \<Rightarrow> 0 | Some d \<Rightarrow> d))"

lemma exhausted_obtain:
  assumes "exhausted_mark c i s"
  obtains m d where "mget (marks s) i = Some m" "kind m = Loss" "attempts m = A_max c" "dueAt m = Some d" "cfg s = c" "due i s = d"
proof -
  obtain m where m: "mget (marks s) i = Some m" "kind m = Loss" "attempts m = A_max c"
    using assms by (auto simp: exhausted_mark_def is_exhausted_def split: option.splits)
  then have "mark_ok c m" "cfg s = c" using assms by (auto simp: exhausted_mark_def dp_ok_def)
  then obtain d where "dueAt m = Some d" using m(2) by (auto simp: mark_ok_def)
  with m \<open>cfg s = c\<close> show thesis using that by (simp add: due_def)
qed

interpretation dp: paced "eligible i" "dp_consume i" dp_step dp_time "exhausted_mark c i" "due i" "R_refill c" for i c
proof unfold_locales
  fix s t assume e: "exhausted_mark c i s"
  obtain m d where m: "mget (marks s) i = Some m" "kind m = Loss" "attempts m = A_max c" "dueAt m = Some d" "cfg s = c" "due i s = d"
    by (rule exhausted_obtain [OF e])
  show "fst (eligible i t s) \<Longrightarrow> due i s \<le> t" using m by (auto simp: eligible_def split: if_splits)
  show "due i (snd (eligible i t s)) = due i s" using m by (auto simp: eligible_def due_def)
  show "t + R_refill c \<le> due i (dp_consume i t (snd (eligible i t s)))"
    using m by (auto simp: eligible_def dp_consume_def due_def)
next
  fix s e d assume s: "exhausted_mark c i s" "exhausted_mark c i (dp_step e s)" "d \<le> due i s" "d \<le> dp_time e + R_refill c"
  obtain m d0 where m: "mget (marks s) i = Some m" "kind m = Loss" "attempts m = A_max c" "dueAt m = Some d0" "cfg s = c" "due i s = d0"
    by (rule exhausted_obtain [OF s(1)])
  have after: "mhas (marks (dp_step e s)) i" using s(2) by (auto elim: exhausted_obtain)
  show "d \<le> due i (dp_step e s)"
  proof (cases "dp_subject e = Some i")
    case False
    then have "mget (marks (dp_step e s)) i = mget (marks s) i"
      using step_other [of c s e i] s(1) after by (auto simp: exhausted_mark_def)
    then show ?thesis using s(3) by (simp add: due_def)
  next
    case True
    then show ?thesis using m s after
      by (cases e) (auto simp: dp_mark_def dp_fail_def markPolicy_def dp_add_def eligible_def dp_consume_def delete_get
          schedule_def due_def Let_def exhausted_mark_def is_exhausted_def split: if_splits)
  qed
qed

section \<open>Properties\<close>

text \<open>The mark table is bounded and its two full states are exact. After any operations, at any
  times, there are at most \<open>M_marks\<close> loss marks and \<open>M_policy\<close> policy marks and \<open>_policyCount\<close> is the
  number of policy marks. At the loss bound no unmarked identity is eligible, and below the
  hysteresis threshold, with policy marks to spare, every unmarked identity is.\<close>

theorem dead_peers_bounded:
  fixes es :: "dp_event list"
  assumes "cfg_ok c"
  defines "s \<equiv> fold dp_step es (new_dead_peers c)"
  shows "kcount Loss (marks s) \<le> M_marks c \<and> kcount Policy (marks s) \<le> M_policy c
    \<and> policyCount s = kcount Policy (marks s)
    \<and> (kcount Loss (marks s) = M_marks c \<and> mget (marks s) i = None \<longrightarrow> \<not> fst (eligible i now s))
    \<and> (kcount Loss (marks s) < M_marks c - M_hyst c \<and> kcount Policy (marks s) < M_policy c \<and> mget (marks s) i = None
         \<longrightarrow> fst (eligible i now s))"
proof -
  have "dp_ok c s" unfolding s_def using assms(1) by (intro dp_ok_run dp_ok_new)
  then show ?thesis
    by (auto simp: dp_ok_def latch_ok_def lossCount_kcount eligible_def policyFull_def Let_def)
qed

text \<open>C34. Dialing an exhausted identity is rate limited. While its exhausted mark is retained, and
  whatever other operations happen in between (further failures of this or other identities,
  policy marks, evaluations), two issued attempts are at least \<open>R_refill\<close> apart; so an interval of
  length \<open>L\<close> sees at most \<open>L / R_refill + 1\<close> of them.\<close>

theorem exhausted_attempts_paced:
  fixes c :: mark_cfg and a :: rat and es :: "dp_event act list" and pre :: "dp_event list"
  assumes "cfg_ok c" "throughout (is_exhausted c i) (eligible i) (dp_consume i) dp_step es (fold dp_step pre (new_dead_peers c))"
    and "clocked dp_time es"
  defines "ts \<equiv> attempts_in (eligible i) (dp_consume i) dp_step es (fold dp_step pre (new_dead_peers c))"
  shows "sorted_wrt (\<lambda>t t'. t + R_refill c \<le> t') ts
    \<and> (ts \<noteq> [] \<and> (\<forall>t \<in> set ts. a \<le> t \<and> t \<le> b) \<longrightarrow> of_nat (length ts - 1) * R_refill c \<le> b - a)"
proof -
  let ?s = "fold dp_step pre (new_dead_peers c)"
  have "dp_ok c ?s" using assms(1) by (intro dp_ok_run dp_ok_new)
  from throughout_conj [OF assms(2), of "dp_ok c", OF this]
  have "throughout (exhausted_mark c i) (eligible i) (dp_consume i) dp_step es ?s"
    by (simp add: exhausted_mark_def [abs_def] dp_ok_eligible dp_ok_consume dp_ok_step assms(1))
  from dp.attempts_spaced [OF this assms(3)] assms(1)
  have "sorted_wrt (\<lambda>t t'. t + R_refill c \<le> t') ts" unfolding ts_def cfg_ok_def by simp
  then show ?thesis using spaced_count by blast
qed

definition four_fails :: "dp_event list" where
  "four_fails = map (\<lambda>t. DMark 7 ''loss'' ''ice'' None t t) [0, 10, 20, 30]"

lemma cfg_ok_defaults: "cfg_ok MARK_DEFAULTS"
  by (simp add: cfg_ok_def MARK_DEFAULTS_def)

lemma four_fails_exhausted:
  "throughout (is_exhausted MARK_DEFAULTS 7) (eligible 7) (dp_consume 7) dp_step
     [Try 60030, Do (DMark 7 ''loss'' ''ice'' None 60040 0), Try 60050, Try 130000] (fold dp_step four_fails (new_dead_peers MARK_DEFAULTS))"
  by code_simp

theorem dead_peers_bounded_witness:
  "policyCount (fold dp_step four_fails (new_dead_peers MARK_DEFAULTS))
     = kcount Policy (marks (fold dp_step four_fails (new_dead_peers MARK_DEFAULTS)))"
  using dead_peers_bounded [OF cfg_ok_defaults, of four_fails] by blast

theorem exhausted_attempts_paced_witness:
  "sorted_wrt (\<lambda>t t'. t + 60000 \<le> t') (attempts_in (eligible 7) (dp_consume 7) dp_step
     [Try 60030, Do (DMark 7 ''loss'' ''ice'' None 60040 0), Try 60050, Try 130000] (fold dp_step four_fails (new_dead_peers MARK_DEFAULTS)))
   \<and> attempts_in (eligible 7) (dp_consume 7) dp_step
     [Try 60030, Do (DMark 7 ''loss'' ''ice'' None 60040 0), Try 60050, Try 130000] (fold dp_step four_fails (new_dead_peers MARK_DEFAULTS)) = [60030, 130000]"
proof
  show "sorted_wrt (\<lambda>t t'. t + 60000 \<le> t') (attempts_in (eligible 7) (dp_consume 7) dp_step
     [Try 60030, Do (DMark 7 ''loss'' ''ice'' None 60040 0), Try 60050, Try 130000] (fold dp_step four_fails (new_dead_peers MARK_DEFAULTS)))"
    using exhausted_attempts_paced [OF cfg_ok_defaults four_fails_exhausted] by (simp add: MARK_DEFAULTS_def)
qed code_simp

lemma policy_step:
  assumes "dp_ok c s" "mget (marks s) i = Some m" "kind m = Policy" "\<forall>t. e \<noteq> DDelete i t \<and> e \<noteq> DClear t"
  shows "\<exists>m'. mget (marks (dp_step e s)) i = Some m' \<and> kind m' = Policy"
proof (cases "dp_subject e = Some i")
  case True
  then show ?thesis using assms
    by (cases e) (auto simp: dp_mark_def dp_fail_def markPolicy_def dp_add_def eligible_def dp_consume_def Let_def)
next
  case False
  have nv: "\<not> evictable c m" using assms(3) by (simp add: evictable_def)
  show ?thesis
  proof (cases e)
    case (DMark j k cs atO now wall)
    with False have "i \<noteq> j" by simp
    from fail_other [OF assms(1) this, of "cause_or cs" atO now wall] nv assms(2)
    have "mget (marks (snd (dp_fail j (cause_or cs) atO now wall s))) i = Some m" by auto
    then show ?thesis using DMark assms \<open>i \<noteq> j\<close> by (simp add: dp_mark_def policy_other)
  next
    case (DAdd j now wall)
    then have ij: "i \<noteq> j" using False by simp
    have "mget (marks (dp_add j now wall s)) i = Some m"
      using assms(1)
    proof (cases rule: admitWrite_cases)
      case (evict k mv x)
      then have "k \<noteq> i" using nv assms(2) by auto
      then show ?thesis using evict assms(2) ij by (simp add: dp_add_def)
    qed (use assms(2) ij in \<open>auto simp: dp_add_def\<close>)
    then show ?thesis using DAdd assms(3) by simp
  qed (use False assms in \<open>auto simp: eligible_other consume_other delete_get\<close>)
qed

lemma policy_run:
  assumes "cfg_ok c" "dp_ok c s" "mget (marks s) i = Some m" "kind m = Policy"
    and "\<forall>e \<in> set es. \<forall>t. e \<noteq> DDelete i t \<and> e \<noteq> DClear t"
  shows "\<exists>m'. mget (marks (fold dp_step es s)) i = Some m' \<and> kind m' = Policy"
  using assms(2-5)
proof (induction es arbitrary: s m)
  case (Cons e es)
  then obtain m' where "mget (marks (dp_step e s)) i = Some m'" "kind m' = Policy"
    using policy_step [of c s i m e] by auto
  with Cons.IH [of "dp_step e s" m'] Cons.prems dp_ok_step [OF assms(1)] show ?case by simp
qed auto

text \<open>A policy mark is permanent. No failure, backoff, capacity pressure or evaluation, of this
  identity or of others, removes it: until it is deleted (or the table cleared) the identity keeps
  its policy mark and is never eligible.\<close>

theorem policy_mark_permanent:
  assumes "cfg_ok c" "mget (marks (fold dp_step pre (new_dead_peers c))) i = Some m" "kind m = Policy"
    and "\<forall>e \<in> set es. \<forall>t. e \<noteq> DDelete i t \<and> e \<noteq> DClear t"
  shows "(\<exists>m'. mget (marks (fold dp_step (pre @ es) (new_dead_peers c))) i = Some m' \<and> kind m' = Policy)
    \<and> \<not> fst (eligible i now (fold dp_step (pre @ es) (new_dead_peers c)))"
proof -
  have "dp_ok c (fold dp_step pre (new_dead_peers c))" using assms(1) by (intro dp_ok_run dp_ok_new)
  from policy_run [OF assms(1) this assms(2-4)] show ?thesis by (auto simp: eligible_def)
qed

theorem policy_mark_permanent_witness:
  "\<not> fst (eligible 7 1000000 (fold dp_step ([DMark 7 ''policy'' ''ban'' None 0 0] @ four_fails) (new_dead_peers MARK_DEFAULTS)))"
proof -
  let ?s = "fold dp_step [DMark 7 ''policy'' ''ban'' None 0 0] (new_dead_peers MARK_DEFAULTS)"
  have "(case mget (marks ?s) 7 of Some m \<Rightarrow> kind m = Policy | None \<Rightarrow> False)" by code_simp
  then obtain m where "mget (marks ?s) 7 = Some m" "kind m = Policy" by (auto split: option.splits)
  from policy_mark_permanent [OF cfg_ok_defaults this, of four_fails] show ?thesis by (simp add: four_fails_def)
qed

lemma fail_known:
  assumes "mget (marks s) i = Some m" "kind m = Loss"
  shows "\<exists>m'. mget (marks (snd (dp_fail i cs atO now wall s))) i = Some m' \<and> kind m' = Loss
    \<and> attempts m' = min (attempts m + 1) (A_max (cfg s)) \<and> dueAt m' = Some (schedule (cfg s) now (attempts m'))
    \<and> cfg (snd (dp_fail i cs atO now wall s)) = cfg s"
  using assms by (simp add: dp_fail_def Let_def)

lemma fails_known:
  assumes "mget (marks s) i = Some m" "kind m = Loss" "cfg s = c" "ts \<noteq> []"
  shows "\<exists>m'. mget (marks (fold (\<lambda>t s. snd (dp_fail i cs None t t s)) ts s)) i = Some m' \<and> kind m' = Loss
    \<and> attempts m' = min (attempts m + length ts) (A_max c)
    \<and> dueAt m' = Some (schedule c (last ts) (min (attempts m + length ts) (A_max c)))"
  using assms
proof (induction ts arbitrary: s m)
  case (Cons t ts)
  from fail_known [OF Cons.prems(1,2), of cs None t t] Cons.prems(3) obtain m' where
    m': "mget (marks (snd (dp_fail i cs None t t s))) i = Some m'" "kind m' = Loss"
      "attempts m' = min (attempts m + 1) (A_max c)" "dueAt m' = Some (schedule c t (attempts m'))"
      "cfg (snd (dp_fail i cs None t t s)) = c" by auto
  show ?case
  proof (cases "ts = []")
    case False
    from Cons.IH [OF m'(1,2,5) False] m'(3) False show ?thesis by (auto simp: min_def)
  qed (use m' in auto)
qed simp

text \<open>The backoff schedule. An unmarked identity that fails \<open>n\<close> times in a row, the last time at
  \<open>t\<close>, is next eligible exactly from \<open>t + B * factor^(n-1)\<close> while \<open>n < A_max\<close>, and from \<open>t + R_refill\<close>
  once it is exhausted.\<close>

theorem fail_schedule:
  fixes cs :: string and pre :: "dp_event list" and c :: mark_cfg and i :: int
  defines "s \<equiv> fold dp_step pre (new_dead_peers c)"
  assumes "ts \<noteq> []" "cfg_ok c" "mget (marks s) i = None" "fst (admitWrite s)"
  defines "s' \<equiv> fold (\<lambda>t s. snd (dp_fail i cs None t t s)) ts s"
  shows "fst (eligible i now s') \<longleftrightarrow>
     last ts + (if length ts < A_max c then B c * factor c ^ (length ts - 1) else R_refill c) \<le> now"
proof -
  have ok: "dp_ok c s" unfolding s_def using assms(3) by (intro dp_ok_run dp_ok_new)
  obtain t ts' where ts: "ts = t # ts'" using assms(2) by (cases ts) auto
  obtain s1 where s1: "admitWrite s = (True, s1)" using assms(5) by (cases "admitWrite s") auto
  have c: "cfg s1 = c" using admitWrite_ok(1) [OF assms(3) ok s1] by (simp add: dp_pre_def)
  let ?s = "snd (dp_fail i cs None t t s)"
  obtain m where m: "mget (marks ?s) i = Some m" "kind m = Loss" "attempts m = 1" "dueAt m = Some (schedule c t 1)" "cfg ?s = c"
    using s1 c assms(4) by (auto simp: dp_fail_def Let_def write_mark_def)
  have "\<exists>m'. mget (marks s') i = Some m' \<and> kind m' = Loss \<and> attempts m' = min (length ts) (A_max c)
    \<and> dueAt m' = Some (schedule c (last ts) (min (length ts) (A_max c)))"
  proof (cases "ts' = []")
    case True
    then show ?thesis using m assms(3) by (auto simp: s'_def ts cfg_ok_def min_def)
  next
    case False
    from fails_known [OF m(1,2,5) False, of cs] m(3) show ?thesis using False by (simp add: s'_def ts)
  qed
  then show ?thesis
    by (auto simp: eligible_def schedule_def not_less split: if_splits)
qed

theorem fail_schedule_witness:
  "\<not> fst (eligible 7 60004 (fold (\<lambda>t s. snd (dp_fail 7 ''ice'' None t t s)) [0, 5] (fold dp_step [] (new_dead_peers MARK_DEFAULTS))))
   \<and> fst (eligible 7 60005 (fold (\<lambda>t s. snd (dp_fail 7 ''ice'' None t t s)) [0, 5] (fold dp_step [] (new_dead_peers MARK_DEFAULTS))))"
proof -
  have "mget (marks (fold dp_step [] (new_dead_peers MARK_DEFAULTS))) 7 = None"
    "fst (admitWrite (fold dp_step [] (new_dead_peers MARK_DEFAULTS)))" by code_simp+
  from fail_schedule [OF _ cfg_ok_defaults this, of "[0, 5]"] show ?thesis by (simp add: MARK_DEFAULTS_def)
qed

text \<open>Forgetting is exactly the stated forgetting. When a failure of one identity costs another
  its mark, the table was at its loss bound, the failing identity was unmarked, and the lost mark was
  the oldest among the exhausted marks that wait for their refill; every other mark is untouched.\<close>

theorem fail_evicts_only_waiting:
  fixes pre :: "dp_event list" and c :: mark_cfg
  defines "s \<equiv> fold dp_step pre (new_dead_peers c)"
  assumes "cfg_ok c" "j \<noteq> i" "mget (marks (snd (dp_fail i cs atO now wall s))) j \<noteq> mget (marks s) j"
  shows "mget (marks (snd (dp_fail i cs atO now wall s))) j = None \<and> mget (marks s) i = None
    \<and> kcount Loss (marks s) = M_marks c
    \<and> (\<exists>m. mget (marks s) j = Some m \<and> kind m = Loss \<and> attempts m = A_max c \<and> \<not> token m
         \<and> (\<forall>p \<in> set (marks s). evictable c (snd p) \<longrightarrow> seq m \<le> seq (snd p)))"
proof -
  have ok: "dp_ok c s" unfolding s_def using assms(2) by (intro dp_ok_run dp_ok_new)
  from fail_other [OF ok assms(3), of cs atO now wall] assms(4) obtain m where
    "mget (marks (snd (dp_fail i cs atO now wall s))) j = None" "mget (marks s) i = None" "kcount Loss (marks s) = M_marks c"
    and m: "mget (marks s) j = Some m" "evictable c m" "\<forall>p \<in> set (marks s). evictable c (snd p) \<longrightarrow> seq m \<le> seq (snd p)"
    by blast
  moreover have "mark_ok c m" using ok m(1) by (auto simp: dp_ok_def)
  ultimately show ?thesis by (auto simp: evictable_def mark_ok_def)
qed

definition tiny_cfg :: mark_cfg where
  "tiny_cfg = MARK_DEFAULTS\<lparr>A_max := 1, M_marks := 1\<rparr>"

theorem fail_evicts_only_waiting_witness:
  "kcount Loss (marks (fold dp_step [DMark 7 ''loss'' ''ice'' None 0 0] (new_dead_peers tiny_cfg))) = M_marks tiny_cfg"
proof -
  let ?s = "fold dp_step [DMark 7 ''loss'' ''ice'' None 0 0] (new_dead_peers tiny_cfg)"
  have "cfg_ok tiny_cfg" by (simp add: cfg_ok_def tiny_cfg_def MARK_DEFAULTS_def)
  moreover have "mget (marks (snd (dp_fail 8 ''ice'' None 1 1 ?s))) 7 \<noteq> mget (marks ?s) 7" by code_simp
  ultimately show ?thesis using fail_evicts_only_waiting [of tiny_cfg 7 8] by (metis numeral_eq_iff semiring_norm(88,90))
qed

end
