(* ===== verification/AttemptGuard.thy ===== *)
theory AttemptGuard
  imports Pacing HexId
begin

text \<open>
  The candidate attempt guard and the deficit backoff: \<open>src/src/dht/attemptGuard.js\<close>. Guard state is
  keyed on the 64-hex identity suffix. Every operation takes its time as an argument, as the code's
  \<open>t\<close> parameter; times and durations are exact rationals. \<open>allow\<close> returns a new state because \<open>_s\<close>
  creates the entry it looks up. The random draw of \<open>deferPath\<close> is an argument.
\<close>

section \<open>State\<close>

definition identitySuffix :: "js \<Rightarrow> string option" where
  "identitySuffix i = (case i of
      JBig n \<Rightarrow> Some (pad_start 64 (CHR ''0'') (hex_digits (nat (n mod 2 ^ 256))))
    | JStr s \<Rightarrow> if length s = 66 \<and> list_all is_lower_hex_char s then Some (drop 2 s)
        else if length s = 64 \<and> list_all is_lower_hex_char s then Some s else None
    | _ \<Rightarrow> None)"

record entry =
  e_attempts :: nat
  inflight :: bool
  e_k :: nat
  beganAt :: rat
  nextAt :: rat
  expired :: bool
  pathUntil :: rat
  noPath :: nat
  e_inc :: "string option"

record guard =
  maxAttempts :: nat
  baseMs :: rat
  g_factor :: rat
  refillWindowMs :: rat
  inflightMaxMs :: rat
  expiryRefill :: bool
  g_state :: "(string, entry) jmap"
  lastRefillAt :: "(string, rat) jmap"
  g_seq :: nat
  expiryRefills :: nat
  pathDefers :: nat
  refills :: nat
  coalesced :: nat
  staleEnded :: nat
  ignoredEnds :: nat
  staleIncEnds :: nat
  released :: nat

definition new_guard :: "nat \<Rightarrow> rat \<Rightarrow> rat \<Rightarrow> rat \<Rightarrow> rat \<Rightarrow> bool \<Rightarrow> guard" where
  "new_guard ma b f w im er = \<lparr>maxAttempts = ma, baseMs = b, g_factor = f, refillWindowMs = w, inflightMaxMs = im,
     expiryRefill = er, g_state = [], lastRefillAt = [], g_seq = 0, expiryRefills = 0, pathDefers = 0, refills = 0,
     coalesced = 0, staleEnded = 0, ignoredEnds = 0, staleIncEnds = 0, released = 0\<rparr>"

definition default_guard :: "bool \<Rightarrow> guard" where
  "default_guard er = new_guard 4 30000 2 60000 45000 er"

definition fresh_entry :: entry where
  "fresh_entry = \<lparr>e_attempts = 0, inflight = False, e_k = 0, beganAt = 0, nextAt = 0, expired = False, pathUntil = 0,
     noPath = 0, e_inc = None\<rparr>"

section \<open>Operations\<close>

definition g_s :: "string \<Rightarrow> guard \<Rightarrow> entry \<times> guard" where
  "g_s key g = (case mget (g_state g) key of
      Some s \<Rightarrow> (s, g) | None \<Rightarrow> (fresh_entry, g\<lparr>g_state := mset_key key fresh_entry (g_state g)\<rparr>))"

definition allow :: "js \<Rightarrow> rat \<Rightarrow> guard \<Rightarrow> bool \<times> guard" where
  "allow i t g = (case identitySuffix i of None \<Rightarrow> (True, g)
     | Some key \<Rightarrow> (let (s, g1) = g_s key g in
         (if t < pathUntil s then False
          else if expired s then expiryRefill g1 \<and> \<not> inflight s \<and> t \<ge> nextAt s
          else \<not> inflight s \<and> t \<ge> nextAt s, g1)))"

definition js_round :: "rat \<Rightarrow> rat" where
  "js_round x = of_int \<lfloor>x + 1 / 2\<rfloor>"

definition deferPath :: "js \<Rightarrow> rat \<Rightarrow> rat \<Rightarrow> rat \<Rightarrow> rat option \<Rightarrow> guard \<Rightarrow> rat \<times> guard" where
  "deferPath i t base maxMs jitter g = (case identitySuffix i of None \<Rightarrow> (0, g)
     | Some key \<Rightarrow> (let (s, g1) = g_s key g; n = min (noPath s + 1) 30; ms0 = min maxMs (base * 2 ^ (n - 1));
          ms = (case jitter of None \<Rightarrow> ms0 | Some r \<Rightarrow> js_round (ms0 * (1 / 2 + r)))
        in (ms, g1\<lparr>g_state := mset_key key (s\<lparr>noPath := n, pathUntil := t + ms\<rparr>) (g_state g1), pathDefers := pathDefers g1 + 1\<rparr>)))"

definition pathDelivered :: "js \<Rightarrow> guard \<Rightarrow> bool \<times> guard" where
  "pathDelivered i g = (case identitySuffix i of None \<Rightarrow> (False, g)
     | Some key \<Rightarrow> (case mget (g_state g) key of None \<Rightarrow> (False, g)
        | Some s \<Rightarrow> (True, g\<lparr>g_state :=
            (if e_attempts s = 0 \<and> \<not> expired s \<and> \<not> inflight s then mdelete key (g_state g)
             else mset_key key (s\<lparr>noPath := 0, pathUntil := 0\<rparr>) (g_state g))\<rparr>)))"

definition ag_begin :: "js \<Rightarrow> rat \<Rightarrow> guard \<Rightarrow> nat \<times> guard" where
  "ag_begin i t g = (case identitySuffix i of None \<Rightarrow> (0, g)
     | Some key \<Rightarrow> (let (s, g1) = g_s key g; k = g_seq g1 + 1;
          s' = (if expired s then s\<lparr>nextAt := t + refillWindowMs g1\<rparr> else s)
        in (k, g1\<lparr>g_state := mset_key key (s'\<lparr>inflight := True, e_k := k, beganAt := t\<rparr>) (g_state g1), g_seq := k,
              expiryRefills := expiryRefills g1 + (if expired s then 1 else 0)\<rparr>)))"

text \<open>The outcome of an attempt, for a key. \<open>k\<close> and \<open>inc\<close> are \<open>None\<close> when the caller leaves them out.\<close>

definition end_key :: "string \<Rightarrow> bool \<Rightarrow> rat \<Rightarrow> nat option \<Rightarrow> string option \<Rightarrow> guard \<Rightarrow> bool \<times> guard" where
  "end_key key bound t k ic g =
     (let ignored = (False, g\<lparr>ignoredEnds := ignoredEnds g + 1\<rparr>) in
      case mget (g_state g) key of None \<Rightarrow> ignored
      | Some s \<Rightarrow>
          if \<not> inflight s \<or> (\<exists>x \<in> set_option k. x \<noteq> e_k s) then ignored
          else if ic \<noteq> None \<and> e_inc s \<noteq> None \<and> ic \<noteq> e_inc s
          then (False, g\<lparr>ignoredEnds := ignoredEnds g + 1, staleIncEnds := staleIncEnds g + 1\<rparr>)
          else if bound then (True, g\<lparr>g_state := mdelete key (g_state g)\<rparr>)
          else (let s1 = s\<lparr>inflight := False, e_k := 0, e_inc := None, e_attempts := e_attempts s + 1\<rparr>;
                    s2 = (if e_attempts s1 \<ge> maxAttempts g then s1\<lparr>expired := True, nextAt := t + refillWindowMs g\<rparr>
                          else s1\<lparr>nextAt := t + baseMs g * g_factor g ^ (e_attempts s1 - 1)\<rparr>)
                in (True, g\<lparr>g_state := mset_key key s2 (g_state g)\<rparr>)))"

definition ag_end :: "js \<Rightarrow> bool \<Rightarrow> rat \<Rightarrow> nat option \<Rightarrow> string option \<Rightarrow> guard \<Rightarrow> bool \<times> guard" where
  "ag_end i bound t k ic g = (case identitySuffix i of None \<Rightarrow> (False, g) | Some key \<Rightarrow> end_key key bound t k ic g)"

definition attach :: "js \<Rightarrow> nat \<Rightarrow> string \<Rightarrow> guard \<Rightarrow> bool \<times> guard" where
  "attach i k ic g = (case identitySuffix i of None \<Rightarrow> (False, g)
     | Some key \<Rightarrow> (case mget (g_state g) key of None \<Rightarrow> (False, g)
        | Some s \<Rightarrow> if \<not> inflight s \<or> e_k s \<noteq> k then (False, g)
            else (True, g\<lparr>g_state := mset_key key (s\<lparr>e_inc := (if ic = [] then None else Some ic)\<rparr>) (g_state g)\<rparr>)))"

definition release :: "js \<Rightarrow> nat option \<Rightarrow> guard \<Rightarrow> bool \<times> guard" where
  "release i k g = (case identitySuffix i of None \<Rightarrow> (False, g)
     | Some key \<Rightarrow> (case mget (g_state g) key of None \<Rightarrow> (False, g\<lparr>ignoredEnds := ignoredEnds g + 1\<rparr>)
        | Some s \<Rightarrow> if \<not> inflight s \<or> (\<exists>x \<in> set_option k. x \<noteq> e_k s) then (False, g\<lparr>ignoredEnds := ignoredEnds g + 1\<rparr>)
            else (True, g\<lparr>released := released g + 1, g_state :=
              (if e_attempts s = 0 \<and> \<not> expired s \<and> noPath s = 0 then mdelete key (g_state g)
               else mset_key key (s\<lparr>inflight := False, e_k := 0\<rparr>) (g_state g))\<rparr>)))"

text \<open>\<open>sweep\<close> ends every overdue attempt as a failure. Such an \<open>end\<close> keeps the entry, so the iteration
  sees every entry once.\<close>

definition sweep_one :: "rat \<Rightarrow> rat \<Rightarrow> string \<times> entry \<Rightarrow> guard \<Rightarrow> guard" where
  "sweep_one t maxMs p g = (let (key, s) = p in
     if inflight s \<and> t - beganAt s > maxMs
     then (let g1 = snd (ag_end (JStr key) False t (Some (e_k s)) None g) in g1\<lparr>staleEnded := staleEnded g1 + 1\<rparr>)
     else g)"

definition sweep :: "rat \<Rightarrow> rat \<Rightarrow> guard \<Rightarrow> guard" where
  "sweep t maxMs g = fold (sweep_one t maxMs) (g_state g) g"

definition inflightCount :: "guard \<Rightarrow> nat" where
  "inflightCount g = length (filter (\<lambda>p. inflight (snd p)) (g_state g))"

datatype fresh_verdict = Unreadable | Coalesced | Refilled

definition onFreshRecord :: "js \<Rightarrow> rat \<Rightarrow> guard \<Rightarrow> fresh_verdict \<times> guard" where
  "onFreshRecord i t g = (case identitySuffix i of None \<Rightarrow> (Unreadable, g)
     | Some key \<Rightarrow>
         if (case mget (lastRefillAt g) key of None \<Rightarrow> False | Some prev \<Rightarrow> t - prev < refillWindowMs g)
         then (Coalesced, g\<lparr>coalesced := coalesced g + 1\<rparr>)
         else (Refilled, g\<lparr>lastRefillAt := mset_key key t (lastRefillAt g), refills := refills g + 1,
            g_state := (case mget (g_state g) key of
                Some s \<Rightarrow> if inflight s
                  then mset_key key (s\<lparr>e_attempts := 0, expired := False, nextAt := 0, noPath := 0, pathUntil := 0\<rparr>) (g_state g)
                  else mdelete key (g_state g)
              | None \<Rightarrow> g_state g)\<rparr>))"

record deficit =
  d_baseMs :: rat
  d_factor :: rat
  d_empties :: nat
  d_nextAt :: rat

definition new_deficit :: "rat \<Rightarrow> rat \<Rightarrow> deficit" where
  "new_deficit b f = \<lparr>d_baseMs = b, d_factor = f, d_empties = 0, d_nextAt = 0\<rparr>"

definition deficit_allow :: "rat \<Rightarrow> deficit \<Rightarrow> bool" where
  "deficit_allow t d \<longleftrightarrow> t \<ge> d_nextAt d"

definition onEmpty :: "rat \<Rightarrow> deficit \<Rightarrow> deficit" where
  "onEmpty t d = (let n = d_empties d + 1 in d\<lparr>d_empties := n, d_nextAt := t + d_baseMs d * d_factor d ^ (n - 1)\<rparr>)"

definition deficit_reset :: "deficit \<Rightarrow> deficit" where
  "deficit_reset d = d\<lparr>d_empties := 0, d_nextAt := 0\<rparr>"

section \<open>Histories and the invariant\<close>

datatype ag_event =
    GAllow js rat
  | GDefer js rat rat rat "rat option"
  | GDelivered js rat
  | GBegin js rat
  | GEnd js bool rat "nat option" "string option"
  | GAttach js nat string rat
  | GRelease js "nat option" rat
  | GSweep rat rat
  | GFresh js rat

fun ag_step :: "ag_event \<Rightarrow> guard \<Rightarrow> guard" where
  "ag_step (GAllow i t) g = snd (allow i t g)"
| "ag_step (GDefer i t b m r) g = snd (deferPath i t b m r g)"
| "ag_step (GDelivered i t) g = snd (pathDelivered i g)"
| "ag_step (GBegin i t) g = snd (ag_begin i t g)"
| "ag_step (GEnd i bd t k ic) g = snd (ag_end i bd t k ic g)"
| "ag_step (GAttach i k ic t) g = snd (attach i k ic g)"
| "ag_step (GRelease i k t) g = snd (release i k g)"
| "ag_step (GSweep m t) g = sweep t m g"
| "ag_step (GFresh i t) g = snd (onFreshRecord i t g)"

fun ag_time :: "ag_event \<Rightarrow> rat" where
  "ag_time (GAllow i t) = t"
| "ag_time (GDefer i t b m r) = t"
| "ag_time (GDelivered i t) = t"
| "ag_time (GBegin i t) = t"
| "ag_time (GEnd i bd t k ic) = t"
| "ag_time (GAttach i k ic t) = t"
| "ag_time (GRelease i k t) = t"
| "ag_time (GSweep m t) = t"
| "ag_time (GFresh i t) = t"

text \<open>What all operations leave alone.\<close>

definition g_conf :: "guard \<Rightarrow> nat \<times> rat \<times> rat \<times> rat \<times> rat \<times> bool" where
  "g_conf g = (maxAttempts g, baseMs g, g_factor g, refillWindowMs g, inflightMaxMs g, expiryRefill g)"

definition entry_ok :: "guard \<Rightarrow> entry \<Rightarrow> bool" where
  "entry_ok g s \<longleftrightarrow> (expired s \<longrightarrow> maxAttempts g \<le> e_attempts s) \<and> (inflight s \<longrightarrow> 1 \<le> e_k s \<and> e_k s \<le> g_seq g)"

text \<open>Live tokens are positive, issued, and belong to one identity.\<close>

definition guard_ok :: "guard \<Rightarrow> bool" where
  "guard_ok g \<longleftrightarrow> 1 \<le> maxAttempts g \<and> (\<forall>key s. mget (g_state g) key = Some s \<longrightarrow> entry_ok g s)
     \<and> (\<forall>key s key' s'. mget (g_state g) key = Some s \<longrightarrow> mget (g_state g) key' = Some s' \<longrightarrow>
          inflight s \<longrightarrow> inflight s' \<longrightarrow> e_k s = e_k s' \<longrightarrow> key = key')"

text \<open>An update at one key that starts no attempt keeps the invariant.\<close>

lemma guard_ok_upd:
  assumes "guard_ok g" "g_conf g' = g_conf g" "g_seq g' = g_seq g"
    and "\<And>x. x \<noteq> key \<Longrightarrow> mget (g_state g') x = mget (g_state g) x"
    and "\<And>s'. mget (g_state g') key = Some s' \<Longrightarrow> entry_ok g s' \<and>
       (inflight s' \<longrightarrow> (\<exists>s. mget (g_state g) key = Some s \<and> inflight s \<and> e_k s' = e_k s))"
  shows "guard_ok g'"
proof -
  have c: "maxAttempts g' = maxAttempts g" "g_seq g' = g_seq g" using assms(2,3) by (auto simp: g_conf_def)
  have e: "entry_ok g' s'" if "mget (g_state g') x = Some s'" for x s'
    using that assms(1,4,5) c by (cases "x = key") (auto simp: guard_ok_def entry_ok_def)
  have live: "\<exists>s. mget (g_state g) x = Some s \<and> inflight s \<and> e_k s' = e_k s"
    if "mget (g_state g') x = Some s'" "inflight s'" for x s'
    using that assms(4) [of x] assms(5) [of s'] by (cases "x = key") auto
  show ?thesis unfolding guard_ok_def
  proof (intro conjI allI impI)
    show "1 \<le> maxAttempts g'" using assms(1) c by (simp add: guard_ok_def)
    fix x s x' s'
    show "mget (g_state g') x = Some s \<Longrightarrow> entry_ok g' s" by (rule e)
    assume "mget (g_state g') x = Some s" "mget (g_state g') x' = Some s'" "inflight s" "inflight s'" "e_k s = e_k s'"
    then show "x = x'" using live [of x s] live [of x' s'] assms(1) unfolding guard_ok_def by metis
  qed
qed

lemma entry_ok_fresh [simp]: "entry_ok g fresh_entry"
  by (simp add: entry_ok_def fresh_entry_def)

lemma g_s_props:
  assumes "g_s key g = (s, g1)"
  shows "mget (g_state g1) key = Some s" "\<And>x. x \<noteq> key \<Longrightarrow> mget (g_state g1) x = mget (g_state g) x"
    "g_conf g1 = g_conf g" "g_seq g1 = g_seq g" "lastRefillAt g1 = lastRefillAt g"
    "mget (g_state g) key = Some s \<or> (mget (g_state g) key = None \<and> s = fresh_entry)"
  using assms by (auto simp: g_s_def g_conf_def split: option.splits)

lemma guard_ok_g_s: "guard_ok g \<Longrightarrow> g_s key g = (s, g1) \<Longrightarrow> guard_ok g1"
  by (rule guard_ok_upd [where key = key and g = g])
    (auto simp: g_s_def g_conf_def guard_ok_def fresh_entry_def entry_ok_def split: option.splits)

lemma guard_entry: "guard_ok g \<Longrightarrow> mget (g_state g) key = Some s \<Longrightarrow> entry_ok g s"
  by (simp add: guard_ok_def)

lemma guard_ok_end_key: "guard_ok g \<Longrightarrow> guard_ok (snd (end_key key bd t k ic g))"
  by (rule guard_ok_upd [where key = key and g = g])
    (auto simp: end_key_def Let_def g_conf_def entry_ok_def dest: guard_entry split: option.splits if_splits)

lemma guard_ok_counters [simp]: "guard_ok (g\<lparr>staleEnded := n\<rparr>) \<longleftrightarrow> guard_ok g"
  by (simp add: guard_ok_def entry_ok_def)

lemma guard_ok_end: "guard_ok g \<Longrightarrow> guard_ok (snd (ag_end i bd t k ic g))"
  by (simp add: ag_end_def guard_ok_end_key split: option.split)

lemma guard_ok_sweep:
  assumes "guard_ok g"
  shows "guard_ok (sweep t m g)"
proof -
  have "guard_ok (sweep_one t m p g)" if "guard_ok g" for p g
    using that by (simp add: sweep_one_def Let_def case_prod_beta guard_ok_end)
  then have "guard_ok (fold (sweep_one t m) ps g)" if "guard_ok g" for ps g
    using that by (induction ps arbitrary: g) auto
  then show ?thesis using assms by (simp add: sweep_def)
qed

lemma guard_ok_begin:
  assumes "guard_ok g"
  shows "guard_ok (snd (ag_begin i t g))"
proof (cases "identitySuffix i")
  case (Some key)
  obtain s g1 where s: "g_s key g = (s, g1)" by (cases "g_s key g")
  have g1: "guard_ok g1" using assms s by (rule guard_ok_g_s)
  have so: "entry_ok g1 s" using g1 g_s_props(1) [OF s] by (rule guard_entry)
  have le: "e_k x \<le> g_seq g1" if "mget (g_state g1) y = Some x" "inflight x" for x y
    using g1 that by (auto simp: guard_ok_def entry_ok_def)
  show ?thesis unfolding guard_ok_def
  proof (intro conjI allI impI)
    show "1 \<le> maxAttempts (snd (ag_begin i t g))" using g1 Some s by (simp add: ag_begin_def Let_def guard_ok_def)
  next
    fix x y assume "mget (g_state (snd (ag_begin i t g))) x = Some y"
    then show "entry_ok (snd (ag_begin i t g)) y" using so Some s guard_entry [OF g1, of x y]
      by (cases "x = key") (auto simp: ag_begin_def Let_def entry_ok_def)
  next
    fix x y x' y' assume "mget (g_state (snd (ag_begin i t g))) x = Some y" "mget (g_state (snd (ag_begin i t g))) x' = Some y'"
      "inflight y" "inflight y'" "e_k y = e_k y'"
    then show "x = x'" using g1 Some s le [of x y] le [of x' y']
      by (cases "x = key"; cases "x' = key") (auto simp: ag_begin_def Let_def guard_ok_def)
  qed
qed (simp add: ag_begin_def assms)

lemma guard_ok_allow: "guard_ok g \<Longrightarrow> guard_ok (snd (allow i t g))"
  by (auto simp: allow_def Let_def guard_ok_g_s split: option.splits prod.splits)

lemma guard_ok_defer:
  assumes "guard_ok g"
  shows "guard_ok (snd (deferPath i t b m r g))"
proof (cases "identitySuffix i")
  case (Some key)
  obtain s g1 where s: "g_s key g = (s, g1)" by (cases "g_s key g")
  have g1: "guard_ok g1" using assms s by (rule guard_ok_g_s)
  have "entry_ok g1 s" using g1 g_s_props(1) [OF s] by (rule guard_entry)
  then show ?thesis using Some s g_s_props(1) [OF s]
    by (intro guard_ok_upd [OF g1, where key = key]) (auto simp: deferPath_def Let_def g_conf_def entry_ok_def)
qed (simp add: deferPath_def assms)

lemma guard_ok_delivered: "guard_ok g \<Longrightarrow> guard_ok (snd (pathDelivered i g))"
  by (cases "identitySuffix i", simp add: pathDelivered_def)
    (rule guard_ok_upd [where key = "the (identitySuffix i)" and g = g],
      auto simp: pathDelivered_def g_conf_def entry_ok_def dest: guard_entry split: option.splits if_splits)

lemma guard_ok_attach: "guard_ok g \<Longrightarrow> guard_ok (snd (attach i k ic g))"
  by (cases "identitySuffix i", simp add: attach_def)
    (rule guard_ok_upd [where key = "the (identitySuffix i)" and g = g],
      auto simp: attach_def g_conf_def entry_ok_def dest: guard_entry split: option.splits if_splits)

lemma guard_ok_release: "guard_ok g \<Longrightarrow> guard_ok (snd (release i k g))"
  by (cases "identitySuffix i", simp add: release_def)
    (rule guard_ok_upd [where key = "the (identitySuffix i)" and g = g],
      auto simp: release_def g_conf_def entry_ok_def dest: guard_entry split: option.splits if_splits)

lemma guard_ok_fresh: "guard_ok g \<Longrightarrow> guard_ok (snd (onFreshRecord i t g))"
  by (cases "identitySuffix i", simp add: onFreshRecord_def)
    (rule guard_ok_upd [where key = "the (identitySuffix i)" and g = g],
      auto simp: onFreshRecord_def g_conf_def entry_ok_def dest: guard_entry split: option.splits if_splits)

lemma guard_ok_step: "guard_ok g \<Longrightarrow> guard_ok (ag_step e g)"
  by (cases e) (simp_all add: guard_ok_allow guard_ok_defer guard_ok_delivered guard_ok_begin guard_ok_end guard_ok_attach
      guard_ok_release guard_ok_sweep guard_ok_fresh)

lemma guard_ok_run: "guard_ok g \<Longrightarrow> guard_ok (fold ag_step es g)"
  by (induction es arbitrary: g) (simp_all add: guard_ok_step)

lemma guard_ok_new: "1 \<le> ma \<Longrightarrow> guard_ok (new_guard ma b f w im er)"
  by (simp add: guard_ok_def new_guard_def)

section \<open>Pacing of an exhausted candidate\<close>

definition g_next :: "string \<Rightarrow> guard \<Rightarrow> rat" where
  "g_next key g = (case mget (g_state g) key of None \<Rightarrow> 0 | Some s \<Rightarrow> nextAt s)"

definition is_expired :: "string \<Rightarrow> rat \<Rightarrow> guard \<Rightarrow> bool" where
  "is_expired key w g \<longleftrightarrow> refillWindowMs g = w
     \<and> (case mget (g_state g) key of None \<Rightarrow> False | Some s \<Rightarrow> expired s)"

definition expired_ok :: "string \<Rightarrow> rat \<Rightarrow> guard \<Rightarrow> bool" where
  "expired_ok key w g \<longleftrightarrow> guard_ok g \<and> is_expired key w g"

lemma expired_obtain:
  assumes "expired_ok key w g"
  obtains s where "mget (g_state g) key = Some s" "expired s" "refillWindowMs g = w" "g_next key g = nextAt s"
    "maxAttempts g \<le> e_attempts s"
  using assms that by (auto simp: expired_ok_def is_expired_def g_next_def guard_ok_def entry_ok_def split: option.splits)

text \<open>The end of an attempt restarts the window of an exhausted candidate and no other.\<close>

lemma end_key_expired:
  assumes "expired_ok key w g" "d \<le> g_next key g" "d \<le> t + w"
  shows "d \<le> g_next key (snd (end_key key' bd t k ic g)) \<or> mget (g_state (snd (end_key key' bd t k ic g))) key = None"
    and "\<not> bd \<Longrightarrow> expired_ok key w (snd (end_key key' bd t k ic g)) \<and> d \<le> g_next key (snd (end_key key' bd t k ic g))"
proof -
  obtain s where s: "mget (g_state g) key = Some s" "expired s" "refillWindowMs g = w" "g_next key g = nextAt s"
    "maxAttempts g \<le> e_attempts s" by (rule expired_obtain [OF assms(1)])
  have "guard_ok g" using assms(1) by (simp add: expired_ok_def)
  note ok = guard_ok_end_key [OF this, of key' bd t k ic]
  show "d \<le> g_next key (snd (end_key key' bd t k ic g)) \<or> mget (g_state (snd (end_key key' bd t k ic g))) key = None"
    using s assms(2,3) by (auto simp: end_key_def Let_def g_next_def split: option.splits)
  show "\<not> bd \<Longrightarrow> expired_ok key w (snd (end_key key' bd t k ic g)) \<and> d \<le> g_next key (snd (end_key key' bd t k ic g))"
    using s assms(2,3) ok by (auto simp: expired_ok_def is_expired_def end_key_def Let_def g_next_def split: option.splits)
qed

lemma sweep_expired:
  assumes "expired_ok key w g" "d \<le> g_next key g" "d \<le> t + w"
  shows "expired_ok key w (sweep t m g) \<and> d \<le> g_next key (sweep t m g)"
proof -
  have c: "expired_ok key w (g\<lparr>staleEnded := n\<rparr>) = expired_ok key w g" "g_next key (g\<lparr>staleEnded := n\<rparr>) = g_next key g" for g n
    by (simp_all add: expired_ok_def is_expired_def g_next_def)
  have "expired_ok key w (sweep_one t m p g) \<and> d \<le> g_next key (sweep_one t m p g)"
    if "expired_ok key w g \<and> d \<le> g_next key g" for p g
    using that end_key_expired(2) [of key w g d t False] assms(3)
    by (auto simp: sweep_one_def Let_def c ag_end_def split: option.splits prod.splits)
  then have "expired_ok key w (fold (sweep_one t m) ps g) \<and> d \<le> g_next key (fold (sweep_one t m) ps g)"
    if "expired_ok key w g \<and> d \<le> g_next key g" for ps g
    using that by (induction ps arbitrary: g) auto
  then show ?thesis using assms(1,2) by (simp add: sweep_def)
qed

lemma g_s_Some: "mget (g_state g) key = Some s \<Longrightarrow> g_s key g = (s, g)"
  by (simp add: g_s_def)

lemma g_s_other: "key' \<noteq> key \<Longrightarrow> mget (g_state (snd (g_s key' g))) key = mget (g_state g) key"
  using g_s_props(2) [of key' g "fst (g_s key' g)" "snd (g_s key' g)" key] by simp

text \<open>Every operation on another key leaves the entry alone.\<close>

lemma allow_get: "mget (g_state g) key = Some s \<Longrightarrow> mget (g_state (snd (allow i t g))) key = Some s"
  using g_s_other [of _ key g] g_s_Some [of g key s]
  by (cases "identitySuffix i = Some key") (auto simp: allow_def Let_def case_prod_beta split: option.splits)

definition expired_id :: "js \<Rightarrow> rat \<Rightarrow> guard \<Rightarrow> bool" where
  "expired_id i w g \<longleftrightarrow> identitySuffix i \<noteq> None \<and> expired_ok (the (identitySuffix i)) w g"

lemma step_expired:
  assumes "expired_ok key w g" "d \<le> g_next key g" "d \<le> ag_time e + w"
  shows "d \<le> g_next key (ag_step e g) \<or> \<not> is_expired key w (ag_step e g)"
proof -
  obtain s where s: "mget (g_state g) key = Some s" "expired s" "refillWindowMs g = w" "g_next key g = nextAt s"
    "maxAttempts g \<le> e_attempts s" by (rule expired_obtain [OF assms(1)])
  note d = assms(2,3)
  show ?thesis
  proof (cases e)
    case (GAllow i t)
    then show ?thesis using s d allow_get [OF s(1), of i t] by (simp add: g_next_def)
  next
    case (GDefer i t b m r)
    have o: "mget (g_state (snd (deferPath i t b m r g))) key = Some s" if "identitySuffix i \<noteq> Some key"
      using that s(1) g_s_other [of _ key g] by (auto simp: deferPath_def Let_def case_prod_beta split: option.splits)
    show ?thesis using GDefer s d o
      by (cases "identitySuffix i = Some key") (auto simp: deferPath_def Let_def g_s_Some g_next_def)
  next
    case (GBegin i t)
    have o: "mget (g_state (snd (ag_begin i t g))) key = Some s" if "identitySuffix i \<noteq> Some key"
      using that s(1) g_s_other [of _ key g] by (auto simp: ag_begin_def Let_def case_prod_beta split: option.splits)
    show ?thesis using GBegin s d o
      by (cases "identitySuffix i = Some key") (auto simp: ag_begin_def Let_def g_s_Some g_next_def)
  next
    case (GEnd i bd t k ic)
    then have "d \<le> t + w" using d by simp
    note en = end_key_expired(1) [OF assms(1,2) this]
    show ?thesis
    proof (cases "identitySuffix i")
      case (Some key')
      from en [of key' bd k ic] show ?thesis using GEnd Some by (auto simp: ag_end_def is_expired_def)
    qed (use GEnd d in \<open>simp add: ag_end_def\<close>)
  next
    case (GSweep m t)
    then show ?thesis using sweep_expired [OF assms(1,2)] d by simp
  qed (use s d in \<open>auto simp: pathDelivered_def attach_def release_def onFreshRecord_def g_next_def is_expired_def
        split: option.splits if_splits\<close>)
qed

interpretation ag: paced "allow i" "\<lambda>t g. snd (ag_begin i t g)" ag_step ag_time "expired_id i w"
  "\<lambda>g. g_next (the (identitySuffix i)) g" w for i w
proof (unfold_locales, goal_cases)
  case (1 s t)
  then show ?case by (auto simp: expired_id_def allow_def g_s_Some Let_def split: if_splits elim!: expired_obtain)
next
  case (2 s t)
  then show ?case by (auto simp: expired_id_def allow_def g_s_Some Let_def elim!: expired_obtain)
next
  case (3 s t)
  then show ?case by (auto simp: expired_id_def allow_def ag_begin_def g_s_Some Let_def g_next_def elim!: expired_obtain)
next
  case (4 g e d)
  then show ?case using step_expired [of "the (identitySuffix i)" w g d e] by (auto simp: expired_id_def expired_ok_def)
qed

section \<open>The presence valve\<close>

definition grant :: "js \<Rightarrow> rat \<Rightarrow> guard \<Rightarrow> bool \<times> guard" where
  "grant i t g = (fst (onFreshRecord i t g) = Refilled, snd (onFreshRecord i t g))"

definition refilled_at :: "js \<Rightarrow> guard \<Rightarrow> rat" where
  "refilled_at i g = (case mget (lastRefillAt g) (the (identitySuffix i)) of None \<Rightarrow> 0 | Some t \<Rightarrow> t)"

definition has_refill :: "js \<Rightarrow> rat \<Rightarrow> guard \<Rightarrow> bool" where
  "has_refill i w g \<longleftrightarrow> refillWindowMs g = w \<and> identitySuffix i \<noteq> None \<and> mhas (lastRefillAt g) (the (identitySuffix i))"

lemma g_s_last [simp]: "lastRefillAt (snd (g_s key g)) = lastRefillAt g" "refillWindowMs (snd (g_s key g)) = refillWindowMs g"
  by (simp_all add: g_s_def split: option.split)

lemma end_key_last [simp]:
  "lastRefillAt (snd (end_key key bd t k ic g)) = lastRefillAt g" "refillWindowMs (snd (end_key key bd t k ic g)) = refillWindowMs g"
  by (simp_all add: end_key_def Let_def split: option.split)

lemma ag_end_last [simp]:
  "lastRefillAt (snd (ag_end i bd t k ic g)) = lastRefillAt g" "refillWindowMs (snd (ag_end i bd t k ic g)) = refillWindowMs g"
  by (simp_all add: ag_end_def split: option.split)

lemma sweep_last: "lastRefillAt (sweep t m g) = lastRefillAt g \<and> refillWindowMs (sweep t m g) = refillWindowMs g"
proof -
  have "lastRefillAt (sweep_one t m p g) = lastRefillAt g \<and> refillWindowMs (sweep_one t m p g) = refillWindowMs g" for p g
    by (simp add: sweep_one_def Let_def case_prod_beta)
  then have "lastRefillAt (fold (sweep_one t m) ps g) = lastRefillAt g \<and> refillWindowMs (fold (sweep_one t m) ps g) = refillWindowMs g" for ps g
    by (induction ps arbitrary: g) auto
  then show ?thesis by (simp add: sweep_def)
qed

lemma step_last:
  assumes "\<And>i t. e \<noteq> GFresh i t"
  shows "lastRefillAt (ag_step e g) = lastRefillAt g"
  using assms
  by (cases e) (auto simp: sweep_last allow_def deferPath_def pathDelivered_def ag_begin_def attach_def release_def Let_def case_prod_beta
      split: option.split)

lemma step_window: "refillWindowMs (ag_step e g) = refillWindowMs g"
  by (cases e) (auto simp: sweep_last allow_def deferPath_def pathDelivered_def ag_begin_def attach_def release_def onFreshRecord_def
      Let_def case_prod_beta split: option.split)

interpretation pv: paced "grant i" "\<lambda>t g. g" ag_step ag_time "has_refill i w" "\<lambda>g. refilled_at i g + w" w for i w
proof (unfold_locales, goal_cases)
  case (1 s t)
  then show ?case by (auto simp: has_refill_def grant_def onFreshRecord_def refilled_at_def split: if_splits)
next
  case (2 s t)
  then show ?case by (auto simp: has_refill_def grant_def onFreshRecord_def refilled_at_def split: if_splits)
next
  case (3 s t)
  then show ?case by (auto simp: has_refill_def grant_def onFreshRecord_def refilled_at_def split: if_splits)
next
  case (4 g e d)
  show ?case
  proof (cases "\<exists>j t. e = GFresh j t")
    case False
    then show ?thesis using 4(3) step_last [of e g] by (simp add: refilled_at_def)
  next
    case True
    then show ?thesis using 4 by (auto simp: has_refill_def onFreshRecord_def refilled_at_def split: option.splits if_splits)
  qed
qed

section \<open>Tokens\<close>

text \<open>A token that is spent: issued, and held by no live attempt.\<close>

definition spent :: "nat \<Rightarrow> guard \<Rightarrow> bool" where
  "spent k g \<longleftrightarrow> k \<le> g_seq g \<and> (\<forall>key s. mget (g_state g) key = Some s \<longrightarrow> inflight s \<longrightarrow> e_k s \<noteq> k)"

lemma spent_g_s: "spent k g \<Longrightarrow> spent k (snd (g_s key g))"
  by (auto simp: spent_def g_s_def fresh_entry_def split: option.splits if_splits)

lemma spent_end_key: "spent k g \<Longrightarrow> spent k (snd (end_key key bd t k' ic g))"
  by (auto simp: spent_def end_key_def Let_def split: option.splits if_splits)

lemma spent_end: "spent k g \<Longrightarrow> spent k (snd (ag_end i bd t k' ic g))"
  by (auto simp: ag_end_def spent_end_key split: option.splits)

lemma spent_sweep: "spent k g \<Longrightarrow> spent k (sweep t m g)"
proof -
  have "spent k (sweep_one t m p g)" if "spent k g" for p g
    using spent_end [OF that, of "JStr (fst p)" False t "Some (e_k (snd p))" None] that
    by (simp add: sweep_one_def Let_def case_prod_beta spent_def)
  then have "spent k (fold (sweep_one t m) ps g)" if "spent k g" for ps g
    using that by (induction ps arbitrary: g) auto
  then show "spent k g \<Longrightarrow> spent k (sweep t m g)" by (simp add: sweep_def)
qed

lemma spent_upd: "spent k g \<Longrightarrow> mget (g_state g) key = Some s \<Longrightarrow> (inflight s' \<Longrightarrow> inflight s \<and> e_k s' = e_k s) \<Longrightarrow>
   spent k (g\<lparr>g_state := mset_key key s' (g_state g)\<rparr>)"
  by (auto simp: spent_def)

lemma spent_step:
  assumes "spent k g"
  shows "spent k (ag_step e g)"
proof (cases e)
  case (GBegin i t)
  show ?thesis
  proof (cases "identitySuffix i")
    case (Some key)
    have "spent k (snd (g_s key g))" using assms by (rule spent_g_s)
    then show ?thesis using GBegin Some
      by (auto simp: ag_begin_def Let_def case_prod_beta spent_def split: if_splits)
  qed (use assms GBegin in \<open>simp add: ag_begin_def\<close>)
next
  case (GDefer i t b m r)
  show ?thesis
  proof (cases "identitySuffix i")
    case (Some key)
    have "spent k (snd (g_s key g))" using assms by (rule spent_g_s)
    then show ?thesis using GDefer Some g_s_props(1) [of key g "fst (g_s key g)" "snd (g_s key g)"]
      by (auto simp: deferPath_def Let_def case_prod_beta spent_def split: if_splits)
  qed (use assms GDefer in \<open>simp add: deferPath_def\<close>)
next
  case (GAllow i t)
  then show ?thesis using assms by (auto simp: allow_def Let_def case_prod_beta spent_g_s split: option.splits)
next
  case (GEnd i bd t k' ic)
  then show ?thesis using assms by (simp add: spent_end)
next
  case (GSweep m t)
  then show ?thesis using assms by (simp add: spent_sweep)
qed (use assms in \<open>auto simp: pathDelivered_def attach_def release_def onFreshRecord_def spent_def split: option.splits if_splits\<close>)

lemma spent_run: "spent k g \<Longrightarrow> spent k (fold ag_step es g)"
  by (induction es arbitrary: g) (simp_all add: spent_step)

lemma end_spends:
  assumes "guard_ok g" "fst (ag_end i bd t (Some k) ic g)"
  shows "spent k (snd (ag_end i bd t (Some k) ic g))"
proof -
  obtain key s where s: "identitySuffix i = Some key" "mget (g_state g) key = Some s" "inflight s" "e_k s = k"
    using assms(2) by (auto simp: ag_end_def end_key_def Let_def split: option.splits if_splits)
  have uniq: "key' = key" if "mget (g_state g) key' = Some s'" "inflight s'" "e_k s' = k" for key' s'
    using assms(1) s(2-4) that unfolding guard_ok_def by blast
  have le: "k \<le> g_seq g" using guard_entry [OF assms(1) s(2)] s(3,4) by (auto simp: entry_ok_def)
  have after: "g_seq (snd (ag_end i bd t (Some k) ic g)) = g_seq g"
    "\<And>key'. key' \<noteq> key \<Longrightarrow> mget (g_state (snd (ag_end i bd t (Some k) ic g))) key' = mget (g_state g) key'"
    "\<And>s'. mget (g_state (snd (ag_end i bd t (Some k) ic g))) key = Some s' \<Longrightarrow> \<not> inflight s'"
    using assms(2) s by (auto simp: ag_end_def end_key_def Let_def split: if_splits)
  show ?thesis unfolding spent_def after(1)
  proof (intro conjI allI impI le)
    fix key' s' assume "mget (g_state (snd (ag_end i bd t (Some k) ic g))) key' = Some s'" "inflight s'"
    then show "e_k s' \<noteq> k" using uniq [of key' s'] after(2) [of key'] after(3) [of s'] by (cases "key' = key") auto
  qed
qed

section \<open>An attempt in flight\<close>

text \<open>The map is keyed on suffixes, which are their own suffixes, and has no key twice.\<close>

definition keyed :: "(string, entry) jmap \<Rightarrow> bool" where
  "keyed m \<longleftrightarrow> minvar m \<and> (\<forall>k \<in> set (mkeys m). identitySuffix (JStr k) = Some k)"

lemma suffix_of_suffix: "identitySuffix i = Some key \<Longrightarrow> identitySuffix (JStr key) = Some key"
proof (cases i)
  case (JBig n)
  have lt: "nat (n mod 2 ^ 256) < 16 ^ 64" by (simp add: nat_less_iff)
  let ?h = "hex_digits (nat (n mod 2 ^ 256))"
  have "length ?h \<le> 64" by (rule length_hex_digits) (simp, rule lt)
  then have "length (pad_start 64 (CHR ''0'') ?h) = 64" by (simp add: pad_start_def)
  moreover have "list_all is_lower_hex_char (pad_start 64 (CHR ''0'') ?h)"
    using hex_digits_lower [of "nat (n mod 2 ^ 256)"] by (auto simp: pad_start_def list_all_iff is_lower_hex_char_def)
  ultimately show "identitySuffix i = Some key \<Longrightarrow> ?thesis" by (auto simp: identitySuffix_def JBig)
next
  case (JStr s)
  have "list_all P (drop k xs)" if "list_all P xs" for P and k and xs :: string using that by (auto simp: list_all_iff dest: in_set_dropD)
  then show "identitySuffix i = Some key \<Longrightarrow> ?thesis" by (auto simp: identitySuffix_def JStr split: if_splits)
qed (simp_all add: identitySuffix_def)

lemma keyed_set: "keyed m \<Longrightarrow> identitySuffix i = Some key \<Longrightarrow> keyed (mset_key key s m)"
  using suffix_of_suffix by (auto simp: keyed_def mkeys_mset_key)

lemma keyed_delete: "keyed m \<Longrightarrow> keyed (mdelete key m)"
  by (auto simp: keyed_def mkeys_mdelete)

lemma keyed_g_s: "keyed (g_state g) \<Longrightarrow> identitySuffix i = Some key \<Longrightarrow> keyed (g_state (snd (g_s key g)))"
  by (auto simp: g_s_def keyed_set split: option.split)

lemma keyed_end: "keyed (g_state g) \<Longrightarrow> keyed (g_state (snd (ag_end i bd t k ic g)))"
  by (auto simp: ag_end_def end_key_def Let_def keyed_set keyed_delete split: option.split)

lemma keyed_sweep: "keyed (g_state g) \<Longrightarrow> keyed (g_state (sweep t m g))"
proof -
  have "keyed (g_state (sweep_one t m p g))" if "keyed (g_state g)" for p g
    using that by (simp add: sweep_one_def Let_def case_prod_beta keyed_end)
  then have "keyed (g_state (fold (sweep_one t m) ps g))" if "keyed (g_state g)" for ps g
    using that by (induction ps arbitrary: g) auto
  then show "keyed (g_state g) \<Longrightarrow> keyed (g_state (sweep t m g))" by (simp add: sweep_def)
qed

lemma keyed_step: "keyed (g_state g) \<Longrightarrow> keyed (g_state (ag_step e g))"
proof (cases e)
  case (GAllow i t)
  then show "keyed (g_state g) \<Longrightarrow> ?thesis" by (auto simp: allow_def Let_def case_prod_beta keyed_g_s split: option.split)
next
  case (GDefer i t b m r)
  then show "keyed (g_state g) \<Longrightarrow> ?thesis" by (auto simp: deferPath_def Let_def case_prod_beta keyed_g_s keyed_set split: option.split)
next
  case (GBegin i t)
  then show "keyed (g_state g) \<Longrightarrow> ?thesis" by (auto simp: ag_begin_def Let_def case_prod_beta keyed_g_s keyed_set split: option.split)
qed (auto simp: keyed_end keyed_sweep pathDelivered_def attach_def release_def onFreshRecord_def keyed_set keyed_delete split: option.split)

lemma keyed_run: "keyed (g_state (fold ag_step es (new_guard ma b f w im er)))"
proof -
  have "keyed (g_state g) \<Longrightarrow> keyed (g_state (fold ag_step es g))" for g by (induction es arbitrary: g) (simp_all add: keyed_step)
  moreover have "keyed (g_state (new_guard ma b f w im er))" by (simp add: new_guard_def keyed_def minvar_def)
  ultimately show ?thesis by blast
qed

text \<open>The attempt with token \<open>k\<close> begun at \<open>t0\<close> is in flight.\<close>

definition attempt :: "string \<Rightarrow> nat \<Rightarrow> rat \<Rightarrow> guard \<Rightarrow> bool" where
  "attempt key k t0 g \<longleftrightarrow> (\<exists>s. mget (g_state g) key = Some s \<and> inflight s \<and> e_k s = k \<and> beganAt s = t0)"

text \<open>The events that leave that attempt in flight: an end with another token or for another channel incarnation than the one
  attached, a release with another token, a sweep in which the attempt is not overdue, and every event but these and a \<open>begin\<close>. A
  \<open>begin\<close> of the identity comes only after \<open>allow\<close> has permitted it.\<close>

definition other_incarnation :: "string \<Rightarrow> string option \<Rightarrow> guard \<Rightarrow> bool" where
  "other_incarnation key ic g \<longleftrightarrow> (case mget (g_state g) key of None \<Rightarrow> False | Some s \<Rightarrow> ic \<noteq> None \<and> e_inc s \<noteq> None \<and> ic \<noteq> e_inc s)"

fun spares :: "string \<Rightarrow> nat \<Rightarrow> rat \<Rightarrow> ag_event \<Rightarrow> guard \<Rightarrow> bool" where
  "spares key k t0 (GEnd i bd t k' ic) g \<longleftrightarrow> identitySuffix i = Some key \<longrightarrow> (k' \<noteq> None \<and> k' \<noteq> Some k) \<or> other_incarnation key ic g"
| "spares key k t0 (GRelease i k' t) g \<longleftrightarrow> identitySuffix i = Some key \<longrightarrow> k' \<noteq> None \<and> k' \<noteq> Some k"
| "spares key k t0 (GSweep m t) g \<longleftrightarrow> t - t0 \<le> m"
| "spares key k t0 (GBegin i t) g \<longleftrightarrow> identitySuffix i = Some key \<longrightarrow> fst (allow i t g)"
| "spares key k t0 e g \<longleftrightarrow> True"

fun spared :: "string \<Rightarrow> nat \<Rightarrow> rat \<Rightarrow> ag_event list \<Rightarrow> guard \<Rightarrow> bool" where
  "spared key k t0 [] g = True"
| "spared key k t0 (e # es) g = (spares key k t0 e g \<and> spared key k t0 es (ag_step e g))"

lemma attempt_refused: "attempt key k t0 g \<Longrightarrow> identitySuffix j = Some key \<Longrightarrow> \<not> fst (allow j t g)"
  by (auto simp: attempt_def allow_def g_s_def Let_def split: option.splits)

lemma attempt_g_s: "attempt key k t0 g \<Longrightarrow> attempt key k t0 (snd (g_s key' g))"
  using g_s_other [of key' key g] g_s_Some [of g key] by (cases "key' = key") (auto simp: attempt_def)

lemma attempt_upd_other: "attempt key k t0 g \<Longrightarrow> mget (g_state g') key = mget (g_state g) key \<Longrightarrow> attempt key k t0 g'"
  by (simp add: attempt_def)

lemma attempt_end_other: "attempt key k t0 g \<Longrightarrow> identitySuffix i \<noteq> Some key \<Longrightarrow> attempt key k t0 (snd (ag_end i bd t k' ic g))"
  by (auto simp: ag_end_def end_key_def Let_def attempt_def split: option.split)

lemma attempt_sweep:
  assumes "attempt key k t0 g" "keyed (g_state g)" "t - t0 \<le> m"
  shows "attempt key k t0 (sweep t m g)"
proof -
  obtain s where s: "mget (g_state g) key = Some s" "beganAt s = t0" using assms(1) by (auto simp: attempt_def)
  have one: "attempt key k t0 (sweep_one t m p x)" if "attempt key k t0 x" "p \<in> set (g_state g)" for p x
  proof (cases "fst p = key")
    case True
    then have "snd p = s" using that(2) s(1) assms(2) by (cases p) (simp add: keyed_def minvar_get_iff [symmetric])
    then show ?thesis using that(1) s(2) assms(3) by (simp add: sweep_one_def case_prod_beta)
  next
    case False
    have "identitySuffix (JStr (fst p)) = Some (fst p)" using assms(2) that(2) by (auto simp: keyed_def)
    then have "attempt key k t0 (snd (ag_end (JStr (fst p)) False t (Some (e_k (snd p))) None x))"
      using attempt_end_other [OF that(1)] False by simp
    then show ?thesis using that(1) by (simp add: sweep_one_def case_prod_beta Let_def attempt_def)
  qed
  have "attempt key k t0 (fold (sweep_one t m) ps x)" if "attempt key k t0 x" "set ps \<subseteq> set (g_state g)" for ps x
    using that by (induction ps arbitrary: x) (auto intro: one)
  then show ?thesis using assms(1) by (simp add: sweep_def)
qed

lemma attempt_begin:
  assumes "attempt key k t0 g" "identitySuffix i \<noteq> Some key"
  shows "attempt key k t0 (snd (ag_begin i t g))"
proof (cases "identitySuffix i")
  case (Some key')
  then have "mget (g_state (snd (ag_begin i t g))) key = mget (g_state (snd (g_s key' g))) key"
    using assms(2) by (simp add: ag_begin_def Let_def case_prod_beta)
  then show ?thesis using attempt_upd_other [OF attempt_g_s [OF assms(1)]] by blast
qed (use assms(1) in \<open>simp add: ag_begin_def\<close>)

lemma attempt_defer: "attempt key k t0 g \<Longrightarrow> attempt key k t0 (snd (deferPath i t b m r g))"
proof (cases "identitySuffix i")
  case (Some key')
  assume a: "attempt key k t0 g"
  show ?thesis
  proof (cases "key' = key")
    case True
    then show ?thesis using a Some by (auto simp: deferPath_def Let_def attempt_def g_s_Some)
  next
    case False
    then have "mget (g_state (snd (deferPath i t b m r g))) key = mget (g_state (snd (g_s key' g))) key"
      using Some by (simp add: deferPath_def Let_def case_prod_beta)
    then show ?thesis using attempt_upd_other [OF attempt_g_s [OF a]] by blast
  qed
qed (simp add: deferPath_def)

lemma attempt_allow: "attempt key k t0 g \<Longrightarrow> attempt key k t0 (snd (allow i t g))"
  using attempt_g_s by (auto simp: allow_def Let_def case_prod_beta split: option.split)

lemma attempt_end:
  assumes "attempt key k t0 g" "spares key k t0 (GEnd i bd t k' ic) g"
  shows "attempt key k t0 (snd (ag_end i bd t k' ic g))"
proof (cases "identitySuffix i = Some key")
  case True
  obtain s where s: "mget (g_state g) key = Some s" "inflight s" "e_k s = k" "beganAt s = t0" using assms(1) by (auto simp: attempt_def)
  have "(k' \<noteq> None \<and> k' \<noteq> Some k) \<or> (ic \<noteq> None \<and> e_inc s \<noteq> None \<and> ic \<noteq> e_inc s)"
    using assms(2) True s(1) by (simp add: other_incarnation_def)
  then show ?thesis using True s by (auto simp: ag_end_def end_key_def Let_def attempt_def)
qed (rule attempt_end_other [OF assms(1)])

lemma attempt_delivered: "attempt key k t0 g \<Longrightarrow> attempt key k t0 (snd (pathDelivered i g))"
  by (auto simp: pathDelivered_def attempt_def split: option.split)

lemma attempt_attach: "attempt key k t0 g \<Longrightarrow> attempt key k t0 (snd (attach i k' ic g))"
  by (auto simp: attach_def attempt_def split: option.split)

lemma attempt_release:
  assumes "attempt key k t0 g" "spares key k t0 (GRelease i k' t) g"
  shows "attempt key k t0 (snd (release i k' g))"
proof (cases "identitySuffix i")
  case (Some key')
  obtain s where s: "mget (g_state g) key = Some s" "inflight s" "e_k s = k" "beganAt s = t0" using assms(1) by (auto simp: attempt_def)
  show ?thesis
  proof (cases "key' = key")
    case True
    then have "\<exists>x \<in> set_option k'. x \<noteq> e_k s" using assms(2) Some s(3) by auto
    then show ?thesis using Some True s by (simp add: release_def attempt_def)
  next
    case False
    have "mget (g_state (snd (release i k' g))) key = mget (g_state g) key"
      using Some False by (simp add: release_def split: option.split)
    then show ?thesis using assms(1) attempt_upd_other by blast
  qed
qed (use assms(1) in \<open>simp add: release_def\<close>)

lemma attempt_fresh:
  assumes "attempt key k t0 g"
  shows "attempt key k t0 (snd (onFreshRecord i t g))"
proof (cases "identitySuffix i")
  case (Some key')
  obtain s where s: "mget (g_state g) key = Some s" "inflight s" "e_k s = k" "beganAt s = t0" using assms by (auto simp: attempt_def)
  show ?thesis
  proof (cases "key' = key")
    case True
    then show ?thesis using Some s by (simp add: onFreshRecord_def attempt_def)
  next
    case False
    have "mget (g_state (snd (onFreshRecord i t g))) key = mget (g_state g) key"
      using Some False by (simp add: onFreshRecord_def split: option.split)
    then show ?thesis using assms attempt_upd_other by blast
  qed
qed (use assms in \<open>simp add: onFreshRecord_def\<close>)

lemma attempt_step:
  assumes "attempt key k t0 g" "keyed (g_state g)" "spares key k t0 e g"
  shows "attempt key k t0 (ag_step e g) \<and> (\<forall>i t. e = GBegin i t \<longrightarrow> identitySuffix i \<noteq> Some key)"
proof (cases e)
  case (GBegin i t)
  then have "identitySuffix i \<noteq> Some key" using assms(1,3) attempt_refused by auto
  then show ?thesis using GBegin attempt_begin [OF assms(1)] by simp
next
  case (GEnd i bd t k' ic)
  then show ?thesis using attempt_end [OF assms(1)] assms(3) by simp
next
  case (GRelease i k' t)
  then show ?thesis using attempt_release [OF assms(1)] assms(3) by simp
next
  case (GSweep m t)
  then show ?thesis using attempt_sweep [OF assms(1,2)] assms(3) by simp
qed (simp_all add: assms(1) attempt_defer attempt_allow attempt_delivered attempt_attach attempt_fresh)

lemma attempt_run:
  "attempt key k t0 g \<Longrightarrow> keyed (g_state g) \<Longrightarrow> spared key k t0 es g \<Longrightarrow>
    attempt key k t0 (fold ag_step es g) \<and> (\<forall>i t. GBegin i t \<in> set es \<longrightarrow> identitySuffix i \<noteq> Some key)"
proof (induction es arbitrary: g)
  case (Cons e es)
  then show ?case using attempt_step [OF Cons.prems(1,2), of e] keyed_step [OF Cons.prems(2), of e] by auto
qed simp

section \<open>Properties\<close>

text \<open>An exhausted candidate is dialed at most once per refill window. While it stays exhausted,
  and whatever happens in between (ends, sweeps, path deferrals, attempts of others), two attempts
  that \<open>allow\<close> permits and \<open>begin\<close> opens are at least \<open>refillWindowMs\<close> apart.\<close>

theorem guard_attempts_paced:
  fixes pre :: "ag_event list" and er :: bool
  defines "g \<equiv> fold ag_step pre (default_guard er)"
  assumes "identitySuffix i = Some key" "clocked ag_time es"
    and "throughout (is_expired key 60000) (allow i) (\<lambda>t g. snd (ag_begin i t g)) ag_step es g"
  shows "sorted_wrt (\<lambda>t t'. t + 60000 \<le> t') (attempts_in (allow i) (\<lambda>t g. snd (ag_begin i t g)) ag_step es g)"
proof -
  have "guard_ok g" unfolding g_def default_guard_def by (intro guard_ok_run guard_ok_new) simp
  from throughout_conj [OF assms(4), of guard_ok, OF this]
  have "throughout (\<lambda>g. guard_ok g \<and> is_expired key 60000 g) (allow i) (\<lambda>t g. snd (ag_begin i t g)) ag_step es g"
    by (simp add: guard_ok_allow guard_ok_begin guard_ok_step)
  then have "throughout (expired_id i 60000) (allow i) (\<lambda>t g. snd (ag_begin i t g)) ag_step es g"
    using assms(2) by (simp add: expired_id_def [abs_def] expired_ok_def)
  from ag.attempts_spaced [OF this assms(3)] show ?thesis by simp
qed

text \<open>However many fresh presence records arrive for an identity, its dial budget is refilled at
  most once per window: the records that refill are at least \<open>refillWindowMs\<close> apart.\<close>

theorem refills_paced:
  fixes pre :: "ag_event list" and er :: bool
  defines "g \<equiv> fold ag_step pre (default_guard er)"
  assumes "identitySuffix i \<noteq> None" "clocked ag_time es" "mhas (lastRefillAt g) (the (identitySuffix i))"
  shows "sorted_wrt (\<lambda>t t'. t + 60000 \<le> t') (attempts_in (grant i) (\<lambda>t g. g) ag_step es g)"
proof -
  have w: "refillWindowMs g = 60000"
    unfolding g_def default_guard_def by (induction pre rule: rev_induct) (auto simp: step_window new_guard_def)
  have keep: "has_refill i 60000 (snd (grant i t x))" "has_refill i 60000 (ag_step e x)" if "has_refill i 60000 x" for x t e
  proof -
    have f: "has_refill i 60000 (snd (onFreshRecord j t x))" for j t
      using that by (auto simp: has_refill_def onFreshRecord_def split: option.split)
    then show "has_refill i 60000 (snd (grant i t x))" by (simp add: grant_def)
    show "has_refill i 60000 (ag_step e x)"
      using f that step_last [of e x] step_window [of e x] by (cases e) (auto simp: has_refill_def)
  qed
  have "has_refill i 60000 g" using assms(2,4) w by (simp add: has_refill_def)
  then have "throughout (has_refill i 60000) (grant i) (\<lambda>t g. g) ag_step es g"
  proof (induction es arbitrary: g)
    case (Cons a es)
    then show ?case using keep by (cases a) auto
  qed simp
  from pv.attempts_spaced [OF this assms(3)] show ?thesis by simp
qed

text \<open>A completion token acts exactly once. When \<open>end\<close> with token \<open>k\<close> has acted, no later \<open>end\<close>
  with the same token acts, on this or any identity, whatever happened in between: a second deadline
  or a stale completion never counts a failure or clears a newer attempt.\<close>

theorem end_exactly_once:
  fixes pre :: "ag_event list" and er :: bool
  defines "g \<equiv> fold ag_step pre (default_guard er)"
  assumes "fst (ag_end i bd t (Some k) ic g)"
  shows "\<not> fst (ag_end i' bd' t' (Some k) ic' (fold ag_step es (snd (ag_end i bd t (Some k) ic g))))"
proof -
  have "guard_ok g" unfolding g_def default_guard_def by (intro guard_ok_run guard_ok_new) simp
  then have "spent k (fold ag_step es (snd (ag_end i bd t (Some k) ic g)))"
    by (intro spent_run end_spends assms(2))
  moreover have "\<not> fst (ag_end i' bd' t' (Some k) ic' x)" if "spent k x" for x
    using that by (auto simp: ag_end_def end_key_def Let_def spent_def split: option.split)
  ultimately show ?thesis by blast
qed

text \<open>C33. No identity is dialed twice at once. Take a guard of any configuration after any history, and an attempt that begins at \<open>t0\<close> with its
  token. Whatever comes after it, as long as no end or release that carries this token (or none) reaches it, under either form of the id, and every sweep comes while the
  attempt is not overdue, \<open>allow\<close> refuses the identity, and no dial that asks \<open>allow\<close> first begins a second one. Sweeps before every
  dial, ends and releases with an older token, ends for another channel incarnation, backoff resets, fresh presence records, path events and attempts of other identities do not reopen it.\<close>

theorem no_double_dial:
  assumes "identitySuffix i = Some key" "identitySuffix j = Some key" "g = fold ag_step pre (new_guard ma b f w im er)"
    and "ag_begin i t0 g = (k, g0)" "spared key k t0 es g0"
  shows "\<not> fst (allow j t (fold ag_step es g0)) \<and> (\<forall>i' t'. GBegin i' t' \<in> set es \<longrightarrow> identitySuffix i' \<noteq> Some key)"
proof -
  have "keyed (g_state g)" unfolding assms(3) by (rule keyed_run)
  then have "keyed (g_state g0)" using keyed_step [of g "GBegin i t0"] assms(4) by simp
  moreover have "attempt key k t0 g0"
    using assms(1,4) by (auto simp: ag_begin_def Let_def case_prod_beta attempt_def)
  ultimately show ?thesis using attempt_run [of key k t0 g0 es] attempt_refused [OF _ assms(2)] assms(5) by blast
qed

subsection \<open>Concrete runs\<close>

definition key5 :: string where
  "key5 = replicate 63 (CHR ''0'') @ ''5''"

lemma suffix5: "identitySuffix (JBig 5) = Some key5"
  by code_simp

definition four_tries :: "ag_event list" where
  "four_tries = concat (map (\<lambda>t. [GBegin (JBig 5) t, GEnd (JBig 5) False (t + 1) None None]) [0, 40000, 120000, 300000])"

lemma tries_expired:
  "throughout (is_expired key5 60000) (allow (JBig 5)) (\<lambda>t g. snd (ag_begin (JBig 5) t g)) ag_step
     [Try 400000, Do (GEnd (JBig 5) False 400001 None None), Try 400002, Try 470000] (fold ag_step four_tries (default_guard True))"
  by code_simp

theorem guard_attempts_paced_witness:
  "sorted_wrt (\<lambda>t t'. t + 60000 \<le> t') (attempts_in (allow (JBig 5)) (\<lambda>t g. snd (ag_begin (JBig 5) t g)) ag_step
     [Try 400000, Do (GEnd (JBig 5) False 400001 None None), Try 400002, Try 470000] (fold ag_step four_tries (default_guard True)))
   \<and> attempts_in (allow (JBig 5)) (\<lambda>t g. snd (ag_begin (JBig 5) t g)) ag_step
     [Try 400000, Do (GEnd (JBig 5) False 400001 None None), Try 400002, Try 470000] (fold ag_step four_tries (default_guard True))
     = [400000, 470000]"
proof
  show "sorted_wrt (\<lambda>t t'. t + 60000 \<le> t') (attempts_in (allow (JBig 5)) (\<lambda>t g. snd (ag_begin (JBig 5) t g)) ag_step
     [Try 400000, Do (GEnd (JBig 5) False 400001 None None), Try 400002, Try 470000] (fold ag_step four_tries (default_guard True)))"
    by (rule guard_attempts_paced [OF suffix5 _ tries_expired]) simp
qed code_simp

theorem refills_paced_witness:
  "sorted_wrt (\<lambda>t t'. t + 60000 \<le> t') (attempts_in (grant (JBig 5)) (\<lambda>t g. g) ag_step
     [Try 10, Try 20, Try 70000] (fold ag_step [GFresh (JBig 5) 0] (default_guard False)))"
proof (rule refills_paced)
  show "mhas (lastRefillAt (fold ag_step [GFresh (JBig 5) 0] (default_guard False))) (the (identitySuffix (JBig 5)))"
    by code_simp
qed (simp_all add: suffix5)

theorem end_exactly_once_witness:
  "fst (ag_end (JBig 5) False 1 (Some 1) None (fold ag_step [GBegin (JBig 5) 0] (default_guard False)))
   \<and> \<not> fst (ag_end (JBig 5) False 3 (Some 1) None (fold ag_step [GBegin (JBig 5) 2]
        (snd (ag_end (JBig 5) False 1 (Some 1) None (fold ag_step [GBegin (JBig 5) 0] (default_guard False))))))"
proof -
  have "fst (ag_end (JBig 5) False 1 (Some 1) None (fold ag_step [GBegin (JBig 5) 0] (default_guard False)))" by code_simp
  with end_exactly_once [OF this] show ?thesis by blast
qed

definition spared_run :: "ag_event list" where
  "spared_run = [GSweep 45000 45000, GAttach (JBig 5) 2 ''new'' 10, GEnd (JBig 5) False 20 (Some 1) None, GEnd (JBig 5) False 30 None (Some ''old''), GFresh (JBig 5) 40,
     GRelease (JStr key5) (Some 1) 50, GBegin (JBig 6) 60]"

theorem no_double_dial_witness:
  "\<not> fst (allow (JStr key5) 45000 (fold ag_step spared_run (snd (ag_begin (JBig 5) 0 (fold ag_step [GBegin (JBig 5) 0, GEnd (JBig 5) True 0 None None] (default_guard False))))))"
proof -
  let ?g = "fold ag_step [GBegin (JBig 5) 0, GEnd (JBig 5) True 0 None None] (new_guard 4 30000 2 60000 45000 False)"
  obtain k g0 where b: "ag_begin (JBig 5) 0 ?g = (k, g0)" by fastforce
  have j: "identitySuffix (JStr key5) = Some key5" by code_simp
  have "spared key5 (fst (ag_begin (JBig 5) 0 ?g)) 0 spared_run (snd (ag_begin (JBig 5) 0 ?g))" by code_simp
  then have "spared key5 k 0 spared_run g0" by (simp only: b fst_conv snd_conv)
  from no_double_dial [OF suffix5 j refl b this] show ?thesis using b by (simp add: default_guard_def)
qed

text \<open>\<open>release\<close> and \<open>begin\<close> keep the channel incarnation of the attempt before: a terminal event of the
  new attempt's channel is taken for stale until \<open>attach\<close> runs, although the new attempt has recorded
  no incarnation.\<close>

theorem release_keeps_incarnation:
  "\<not> fst (ag_end (JBig 5) True 4 None (Some ''new'') (fold ag_step
       [GBegin (JBig 5) 0, GAttach (JBig 5) 1 ''old'' 0, GDefer (JBig 5) 1 30000 600000 None, GRelease (JBig 5) (Some 1) 1,
        GBegin (JBig 5) 40000] (default_guard False)))"
  by code_simp

end
