(* ===== verification/ChannelLedger.thy ===== *)
theory ChannelLedger
  imports Prelude
begin

text \<open>
  The channel ledger: \<open>src/src/transport/web/channel_ledger.js\<close>, and the two-pool profile that arms
  it, \<open>pool_profile.js\<close>. One record per peer connection, one per bound identity, reservations taken
  before a connection exists. Clock reads are arguments (\<open>now\<close>); the escalation timer of a closing
  channel is a flag, and its firing is the operation \<open>escalate\<close>. A reservation token \<open>r<n>\<close> is the
  number \<open>n\<close>. Log lines are not modelled.
\<close>

section \<open>The pool profile\<close>

datatype profile_error = ProfileError string

record pools =
  pM :: int
  pI :: int
  pH :: int
  p_pPending :: int
  p_cInbound :: int
  serveFloor :: int
  promoteMs :: int
  hostBudget :: "int option"
  doorSockets :: int

text \<open>An option is absent (\<open>undefined\<close> or \<open>null\<close>) or a number; the other types \<open>Number\<close> converts are
  not modelled.\<close>

definition int_opt :: "string \<Rightarrow> jsnum option \<Rightarrow> int \<Rightarrow> bool \<Rightarrow> profile_error + int option" where
  "int_opt field v mn required = (case v of
      None \<Rightarrow> if required then Inl (ProfileError field) else Inr None
    | Some n \<Rightarrow> if \<not> num_is_integer (JNum n) then Inl (ProfileError field)
        else if num_int (JNum n) < mn then Inl (ProfileError field) else Inr (Some (num_int (JNum n))))"

definition orElse :: "int option \<Rightarrow> int \<Rightarrow> int" where
  "orElse v d = (case v of None \<Rightarrow> d | Some n \<Rightarrow> n)"

definition sbind :: "'e + 'a \<Rightarrow> ('a \<Rightarrow> 'e + 'b) \<Rightarrow> 'e + 'b" where
  "sbind x f = (case x of Inl e \<Rightarrow> Inl e | Inr a \<Rightarrow> f a)"

definition makePoolProfile ::
  "jsnum option \<Rightarrow> jsnum option \<Rightarrow> jsnum option \<Rightarrow> jsnum option \<Rightarrow> jsnum option \<Rightarrow> jsnum option \<Rightarrow> jsnum option
     \<Rightarrow> jsnum option \<Rightarrow> jsnum option \<Rightarrow> profile_error + pools" where
  "makePoolProfile oM oI oH oP oC oS oPr oD oHB =
     sbind (int_opt ''M'' oM 1 True) (\<lambda>M. sbind (int_opt ''I'' oI 0 True) (\<lambda>I.
     sbind (int_opt ''H'' oH 1 False) (\<lambda>H. sbind (int_opt ''pPending'' oP 1 False) (\<lambda>P.
     sbind (int_opt ''cInbound'' oC 0 False) (\<lambda>C. sbind (int_opt ''serveFloor'' oS 0 False) (\<lambda>S.
     sbind (int_opt ''promoteMs'' oPr 0 False) (\<lambda>Pr. sbind (int_opt ''doorSockets'' oD 0 False) (\<lambda>D.
     sbind (int_opt ''hostBudget'' oHB 1 False) (\<lambda>HB.
       let m = orElse M 0; i = orElse I 0; h = orElse H (m + i); p = orElse P (min 8 m); c = orElse C (min 4 i);
           s = orElse S (min 3 m); pr = orElse Pr 30000; d = orElse D 0 in
       if m + i > h then Inl (ProfileError ''H'')
       else if p > m then Inl (ProfileError ''pPending'')
       else if c > i then Inl (ProfileError ''cInbound'')
       else if s > m then Inl (ProfileError ''serveFloor'')
       else if (case HB of None \<Rightarrow> False | Some b \<Rightarrow> b < h + d) then Inl (ProfileError ''hostBudget'')
       else Inr \<lparr>pM = m, pI = i, pH = h, p_pPending = p, p_cInbound = c, serveFloor = s, promoteMs = pr,
                 hostBudget = HB, doorSockets = d\<rparr>)))))))))"

section \<open>Ledger state\<close>

datatype cls = M | I

datatype dir = In | Out

datatype chan_state = ALLOCATED | NEGOTIATING | OPEN | CLOSING | GONE

definition LIVE :: "chan_state \<Rightarrow> bool" where
  "LIVE s \<longleftrightarrow> s \<in> {ALLOCATED, NEGOTIATING, OPEN, CLOSING}"

definition PRE_OPEN :: "chan_state \<Rightarrow> bool" where
  "PRE_OPEN s \<longleftrightarrow> s \<in> {ALLOCATED, NEGOTIATING}"

definition POINTABLE :: "chan_state \<Rightarrow> bool" where
  "POINTABLE s \<longleftrightarrow> s \<in> {ALLOCATED, NEGOTIATING, OPEN}"

record chan =
  c_t :: string
  meshId :: string
  c_dir :: dir
  c_cls :: "cls option"
  c_state :: chan_state
  since :: int
  negotiatingAt :: int
  openedAt :: int
  closingAt :: int
  reason :: "string option"
  nodeId :: "string option"
  escalateTimer :: bool
  c_seq :: nat

record reservation =
  r_cls :: "cls option"
  r_dir :: dir
  r_attempt :: "string option"
  r_generation :: "string option"
  r_at :: int

record peer =
  p_t :: "string option"
  boundAt :: int

record l_counters =
  n_allocated :: nat
  refusedOut :: nat
  refusedIn :: nat
  wouldRefuseOut :: nat
  wouldRefuseIn :: nat
  closeEscalated :: nat
  staleEvent :: nat
  goneTotal :: nat
  n_reserved :: nat
  reservationsConsumed :: nat
  reservationsReleased :: nat
  reservationsExpired :: nat
  refusedM :: nat
  refusedI :: nat
  wouldRefuseM :: nat
  wouldRefuseI :: nat
  reclassed :: nat
  reclassRefused :: nat
  allocUnreserved :: nat
  n_reclassDeferred :: nat
  reclassApplied :: nat

record ledger =
  cPhys :: int
  cInbound :: int
  pPending :: int
  closeEscalateMs :: int
  enforce :: bool
  reserveTtlMs :: int
  l_pools :: "pools option"
  l_res :: "(nat, reservation) jmap"
  resSeq :: nat
  l_chan :: "(string, chan) jmap"
  tByMeshId :: "(string, string) jmap"
  l_peer :: "(string, peer) jmap"
  l_seq :: nat
  pendingReclass :: "(string, cls \<times> string) jmap"
  l_stats :: l_counters

definition no_counts :: l_counters where
  "no_counts = \<lparr>n_allocated = 0, refusedOut = 0, refusedIn = 0, wouldRefuseOut = 0, wouldRefuseIn = 0, closeEscalated = 0,
     staleEvent = 0, goneTotal = 0, n_reserved = 0, reservationsConsumed = 0, reservationsReleased = 0,
     reservationsExpired = 0, refusedM = 0, refusedI = 0, wouldRefuseM = 0, wouldRefuseI = 0, reclassed = 0,
     reclassRefused = 0, allocUnreserved = 0, n_reclassDeferred = 0, reclassApplied = 0\<rparr>"

text \<open>The constructor; each option is absent or a finite number. A profile replaces the three bounds.\<close>

definition num_or :: "int option \<Rightarrow> int \<Rightarrow> int \<Rightarrow> int" where
  "num_or v d mn = (case v of None \<Rightarrow> d | Some n \<Rightarrow> max mn n)"

definition new_ledger :: "int option \<Rightarrow> int option \<Rightarrow> int option \<Rightarrow> int option \<Rightarrow> bool \<Rightarrow> int option \<Rightarrow> pools option \<Rightarrow> ledger" where
  "new_ledger oPhys oIn oPend oEsc enf oTtl ps =
     \<lparr>cPhys = (case ps of None \<Rightarrow> num_or oPhys 66 1 | Some p \<Rightarrow> num_or (Some (pH p)) (num_or oPhys 66 1) 1),
      cInbound = (case ps of None \<Rightarrow> num_or oIn 4 1 | Some p \<Rightarrow> max 1 (num_or (Some (p_cInbound p)) (num_or oIn 4 1) 0)),
      pPending = (case ps of None \<Rightarrow> num_or oPend 8 1 | Some p \<Rightarrow> num_or (Some (p_pPending p)) (num_or oPend 8 1) 1),
      closeEscalateMs = num_or oEsc 10000 0, enforce = enf, reserveTtlMs = num_or oTtl 30000 0, l_pools = ps,
      l_res = [], resSeq = 0, l_chan = [], tByMeshId = [], l_peer = [], l_seq = 0, pendingReclass = [], l_stats = no_counts\<rparr>"

section \<open>Counts\<close>

definition armed :: "ledger \<Rightarrow> bool" where
  "armed l \<longleftrightarrow> l_pools l \<noteq> None"

definition pool_of :: "ledger \<Rightarrow> cls \<Rightarrow> int" where
  "pool_of l k = (case l_pools l of None \<Rightarrow> 0 | Some p \<Rightarrow> (case k of M \<Rightarrow> pM p | I \<Rightarrow> pI p))"

definition chargedOf :: "cls option \<Rightarrow> ledger \<Rightarrow> int" where
  "chargedOf k l = int (length (filter (\<lambda>q. LIVE (c_state (snd q)) \<and> c_cls (snd q) = k) (l_chan l)))"

definition reservedOf :: "cls option \<Rightarrow> ledger \<Rightarrow> int" where
  "reservedOf k l = int (length (filter (\<lambda>q. r_cls (snd q) = k) (l_res l)))"

definition reservedAll :: "ledger \<Rightarrow> int" where
  "reservedAll l = int (length (l_res l))"

definition reservedDirOf :: "dir \<Rightarrow> ledger \<Rightarrow> int" where
  "reservedDirOf d l = int (length (filter (\<lambda>q. r_dir (snd q) = d) (l_res l)))"

definition chanAll :: "ledger \<Rightarrow> int" where
  "chanAll l = int (length (filter (\<lambda>q. LIVE (c_state (snd q))) (l_chan l)))"

definition chanInboundUnbound :: "ledger \<Rightarrow> int" where
  "chanInboundUnbound l = int (length (filter (\<lambda>q. c_dir (snd q) = In \<and> PRE_OPEN (c_state (snd q)) \<and> nodeId (snd q) = None) (l_chan l)))"

definition chanOutboundPending :: "ledger \<Rightarrow> int" where
  "chanOutboundPending l = int (length (filter (\<lambda>q. c_dir (snd q) = Out \<and> PRE_OPEN (c_state (snd q))) (l_chan l)))"

section \<open>Reservations\<close>

datatype why = PHYS | POOL cls | INBOUND | PENDING

definition count :: "(l_counters \<Rightarrow> l_counters) \<Rightarrow> ledger \<Rightarrow> ledger" where
  "count f l = l\<lparr>l_stats := f (l_stats l)\<rparr>"

definition stale :: "ledger \<Rightarrow> ledger" where
  "stale = count (\<lambda>c. c\<lparr>staleEvent := staleEvent c + 1\<rparr>)"

definition sweepReservations :: "int \<Rightarrow> ledger \<Rightarrow> nat \<times> ledger" where
  "sweepReservations now l = (if reserveTtlMs l \<le> 0 then (0, l)
     else (let n = length (filter (\<lambda>q. now - r_at (snd q) > reserveTtlMs l) (l_res l)) in
       (n, count (\<lambda>c. c\<lparr>reservationsExpired := reservationsExpired c + n\<rparr>)
             (l\<lparr>l_res := filter (\<lambda>q. \<not> now - r_at (snd q) > reserveTtlMs l) (l_res l)\<rparr>))))"

text \<open>The class a reservation is charged to, and the rows in the order the code reads them.\<close>

definition class_for :: "cls option \<Rightarrow> dir \<Rightarrow> ledger \<Rightarrow> cls option" where
  "class_for c d l = (if \<not> armed l then None
     else (case c of Some k \<Rightarrow> Some k | None \<Rightarrow> Some (if d = In then I else M)))"

definition reserve_why :: "cls option \<Rightarrow> dir \<Rightarrow> ledger \<Rightarrow> why option" where
  "reserve_why k d l =
     (if chanAll l + reservedAll l \<ge> cPhys l then Some PHYS
      else if (\<exists>x \<in> set_option k. chargedOf (Some x) l + reservedOf (Some x) l \<ge> pool_of l x) then Some (POOL (the k))
      else if d = In \<and> chanInboundUnbound l + reservedDirOf In l \<ge> cInbound l then Some INBOUND
      else if d = Out \<and> chanOutboundPending l + reservedDirOf Out l \<ge> pPending l then Some PENDING
      else None)"

definition count_refused :: "dir \<Rightarrow> cls option \<Rightarrow> l_counters \<Rightarrow> l_counters" where
  "count_refused d k c = (let c1 = (if d = In then c\<lparr>refusedIn := refusedIn c + 1\<rparr> else c\<lparr>refusedOut := refusedOut c + 1\<rparr>) in
     if k = Some M then c1\<lparr>refusedM := refusedM c1 + 1\<rparr> else if k = Some I then c1\<lparr>refusedI := refusedI c1 + 1\<rparr> else c1)"

definition count_would :: "dir \<Rightarrow> cls option \<Rightarrow> l_counters \<Rightarrow> l_counters" where
  "count_would d k c = (let c1 = (if d = In then c\<lparr>wouldRefuseIn := wouldRefuseIn c + 1\<rparr> else c\<lparr>wouldRefuseOut := wouldRefuseOut c + 1\<rparr>) in
     if k = Some M then c1\<lparr>wouldRefuseM := wouldRefuseM c1 + 1\<rparr> else if k = Some I then c1\<lparr>wouldRefuseI := wouldRefuseI c1 + 1\<rparr> else c1)"

definition reserve ::
  "cls option \<Rightarrow> dir \<Rightarrow> string option \<Rightarrow> string option \<Rightarrow> int \<Rightarrow> ledger \<Rightarrow> (nat option \<times> why option) \<times> ledger" where
  "reserve c d att gen now l0 =
     (let l = snd (sweepReservations now l0); k = class_for c d l; w = reserve_why k d l in
      if w \<noteq> None \<and> enforce l then ((None, w), count (count_refused d k) l)
      else (let l1 = (if w \<noteq> None then count (count_would d k) l else l); tok = resSeq l1 + 1 in
        ((Some tok, w), count (\<lambda>c. c\<lparr>n_reserved := n_reserved c + 1\<rparr>)
           (l1\<lparr>resSeq := tok, l_res := mset_key tok \<lparr>r_cls = k, r_dir = d, r_attempt = att, r_generation = gen, r_at = now\<rparr> (l_res l1)\<rparr>))))"

definition release :: "nat option \<Rightarrow> ledger \<Rightarrow> bool \<times> ledger" where
  "release tok l = (case tok of None \<Rightarrow> (False, l)
     | Some t \<Rightarrow> if mhas (l_res l) t
         then (True, count (\<lambda>c. c\<lparr>reservationsReleased := reservationsReleased c + 1\<rparr>) (l\<lparr>l_res := mdelete t (l_res l)\<rparr>))
         else (False, stale l))"

section \<open>Classes\<close>

datatype reclass_verdict = NoChannel | BadClass | Same | Deferred why | RefusedBy why | Reclassed "why option"

definition set_chan :: "string \<Rightarrow> chan \<Rightarrow> ledger \<Rightarrow> ledger" where
  "set_chan t c l = l\<lparr>l_chan := mset_key t c (l_chan l)\<rparr>"

definition class_full :: "cls \<Rightarrow> ledger \<Rightarrow> bool" where
  "class_full k l \<longleftrightarrow> armed l \<and> chargedOf (Some k) l + reservedOf (Some k) l \<ge> pool_of l k"

definition reclass :: "string \<Rightarrow> cls option \<Rightarrow> string option \<Rightarrow> ledger \<Rightarrow> reclass_verdict \<times> ledger" where
  "reclass t target aft l = (case mget (l_chan l) t of
      None \<Rightarrow> (NoChannel, stale l)
    | Some c \<Rightarrow>
        if \<not> LIVE (c_state c) then (NoChannel, stale l)
        else (case target of None \<Rightarrow> (BadClass, l)
          | Some k \<Rightarrow>
              if c_cls c = Some k then (Same, l)
              else if class_full k l \<and> enforce l then
                (case (case aft of None \<Rightarrow> None | Some ta \<Rightarrow> mget (l_chan l) ta) of
                   Some a \<Rightarrow> if LIVE (c_state a) \<and> c_cls a = Some k \<and> c_t a \<noteq> t
                     then (Deferred (POOL k), count (\<lambda>c. c\<lparr>n_reclassDeferred := n_reclassDeferred c + 1\<rparr>)
                            (l\<lparr>pendingReclass := mset_key t (k, the aft) (pendingReclass l)\<rparr>))
                     else (RefusedBy (POOL k), count (\<lambda>c. c\<lparr>reclassRefused := reclassRefused c + 1\<rparr>) l)
                 | None \<Rightarrow> (RefusedBy (POOL k), count (\<lambda>c. c\<lparr>reclassRefused := reclassRefused c + 1\<rparr>) l))
              else (Reclassed (if class_full k l then Some (POOL k) else None),
                    count (\<lambda>c. c\<lparr>reclassed := reclassed c + 1\<rparr>) (set_chan t (c\<lparr>c_cls := Some k\<rparr>) l))))"

definition apply_one :: "string \<Rightarrow> string \<times> cls \<times> string \<Rightarrow> ledger \<Rightarrow> ledger" where
  "apply_one goneT p l = (let (t, k, aft) = p in
     if aft \<noteq> goneT then l
     else (let l1 = l\<lparr>pendingReclass := mdelete t (pendingReclass l)\<rparr> in
       case mget (l_chan l1) t of None \<Rightarrow> stale l1
       | Some c \<Rightarrow> if \<not> LIVE (c_state c) then stale l1
           else if class_full k l1 then count (\<lambda>c. c\<lparr>reclassRefused := reclassRefused c + 1\<rparr>) l1
           else count (\<lambda>c. c\<lparr>reclassed := reclassed c + 1, reclassApplied := reclassApplied c + 1\<rparr>)
                  (set_chan t (c\<lparr>c_cls := Some k\<rparr>) l1)))"

definition applyPendingReclass :: "string \<Rightarrow> ledger \<Rightarrow> ledger" where
  "applyPendingReclass goneT l = fold (apply_one goneT) (pendingReclass l) l"

definition classOf :: "string \<Rightarrow> ledger \<Rightarrow> cls option" where
  "classOf m l = (case mget (tByMeshId l) m of None \<Rightarrow> None
     | Some t \<Rightarrow> (case mget (l_chan l) t of None \<Rightarrow> None | Some c \<Rightarrow> c_cls c))"

definition classOfNode :: "string \<Rightarrow> ledger \<Rightarrow> cls option" where
  "classOfNode n l = (case mget (l_peer l) n of None \<Rightarrow> None
     | Some p \<Rightarrow> (case p_t p of None \<Rightarrow> None
        | Some t \<Rightarrow> (case mget (l_chan l) t of None \<Rightarrow> None | Some c \<Rightarrow> c_cls c)))"

section \<open>The predicate\<close>

definition alloc_why :: "dir \<Rightarrow> ledger \<Rightarrow> why option" where
  "alloc_why d l = (if chanAll l \<ge> cPhys l then Some PHYS
     else if d = In \<and> chanInboundUnbound l \<ge> cInbound l then Some INBOUND
     else if d = Out \<and> chanOutboundPending l \<ge> pPending l then Some PENDING else None)"

definition canAllocate :: "dir \<Rightarrow> ledger \<Rightarrow> bool \<times> why option" where
  "canAllocate d l = (alloc_why d l = None \<or> \<not> enforce l, alloc_why d l)"

definition mayAllocate :: "dir \<Rightarrow> ledger \<Rightarrow> (bool \<times> why option) \<times> ledger" where
  "mayAllocate d l = (let w = alloc_why d l in
     if w = None then ((True, None), l)
     else if enforce l then ((False, w), count (count_refused d None) l)
     else ((True, w), count (count_would d None) l))"

section \<open>Transitions\<close>

definition allocate :: "string \<Rightarrow> string \<Rightarrow> dir \<Rightarrow> nat option \<Rightarrow> int \<Rightarrow> ledger \<Rightarrow> chan option \<times> ledger" where
  "allocate t m d res now l = (case mget (l_chan l) t of
      Some c \<Rightarrow> (Some c, stale l)
    | None \<Rightarrow>
        (let (got, l1) = (case res of None \<Rightarrow> (None, l)
            | Some r \<Rightarrow> (case mget (l_res l) r of
                Some rr \<Rightarrow> (Some (r_cls rr), count (\<lambda>c. c\<lparr>reservationsConsumed := reservationsConsumed c + 1\<rparr>)
                             (l\<lparr>l_res := mdelete r (l_res l)\<rparr>))
              | None \<Rightarrow> (None, stale l))) in
         if armed l1 \<and> got = None then (None, count (\<lambda>c. c\<lparr>allocUnreserved := allocUnreserved c + 1\<rparr>) l1)
         else (let rec = \<lparr>c_t = t, meshId = m, c_dir = d, c_cls = (case got of None \<Rightarrow> None | Some k \<Rightarrow> k), c_state = ALLOCATED,
                 since = now, negotiatingAt = 0, openedAt = 0, closingAt = 0, reason = None, nodeId = None,
                 escalateTimer = False, c_seq = l_seq l1 + 1\<rparr> in
           (Some rec, count (\<lambda>c. c\<lparr>n_allocated := n_allocated c + 1\<rparr>)
              ((set_chan t rec l1)\<lparr>l_seq := l_seq l1 + 1, tByMeshId := mset_key m t (tByMeshId l1)\<rparr>)))))"

definition negotiating :: "string \<Rightarrow> int \<Rightarrow> ledger \<Rightarrow> ledger" where
  "negotiating t now l = (case mget (l_chan l) t of None \<Rightarrow> stale l
     | Some c \<Rightarrow> if c_state c \<noteq> ALLOCATED then (if c_state c = GONE then stale l else l)
         else set_chan t (c\<lparr>c_state := NEGOTIATING, negotiatingAt := now\<rparr>) l)"

definition open_chan :: "string \<Rightarrow> int \<Rightarrow> ledger \<Rightarrow> ledger" where
  "open_chan t now l = (case mget (l_chan l) t of None \<Rightarrow> stale l
     | Some c \<Rightarrow> if \<not> PRE_OPEN (c_state c) then (if c_state c = GONE then stale l else l)
         else set_chan t (c\<lparr>c_state := OPEN, openedAt := now\<rparr>) l)"

definition bind :: "string \<Rightarrow> string \<Rightarrow> int \<Rightarrow> ledger \<Rightarrow> ledger" where
  "bind m n now l = (case mget (tByMeshId l) m of None \<Rightarrow> stale l
     | Some t \<Rightarrow> (case mget (l_chan l) t of None \<Rightarrow> stale l
        | Some c \<Rightarrow> if \<not> POINTABLE (c_state c) then stale l
            else (set_chan t (c\<lparr>nodeId := Some n\<rparr>) l)\<lparr>l_peer := mset_key n \<lparr>p_t = Some t, boundAt = now\<rparr> (l_peer l)\<rparr>))"

text \<open>The scan for another pointable channel: the first open one, else the first one.\<close>

definition otherPointableFor :: "string \<Rightarrow> string \<Rightarrow> ledger \<Rightarrow> string option" where
  "otherPointableFor n exceptT l =
     (let cs = filter (\<lambda>c. c_t c \<noteq> exceptT \<and> nodeId c = Some n \<and> POINTABLE (c_state c)) (map snd (l_chan l)) in
      case filter (\<lambda>c. c_state c = OPEN) cs of c # _ \<Rightarrow> Some (c_t c)
      | [] \<Rightarrow> (case cs of c # _ \<Rightarrow> Some (c_t c) | [] \<Rightarrow> None))"

definition settlePeer :: "string option \<Rightarrow> string \<Rightarrow> ledger \<Rightarrow> ledger" where
  "settlePeer n t l = (case n of None \<Rightarrow> l
     | Some n \<Rightarrow> (case mget (l_peer l) n of None \<Rightarrow> l
        | Some p \<Rightarrow> (case otherPointableFor n t l of
             Some ot \<Rightarrow> if p_t p = Some t \<or> p_t p = None then l\<lparr>l_peer := mset_key n (p\<lparr>p_t := Some ot\<rparr>) (l_peer l)\<rparr> else l
           | None \<Rightarrow> l\<lparr>l_peer := mdelete n (l_peer l)\<rparr>)))"

definition newest_bound :: "string \<Rightarrow> ledger \<Rightarrow> chan option" where
  "newest_bound m l = fold (\<lambda>q b. let c = snd q in
     if meshId c = m \<and> nodeId c \<noteq> None \<and> LIVE (c_state c) \<and> (case b of None \<Rightarrow> True | Some x \<Rightarrow> c_seq c > c_seq x)
     then Some c else b) (l_chan l) None"

definition unbind :: "string \<Rightarrow> ledger \<Rightarrow> ledger" where
  "unbind m l =
     (let cur = (case mget (tByMeshId l) m of None \<Rightarrow> None | Some t \<Rightarrow> mget (l_chan l) t);
          found = (case cur of Some c \<Rightarrow> if nodeId c \<noteq> None then Some c else newest_bound m l | None \<Rightarrow> newest_bound m l) in
      case found of None \<Rightarrow> l
      | Some c \<Rightarrow> settlePeer (nodeId c) (c_t c) (set_chan (c_t c) (c\<lparr>nodeId := None\<rparr>) l))"

definition close_rec :: "string \<Rightarrow> int \<Rightarrow> ledger \<Rightarrow> chan \<Rightarrow> chan" where
  "close_rec rsn now l c = c\<lparr>c_state := CLOSING, closingAt := now, reason := Some rsn,
     escalateTimer := (if closeEscalateMs l > 0 then True else escalateTimer c)\<rparr>"

definition closing :: "string \<Rightarrow> string \<Rightarrow> int \<Rightarrow> ledger \<Rightarrow> ledger" where
  "closing t rsn now l = (case mget (l_chan l) t of None \<Rightarrow> stale l
     | Some c \<Rightarrow>
         if c_state c = CLOSING \<or> c_state c = GONE then (if c_state c = GONE then stale l else l)
         else (let l1 = set_chan t (close_rec rsn now l c) l;
                   l2 = (if mget (tByMeshId l1) (meshId c) = Some t then l1\<lparr>tByMeshId := mdelete (meshId c) (tByMeshId l1)\<rparr> else l1) in
            case nodeId c of None \<Rightarrow> l2
            | Some n \<Rightarrow> (case mget (l_peer l2) n of None \<Rightarrow> l2
               | Some p \<Rightarrow> if p_t p = Some t then settlePeer (Some n) t l2 else l2)))"

text \<open>The escalation timer of a closing channel fires: counted, nothing is released.\<close>

definition escalate :: "string \<Rightarrow> ledger \<Rightarrow> ledger" where
  "escalate t l = (case mget (l_chan l) t of None \<Rightarrow> l
     | Some c \<Rightarrow> if \<not> escalateTimer c then l
         else (let l1 = set_chan t (c\<lparr>escalateTimer := False\<rparr>) l in
           if c_state c \<noteq> CLOSING then l1
           else count (\<lambda>x. x\<lparr>closeEscalated := closeEscalated x + 1\<rparr>) l1))"

definition gone :: "string \<Rightarrow> ledger \<Rightarrow> ledger" where
  "gone t l = (case mget (l_chan l) t of None \<Rightarrow> stale l
     | Some c \<Rightarrow> if c_state c = GONE then stale l
         else (let l1 = (if mget (tByMeshId l) (meshId c) = Some t then l\<lparr>tByMeshId := mdelete (meshId c) (tByMeshId l)\<rparr> else l);
                   l2 = count (\<lambda>x. x\<lparr>goneTotal := goneTotal x + 1\<rparr>) (l1\<lparr>l_chan := mdelete t (l_chan l1)\<rparr>);
                   l3 = settlePeer (nodeId c) t l2 in
           applyPendingReclass t (l3\<lparr>pendingReclass := mdelete t (pendingReclass l3)\<rparr>)))"

definition tokenFor :: "string \<Rightarrow> ledger \<Rightarrow> string option" where
  "tokenFor m l = mget (tByMeshId l) m"

definition dispose :: "ledger \<Rightarrow> ledger" where
  "dispose l = l\<lparr>l_chan := map (\<lambda>(t, c). (t, c\<lparr>escalateTimer := False\<rparr>)) (l_chan l)\<rparr>"

section \<open>Histories\<close>

datatype l_event =
    LSweep int
  | LReserve "cls option" dir "string option" "string option" int
  | LRelease "nat option"
  | LReclass string "cls option" "string option"
  | LMay dir
  | LAllocate string string dir "nat option" int
  | LNegotiating string int
  | LOpen string int
  | LBind string string int
  | LUnbind string
  | LClosing string string int
  | LEscalate string
  | LGone string
  | LDispose

fun led_step :: "l_event \<Rightarrow> ledger \<Rightarrow> ledger" where
  "led_step (LSweep now) l = snd (sweepReservations now l)"
| "led_step (LReserve c d a g now) l = snd (reserve c d a g now l)"
| "led_step (LRelease r) l = snd (release r l)"
| "led_step (LReclass t k aft) l = snd (reclass t k aft l)"
| "led_step (LMay d) l = snd (mayAllocate d l)"
| "led_step (LAllocate t m d r now) l = snd (allocate t m d r now l)"
| "led_step (LNegotiating t now) l = negotiating t now l"
| "led_step (LOpen t now) l = open_chan t now l"
| "led_step (LBind m n now) l = bind m n now l"
| "led_step (LUnbind m) l = unbind m l"
| "led_step (LClosing t r now) l = closing t r now l"
| "led_step (LEscalate t) l = escalate t l"
| "led_step (LGone t) l = gone t l"
| "led_step LDispose l = dispose l"

section \<open>Capacity\<close>

lemma counts_mcount:
  "chargedOf k l = mcount (\<lambda>c. LIVE (c_state c) \<and> c_cls c = k) (l_chan l)"
  "reservedOf k l = mcount (\<lambda>r. r_cls r = k) (l_res l)"
  "chanAll l = mcount (\<lambda>c. LIVE (c_state c)) (l_chan l)"
  "reservedAll l = mcount (\<lambda>_. True) (l_res l)"
  by (simp_all add: chargedOf_def reservedOf_def chanAll_def reservedAll_def mcount_def)

definition usage :: "cls \<Rightarrow> ledger \<Rightarrow> int" where
  "usage k l = chargedOf (Some k) l + reservedOf (Some k) l"

definition total :: "ledger \<Rightarrow> int" where
  "total l = chanAll l + reservedAll l"

definition struct_ok :: "ledger \<Rightarrow> bool" where
  "struct_ok l \<longleftrightarrow> minvar (l_chan l) \<and> minvar (l_res l)
     \<and> (\<forall>t c. mget (l_chan l) t = Some c \<longrightarrow> c_t c = t \<and> c_state c \<noteq> GONE \<and> (armed l \<longrightarrow> c_cls c \<noteq> None))
     \<and> (\<forall>r rr. mget (l_res l) r = Some rr \<longrightarrow> r \<le> resSeq l \<and> (armed l \<longrightarrow> r_cls rr \<noteq> None))"

definition cap_ok :: "ledger \<Rightarrow> bool" where
  "cap_ok l \<longleftrightarrow> (armed l \<and> enforce l \<longrightarrow> (\<forall>k. usage k l \<le> pool_of l k) \<and> total l \<le> cPhys l)"

definition core_ok :: "ledger \<Rightarrow> bool" where
  "core_ok l \<longleftrightarrow> struct_ok l \<and> cap_ok l"

text \<open>The invariant reads only these fields.\<close>

definition core :: "ledger \<Rightarrow> (string, chan) jmap \<times> (nat, reservation) jmap \<times> nat \<times> int \<times> bool \<times> pools option" where
  "core l = (l_chan l, l_res l, resSeq l, cPhys l, enforce l, l_pools l)"

lemma core_cong:
  assumes "core l = core l'"
  shows "core_ok l = core_ok l'" "struct_ok l = struct_ok l'" "usage k l = usage k l'" "total l = total l'" "armed l = armed l'"
    "pool_of l k = pool_of l' k"
  using assms
  by (auto simp: core_def core_ok_def struct_ok_def cap_ok_def usage_def total_def counts_mcount pool_of_def armed_def)

lemma core_simps [simp]:
  "core (count f l) = core l" "core (stale l) = core l" "core (l\<lparr>tByMeshId := x\<rparr>) = core l" "core (l\<lparr>l_peer := y\<rparr>) = core l"
  "core (l\<lparr>pendingReclass := z\<rparr>) = core l"
  by (simp_all add: core_def count_def stale_def)

lemma core_settlePeer [simp]: "core (settlePeer n t l) = core l"
  by (simp add: settlePeer_def split: option.split)

lemma core_okI: "core_ok l \<Longrightarrow> core l' = core l \<Longrightarrow> core_ok l'"
  using core_cong(1) by blast

lemma core_ok_simps [simp]:
  "core_ok (count f l) = core_ok l" "core_ok (stale l) = core_ok l" "core_ok (l\<lparr>tByMeshId := x\<rparr>) = core_ok l"
  "core_ok (l\<lparr>l_peer := y\<rparr>) = core_ok l" "core_ok (l\<lparr>pendingReclass := z\<rparr>) = core_ok l"
  "core_ok (settlePeer n t l) = core_ok l"
  by (rule core_cong, simp)+

lemma LIVE_iff [simp]: "LIVE s \<longleftrightarrow> s \<noteq> GONE"
  by (cases s) (auto simp: LIVE_def)

text \<open>Replacing a channel record by one of the same class moves nothing.\<close>

lemma core_set_chan:
  assumes "core_ok l" "mget (l_chan l) t = Some c" "c_t c' = c_t c" "c_state c' \<noteq> GONE" "c_cls c' = c_cls c"
  shows "core_ok (set_chan t c' l)"
proof -
  have i: "minvar (l_chan l)" "c_t c = t" "c_state c \<noteq> GONE" "armed l \<longrightarrow> c_cls c \<noteq> None"
    using assms(1,2) by (auto simp: core_ok_def struct_ok_def)
  have "usage k (set_chan t c' l) = usage k l" "total (set_chan t c' l) = total l" for k
    using assms i by (simp_all add: usage_def total_def counts_mcount set_chan_def mcount_set)
  moreover have "struct_ok (set_chan t c' l)"
    using assms i by (auto simp: core_ok_def struct_ok_def set_chan_def armed_def)
  ultimately show ?thesis using assms(1) by (simp add: core_ok_def cap_ok_def set_chan_def armed_def pool_of_def)
qed

text \<open>Reclassing within the room of the target class keeps every bound.\<close>

lemma core_reclass:
  assumes "core_ok l" "mget (l_chan l) t = Some c" "enforce l \<Longrightarrow> \<not> class_full k l"
  shows "core_ok (set_chan t (c\<lparr>c_cls := Some k\<rparr>) l)"
proof -
  let ?l = "set_chan t (c\<lparr>c_cls := Some k\<rparr>) l"
  have i: "minvar (l_chan l)" "c_t c = t" "c_state c \<noteq> GONE" using assms(1,2) by (auto simp: core_ok_def struct_ok_def)
  have t: "total ?l = total l" using assms i by (simp add: total_def counts_mcount set_chan_def mcount_set)
  have u: "usage j ?l \<le> (if j = k then usage k l + 1 else usage j l)" for j
    using assms i by (auto simp: usage_def counts_mcount set_chan_def mcount_set)
  have "struct_ok ?l" using assms i by (auto simp: core_ok_def struct_ok_def set_chan_def armed_def)
  moreover have "cap_ok ?l" unfolding cap_ok_def
  proof (intro impI conjI allI)
    assume a: "armed ?l \<and> enforce ?l"
    then have e: "armed l" "enforce l" by (auto simp: set_chan_def armed_def)
    with assms(1) have c: "\<And>j. usage j l \<le> pool_of l j" "total l \<le> cPhys l" by (auto simp: core_ok_def cap_ok_def)
    from c(2) t show "total ?l \<le> cPhys ?l" by (simp add: set_chan_def)
    fix j
    have "usage k l < pool_of l k" using assms(3) e by (simp add: class_full_def usage_def)
    with u [of j] c(1) [of j] have "usage j ?l \<le> pool_of l j" by (cases "j = k") auto
    then show "usage j ?l \<le> pool_of ?l j" by (simp add: set_chan_def pool_of_def)
  qed
  ultimately show ?thesis by (simp add: core_ok_def)
qed

text \<open>Dropping reservations or channels only frees capacity.\<close>

lemma core_shrink:
  assumes "core_ok l" "struct_ok l'" "\<And>k. usage k l' \<le> usage k l" "total l' \<le> total l"
    and "cPhys l' = cPhys l" "enforce l' = enforce l" "l_pools l' = l_pools l"
  shows "core_ok l'"
proof -
  have "pool_of l' k = pool_of l k" "armed l' = armed l" for k using assms(7) by (auto simp: pool_of_def armed_def)
  then show ?thesis using assms unfolding core_ok_def cap_ok_def by (metis order_trans)
qed

lemma get_filter: "minvar m \<Longrightarrow> mget (filter P m) k = Some v \<Longrightarrow> mget m k = Some v"
  by (auto simp: minvar_get_iff dest!: mget_Some_in)

lemma core_sweep:
  assumes "core_ok l"
  shows "core_ok (snd (sweepReservations now l))"
proof (cases "reserveTtlMs l \<le> 0")
  case False
  let ?f = "filter (\<lambda>q. \<not> now - r_at (snd q) > reserveTtlMs l) (l_res l)"
  have "core_ok (l\<lparr>l_res := ?f\<rparr>)"
  proof (rule core_shrink [OF assms])
    show "struct_ok (l\<lparr>l_res := ?f\<rparr>)"
      using assms by (auto simp: core_ok_def struct_ok_def armed_def dest!: get_filter)
    show "usage k (l\<lparr>l_res := ?f\<rparr>) \<le> usage k l" "total (l\<lparr>l_res := ?f\<rparr>) \<le> total l" for k
      by (simp_all add: usage_def total_def counts_mcount mcount_filter_le)
  qed auto
  then show ?thesis using False by (auto simp: sweepReservations_def Let_def intro: core_okI)
qed (simp add: sweepReservations_def assms)

lemma core_drop_res:
  assumes "core_ok l"
  shows "core_ok (l\<lparr>l_res := mdelete r (l_res l)\<rparr>)"
proof (rule core_shrink [OF assms])
  show "struct_ok (l\<lparr>l_res := mdelete r (l_res l)\<rparr>)"
    using assms by (auto simp: core_ok_def struct_ok_def armed_def split: if_splits)
  show "usage k (l\<lparr>l_res := mdelete r (l_res l)\<rparr>) \<le> usage k l" "total (l\<lparr>l_res := mdelete r (l_res l)\<rparr>) \<le> total l" for k
    by (simp_all add: usage_def total_def counts_mcount mdelete_def mcount_filter_le)
qed auto

lemma core_drop_chan:
  assumes "core_ok l"
  shows "core_ok (l\<lparr>l_chan := mdelete t (l_chan l)\<rparr>)"
proof (rule core_shrink [OF assms])
  show "struct_ok (l\<lparr>l_chan := mdelete t (l_chan l)\<rparr>)"
    using assms by (auto simp: core_ok_def struct_ok_def armed_def split: if_splits)
  show "usage k (l\<lparr>l_chan := mdelete t (l_chan l)\<rparr>) \<le> usage k l" "total (l\<lparr>l_chan := mdelete t (l_chan l)\<rparr>) \<le> total l" for k
    by (simp_all add: usage_def total_def counts_mcount mdelete_def mcount_filter_le)
qed auto

lemma core_reserve:
  assumes "core_ok l0"
  shows "core_ok (snd (reserve c d att gen now l0))"
proof -
  define l where "l = snd (sweepReservations now l0)"
  define k where "k = class_for c d l"
  define w where "w = reserve_why k d l"
  have l: "core_ok l" unfolding l_def using assms by (rule core_sweep)
  let ?r = "\<lparr>r_cls = k, r_dir = d, r_attempt = att, r_generation = gen, r_at = now\<rparr>"
  let ?l = "l\<lparr>resSeq := resSeq l + 1, l_res := mset_key (resSeq l + 1) ?r (l_res l)\<rparr>"
  have fresh: "mget (l_res l) (resSeq l + 1) = None"
    using l by (auto simp: core_ok_def struct_ok_def) (metis Suc_n_not_le_n not_None_eq)
  have i: "minvar (l_res l)" using l by (simp add: core_ok_def struct_ok_def)
  have u: "usage j ?l = usage j l + (if k = Some j then 1 else 0)" "total ?l = total l + 1" for j
    using fresh i by (simp_all add: usage_def total_def counts_mcount mcount_set)
  have kn: "armed l \<Longrightarrow> k \<noteq> None" by (simp add: k_def class_for_def split: option.split)
  have s: "struct_ok ?l" using l kn by (auto simp: core_ok_def struct_ok_def armed_def intro: le_SucI)
  have cap: "cap_ok ?l" if "w = None \<or> \<not> enforce l"
    unfolding cap_ok_def
  proof (intro impI conjI allI)
    assume "armed ?l \<and> enforce ?l"
    then have e: "armed l" "enforce l" by (auto simp: armed_def)
    with that have "w = None" by simp
    then have "total l < cPhys l" "\<And>x. k = Some x \<Longrightarrow> usage x l < pool_of l x"
      by (auto simp: w_def reserve_why_def total_def usage_def split: if_splits)
    moreover have "usage j l \<le> pool_of l j" for j using l e by (simp add: core_ok_def cap_ok_def)
    ultimately show "total ?l \<le> cPhys ?l" "usage j ?l \<le> pool_of ?l j" for j
      unfolding u by (auto simp: pool_of_def split: if_splits)
  qed
  show ?thesis
  proof (cases "w \<noteq> None \<and> enforce l")
    case True
    then show ?thesis using l by (auto simp: reserve_def l_def [symmetric] k_def [symmetric] w_def [symmetric] Let_def)
  next
    case False
    have "core (snd (reserve c d att gen now l0)) = core ?l"
      using False by (simp add: reserve_def l_def [symmetric] k_def [symmetric] w_def [symmetric] Let_def core_def count_def)
    moreover have "core_ok ?l" using s cap False by (auto simp: core_ok_def)
    ultimately show ?thesis by (rule core_okI [rotated])
  qed
qed

lemma core_release: "core_ok l \<Longrightarrow> core_ok (snd (release r l))"
  by (auto simp: release_def core_drop_res split: option.splits)

lemma core_alloc_rec:
  assumes "core_ok l" "mget (l_chan l) t = None" "mget (l_res l) r = Some rr" "c_t rec = t" "c_state rec = ALLOCATED"
    "c_cls rec = r_cls rr"
  shows "core_ok (set_chan t rec (l\<lparr>l_res := mdelete r (l_res l)\<rparr>))"
proof -
  let ?l = "set_chan t rec (l\<lparr>l_res := mdelete r (l_res l)\<rparr>)"
  have i: "minvar (l_res l)" "minvar (l_chan l)" "armed l \<longrightarrow> r_cls rr \<noteq> None"
    using assms(1,3) by (auto simp: core_ok_def struct_ok_def)
  show ?thesis
  proof (rule core_shrink [OF assms(1)])
    show "usage k ?l \<le> usage k l" "total ?l \<le> total l" for k
      using assms i by (simp_all add: usage_def total_def counts_mcount set_chan_def mcount_set mcount_delete)
    show "struct_ok ?l" using assms i by (auto simp: core_ok_def struct_ok_def set_chan_def armed_def split: if_splits)
  qed (simp_all add: set_chan_def)
qed

lemma core_alloc_unarmed:
  assumes "core_ok l" "\<not> armed l" "c_t rec = t" "c_state rec = ALLOCATED"
  shows "core_ok (set_chan t rec l)"
  using assms by (auto simp: core_ok_def struct_ok_def cap_ok_def set_chan_def armed_def)

lemma core_allocate:
  assumes "core_ok l"
  shows "core_ok (snd (allocate t m d res now l))"
proof (cases "mget (l_chan l) t")
  case (Some c)
  then show ?thesis using assms by (simp add: allocate_def)
next
  case None
  define rec where "rec = (\<lambda>k s. \<lparr>c_t = t, meshId = m, c_dir = d, c_cls = k, c_state = ALLOCATED,
                 since = now, negotiatingAt = 0, openedAt = 0, closingAt = 0, reason = None :: string option, nodeId = None :: string option,
                 escalateTimer = False, c_seq = s\<rparr>)"
  show ?thesis
  proof (cases "case res of None \<Rightarrow> None | Some r \<Rightarrow> mget (l_res l) r")
    case no: None
    have "core (snd (allocate t m d res now l)) = core (if armed l then l else set_chan t (rec None (l_seq l + 1)) l)"
      using None no by (auto simp: allocate_def core_def count_def stale_def armed_def rec_def set_chan_def Let_def split: option.splits)
    moreover have "core_ok (if armed l then l else set_chan t (rec None (l_seq l + 1)) l)"
      using assms core_alloc_unarmed [OF assms, of "rec None (l_seq l + 1)"] by (simp add: rec_def)
    ultimately show ?thesis by (rule core_okI [rotated])
  next
    case (Some rr)
    then obtain r where r: "res = Some r" "mget (l_res l) r = Some rr" by (auto split: option.splits)
    have "core (snd (allocate t m d res now l)) = core (set_chan t (rec (r_cls rr) (l_seq l + 1)) (l\<lparr>l_res := mdelete r (l_res l)\<rparr>))"
      using None r by (simp add: allocate_def core_def count_def rec_def set_chan_def Let_def)
    moreover have "core_ok (set_chan t (rec (r_cls rr) (l_seq l + 1)) (l\<lparr>l_res := mdelete r (l_res l)\<rparr>))"
      using assms None r(2) by (intro core_alloc_rec) (simp_all add: rec_def)
    ultimately show ?thesis by (rule core_okI [rotated])
  qed
qed

lemma core_reclass_op:
  assumes "core_ok l"
  shows "core_ok (snd (reclass t k aft l))"
proof (cases "mget (l_chan l) t")
  case (Some c)
  have "\<not> (class_full x l \<and> enforce l) \<Longrightarrow> core_ok (set_chan t (c\<lparr>c_cls := Some x\<rparr>) l)" for x
    by (rule core_reclass [OF assms Some]) blast
  with Some assms show ?thesis
    by (auto simp: reclass_def split: option.splits)
qed (use assms in \<open>simp add: reclass_def\<close>)

lemma core_apply_one:
  assumes "core_ok l"
  shows "core_ok (apply_one g p l)"
proof -
  obtain t k aft where p: "p = (t, k, aft)" by (cases p)
  let ?l = "l\<lparr>pendingReclass := mdelete t (pendingReclass l)\<rparr>"
  have l: "core_ok ?l" using assms by simp
  have "core_ok (set_chan t (c\<lparr>c_cls := Some k\<rparr>) ?l)" if "mget (l_chan ?l) t = Some c" "\<not> class_full k ?l" for c
    using l that by (intro core_reclass) auto
  then show ?thesis using assms l
    by (auto simp: apply_one_def p Let_def split: option.splits)
qed

lemma core_apply: "core_ok l \<Longrightarrow> core_ok (applyPendingReclass g l)"
proof -
  have "core_ok l \<Longrightarrow> core_ok (fold (apply_one g) ps l)" for ps
    by (induction ps arbitrary: l) (simp_all add: core_apply_one)
  then show "core_ok l \<Longrightarrow> core_ok (applyPendingReclass g l)" by (simp add: applyPendingReclass_def)
qed

lemma core_gone:
  assumes "core_ok l"
  shows "core_ok (gone t l)"
proof (cases "mget (l_chan l) t")
  case (Some c)
  define l1 where "l1 = (if mget (tByMeshId l) (meshId c) = Some t then l\<lparr>tByMeshId := mdelete (meshId c) (tByMeshId l)\<rparr> else l)"
  have "core_ok l1" using assms by (simp add: l1_def)
  then have "core_ok (l1\<lparr>l_chan := mdelete t (l_chan l1)\<rparr>)" by (rule core_drop_chan)
  then show ?thesis using Some assms
    by (simp add: gone_def l1_def [symmetric] Let_def core_apply)
qed (use assms in \<open>simp add: gone_def\<close>)

lemma core_dispose:
  assumes "core_ok l"
  shows "core_ok (dispose l)"
proof -
  have st: "struct_ok l" using assms by (simp add: core_ok_def)
  have g: "mget (l_chan (dispose l)) t = map_option (\<lambda>c. c\<lparr>escalateTimer := False\<rparr>) (mget (l_chan l) t)" for t
    by (simp add: dispose_def map_of_map)
  have f: "l_res (dispose l) = l_res l" "resSeq (dispose l) = resSeq l" "armed (dispose l) = armed l" "enforce (dispose l) = enforce l"
    "cPhys (dispose l) = cPhys l" "\<And>k. pool_of (dispose l) k = pool_of l k"
    by (simp_all add: dispose_def armed_def pool_of_def)
  have "minvar (l_chan (dispose l))" using st by (simp add: struct_ok_def dispose_def)
  then have "struct_ok (dispose l)" using st unfolding struct_ok_def f g by (auto simp: map_option_case split: option.splits)
  moreover have "usage k (dispose l) = usage k l" "total (dispose l) = total l" for k
    by (simp_all add: usage_def total_def counts_mcount dispose_def mcount_map)
  ultimately show ?thesis using assms unfolding core_ok_def cap_ok_def f by simp
qed

lemma newest_bound_in:
  assumes "newest_bound m l = Some c"
  shows "\<exists>t. (t, c) \<in> set (l_chan l) \<and> nodeId c \<noteq> None \<and> meshId c = m"
proof -
  define f where "f = (\<lambda>(q :: string \<times> chan) b. let c = snd q in
     if meshId c = m \<and> nodeId c \<noteq> None \<and> LIVE (c_state c) \<and> (case b of None \<Rightarrow> True | Some x \<Rightarrow> c_seq c > c_seq x)
     then Some c else b)"
  have step: "f q b = b \<or> f q b = Some (snd q) \<and> nodeId (snd q) \<noteq> None \<and> meshId (snd q) = m" for q b
    by (simp add: f_def Let_def)
  have "fold f cs b = b \<or> (\<exists>q \<in> set cs. fold f cs b = Some (snd q) \<and> nodeId (snd q) \<noteq> None \<and> meshId (snd q) = m)" for cs b
  proof (induction cs arbitrary: b)
    case (Cons q cs)
    from Cons.IH [of "f q b"] step [of q b] show ?case by auto
  qed simp
  from this [of "l_chan l" None] assms show ?thesis unfolding newest_bound_def f_def [symmetric] by force
qed

text \<open>The channel \<open>unbind\<close> acts on: one of the ledger, bound, and recorded under its own token.\<close>

definition unbind_target :: "string \<Rightarrow> ledger \<Rightarrow> chan option" where
  "unbind_target m l = (let cur = (case mget (tByMeshId l) m of None \<Rightarrow> None | Some t \<Rightarrow> mget (l_chan l) t) in
     case cur of Some c \<Rightarrow> if nodeId c \<noteq> None then Some c else newest_bound m l | None \<Rightarrow> newest_bound m l)"

lemma unbind_alt: "unbind m l = (case unbind_target m l of None \<Rightarrow> l
   | Some c \<Rightarrow> settlePeer (nodeId c) (c_t c) (set_chan (c_t c) (c\<lparr>nodeId := None\<rparr>) l))"
  by (simp add: unbind_def unbind_target_def)

lemma unbind_target_get:
  assumes "struct_ok l" "unbind_target m l = Some c"
  shows "mget (l_chan l) (c_t c) = Some c"
proof -
  have "\<exists>t. mget (l_chan l) t = Some c"
    using assms newest_bound_in [of m l c]
    by (auto simp: unbind_target_def Let_def struct_ok_def minvar_get_iff split: option.splits if_splits)
  then show ?thesis using assms(1) by (auto simp: struct_ok_def)
qed

lemma core_unbind:
  assumes "core_ok l"
  shows "core_ok (unbind m l)"
proof (cases "unbind_target m l")
  case (Some c)
  have st: "struct_ok l" using assms by (simp add: core_ok_def)
  note g = unbind_target_get [OF st Some]
  have "c_state c \<noteq> GONE" using st g unfolding struct_ok_def by blast
  then have "core_ok (set_chan (c_t c) (c\<lparr>nodeId := None\<rparr>) l)" by (intro core_set_chan [OF assms g]) simp_all
  then show ?thesis using Some by (simp add: unbind_alt)
qed (simp add: unbind_alt assms)

lemma core_closing:
  assumes "core_ok l"
  shows "core_ok (closing t rsn now l)"
proof (cases "mget (l_chan l) t")
  case (Some c)
  have "core_ok (set_chan t (close_rec rsn now l c) l)"
    by (rule core_set_chan [OF assms Some]) (simp_all add: close_rec_def)
  then show ?thesis using Some assms by (simp add: closing_def Let_def split: option.split)
qed (use assms in \<open>simp add: closing_def\<close>)

lemma core_small:
  assumes "core_ok l"
  shows "core_ok (negotiating t now l)" "core_ok (open_chan t now l)" "core_ok (bind m n now l)" "core_ok (escalate t l)"
proof -
  have g: "c_state c \<noteq> GONE" if "mget (l_chan l) t = Some c" for t c using assms that by (auto simp: core_ok_def struct_ok_def)
  show "core_ok (negotiating t now l)" "core_ok (open_chan t now l)"
    using assms by (auto simp: negotiating_def open_chan_def intro: core_set_chan split: option.splits)
  show "core_ok (bind m n now l)" using assms g
    by (auto simp: bind_def intro!: core_set_chan split: option.splits)
  show "core_ok (escalate t l)" using assms g
    by (auto simp: escalate_def Let_def intro!: core_set_chan split: option.splits)
qed

lemma core_step: "core_ok l \<Longrightarrow> core_ok (led_step e l)"
  by (cases e) (auto simp: core_sweep core_reserve core_release core_reclass_op core_allocate core_small core_unbind core_closing
      core_gone core_dispose mayAllocate_def Let_def)

end
