(* ===== verification/LedgerLaws.thy ===== *)
theory LedgerLaws
  imports ChannelLedger
begin

text \<open>
  What the channel ledger promises over every history of its operations: the pool bounds of an
  enforcing ledger, the lifecycle of a channel record, the pointers from signalling ids and bound
  identities to channels, and the hand-over of a seat by a deferred reclass.
\<close>

section \<open>Capacity\<close>

definition led_run :: "l_event list \<Rightarrow> ledger \<Rightarrow> ledger" where
  "led_run es l = fold led_step es l"

lemma core_run: "core_ok l \<Longrightarrow> core_ok (led_run es l)"
  by (induction es arbitrary: l) (simp_all add: led_run_def core_step)

definition conf :: "ledger \<Rightarrow> int \<times> bool \<times> pools option" where
  "conf l = (cPhys l, enforce l, l_pools l)"

lemma conf_simps [simp]:
  "conf (count f l) = conf l" "conf (stale l) = conf l" "conf (l\<lparr>tByMeshId := x\<rparr>) = conf l" "conf (l\<lparr>l_peer := y\<rparr>) = conf l"
  "conf (l\<lparr>pendingReclass := z\<rparr>) = conf l" "conf (set_chan t c l) = conf l" "conf (l\<lparr>l_chan := u\<rparr>) = conf l"
  "conf (l\<lparr>l_res := v\<rparr>) = conf l" "conf (l\<lparr>resSeq := w\<rparr>) = conf l" "conf (l\<lparr>l_seq := q\<rparr>) = conf l"
  by (simp_all add: conf_def count_def stale_def set_chan_def)

lemma conf_settlePeer [simp]: "conf (settlePeer n t l) = conf l"
  by (simp add: settlePeer_def split: option.split)

lemma conf_apply_one [simp]: "conf (apply_one g p l) = conf l"
  by (cases p) (simp add: apply_one_def Let_def split: option.split)

lemma conf_apply [simp]: "conf (applyPendingReclass g l) = conf l"
proof -
  have "conf (fold (apply_one g) ps l) = conf l" for ps by (induction ps arbitrary: l) simp_all
  then show ?thesis by (simp add: applyPendingReclass_def)
qed

lemma conf_sweep [simp]: "conf (snd (sweepReservations now l)) = conf l"
  by (simp add: sweepReservations_def Let_def)

lemma conf_step [simp]: "conf (led_step e l) = conf l"
  by (cases e) (auto simp: reserve_def release_def reclass_def mayAllocate_def allocate_def negotiating_def open_chan_def bind_def
      unbind_alt closing_def escalate_def gone_def dispose_def Let_def split: option.split)

lemma conf_run [simp]: "conf (led_run es l) = conf l"
  by (induction es arbitrary: l) (simp_all add: led_run_def)

lemma new_ledger_core: "l_pools (new_ledger a b c d e f ps) = ps" "enforce (new_ledger a b c d e f ps) = e"
  by (simp_all add: new_ledger_def)

lemma sbind_Inr: "sbind x f = Inr y \<longleftrightarrow> (\<exists>a. x = Inr a \<and> f a = Inr y)"
  by (cases x) (simp_all add: sbind_def)

lemma int_opt_Inr: "int_opt f v mn r = Inr x \<Longrightarrow> (r \<longrightarrow> x \<noteq> None) \<and> (\<forall>n. x = Some n \<longrightarrow> mn \<le> n)"
  by (auto simp: int_opt_def split: option.splits if_splits)

lemma orElse_le: "(\<forall>n. v = Some n \<longrightarrow> mn \<le> n) \<Longrightarrow> mn \<le> d \<or> v \<noteq> None \<Longrightarrow> mn \<le> orElse v d"
  by (cases v) (auto simp: orElse_def)

lemma profile_sound:
  assumes "makePoolProfile oM oI oH oP oC oS oPr oD oHB = Inr p"
  shows "1 \<le> pM p \<and> 0 \<le> pI p \<and> pM p + pI p \<le> pH p \<and> 1 \<le> p_pPending p \<and> p_pPending p \<le> pM p \<and>
    0 \<le> p_cInbound p \<and> p_cInbound p \<le> pI p \<and> 0 \<le> serveFloor p \<and> serveFloor p \<le> pM p \<and>
    (\<forall>b. hostBudget p = Some b \<longrightarrow> pH p + doorSockets p \<le> b)"
proof -
  from assms obtain M I H P C S Pr D HB where io: "int_opt ''M'' oM 1 True = Inr M" "int_opt ''I'' oI 0 True = Inr I"
      "int_opt ''pPending'' oP 1 False = Inr P" "int_opt ''cInbound'' oC 0 False = Inr C" "int_opt ''serveFloor'' oS 0 False = Inr S"
    and r: "(let m = orElse M 0; i = orElse I 0; h = orElse H (m + i); q = orElse P (min 8 m); c = orElse C (min 4 i);
           s = orElse S (min 3 m); pr = orElse Pr 30000; d = orElse D 0 in
       if m + i > h then Inl (ProfileError ''H'') else if q > m then Inl (ProfileError ''pPending'')
       else if c > i then Inl (ProfileError ''cInbound'') else if s > m then Inl (ProfileError ''serveFloor'')
       else if (case HB of None \<Rightarrow> False | Some b \<Rightarrow> b < h + d) then Inl (ProfileError ''hostBudget'')
       else Inr \<lparr>pM = m, pI = i, pH = h, p_pPending = q, p_cInbound = c, serveFloor = s, promoteMs = pr,
                 hostBudget = HB, doorSockets = d\<rparr>) = Inr p"
    unfolding makePoolProfile_def sbind_Inr by blast
  note b = io [THEN int_opt_Inr]
  have m: "1 \<le> orElse M 0" and i: "0 \<le> orElse I 0" using b(1,2) by (auto simp: orElse_def)
  have "1 \<le> orElse P (min 8 (orElse M 0))" "0 \<le> orElse C (min 4 (orElse I 0))" "0 \<le> orElse S (min 3 (orElse M 0))"
    using b(3-5) m i by (auto intro!: orElse_le)
  with m i show ?thesis using r unfolding Let_def by (auto simp: not_less split: if_splits option.splits)
qed

lemma new_core_ok: "makePoolProfile oM oI oH oP oC oS oPr oD oHB = Inr p \<Longrightarrow> core_ok (new_ledger a b c d e f (Some p))"
  using profile_sound [of oM oI oH oP oC oS oPr oD oHB p]
  by (simp add: core_ok_def struct_ok_def cap_ok_def new_ledger_def usage_def total_def counts_mcount pool_of_def num_or_def
      split: cls.split)

lemma ledger_pool_bounds_parts:
  fixes es :: "l_event list" and a b c d f :: "int option" and p :: pools
  assumes "makePoolProfile oM oI oH oP oC oS oPr oD oHB = Inr p"
  defines "l \<equiv> led_run es (new_ledger a b c d True f (Some p))"
  shows "chargedOf (Some M) l + reservedOf (Some M) l \<le> pM p"
    "chargedOf (Some I) l + reservedOf (Some I) l \<le> pI p"
    "chanAll l + reservedAll l \<le> pH p" "pM p + pI p \<le> pH p"
    "chargedOf None l = 0"
proof -
  note s = profile_sound [OF assms(1)]
  have k: "core_ok l" unfolding l_def by (intro core_run new_core_ok [OF assms(1)])
  have "conf (new_ledger a b c d True f (Some p)) = (pH p, True, Some p)" using s by (simp add: conf_def new_ledger_def num_or_def)
  then have "conf l = (pH p, True, Some p)" by (simp add: l_def)
  then have c: "cPhys l = pH p" "enforce l" "l_pools l = Some p" by (simp_all add: conf_def)
  have "usage x l \<le> pool_of l x" "total l \<le> cPhys l" for x using k c by (auto simp: core_ok_def cap_ok_def armed_def)
  from this(1) [of M] this(1) [of I] this(2)
  show "chargedOf (Some M) l + reservedOf (Some M) l \<le> pM p" "chargedOf (Some I) l + reservedOf (Some I) l \<le> pI p"
    "chanAll l + reservedAll l \<le> pH p" by (simp_all add: usage_def total_def pool_of_def c)
  have "\<forall>q \<in> set (l_chan l). c_cls (snd q) \<noteq> None"
    using k c by (auto simp: core_ok_def struct_ok_def armed_def minvar_get_iff)
  then show "chargedOf None l = 0" by (simp add: chargedOf_def filter_empty_conv)
qed (use profile_sound [OF assms(1)] in simp)

text \<open>C13. Pool bounds. A ledger armed with a validated profile and enforcing it never holds more than M
  charges and reservations of class M, I of class I, or H in all; the two pools fit into H; no channel
  is charged outside a class. This holds after every sequence of operations, whatever tokens, ids and
  clock values they are called with.\<close>

theorem ledger_pool_bounds:
  fixes es :: "l_event list" and a b c d f :: "int option" and p :: pools
  assumes "makePoolProfile oM oI oH oP oC oS oPr oD oHB = Inr p"
  defines "l \<equiv> led_run es (new_ledger a b c d True f (Some p))"
  shows "chargedOf (Some M) l + reservedOf (Some M) l \<le> pM p \<and> chargedOf (Some I) l + reservedOf (Some I) l \<le> pI p
    \<and> chanAll l + reservedAll l \<le> pH p \<and> pM p + pI p \<le> pH p \<and> chargedOf None l = 0"
  unfolding l_def by (intro conjI ledger_pool_bounds_parts [OF assms(1)])

theorem ledger_pool_bounds_witness:
  "let l = led_run [LReserve (Some M) Out None None 5, LAllocate ''a'' ''m1'' Out (Some 1) 6, LReserve (Some M) Out None None 7]
     (new_ledger None None None None True None
        (Some \<lparr>pM = 1, pI = 0, pH = 1, p_pPending = 1, p_cInbound = 0, serveFloor = 1, promoteMs = 30000, hostBudget = None, doorSockets = 0\<rparr>)) in
   chargedOf (Some M) l + reservedOf (Some M) l \<le> 1 \<and> chargedOf (Some M) l = 1"
proof -
  have p: "makePoolProfile (Some (Fin 1)) (Some (Fin 0)) None None None None None None None
     = Inr \<lparr>pM = 1, pI = 0, pH = 1, p_pPending = 1, p_cInbound = 0, serveFloor = 1, promoteMs = 30000, hostBudget = None, doorSockets = 0\<rparr>"
    by code_simp
  show ?thesis unfolding Let_def
    by (rule conjI, use ledger_pool_bounds [OF p] in simp, code_simp)
qed

section \<open>The lifecycle of a channel\<close>

fun rank :: "chan_state \<Rightarrow> nat" where
  "rank ALLOCATED = 0" | "rank NEGOTIATING = 1" | "rank OPEN = 2" | "rank CLOSING = 3" | "rank GONE = 4"

text \<open>What a step may do to the record of one token: keep its identity and never move its state back.\<close>

definition forward :: "chan option \<Rightarrow> chan option \<Rightarrow> bool" where
  "forward x y \<longleftrightarrow> (case x of None \<Rightarrow> True | Some c \<Rightarrow>
     (case y of None \<Rightarrow> False | Some c' \<Rightarrow> c_t c' = c_t c \<and> meshId c' = meshId c \<and> c_dir c' = c_dir c \<and> c_seq c' = c_seq c
        \<and> since c' = since c \<and> rank (c_state c) \<le> rank (c_state c')))"

lemma forward_refl [simp]: "forward x x"
  by (cases x) (simp_all add: forward_def)

lemma forward_Some: "forward (Some c) (Some c') \<longleftrightarrow> c_t c' = c_t c \<and> meshId c' = meshId c \<and> c_dir c' = c_dir c
   \<and> c_seq c' = c_seq c \<and> since c' = since c \<and> rank (c_state c) \<le> rank (c_state c')"
  by (simp add: forward_def)

lemma forward_None [simp]: "forward None y"
  by (simp add: forward_def)

lemma rank_le: "rank s \<le> 3 \<longleftrightarrow> s \<noteq> GONE" "rank s \<le> 2 \<longleftrightarrow> s \<noteq> GONE \<and> s \<noteq> CLOSING"
  by (cases s; simp)+

lemma forward_trans: "forward x y \<Longrightarrow> forward y z \<Longrightarrow> forward x z"
  by (auto simp: forward_def split: option.splits)

lemma forward_set_chan:
  "mget (l_chan l) t = Some c \<Longrightarrow> forward (Some c) (Some c') \<Longrightarrow> forward (mget (l_chan l) u) (mget (l_chan (set_chan t c' l)) u)"
  by (simp add: set_chan_def)

lemma l_chan_simps [simp]:
  "l_chan (count f l) = l_chan l" "l_chan (stale l) = l_chan l" "l_chan (settlePeer n t l) = l_chan l"
  by (simp_all add: count_def stale_def settlePeer_def split: option.split)

lemma forward_apply_one: "forward (mget (l_chan l) u) (mget (l_chan (apply_one g p l)) u)"
  by (cases p) (auto simp: apply_one_def Let_def set_chan_def forward_def split: option.split)

lemma forward_apply: "forward (mget (l_chan l) u) (mget (l_chan (applyPendingReclass g l)) u)"
proof -
  have "forward (mget (l_chan l) u) (mget (l_chan (fold (apply_one g) ps l)) u)" for ps
  proof (induction ps arbitrary: l)
    case (Cons p ps)
    show ?case using forward_trans [OF forward_apply_one Cons.IH] by simp
  qed simp
  then show ?thesis by (simp add: applyPendingReclass_def)
qed

lemma forward_gone: "u \<noteq> t \<Longrightarrow> forward (mget (l_chan l) u) (mget (l_chan (gone t l)) u)"
proof (cases "mget (l_chan l) t")
  case (Some c)
  assume u: "u \<noteq> t"
  have *: "forward x (mget (l_chan (applyPendingReclass t l')) u)" if "mget (l_chan l') u = x" for l' x
    using that forward_apply by blast
  show ?thesis using Some u by (auto simp: gone_def Let_def intro!: *)
qed (simp add: gone_def)

lemma gone_removes: "mget (l_chan l) t = None \<Longrightarrow> mget (l_chan (applyPendingReclass g l)) t = None"
proof -
  have one: "mget (l_chan l) t = None \<Longrightarrow> mget (l_chan (apply_one g p l)) t = None" for l p
    by (cases p) (auto simp: apply_one_def Let_def set_chan_def split: option.split)
  have "mget (l_chan l) t = None \<Longrightarrow> mget (l_chan (fold (apply_one g) ps l)) t = None" for ps
    by (induction ps arbitrary: l) (simp_all add: one)
  then show "mget (l_chan l) t = None \<Longrightarrow> mget (l_chan (applyPendingReclass g l)) t = None" by (simp add: applyPendingReclass_def)
qed

lemma forward_unbind:
  assumes "struct_ok l"
  shows "forward (mget (l_chan l) u) (mget (l_chan (unbind m l)) u)"
proof (cases "unbind_target m l")
  case (Some c)
  show ?thesis using unbind_target_get [OF assms Some] by (simp add: unbind_alt Some set_chan_def forward_Some)
qed (simp add: unbind_alt)

lemma forward_small:
  "forward (mget (l_chan l) u) (mget (l_chan (negotiating t now l)) u)"
  "forward (mget (l_chan l) u) (mget (l_chan (open_chan t now l)) u)"
  "forward (mget (l_chan l) u) (mget (l_chan (bind m n now l)) u)"
  "forward (mget (l_chan l) u) (mget (l_chan (escalate t l)) u)"
  by (auto simp: negotiating_def open_chan_def bind_def escalate_def Let_def set_chan_def forward_Some PRE_OPEN_def split: option.split)

lemma forward_closing: "forward (mget (l_chan l) u) (mget (l_chan (closing t r now l)) u)"
  by (auto simp: closing_def Let_def set_chan_def forward_Some close_rec_def rank_le split: option.split)

lemma forward_reclass: "forward (mget (l_chan l) u) (mget (l_chan (snd (reclass t k a l))) u)"
proof (cases "mget (l_chan l) t")
  case (Some c)
  then show ?thesis by (auto simp: reclass_def set_chan_def forward_Some split: option.split)
qed (simp add: reclass_def)

lemma forward_allocate: "forward (mget (l_chan l) u) (mget (l_chan (snd (allocate t m d r now l))) u)"
  by (auto simp: allocate_def Let_def set_chan_def split: option.split)

lemma l_chan_res [simp]:
  "l_chan (snd (sweepReservations now l)) = l_chan l" "l_chan (snd (reserve k d a g now l)) = l_chan l"
  "l_chan (snd (release x l)) = l_chan l" "l_chan (snd (mayAllocate d l)) = l_chan l"
  by (simp_all add: sweepReservations_def reserve_def release_def mayAllocate_def Let_def split: option.split)

lemma forward_dispose: "forward (mget (l_chan l) u) (mget (l_chan (dispose l)) u)"
  by (cases "mget (l_chan l) u") (simp_all add: dispose_def map_of_map forward_Some)

lemma forward_step:
  "struct_ok l \<Longrightarrow> e \<noteq> LGone u \<Longrightarrow> forward (mget (l_chan l) u) (mget (l_chan (led_step e l)) u)"
  by (cases e) (auto simp: forward_small forward_closing forward_reclass forward_allocate forward_dispose forward_unbind forward_gone)

lemma forward_run:
  "core_ok l \<Longrightarrow> LGone u \<notin> set es \<Longrightarrow> forward (mget (l_chan l) u) (mget (l_chan (led_run es l)) u)"
proof (induction es arbitrary: l)
  case (Cons e es)
  then have "forward (mget (l_chan l) u) (mget (l_chan (led_step e l)) u)" by (auto intro: forward_step simp: core_ok_def)
  moreover have "forward (mget (l_chan (led_step e l)) u) (mget (l_chan (led_run es (led_step e l))) u)"
    using Cons by (simp add: core_step)
  ultimately show ?case using forward_trans by (simp add: led_run_def)
qed (simp add: led_run_def)

lemma new_core_ok_opt:
  "(\<And>p. ps = Some p \<Longrightarrow> \<exists>oM oI oH oP oC oS oPr oD oHB. makePoolProfile oM oI oH oP oC oS oPr oD oHB = Inr p)
    \<Longrightarrow> core_ok (new_ledger a b c d e f ps)"
  by (cases ps) (auto simp: new_core_ok, simp add: core_ok_def struct_ok_def cap_ok_def new_ledger_def armed_def)

lemma channel_lifecycle_parts:
  fixes es es' :: "l_event list" and a b c d f :: "int option" and e :: bool and ps :: "pools option"
  assumes "\<And>p. ps = Some p \<Longrightarrow> \<exists>oM oI oH oP oC oS oPr oD oHB. makePoolProfile oM oI oH oP oC oS oPr oD oHB = Inr p"
  defines "l \<equiv> led_run es (new_ledger a b c d e f ps)"
  assumes "mget (l_chan l) u = Some r"
  shows "LGone u \<notin> set es' \<Longrightarrow> \<exists>r'. mget (l_chan (led_run es' l)) u = Some r' \<and> c_t r' = u \<and> meshId r' = meshId r \<and> c_dir r' = c_dir r
          \<and> since r' = since r \<and> rank (c_state r) \<le> rank (c_state r') \<and> LIVE (c_state r')"
    "mget (l_chan (led_step (LGone u) l)) u = None"
proof -
  have l: "core_ok l" unfolding l_def using assms(1) by (intro core_run new_core_ok_opt)
  have r: "c_t r = u" "c_state r \<noteq> GONE" using l assms(3) by (auto simp: core_ok_def struct_ok_def)
  show "\<exists>r'. mget (l_chan (led_run es' l)) u = Some r' \<and> c_t r' = u \<and> meshId r' = meshId r \<and> c_dir r' = c_dir r
          \<and> since r' = since r \<and> rank (c_state r) \<le> rank (c_state r') \<and> LIVE (c_state r')" if "LGone u \<notin> set es'"
  proof -
    have "core_ok (led_run es' l)" using l by (rule core_run)
    then show ?thesis using forward_run [OF l that] assms(3) r
      by (auto simp: forward_def core_ok_def struct_ok_def split: option.splits)
  qed
  show "mget (l_chan (led_step (LGone u) l)) u = None"
    using assms(3) r by (auto simp: gone_def Let_def intro!: gone_removes)
qed

text \<open>C32. Lifecycle. The record of a channel is removed by the transport's confirmation of its close and by
  nothing else: over any history without that event the record stays, keeps its token, signalling id,
  direction and age, and its state never moves back from ALLOCATED over NEGOTIATING and OPEN to
  CLOSING. The confirmation removes it.\<close>

theorem channel_lifecycle:
  fixes es es' :: "l_event list" and a b c d f :: "int option" and e :: bool and ps :: "pools option"
  assumes "\<And>p. ps = Some p \<Longrightarrow> \<exists>oM oI oH oP oC oS oPr oD oHB. makePoolProfile oM oI oH oP oC oS oPr oD oHB = Inr p"
  defines "l \<equiv> led_run es (new_ledger a b c d e f ps)"
  assumes "mget (l_chan l) u = Some r"
  shows "(LGone u \<notin> set es' \<longrightarrow> (\<exists>r'. mget (l_chan (led_run es' l)) u = Some r' \<and> c_t r' = u \<and> meshId r' = meshId r \<and> c_dir r' = c_dir r
          \<and> since r' = since r \<and> rank (c_state r) \<le> rank (c_state r') \<and> LIVE (c_state r')))
    \<and> mget (l_chan (led_step (LGone u) l)) u = None"
  using channel_lifecycle_parts [OF assms(1) assms(3) [unfolded l_def]] unfolding l_def by blast

theorem channel_lifecycle_witness:
  "\<exists>r'. mget (l_chan (led_run [LClosing ''a'' ''x'' 9, LOpen ''a'' 10, LUnbind ''m1'']
          (led_run [LAllocate ''a'' ''m1'' Out None 6, LOpen ''a'' 7] (new_ledger None None None None True None None)))) ''a'' = Some r'
     \<and> 2 \<le> rank (c_state r')"
proof -
  let ?l = "led_run [LAllocate ''a'' ''m1'' Out None 6, LOpen ''a'' 7] (new_ledger None None None None True None None)"
  obtain r where r: "mget (l_chan ?l) ''a'' = Some r" "c_state r = OPEN"
    by (simp add: led_run_def allocate_def open_chan_def new_ledger_def set_chan_def count_def armed_def PRE_OPEN_def Let_def)
  from channel_lifecycle [of None, OF _ r(1), of "[LClosing ''a'' ''x'' 9, LOpen ''a'' 10, LUnbind ''m1'']"] r(2)
  show ?thesis by auto
qed

section \<open>Pointers\<close>

text \<open>What the pointers read of a channel: its signalling id, its bound identity, whether it may be pointed at.\<close>

definition ptr_view :: "ledger \<Rightarrow> string \<Rightarrow> (string \<times> string option \<times> bool) option" where
  "ptr_view l t = map_option (\<lambda>c. (meshId c, nodeId c, POINTABLE (c_state c))) (mget (l_chan l) t)"

definition ptr_ok :: "ledger \<Rightarrow> bool" where
  "ptr_ok l \<longleftrightarrow> (\<forall>m t. mget (tByMeshId l) m = Some t \<longrightarrow> (\<exists>n. ptr_view l t = Some (m, n, True)))
     \<and> (\<forall>n p. mget (l_peer l) n = Some p \<longrightarrow> (\<exists>t m. p_t p = Some t \<and> ptr_view l t = Some (m, Some n, True)))"

text \<open>A bind event respects the channel's binding when the channel has none or already has this identity.\<close>

fun bind_respects :: "l_event \<Rightarrow> ledger \<Rightarrow> bool" where
  "bind_respects (LBind m n now) l = (case mget (tByMeshId l) m of None \<Rightarrow> True
     | Some t \<Rightarrow> (case mget (l_chan l) t of None \<Rightarrow> True | Some c \<Rightarrow> nodeId c = None \<or> nodeId c = Some n))"
| "bind_respects _ l = True"

inductive led_reach :: "ledger \<Rightarrow> bool" where
  plain: "led_reach (new_ledger a b c d e f None)"
| pooled: "makePoolProfile oM oI oH oP oC oS oPr oD oHB = Inr p \<Longrightarrow> led_reach (new_ledger a b c d e f (Some p))"
| step: "led_reach l \<Longrightarrow> bind_respects ev l \<Longrightarrow> led_reach (led_step ev l)"

inductive_cases led_reachE: "led_reach l"

lemma reach_core: "led_reach l \<Longrightarrow> core_ok l"
  by (induction rule: led_reach.induct) (auto intro: core_step new_core_ok new_core_ok_opt)

lemma ptr_ok_cong:
  "ptr_view l' = ptr_view l \<Longrightarrow> tByMeshId l' = tByMeshId l \<Longrightarrow> l_peer l' = l_peer l \<Longrightarrow> ptr_ok l' = ptr_ok l"
  by (simp add: ptr_ok_def)

lemma ptr_view_set:
  "ptr_view (set_chan t c l) = (ptr_view l)(t \<mapsto> (meshId c, nodeId c, POINTABLE (c_state c)))"
  by (auto simp: ptr_view_def set_chan_def)

lemma ptr_view_same:
  assumes "mget (l_chan l) t = Some c" "meshId c' = meshId c" "nodeId c' = nodeId c" "POINTABLE (c_state c') = POINTABLE (c_state c)"
  shows "ptr_view (set_chan t c' l) = ptr_view l"
  using assms by (auto simp: ptr_view_def set_chan_def)

lemma ptr_frame [simp]:
  "ptr_view (count f l) = ptr_view l" "ptr_view (stale l) = ptr_view l" "ptr_view (settlePeer n t l) = ptr_view l"
  "ptr_view (l\<lparr>l_peer := x\<rparr>) = ptr_view l" "ptr_view (l\<lparr>tByMeshId := y\<rparr>) = ptr_view l" "ptr_view (l\<lparr>pendingReclass := z\<rparr>) = ptr_view l"
  "ptr_view (l\<lparr>l_seq := q\<rparr>) = ptr_view l" "ptr_view (l\<lparr>l_res := r\<rparr>) = ptr_view l" "ptr_view (l\<lparr>resSeq := s\<rparr>) = ptr_view l"
  by (simp_all add: ptr_view_def fun_eq_iff)

lemma tab_frame [simp]:
  "tByMeshId (count f l) = tByMeshId l" "tByMeshId (stale l) = tByMeshId l" "tByMeshId (settlePeer n t l) = tByMeshId l"
  "tByMeshId (set_chan t c l) = tByMeshId l"
  "l_peer (count f l) = l_peer l" "l_peer (stale l) = l_peer l" "l_peer (set_chan t c l) = l_peer l"
  by (simp_all add: count_def stale_def settlePeer_def set_chan_def split: option.split)

lemma ptr_ok_frame [simp]:
  "ptr_ok (count f l) = ptr_ok l" "ptr_ok (stale l) = ptr_ok l" "ptr_ok (l\<lparr>pendingReclass := z\<rparr>) = ptr_ok l"
  "ptr_ok (l\<lparr>l_res := r\<rparr>) = ptr_ok l" "ptr_ok (l\<lparr>resSeq := s\<rparr>) = ptr_ok l" "ptr_ok (l\<lparr>l_seq := q\<rparr>) = ptr_ok l"
  by (rule ptr_ok_cong; simp)+

text \<open>The scan of \<open>otherPointableFor\<close> finds a channel exactly when one qualifies.\<close>

lemma pick_in:
  assumes "(case filter Q cs of c # _ \<Rightarrow> Some (f c) | [] \<Rightarrow> (case cs of c # _ \<Rightarrow> Some (f c) | [] \<Rightarrow> None)) = Some t"
  shows "\<exists>c \<in> set cs. t = f c"
proof (cases "filter Q cs")
  case Nil
  then show ?thesis using assms by (cases cs) auto
next
  case (Cons c r)
  then have "c \<in> set (filter Q cs)" by simp
  then have "c \<in> set cs" by simp
  then show ?thesis using assms Cons by auto
qed

lemma pick_none:
  "(case filter Q cs of c # _ \<Rightarrow> Some (f c) | [] \<Rightarrow> (case cs of c # _ \<Rightarrow> Some (f c) | [] \<Rightarrow> None)) = None \<Longrightarrow> cs = []"
  by (auto split: list.splits)

lemma other_Some:
  assumes "struct_ok l" "otherPointableFor n e l = Some t"
  shows "t \<noteq> e \<and> (\<exists>m. ptr_view l t = Some (m, Some n, True))"
proof -
  let ?P = "\<lambda>c. c_t c \<noteq> e \<and> nodeId c = Some n \<and> POINTABLE (c_state c)"
  from assms(2) obtain c where c: "c \<in> set (filter ?P (map snd (l_chan l)))" "t = c_t c"
    unfolding otherPointableFor_def Let_def by (blast dest: pick_in)
  then obtain u where u: "(u, c) \<in> set (l_chan l)" "?P c" by auto
  then have "mget (l_chan l) u = Some c" using assms(1) by (simp add: struct_ok_def minvar_get_iff)
  moreover from this have "u = c_t c" using assms(1) by (auto simp: struct_ok_def)
  ultimately show ?thesis using u c by (auto simp: ptr_view_def)
qed

lemma other_None:
  assumes "struct_ok l" "otherPointableFor n e l = None" "t \<noteq> e"
  shows "ptr_view l t \<noteq> Some (m, Some n, True)"
proof
  assume "ptr_view l t = Some (m, Some n, True)"
  then obtain c where c: "mget (l_chan l) t = Some c" "nodeId c = Some n" "POINTABLE (c_state c)" by (auto simp: ptr_view_def)
  moreover have "c_t c = t" using assms(1) c(1) by (auto simp: struct_ok_def)
  ultimately have "c \<in> set (filter (\<lambda>c. c_t c \<noteq> e \<and> nodeId c = Some n \<and> POINTABLE (c_state c)) (map snd (l_chan l)))"
    using assms(3) by (force dest: mget_Some_in)
  then show False using pick_none [OF assms(2) [unfolded otherPointableFor_def Let_def]] by simp
qed

text \<open>A channel stops serving an identity; every other pointer was good. Settling the identity's record
  repairs the invariant.\<close>

definition ptr_ok_but :: "string option \<Rightarrow> string \<Rightarrow> ledger \<Rightarrow> bool" where
  "ptr_ok_but n t l \<longleftrightarrow> (\<forall>m u. mget (tByMeshId l) m = Some u \<longrightarrow> (\<exists>x. ptr_view l u = Some (m, x, True)))
     \<and> (\<forall>k p. mget (l_peer l) k = Some p \<longrightarrow> (Some k = n \<and> p_t p = Some t) \<or> (\<exists>u m. p_t p = Some u \<and> ptr_view l u = Some (m, Some k, True)))
     \<and> (\<forall>m k. ptr_view l t \<noteq> Some (m, Some k, True))"

lemma ptr_settle:
  assumes "struct_ok l" "ptr_ok_but n t l"
  shows "ptr_ok (settlePeer n t l)"
proof (cases "case n of None \<Rightarrow> None | Some k \<Rightarrow> mget (l_peer l) k")
  case None
  then have "settlePeer n t l = l" by (cases n) (simp_all add: settlePeer_def)
  moreover have "mget (l_peer l) k = Some p \<Longrightarrow> n \<noteq> Some k" for k p using None by (cases n) auto
  ultimately show ?thesis using assms(2) unfolding ptr_ok_but_def ptr_ok_def by metis
next
  case (Some p)
  then obtain k where k: "n = Some k" "mget (l_peer l) k = Some p" by (auto split: option.splits)
  show ?thesis
  proof (cases "otherPointableFor k t l")
    case None
    note no = other_None [OF assms(1) None]
    show ?thesis using assms(2) unfolding ptr_ok_but_def ptr_ok_def
      by (auto simp: settlePeer_def k None)
  next
    case (Some v)
    from other_Some [OF assms(1) Some] obtain m where m: "v \<noteq> t" "ptr_view l v = Some (m, Some k, True)" by blast
    let ?l = "settlePeer n t l"
    have peers: "mget (l_peer ?l) j = (if j = k \<and> (p_t p = Some t \<or> p_t p = None) then Some (p\<lparr>p_t := Some v\<rparr>) else mget (l_peer l) j)" for j
      by (simp add: settlePeer_def k Some)
    have "\<exists>u m. p_t q = Some u \<and> ptr_view l u = Some (m, Some j, True)" if "mget (l_peer ?l) j = Some q" for j q
    proof (cases "j = k \<and> (p_t p = Some t \<or> p_t p = None)")
      case True
      then show ?thesis using that m by (auto simp: peers)
    next
      case False
      then have j: "mget (l_peer l) j = Some q" using that unfolding peers if_not_P [OF False] by blast
      then have "\<not> (Some j = n \<and> p_t q = Some t)" using False k by auto
      then show ?thesis using assms(2) j unfolding ptr_ok_but_def by blast
    qed
    then show ?thesis using assms(2) unfolding ptr_ok_but_def ptr_ok_def by simp
  qed
qed

lemma ptr_ok_peer: "ptr_ok l \<Longrightarrow> mget (l_peer l) n = Some p \<Longrightarrow> \<exists>t m. p_t p = Some t \<and> ptr_view l t = Some (m, Some n, True)"
  by (auto simp: ptr_ok_def)

lemma ptr_ok_tab: "ptr_ok l \<Longrightarrow> mget (tByMeshId l) m = Some t \<Longrightarrow> \<exists>n. ptr_view l t = Some (m, n, True)"
  by (simp add: ptr_ok_def)

lemma ptr_view_chan: "mget (l_chan l) t = Some c \<Longrightarrow> ptr_view l t = Some (meshId c, nodeId c, POINTABLE (c_state c))"
  by (simp add: ptr_view_def)

lemma peer_t_nodeId: "ptr_ok l \<Longrightarrow> mget (l_chan l) t = Some c \<Longrightarrow> mget (l_peer l) n = Some p \<Longrightarrow> p_t p = Some t \<Longrightarrow> nodeId c = Some n"
  using ptr_ok_peer [of l n p] by (auto simp: ptr_view_chan)

lemma but_unbind:
  assumes "ptr_ok l" "mget (l_chan l) t = Some c"
  shows "ptr_ok_but (nodeId c) t (set_chan t (c\<lparr>nodeId := None\<rparr>) l)"
  unfolding ptr_ok_but_def
proof (intro conjI allI impI)
  note v = ptr_view_chan [OF assms(2)]
  fix m u assume "mget (tByMeshId (set_chan t (c\<lparr>nodeId := None\<rparr>) l)) m = Some u"
  then show "\<exists>x. ptr_view (set_chan t (c\<lparr>nodeId := None\<rparr>) l) u = Some (m, x, True)"
    using ptr_ok_tab [OF assms(1), of m u] v by (auto simp: ptr_view_set)
next
  fix k p assume p: "mget (l_peer (set_chan t (c\<lparr>nodeId := None\<rparr>) l)) k = Some p"
  then show "Some k = nodeId c \<and> p_t p = Some t \<or>
       (\<exists>u m. p_t p = Some u \<and> ptr_view (set_chan t (c\<lparr>nodeId := None\<rparr>) l) u = Some (m, Some k, True))"
    using ptr_ok_peer [OF assms(1), of k p] peer_t_nodeId [OF assms, of k p]
    by (cases "p_t p = Some t") (auto simp: ptr_view_set)
qed (simp add: ptr_view_set)

lemma ptr_unbind:
  assumes "core_ok l" "ptr_ok l"
  shows "ptr_ok (unbind m l)"
proof (cases "unbind_target m l")
  case (Some c)
  have st: "struct_ok l" using assms(1) by (simp add: core_ok_def)
  note g = unbind_target_get [OF st Some]
  have "c_state c \<noteq> GONE" using st g by (auto simp: struct_ok_def)
  then have "core_ok (set_chan (c_t c) (c\<lparr>nodeId := None\<rparr>) l)" by (intro core_set_chan [OF assms(1) g]) simp_all
  then show ?thesis using but_unbind [OF assms(2) g] by (simp add: unbind_alt Some ptr_settle core_ok_def)
qed (simp add: unbind_alt assms)

definition drop_token :: "string \<Rightarrow> string \<Rightarrow> ledger \<Rightarrow> ledger" where
  "drop_token m t l = (if mget (tByMeshId l) m = Some t then l\<lparr>tByMeshId := mdelete m (tByMeshId l)\<rparr> else l)"

lemma drop_token_simps [simp]:
  "ptr_view (drop_token m t l) = ptr_view l" "l_peer (drop_token m t l) = l_peer l" "l_chan (drop_token m t l) = l_chan l"
  "core_ok (drop_token m t l) = core_ok l" "mget (tByMeshId (drop_token m t l)) m \<noteq> Some t"
  by (auto simp: drop_token_def)

lemma drop_token_get: "mget (tByMeshId (drop_token m t l)) k = Some u \<Longrightarrow> mget (tByMeshId l) k = Some u"
  by (auto simp: drop_token_def split: if_splits)

text \<open>Channel \<open>t\<close> is closed or removed: the entry of its signalling id is dropped with it.\<close>

lemma but_drop:
  assumes "ptr_ok l" "mget (l_chan l) t = Some c" "ptr_view l' = (ptr_view l)(t := v)" "\<And>m k. v \<noteq> Some (m, k, True)"
    "\<And>k u. mget (tByMeshId l') k = Some u \<Longrightarrow> mget (tByMeshId l) k = Some u \<and> \<not> (k = meshId c \<and> u = t)" "l_peer l' = l_peer l"
  shows "ptr_ok_but (nodeId c) t l'"
  unfolding ptr_ok_but_def
proof (intro conjI allI impI)
  fix m u assume "mget (tByMeshId l') m = Some u"
  with assms(5) have u: "mget (tByMeshId l) m = Some u" "\<not> (m = meshId c \<and> u = t)" by auto
  from ptr_ok_tab [OF assms(1) u(1)] obtain x where x: "ptr_view l u = Some (m, x, True)" by blast
  with u(2) have "u \<noteq> t" using assms(2) by (auto simp: ptr_view_def)
  with x show "\<exists>x. ptr_view l' u = Some (m, x, True)" by (simp add: assms(3))
next
  fix k p assume "mget (l_peer l') k = Some p"
  then have "mget (l_peer l) k = Some p" by (simp add: assms(6))
  then show "Some k = nodeId c \<and> p_t p = Some t \<or> (\<exists>u m. p_t p = Some u \<and> ptr_view l' u = Some (m, Some k, True))"
    using ptr_ok_peer [OF assms(1), of k p] peer_t_nodeId [OF assms(1,2), of k p]
    by (cases "p_t p = Some t") (auto simp: assms(3))
qed (simp add: assms(3,4))

lemma ptr_apply_one [simp]:
  "ptr_view (apply_one g p l) = ptr_view l" "tByMeshId (apply_one g p l) = tByMeshId l" "l_peer (apply_one g p l) = l_peer l"
  by (cases p; auto simp: apply_one_def Let_def split: option.split intro!: ptr_view_same [THEN trans])+

lemma ptr_apply [simp]: "ptr_ok (applyPendingReclass g l) = ptr_ok l"
proof -
  have "ptr_ok (fold (apply_one g) ps l) = ptr_ok l" for ps
    by (induction ps arbitrary: l) (simp_all add: ptr_ok_cong [OF ptr_apply_one])
  then show ?thesis by (simp add: applyPendingReclass_def)
qed

lemma ptr_gone:
  assumes "core_ok l" "ptr_ok l"
  shows "ptr_ok (gone t l)"
proof (cases "mget (l_chan l) t")
  case (Some c)
  define l2 where "l2 = (drop_token (meshId c) t l)\<lparr>l_chan := mdelete t (l_chan l)\<rparr>"
  have v: "ptr_view l2 = (ptr_view l)(t := None)" by (auto simp: ptr_view_def l2_def)
  have b: "ptr_ok_but (nodeId c) t l2"
  proof (rule but_drop [OF assms(2) Some v])
    fix k u assume "mget (tByMeshId l2) k = Some u"
    then have d: "mget (tByMeshId (drop_token (meshId c) t l)) k = Some u" by (simp add: l2_def)
    then show "mget (tByMeshId l) k = Some u \<and> \<not> (k = meshId c \<and> u = t)" using drop_token_get [OF d] by auto
  qed (simp_all add: l2_def)
  have "core_ok l2" using core_drop_chan [of "drop_token (meshId c) t l" t] assms(1) by (simp add: l2_def)
  moreover have "ptr_ok_but (nodeId c) t (count f l2)" "struct_ok (count f l2) = struct_ok l2" for f
    using b by (simp_all add: ptr_ok_but_def core_cong [OF core_simps(1)])
  ultimately have "ptr_ok (settlePeer (nodeId c) t (count f l2))" for f by (simp add: ptr_settle core_ok_def)
  then show ?thesis using Some assms(2) by (simp add: gone_def Let_def l2_def drop_token_def [symmetric])
qed (simp add: gone_def assms)

lemma ptr_closing:
  assumes "core_ok l" "ptr_ok l"
  shows "ptr_ok (closing t rsn now l)"
proof (cases "\<exists>c. mget (l_chan l) t = Some c \<and> c_state c \<noteq> CLOSING \<and> c_state c \<noteq> GONE")
  case True
  then obtain c where c: "mget (l_chan l) t = Some c" "c_state c \<noteq> CLOSING" "c_state c \<noteq> GONE" by blast
  define l2 where "l2 = drop_token (meshId c) t (set_chan t (close_rec rsn now l c) l)"
  have core: "core_ok l2" unfolding l2_def drop_token_simps
    by (rule core_set_chan [OF assms(1) c(1)]) (simp_all add: close_rec_def)
  have "ptr_view l2 = (ptr_view l)(t := Some (meshId c, nodeId c, False))"
    by (simp add: l2_def ptr_view_set close_rec_def POINTABLE_def)
  then have b: "ptr_ok_but (nodeId c) t l2"
  proof (rule but_drop [OF assms(2) c(1)])
    fix k u assume "mget (tByMeshId l2) k = Some u"
    then have d: "mget (tByMeshId (drop_token (meshId c) t (set_chan t (close_rec rsn now l c) l))) k = Some u" by (simp add: l2_def)
    then show "mget (tByMeshId l) k = Some u \<and> \<not> (k = meshId c \<and> u = t)" using drop_token_get [OF d] by auto
  qed (simp_all add: l2_def)
  have r: "closing t rsn now l = (case nodeId c of None \<Rightarrow> l2 | Some n \<Rightarrow> (case mget (l_peer l2) n of None \<Rightarrow> l2
               | Some p \<Rightarrow> if p_t p = Some t then settlePeer (Some n) t l2 else l2))"
    using c by (simp add: closing_def Let_def l2_def drop_token_def [symmetric] split: option.split)
  have keep: "ptr_ok l2" if "\<And>n p. nodeId c = Some n \<Longrightarrow> mget (l_peer l2) n = Some p \<Longrightarrow> p_t p \<noteq> Some t"
    using b that unfolding ptr_ok_but_def ptr_ok_def by metis
  show ?thesis unfolding r using ptr_settle [OF _ b] core by (auto simp: core_ok_def intro!: keep split: option.split)
next
  case False
  then show ?thesis using assms(2) by (auto simp: closing_def split: option.split)
qed

lemma ptr_bind:
  assumes "ptr_ok l" "bind_respects (LBind m n now) l"
  shows "ptr_ok (bind m n now l)"
proof (cases "\<exists>t c. mget (tByMeshId l) m = Some t \<and> mget (l_chan l) t = Some c \<and> POINTABLE (c_state c)")
  case True
  then obtain t c where c: "mget (tByMeshId l) m = Some t" "mget (l_chan l) t = Some c" "POINTABLE (c_state c)" by blast
  let ?l = "bind m n now l"
  have v: "ptr_view ?l = (ptr_view l)(t \<mapsto> (meshId c, Some n, True))" and tb: "tByMeshId ?l = tByMeshId l"
    and pr: "mget (l_peer ?l) = (mget (l_peer l))(n \<mapsto> \<lparr>p_t = Some t, boundAt = now\<rparr>)"
    using c by (simp_all add: bind_def ptr_view_set)
  have nb: "nodeId c = None \<or> nodeId c = Some n" using assms(2) c by simp
  have "\<exists>x. ptr_view ?l u = Some (k, x, True)" if "mget (tByMeshId ?l) k = Some u" for k u
    using ptr_ok_tab [OF assms(1), of k u] that ptr_view_chan [OF c(2)] by (auto simp: v tb)
  moreover have "\<exists>u x. p_t p = Some u \<and> ptr_view ?l u = Some (x, Some k, True)" if "mget (l_peer ?l) k = Some p" for k p
  proof (cases "k = n")
    case False
    then have "mget (l_peer l) k = Some p" using that pr by simp
    with ptr_ok_peer [OF assms(1)] peer_t_nodeId [OF assms(1) c(2)] nb False show ?thesis by (fastforce simp: v)
  qed (use that pr v in auto)
  ultimately show ?thesis by (auto simp: ptr_ok_def)
next
  case False
  then have "bind m n now l = stale l" by (auto simp: bind_def split: option.split)
  then show ?thesis using assms(1) by simp
qed

lemma ptr_allocate:
  assumes "ptr_ok l"
  shows "ptr_ok (snd (allocate t m d r now l))"
proof (cases "mget (l_chan l) t")
  case None
  have fresh: "ptr_view l t = None" using None by (simp add: ptr_view_def)
  have *: "ptr_ok l'" if "ptr_view l' = (ptr_view l)(t \<mapsto> (m, None, True))" "mget (tByMeshId l') = (mget (tByMeshId l))(m \<mapsto> t)"
    "l_peer l' = l_peer l" for l'
    using assms fresh unfolding ptr_ok_def that by (auto, metis option.distinct(1), metis option.distinct(1))
  show ?thesis using None assms
    by (auto simp: allocate_def Let_def ptr_view_set POINTABLE_def intro!: * split: option.split)
qed (simp add: allocate_def assms)

lemma ptr_ok_set:
  "mget (l_chan l) t = Some c \<Longrightarrow> meshId c' = meshId c \<Longrightarrow> nodeId c' = nodeId c \<Longrightarrow> POINTABLE (c_state c') = POINTABLE (c_state c)
    \<Longrightarrow> ptr_ok l \<Longrightarrow> ptr_ok (set_chan t c' l)"
  using ptr_ok_cong [OF ptr_view_same] by fastforce

lemma ptr_small:
  assumes "ptr_ok l"
  shows "ptr_ok (negotiating t now l)" "ptr_ok (open_chan t now l)" "ptr_ok (escalate t l)"
  using assms
  by (auto simp: negotiating_def open_chan_def escalate_def Let_def POINTABLE_def PRE_OPEN_def
      intro: ptr_ok_set split: option.split)

lemma ptr_reclass: "ptr_ok l \<Longrightarrow> ptr_ok (snd (reclass t k a l))"
  by (auto simp: reclass_def intro: ptr_ok_set split: option.split)

lemma ptr_dispose: "ptr_ok (dispose l) = ptr_ok l"
proof (rule ptr_ok_cong)
  have "mget (l_chan (dispose l)) t = map_option (\<lambda>c. c\<lparr>escalateTimer := False\<rparr>) (mget (l_chan l) t)" for t
    by (simp add: dispose_def map_of_map)
  then show "ptr_view (dispose l) = ptr_view l" by (auto simp: ptr_view_def option.map_comp comp_def)
qed (simp_all add: dispose_def)

lemma ptr_res: "ptr_ok (snd (sweepReservations now l)) = ptr_ok l" "ptr_ok (snd (reserve k d a g now l)) = ptr_ok l"
  "ptr_ok (snd (release x l)) = ptr_ok l" "ptr_ok (snd (mayAllocate d l)) = ptr_ok l"
proof -
  show s: "ptr_ok (snd (sweepReservations now l)) = ptr_ok l" for now l by (simp add: sweepReservations_def Let_def)
  show "ptr_ok (snd (reserve k d a g now l)) = ptr_ok l" by (simp add: reserve_def Let_def s)
qed (simp_all add: release_def mayAllocate_def Let_def split: option.split)

lemma ptr_step: "core_ok l \<Longrightarrow> ptr_ok l \<Longrightarrow> bind_respects e l \<Longrightarrow> ptr_ok (led_step e l)"
  by (cases e) (simp_all add: ptr_res ptr_reclass ptr_allocate ptr_small ptr_bind ptr_unbind ptr_closing ptr_gone ptr_dispose)

lemma reach_ptr: "led_reach l \<Longrightarrow> ptr_ok l"
proof (induction rule: led_reach.induct)
  case (step l e)
  then show ?case using ptr_step reach_core by blast
qed (simp_all add: ptr_ok_def new_ledger_def)

lemma ledger_pointers_parts:
  assumes "led_reach l"
  shows "tokenFor m l = Some t \<Longrightarrow> \<exists>c. mget (l_chan l) t = Some c \<and> meshId c = m \<and> POINTABLE (c_state c)"
    "mget (l_peer l) n = Some p \<Longrightarrow> \<exists>t c. p_t p = Some t \<and> mget (l_chan l) t = Some c \<and> nodeId c = Some n \<and> POINTABLE (c_state c)"
  using reach_ptr [OF assms] ptr_ok_tab [of l m t] ptr_ok_peer [of l n p] by (auto simp: tokenFor_def ptr_view_def)

text \<open>Pointers. In every ledger reached by operations in which a channel is bound to at most one identity at a
  time, the token a signalling id leads to names a record of that signalling id that is not closing, and
  the record of a bound identity points at a channel that is not closing and binds this identity.\<close>

theorem ledger_pointers:
  assumes "led_reach l"
  shows "(\<forall>m t. tokenFor m l = Some t \<longrightarrow> (\<exists>c. mget (l_chan l) t = Some c \<and> meshId c = m \<and> POINTABLE (c_state c)))
    \<and> (\<forall>n p. mget (l_peer l) n = Some p \<longrightarrow> (\<exists>t c. p_t p = Some t \<and> mget (l_chan l) t = Some c \<and> nodeId c = Some n \<and> POINTABLE (c_state c)))"
  using ledger_pointers_parts [OF assms] by blast

theorem ledger_pointers_witness:
  "\<exists>t c. p_t \<lparr>p_t = Some ''a'', boundAt = 8\<rparr> = Some t \<and>
     mget (l_chan (led_step (LBind ''m1'' ''n'' 8) (led_step (LAllocate ''a'' ''m1'' Out None 6) (new_ledger None None None None True None None)))) t = Some c
     \<and> nodeId c = Some ''n'' \<and> POINTABLE (c_state c)"
proof (rule ledger_pointers [THEN conjunct2, rule_format])
  show "led_reach (led_step (LBind ''m1'' ''n'' 8) (led_step (LAllocate ''a'' ''m1'' Out None 6) (new_ledger None None None None True None None)))"
    by (intro led_reach.intros) (simp_all add: allocate_def new_ledger_def set_chan_def count_def armed_def Let_def)
qed (simp add: allocate_def bind_def new_ledger_def set_chan_def count_def armed_def Let_def POINTABLE_def)

lemma peer_settle_other: "k \<noteq> n \<Longrightarrow> mget (l_peer (settlePeer (Some n) t l)) k = mget (l_peer l) k"
  by (simp add: settlePeer_def split: option.split)

lemma peer_apply [simp]: "l_peer (applyPendingReclass g l) = l_peer l"
proof -
  have "l_peer (fold (apply_one g) ps l) = l_peer l" for ps by (induction ps arbitrary: l) simp_all
  then show ?thesis by (simp add: applyPendingReclass_def)
qed

text \<open>The restriction of the previous property to one identity per channel is needed: binding a second
  identity on a bound channel leaves the record of the first one in the bound set, and once the channel
  is gone that record points at no channel.\<close>

theorem rebind_leaves_dangling_record:
  fixes now1 now2 :: int
  assumes "tokenFor m l = Some t" "mget (l_chan l) t = Some c" "POINTABLE (c_state c)" "n1 \<noteq> n2"
  defines "l' \<equiv> led_run [LBind m n1 now1, LBind m n2 now2, LGone t] l"
  shows "mget (l_peer l') n1 = Some \<lparr>p_t = Some t, boundAt = now1\<rparr> \<and> mget (l_chan l') t = None"
proof -
  define b where "b = bind m n2 now2 (bind m n1 now1 l)"
  have b: "mget (l_chan b) t = Some (c\<lparr>nodeId := Some n2\<rparr>)" "mget (l_peer b) n1 = Some \<lparr>p_t = Some t, boundAt = now1\<rparr>"
    using assms(1-4) by (simp_all add: b_def bind_def tokenFor_def set_chan_def)
  have g: "c_state c \<noteq> GONE" using assms(3) by (auto simp: POINTABLE_def)
  have "l' = gone t b" by (simp add: l'_def led_run_def b_def)
  then show ?thesis using b g assms(4)
    by (auto simp: gone_def Let_def peer_settle_other intro!: gone_removes)
qed

theorem rebind_leaves_dangling_record_witness:
  "mget (l_chan (led_run [LBind ''m1'' ''x'' 7, LBind ''m1'' ''y'' 8, LGone ''a'']
      (led_step (LAllocate ''a'' ''m1'' Out None 6) (new_ledger None None None None True None None)))) ''a'' = None"
proof -
  let ?l = "led_step (LAllocate ''a'' ''m1'' Out None 6) (new_ledger None None None None True None None)"
  obtain c where "tokenFor ''m1'' ?l = Some ''a''" "mget (l_chan ?l) ''a'' = Some c" "POINTABLE (c_state c)"
    by (simp add: tokenFor_def allocate_def new_ledger_def set_chan_def count_def armed_def Let_def POINTABLE_def)
  from rebind_leaves_dangling_record [OF this, of "''x''" "''y''" 7 8] show ?thesis by simp
qed

section \<open>Capacity transfer\<close>

lemma pend_frame [simp]:
  "pendingReclass (count f l) = pendingReclass l" "pendingReclass (stale l) = pendingReclass l"
  "pendingReclass (settlePeer n t l) = pendingReclass l" "pendingReclass (set_chan t c l) = pendingReclass l"
  by (simp_all add: count_def stale_def settlePeer_def set_chan_def split: option.split)

lemma pend_apply: "minvar (pendingReclass l) \<Longrightarrow> minvar (pendingReclass (applyPendingReclass g l))"
proof -
  have one: "minvar (pendingReclass l) \<Longrightarrow> minvar (pendingReclass (apply_one g p l))" for p l
    by (cases p) (simp add: apply_one_def Let_def split: option.split)
  have "minvar (pendingReclass l) \<Longrightarrow> minvar (pendingReclass (fold (apply_one g) ps l))" for ps
    by (induction ps arbitrary: l) (simp_all add: one)
  then show "minvar (pendingReclass l) \<Longrightarrow> minvar (pendingReclass (applyPendingReclass g l))" by (simp add: applyPendingReclass_def)
qed

lemma pend_step: "minvar (pendingReclass l) \<Longrightarrow> minvar (pendingReclass (led_step e l))"
  by (cases e) (auto simp: sweepReservations_def reserve_def release_def reclass_def mayAllocate_def allocate_def negotiating_def
      open_chan_def bind_def unbind_alt closing_def escalate_def gone_def dispose_def Let_def pend_apply split: option.split)

lemma pend_run: "minvar (pendingReclass l) \<Longrightarrow> minvar (pendingReclass (led_run es l))"
  by (induction es arbitrary: l) (simp_all add: led_run_def pend_step)

lemma apply_idle: "(\<And>t k y. (t, k, y) \<in> set ps \<Longrightarrow> y \<noteq> g) \<Longrightarrow> fold (apply_one g) ps l = l"
proof (induction ps)
  case (Cons p ps)
  obtain t k y where p: "p = (t, k, y)" by (cases p)
  have "y \<noteq> g" using Cons.prems [of t k y] by (simp add: p)
  then have "apply_one g p l = l" by (simp add: apply_one_def p)
  moreover have "fold (apply_one g) ps l = l" using Cons.prems by (intro Cons.IH) auto
  ultimately show ?case by simp
qed simp

text \<open>One transfer waits on \<open>a\<close>: applying it moves its channel, provided the class has room.\<close>

lemma apply_single:
  assumes "minvar (pendingReclass l)" "mget (pendingReclass l) t = Some (k, a)"
    and alone: "\<And>u x y. mget (pendingReclass l) u = Some (x, y) \<Longrightarrow> u \<noteq> t \<Longrightarrow> y \<noteq> a"
    and c: "mget (l_chan l) t = Some c" "c_state c \<noteq> GONE" and room: "\<not> class_full k l"
  shows "mget (l_chan (applyPendingReclass a l)) t = Some (c\<lparr>c_cls := Some k\<rparr>)"
proof -
  obtain ps qs where s: "pendingReclass l = ps @ (t, k, a) # qs" using assms(2) by (meson mget_Some_in split_list)
  have d: "t \<notin> fst ` set ps" "t \<notin> fst ` set qs" using assms(1) by (auto simp: s minvar_def)
  have o: "y \<noteq> a" if "(u, x, y) \<in> set ps \<union> set qs" for u x y
  proof (rule alone)
    show "u \<noteq> t" using d that by force
    have "(u, x, y) \<in> set (pendingReclass l)" using that by (auto simp: s)
    then show "mget (pendingReclass l) u = Some (x, y)" by (simp only: minvar_get_iff [OF assms(1)])
  qed
  have "class_full k (l\<lparr>pendingReclass := z\<rparr>) = class_full k l" for z
    by (simp add: class_full_def counts_mcount pool_of_def armed_def)
  then have "mget (l_chan (apply_one a (t, k, a) l)) t = Some (c\<lparr>c_cls := Some k\<rparr>)"
    using c room by (simp add: apply_one_def Let_def set_chan_def)
  moreover have "fold (apply_one a) ps z = z" "fold (apply_one a) qs z = z" for z
    by (rule apply_idle, rule o, blast)+
  then have "applyPendingReclass a l = apply_one a (t, k, a) l" by (simp add: applyPendingReclass_def s)
  ultimately show ?thesis by simp
qed

text \<open>The deferring branch of \<open>reclass\<close>, inverted.\<close>

lemma reclass_deferred:
  assumes "reclass t (Some k) (Some a) l = (Deferred w, l1)" "struct_ok l"
  shows "l1 = count (\<lambda>c. c\<lparr>n_reclassDeferred := n_reclassDeferred c + 1\<rparr>) (l\<lparr>pendingReclass := mset_key t (k, a) (pendingReclass l)\<rparr>)
     \<and> t \<noteq> a \<and> class_full k l \<and> enforce l \<and> (\<exists>c. mget (l_chan l) t = Some c \<and> c_state c \<noteq> GONE \<and> c_cls c \<noteq> Some k)
     \<and> (\<exists>c. mget (l_chan l) a = Some c \<and> c_state c \<noteq> GONE \<and> c_cls c = Some k)"
proof -
  have "c_t ca = a" if "mget (l_chan l) a = Some ca" for ca using assms(2) that by (simp add: struct_ok_def)
  with assms(1) show ?thesis by (auto simp: reclass_def split: option.splits if_splits)
qed

lemma usage_drop:
  assumes "struct_ok l" "mget (l_chan l) a = Some c" "c_state c \<noteq> GONE" "c_cls c = Some k" "l_chan l' = mdelete a (l_chan l)" "l_res l' = l_res l"
  shows "usage k l' = usage k l - 1"
  using assms by (simp add: usage_def counts_mcount mcount_delete struct_ok_def)

lemma gone_alt:
  assumes "mget (l_chan l) t = Some c" "c_state c \<noteq> GONE"
  shows "gone t l = (let l2 = settlePeer (nodeId c) t (count (\<lambda>x. x\<lparr>goneTotal := goneTotal x + 1\<rparr>) ((drop_token (meshId c) t l)\<lparr>l_chan := mdelete t (l_chan l)\<rparr>))
     in applyPendingReclass t (l2\<lparr>pendingReclass := mdelete t (pendingReclass l2)\<rparr>))"
  using assms by (simp add: gone_def Let_def drop_token_def [symmetric])

text \<open>A deferred reclass lands. When the target class is full and the caller names a live channel of that
  class, the move is deferred; the confirmation that the named channel closed then performs it, unless
  another transfer waits for the same seat.\<close>

theorem deferred_reclass_lands:
  fixes es :: "l_event list" and x1 x2 x3 x4 x5 :: "int option" and p :: pools
  assumes "makePoolProfile oM oI oH oP oC oS oPr oD oHB = Inr p"
  defines "l \<equiv> led_run es (new_ledger x1 x2 x3 x4 True x5 (Some p))"
  assumes d: "reclass t (Some k) (Some a) l = (Deferred w, l1)"
    and alone: "\<And>u x y. mget (pendingReclass l) u = Some (x, y) \<Longrightarrow> u \<noteq> t \<Longrightarrow> y \<noteq> a"
  shows "\<exists>c. mget (l_chan (gone a l1)) t = Some c \<and> c_cls c = Some k"
proof -
  have core: "core_ok l" unfolding l_def by (intro core_run new_core_ok [OF assms(1)])
  then have st: "struct_ok l" by (simp add: core_ok_def)
  have mp: "minvar (pendingReclass l)" unfolding l_def by (rule pend_run) (simp add: new_ledger_def)
  note f = reclass_deferred [OF d st]
  then obtain c ca where c: "mget (l_chan l) t = Some c" "c_state c \<noteq> GONE"
    and ca: "mget (l_chan l) a = Some ca" "c_state ca \<noteq> GONE" "c_cls ca = Some k" by blast
  have ne: "t \<noteq> a" and en: "enforce l" "class_full k l" and l1: "l_chan l1 = l_chan l" using f by auto
  define l2 where "l2 = settlePeer (nodeId ca) a (count (\<lambda>x. x\<lparr>goneTotal := goneTotal x + 1\<rparr>) ((drop_token (meshId ca) a l1)\<lparr>l_chan := mdelete a (l_chan l1)\<rparr>))"
  define l3 where "l3 = l2\<lparr>pendingReclass := mdelete a (pendingReclass l2)\<rparr>"
  have g: "gone a l1 = applyPendingReclass a l3"
    using gone_alt [of l1 a ca] l1 ca by (simp add: l3_def l2_def)
  have pd: "pendingReclass l3 = mdelete a (mset_key t (k, a) (pendingReclass l))" and ch: "l_chan l3 = mdelete a (l_chan l)"
    using f by (simp_all add: l3_def l2_def drop_token_def)
  have rs: "l_res l3 = l_res l" "conf l3 = conf l"
    using f by (simp_all add: l3_def l2_def drop_token_def conf_def settlePeer_def count_def split: option.split)
  have "usage k l3 = usage k l - 1" using usage_drop [OF st ca ch rs(1)] .
  moreover have "usage k l \<le> pool_of l k" using core en by (auto simp: core_ok_def cap_ok_def class_full_def)
  moreover have "pool_of l3 k = pool_of l k" using rs(2) by (simp add: conf_def pool_of_def)
  ultimately have "\<not> class_full k l3" by (simp add: class_full_def usage_def)
  then have "mget (l_chan (applyPendingReclass a l3)) t = Some (c\<lparr>c_cls := Some k\<rparr>)"
    using mp c ne alone by (intro apply_single) (auto simp: pd ch split: if_splits)
  then show ?thesis by (simp add: g)
qed

theorem deferred_reclass_lands_witness:
  "\<exists>c. mget (l_chan (gone ''a'' (snd (reclass ''b'' (Some M) (Some ''a'')
      (led_run [LReserve (Some M) Out None None 5, LAllocate ''a'' ''m1'' Out (Some 1) 6, LReserve (Some I) In None None 7,
                LAllocate ''b'' ''m2'' In (Some 2) 8]
        (new_ledger None None None None True None
          (Some \<lparr>pM = 1, pI = 1, pH = 2, p_pPending = 1, p_cInbound = 1, serveFloor = 1, promoteMs = 30000, hostBudget = None, doorSockets = 0\<rparr>))))))) ''b'' = Some c
     \<and> c_cls c = Some M"
proof -
  let ?p = "\<lparr>pM = 1, pI = 1, pH = 2, p_pPending = 1, p_cInbound = 1, serveFloor = 1, promoteMs = 30000, hostBudget = None, doorSockets = 0\<rparr>"
  let ?es = "[LReserve (Some M) Out None None 5, LAllocate ''a'' ''m1'' Out (Some 1) 6, LReserve (Some I) In None None 7,
                LAllocate ''b'' ''m2'' In (Some 2) 8]"
  let ?l = "led_run ?es (new_ledger None None None None True None (Some ?p))"
  have p: "makePoolProfile (Some (Fin 1)) (Some (Fin 1)) None None None None None None None = Inr ?p" by code_simp
  have d: "fst (reclass ''b'' (Some M) (Some ''a'') ?l) = Deferred (POOL M)" by code_simp
  have "pendingReclass ?l = []" by code_simp
  then have a: "mget (pendingReclass ?l) u = Some (x, y) \<Longrightarrow> u \<noteq> ''b'' \<Longrightarrow> y \<noteq> ''a''" for u x y by simp
  obtain l1 where l1: "reclass ''b'' (Some M) (Some ''a'') ?l = (Deferred (POOL M), l1)" using d by (metis prod.collapse)
  from deferred_reclass_lands [OF p l1 a] show ?thesis unfolding l1 by simp
qed

end
