(* ===== verification/ByteCodec.thy ===== *)
theory ByteCodec
  imports HexId
begin

text \<open>
  Bytes and their text forms: \<open>TextEncoder\<close> on code units below 256, the strict hex decoder of
  \<open>src/src/pubsub/ackProof.js\<close> (\<open>hexToBytes\<close>, refusing anything but even-length hex of the expected
  width), the lenient one of \<open>kill.js\<close>, \<open>unpub.js\<close>, \<open>touch.js\<close> and \<open>envelope.js\<close> (\<open>hexToBytes\<close>
  there runs \<open>parseInt\<close> on every pair and never tests the digits), \<open>bytesToHex\<close>, and the big-endian
  integers of the signed transcripts.
\<close>

type_synonym byte = "8 word"

type_synonym bytes = "byte list"

section \<open>Text\<close>

text \<open>\<open>TextEncoder.encode\<close>: one byte below 128, two bytes for the code units 128 to 255.\<close>

definition utf8_char :: "char \<Rightarrow> bytes" where
  "utf8_char c = (let k = (of_char c :: nat) in
     if k < 128 then [of_nat k] else [of_nat (192 + k div 64), of_nat (128 + k mod 64)])"

definition utf8 :: "string \<Rightarrow> bytes" where
  "utf8 s = concat (map utf8_char s)"

section \<open>Hex\<close>

definition byte_hex :: "byte \<Rightarrow> string" where
  "byte_hex b = pad_start 2 (CHR ''0'') (hex_digits (unat b))"

definition bytesToHex :: "bytes \<Rightarrow> string" where
  "bytesToHex bs = concat (map byte_hex bs)"

fun unhex :: "string \<Rightarrow> bytes" where
  "unhex (a # b # s) = of_nat (16 * hexv a + hexv b) # unhex s"
| "unhex _ = []"

definition hexToBytes :: "string \<Rightarrow> nat option \<Rightarrow> bytes option" where
  "hexToBytes hex expectBytes =
     (if hex = [] \<or> odd (length hex) then None
      else if \<not> list_all is_hex_char hex then None
      else if (case expectBytes of None \<Rightarrow> False | Some n \<Rightarrow> length hex div 2 \<noteq> n) then None
      else Some (unhex hex))"

text \<open>\<open>parseInt(pair, 16)\<close> on two code units, stored into a \<open>Uint8Array\<close>: white space and a sign are
  skipped, the longest digit prefix counts, NaN is stored as 0 and a negative value wraps.\<close>

definition is_ws :: "char \<Rightarrow> bool" where
  "is_ws c \<longleftrightarrow> (of_char c :: nat) \<in> {9, 10, 11, 12, 13, 32, 160}"

definition parse_pair :: "char \<Rightarrow> char \<Rightarrow> byte" where
  "parse_pair a b =
     (if is_hex_char a then (if is_hex_char b then of_nat (16 * hexv a + hexv b) else of_nat (hexv a))
      else if is_ws a \<or> a = CHR ''+'' then (if is_hex_char b then of_nat (hexv b) else 0)
      else if a = CHR ''-'' then (if is_hex_char b then - of_nat (hexv b) else 0)
      else 0)"

fun parse_pairs :: "string \<Rightarrow> bytes" where
  "parse_pairs (a # b # s) = parse_pair a b # parse_pairs s"
| "parse_pairs _ = []"

text \<open>\<open>None\<close>: the Error thrown on an odd length.\<close>

definition lenientBytes :: "string \<Rightarrow> bytes option" where
  "lenientBytes hex = (if odd (length hex) then None else Some (parse_pairs hex))"

section \<open>Integers\<close>

primrec be_loop :: "nat \<Rightarrow> int \<Rightarrow> bytes \<Rightarrow> bytes" where
  "be_loop 0 v b = b"
| "be_loop (Suc k) v b = be_loop k (v div 256) (word_of_int (v mod 256) # b)"

definition u64be :: "int \<Rightarrow> bytes" where
  "u64be n = be_loop 8 (if n < 0 then 0 else n) []"

definition u32be :: "int \<Rightarrow> bytes" where
  "u32be n = be_loop 4 (n mod 2 ^ 32) []"

definition be_val :: "bytes \<Rightarrow> int" where
  "be_val bs = foldl (\<lambda>n b. n * 256 + uint b) 0 bs"

section \<open>Round trips\<close>

lemma unat_byte: "unat (b :: byte) < 256"
  using unsigned_less [of b, where ?'a = nat] by simp

lemma unat_of_nat_byte: "k < 256 \<Longrightarrow> unat (of_nat k :: byte) = k"
  by (simp add: unat_of_nat)

lemma byte_hex_eq: "byte_hex b = [hexd (unat b div 16), hexd (unat b mod 16)]"
proof (cases "unat b < 16")
  case True
  then show ?thesis by (simp add: byte_hex_def hex_digits.simps [of "unat b"] pad_start_def hexd_def)
next
  case False
  have "unat b div 16 < 16" using unat_byte [of b] by simp
  then show ?thesis using False
    by (simp add: byte_hex_def hex_digits.simps [of "unat b"] hex_digits.simps [of "unat b div 16"] pad_start_def)
qed

lemma bytesToHex_simps [simp]: "bytesToHex [] = []"
  "bytesToHex (b # bs) = hexd (unat b div 16) # hexd (unat b mod 16) # bytesToHex bs"
  by (simp_all add: bytesToHex_def byte_hex_eq)

lemma length_bytesToHex [simp]: "length (bytesToHex bs) = 2 * length bs"
  by (induction bs) simp_all

lemma unat_div16: "unat (b :: byte) div 16 < 16"
  using unat_byte [of b] by simp

lemma bytesToHex_hex: "list_all is_hex_char (bytesToHex bs)" "list_all is_lower_hex_char (bytesToHex bs)"
  by (induction bs) (simp_all add: unat_div16)

lemma unhex_bytesToHex [simp]: "unhex (bytesToHex bs) = bs"
  by (induction bs) (simp_all add: unat_div16)

lemma hexToBytes_bytesToHex:
  "bs \<noteq> [] \<Longrightarrow> (case w of None \<Rightarrow> True | Some n \<Rightarrow> length bs = n) \<Longrightarrow> hexToBytes (bytesToHex bs) w = Some bs"
  by (cases w; cases bs) (simp_all add: hexToBytes_def bytesToHex_hex unat_div16)

lemma length_unhex: "length (unhex s) = length s div 2"
  by (induction s rule: unhex.induct) simp_all

lemma hexToBytes_Some:
  "hexToBytes s w = Some bs \<Longrightarrow> bs = unhex s \<and> s \<noteq> [] \<and> even (length s) \<and> list_all is_hex_char s
     \<and> length bs = length s div 2 \<and> (\<forall>n. w = Some n \<longrightarrow> length bs = n)"
  by (auto simp: hexToBytes_def length_unhex split: if_splits option.splits)

lemma hex_pair: "is_hex_char a \<Longrightarrow> is_hex_char b \<Longrightarrow> 16 * hexv a + hexv b < 256"
  using hexv_less [of a] hexv_less [of b] by linarith

lemma bytesToHex_unhex: "even (length s) \<Longrightarrow> list_all is_hex_char s \<Longrightarrow> bytesToHex (unhex s) = lc s"
proof (induction s rule: unhex.induct)
  case (1 a b s)
  have "unat (of_nat (16 * hexv a + hexv b) :: byte) = 16 * hexv a + hexv b"
    using hex_pair [of a b] 1(3) by (intro unat_of_nat_byte) simp
  then show ?case using 1 by (simp add: lc_def)
qed (simp_all add: lc_def)

lemma lenient_strict: "list_all is_hex_char s \<Longrightarrow> parse_pairs s = unhex s"
  by (induction s rule: unhex.induct) (simp_all add: parse_pair_def)

lemma lenient_bytesToHex [simp]: "lenientBytes (bytesToHex bs) = Some bs"
  by (simp add: lenientBytes_def lenient_strict bytesToHex_hex)

lemma be_loop_length [simp]: "length (be_loop k v b) = k + length b"
  by (induction k arbitrary: v b) simp_all

lemma be_loop_inj:
  assumes "be_loop k v b = be_loop k v' b'" "length b = length b'"
  shows "v mod 256 ^ k = v' mod 256 ^ k \<and> b = b'"
  using assms
proof (induction k arbitrary: v v' b b')
  case (Suc k)
  let ?w = "word_of_int (v mod 256) :: byte" and ?w' = "word_of_int (v' mod 256) :: byte"
  have "be_loop k (v div 256) (?w # b) = be_loop k (v' div 256) (?w' # b')" using Suc.prems(1) by (simp only: be_loop.simps)
  from Suc.IH [OF this] Suc.prems(2)
  have h: "(v div 256) mod 256 ^ k = (v' div 256) mod 256 ^ k" "?w # b = ?w' # b'" by simp_all
  have "uint ?w = uint ?w'" using h(2) by (simp only: list.inject)
  then have "v mod 256 = v' mod 256" by (simp only: uint_word_of_int) simp
  then show ?case using h by (simp add: zmod_zmult2_eq)
qed simp

lemma u64be_length [simp]: "length (u64be n) = 8"
  by (simp add: u64be_def)

lemma u64be_inj: "u64be m = u64be n \<Longrightarrow> 0 \<le> m \<Longrightarrow> 0 \<le> n \<Longrightarrow> m < 2 ^ 64 \<Longrightarrow> n < 2 ^ 64 \<Longrightarrow> m = n"
  using be_loop_inj [of 8 m "[]" n "[]"] by (simp add: u64be_def)

lemma u32be_length [simp]: "length (u32be n) = 4"
  by (simp add: u32be_def)

lemma u32be_inj: "u32be m = u32be n \<Longrightarrow> m mod 2 ^ 32 = n mod 2 ^ 32"
  using be_loop_inj [of 4 "m mod 2 ^ 32" "[]" "n mod 2 ^ 32" "[]"] by (simp add: u32be_def)

lemma append_eq_split: "xs @ ys = us @ vs \<Longrightarrow> length xs = length us \<Longrightarrow> xs = us \<and> ys = vs"
  by simp

lemma utf8_char_inj: "utf8_char c @ x = utf8_char d @ y \<Longrightarrow> c = d \<and> x = y"
proof -
  assume e: "utf8_char c @ x = utf8_char d @ y"
  define j k where jk: "j = (of_char c :: nat)" "k = (of_char d :: nat)"
  then have b: "j < 256" "k < 256" by simp_all
  define f where "f = (\<lambda>n :: nat. if n < 128 then [of_nat n :: byte] else [of_nat (192 + n div 64), of_nat (128 + n mod 64)])"
  have e': "f j @ x = f k @ y" using e by (simp add: f_def jk utf8_char_def Let_def)
  have m: "map unat (f n) = (if n < 128 then [n] else [192 + n div 64, 128 + n mod 64])" if "n < 256" for n
  proof -
    have "192 + n div 64 < 256" "128 + n mod 64 < 256" using that by auto
    then show ?thesis using that unfolding f_def by (simp add: unat_of_nat_byte del: of_nat_add)
  qed
  have "(if j < 128 then [j] else [192 + j div 64, 128 + j mod 64]) @ map unat x
      = (if k < 128 then [k] else [192 + k div 64, 128 + k mod 64]) @ map unat y"
    using arg_cong [OF e', of "map unat"] unfolding map_append m [OF b(1)] m [OF b(2)] .
  then have "j div 64 = k div 64 \<and> j mod 64 = k mod 64 \<or> j = k" by (auto split: if_splits)
  then have jk': "j = k" by (metis div_mult_mod_eq)
  then have "x = y" using e' by simp
  with jk jk' show ?thesis by simp
qed

lemma utf8_simps [simp]: "utf8 [] = []" "utf8 (c # s) = utf8_char c @ utf8 s"
  by (simp_all add: utf8_def)

lemma utf8_char_ne [simp]: "utf8_char c \<noteq> []"
  by (simp add: utf8_char_def Let_def)

lemma utf8_inj: "utf8 s = utf8 t \<Longrightarrow> s = t"
proof (induction s arbitrary: t)
  case Nil
  then show ?case by (cases t) auto
next
  case (Cons c s)
  then obtain d t' where t: "t = d # t'" by (cases t) auto
  with Cons.prems have "utf8_char c @ utf8 s = utf8_char d @ utf8 t'" by simp
  from utf8_char_inj [OF this] Cons.IH t show ?case by simp
qed

end
