(* ===== verification/SignedFrames.thy ===== *)
theory SignedFrames
  imports ByteCodec
begin

text \<open>
  The three binary transcripts a node key signs: the ingest-ack proof (\<open>src/src/pubsub/ackProof.js\<close>),
  the capability attestation (\<open>capAttest.js\<close>) and the handoff capability (\<open>handoffBinding.js\<close>).
  Parameters, for code outside the sources: \<open>sg\<close>, the signer (\<open>identity.sign\<close>), \<open>vrf\<close>, Ed25519
  verification, \<open>None\<close> where it throws, and \<open>dig\<close>, SHA-256 of a byte string. Text fields of a received
  frame are strings; a missing one is the string \<open>undefined\<close>, as \<open>String\<close> makes it.
\<close>

type_synonym vrf = "bytes \<Rightarrow> bytes \<Rightarrow> bytes \<Rightarrow> bool option"

section \<open>The ingest-ack proof\<close>

definition DOMAIN :: bytes where
  "DOMAIN = utf8 ''AXONA_INGEST_ACK_PROOF_V1''"

definition MSG_ID_BYTES :: nat where "MSG_ID_BYTES = 32"

definition ATTEMPT_ID_BYTES :: nat where "ATTEMPT_ID_BYTES = 16"

definition FLIGHT_NONCE_BYTES :: nat where "FLIGHT_NONCE_BYTES = 16"

definition ROOT_PUB_BYTES :: nat where "ROOT_PUB_BYTES = 32"

definition ID_BYTES :: nat where "ID_BYTES = 33"

datatype ack_error = bad_purpose | bad_op | bad_topic | bad_msgid | bad_epoch | bad_attempt | bad_ackto | bad_nonce
  | bad_rootpub | no_signer | bad_sig_len | verify_threw | bad_signature
  | op_threw

text \<open>A field of the transcript is given as bytes or as hex text.\<close>

datatype fieldv = FBytes bytes | FHex string

record ack_fields =
  a_purpose :: int
  a_op :: int
  a_topicId :: fieldv
  a_msgId :: fieldv
  a_epoch :: js
  a_attemptId :: fieldv
  a_ackTo :: fieldv
  a_flightNonce :: fieldv
  a_rootPub :: fieldv

definition isPurpose :: "int \<Rightarrow> bool" where
  "isPurpose p \<longleftrightarrow> p = 1 \<or> p = 2 \<or> p = 3"

definition isOp :: "int \<Rightarrow> bool" where
  "isOp q \<longleftrightarrow> q = 1 \<or> q = 2"

definition field_bytes :: "nat \<Rightarrow> fieldv \<Rightarrow> bytes option" where
  "field_bytes n f = (case f of
      FBytes b \<Rightarrow> if length b = n then Some b else None
    | FHex h \<Rightarrow> (case hexToBytes h (Some n) of None \<Rightarrow> None | Some b \<Rightarrow> if length b = n then Some b else None))"

definition u8 :: "int \<Rightarrow> bytes" where
  "u8 n = [word_of_int n]"

definition buildTranscript :: "ack_fields \<Rightarrow> ack_error + bytes" where
  "buildTranscript f =
     (if \<not> isPurpose (a_purpose f) then Inl bad_purpose
      else if \<not> isOp (a_op f) then Inl bad_op
      else case field_bytes ID_BYTES (a_topicId f) of None \<Rightarrow> Inl bad_topic | Some topicB \<Rightarrow>
       (case field_bytes MSG_ID_BYTES (a_msgId f) of None \<Rightarrow> Inl bad_msgid | Some msgB \<Rightarrow>
         (if \<not> num_is_safe (a_epoch f) \<or> num_int (a_epoch f) < 0 then Inl bad_epoch
          else case field_bytes ATTEMPT_ID_BYTES (a_attemptId f) of None \<Rightarrow> Inl bad_attempt | Some attB \<Rightarrow>
           (case field_bytes ID_BYTES (a_ackTo f) of None \<Rightarrow> Inl bad_ackto | Some ackB \<Rightarrow>
             (case field_bytes FLIGHT_NONCE_BYTES (a_flightNonce f) of None \<Rightarrow> Inl bad_nonce | Some nonceB \<Rightarrow>
               (case field_bytes ROOT_PUB_BYTES (a_rootPub f) of None \<Rightarrow> Inl bad_rootpub | Some pubB \<Rightarrow>
                  Inr (concat [DOMAIN, u8 (a_purpose f), u8 (a_op f), topicB, msgB, u64be (num_int (a_epoch f)),
                               attB, ackB, nonceB, pubB])))))))"

text \<open>The wire frame. The operation is the value of the frame, which the code hands on as it is; of the other text fields the model has what
  \<open>String\<close> makes of them, as the code reads them through it.\<close>

record ack_frame =
  k_purpose :: int
  k_op :: js
  k_topicId :: string
  k_msgId :: string
  k_epoch :: js
  k_attemptId :: string
  k_ackTo :: string
  k_flightNonce :: string
  k_rootPub :: string
  k_sig :: string

definition field_lc :: "fieldv \<Rightarrow> string" where
  "field_lc f = (case f of FBytes b \<Rightarrow> bytesToHex b | FHex h \<Rightarrow> lc h)"

definition field_text :: "fieldv \<Rightarrow> string" where
  "field_text f = (case f of FBytes b \<Rightarrow> bytesToHex b | FHex h \<Rightarrow> h)"

definition OP_NAME :: "int \<Rightarrow> string" where
  "OP_NAME q = (if q = 1 then ''pub'' else ''kill'')"

text \<open>The frozen table \<open>OP\<close>, indexed with the uncoerced value of the frame. The text of a value as a property name: a string is its own, and an
  array of one element has that of the element; every other value has a text that names no property of the table or of
  \<open>Object.prototype\<close> (a number, \<open>null\<close>, a text with a comma, \<open>[object Object]\<close>). The properties inherited from
  \<open>Object.prototype\<close> are found as well, with a value outside the closed set, written 0 here. An object with a
  \<open>toString\<close> of its own cannot be converted, and the lookup throws.\<close>

fun op_text :: "js \<Rightarrow> string option" where
  "op_text (JStr s) = Some s"
| "op_text (JArr [x]) = op_text x"
| "op_text _ = None"

fun op_throws :: "js \<Rightarrow> bool" where
  "op_throws (JObj fs) = (''toString'' \<in> set (map fst fs))"
| "op_throws (JArr xs) = list_ex op_throws xs"
| "op_throws _ = False"

definition proto_names :: "string list" where
  "proto_names = [''constructor'', ''__defineGetter__'', ''__defineSetter__'', ''hasOwnProperty'', ''__lookupGetter__'', ''__lookupSetter__'', ''isPrototypeOf'',
     ''propertyIsEnumerable'', ''toString'', ''valueOf'', ''__proto__'', ''toLocaleString'']"

definition OP :: "js \<Rightarrow> int option" where
  "OP v = (case op_text v of None \<Rightarrow> None
     | Some s \<Rightarrow> if s = ''pub'' then Some 1 else if s = ''kill'' then Some 2 else if s \<in> set proto_names then Some 0 else None)"

definition signAckProof :: "(bytes \<Rightarrow> bytes) option \<Rightarrow> ack_fields \<Rightarrow> ack_error + ack_frame" where
  "signAckProof signFn f = (case signFn of None \<Rightarrow> Inl no_signer
     | Some sg \<Rightarrow> (case buildTranscript f of Inl e \<Rightarrow> Inl e
        | Inr transcript \<Rightarrow>
            let sig = sg transcript in
            if length sig \<noteq> 64 then Inl bad_sig_len
            else Inr \<lparr>k_purpose = a_purpose f, k_op = JStr (OP_NAME (a_op f)), k_topicId = field_lc (a_topicId f), k_msgId = field_text (a_msgId f),
                      k_epoch = a_epoch f, k_attemptId = field_lc (a_attemptId f), k_ackTo = field_lc (a_ackTo f),
                      k_flightNonce = field_lc (a_flightNonce f), k_rootPub = field_lc (a_rootPub f), k_sig = bytesToHex sig\<rparr>))"

text \<open>What the caller binds to an open flight.\<close>

record ack_ok =
  f_purpose :: int
  f_op :: js
  f_topicId :: string
  f_msgId :: string
  f_epoch :: js
  f_attemptId :: string
  f_ackTo :: string
  f_flightNonce :: string
  f_rootPub :: bytes

definition frame_fields :: "ack_frame \<Rightarrow> int \<Rightarrow> bytes \<Rightarrow> ack_fields" where
  "frame_fields k q pub = \<lparr>a_purpose = k_purpose k, a_op = q, a_topicId = FHex (k_topicId k), a_msgId = FHex (k_msgId k), a_epoch = k_epoch k,
     a_attemptId = FHex (k_attemptId k), a_ackTo = FHex (k_ackTo k), a_flightNonce = FHex (k_flightNonce k), a_rootPub = FBytes pub\<rparr>"

definition verifyAckProof :: "vrf \<Rightarrow> ack_frame \<Rightarrow> ack_error + ack_ok" where
  "verifyAckProof vrf k = (if op_throws (k_op k) then Inl op_threw else case OP (k_op k) of None \<Rightarrow> Inl bad_op
    | Some q \<Rightarrow> if \<not> isPurpose (k_purpose k) then Inl bad_purpose
      else (case hexToBytes (k_sig k) (Some 64) of None \<Rightarrow> Inl bad_sig_len
       | Some sig \<Rightarrow> (case hexToBytes (k_rootPub k) (Some ROOT_PUB_BYTES) of None \<Rightarrow> Inl bad_rootpub
          | Some pub \<Rightarrow> (case buildTranscript (frame_fields k q pub) of Inl e \<Rightarrow> Inl e
             | Inr transcript \<Rightarrow> (case vrf pub transcript sig of None \<Rightarrow> Inl verify_threw
                | Some False \<Rightarrow> Inl bad_signature
                | Some True \<Rightarrow> Inr \<lparr>f_purpose = k_purpose k, f_op = k_op k, f_topicId = lc (k_topicId k), f_msgId = k_msgId k,
                     f_epoch = k_epoch k, f_attemptId = lc (k_attemptId k), f_ackTo = lc (k_ackTo k),
                     f_flightNonce = lc (k_flightNonce k), f_rootPub = pub\<rparr>)))))"

text \<open>The authority binding: the hash bits of the expected node id are those of the key's digest.\<close>

definition rootPubMatchesNodeHash :: "keyspace \<Rightarrow> (bytes \<Rightarrow> bytes) \<Rightarrow> bytes \<Rightarrow> int \<Rightarrow> bool" where
  "rootPubMatchesNodeHash ks dig pub expectedRootBig \<longleftrightarrow>
     length pub = ROOT_PUB_BYTES \<and> be_val (dig pub) AND MAX_HASH ks = expectedRootBig AND MAX_HASH ks"

section \<open>The capability attestation\<close>

definition CAP_DOMAIN :: bytes where
  "CAP_DOMAIN = utf8 ''AXONA_CAP_ATTEST_V1''"

definition WRITE_FLIGHT_ACK_V1 :: string where
  "WRITE_FLIGHT_ACK_V1 = ''write-flight-ack-v1''"

definition CBV_DIGEST_BYTES :: nat where "CBV_DIGEST_BYTES = 32"

datatype cap_error = bad_cbv | bad_nodeid | bad_digest | cap_no_signer | cap_bad_sig_len | bad_capid | no_peer_key | no_expected_nodeid
  | nodeid_mismatch | cap_verify_threw | cap_bad_signature

definition cbvDigest :: "(bytes \<Rightarrow> bytes) \<Rightarrow> string \<Rightarrow> cap_error + bytes" where
  "cbvDigest dig cbv = (if cbv = [] then Inl bad_cbv else Inr (dig (utf8 cbv)))"

definition buildCapTranscript :: "fieldv \<Rightarrow> bytes \<Rightarrow> cap_error + bytes" where
  "buildCapTranscript nodeId digest = (case field_bytes ID_BYTES nodeId of None \<Rightarrow> Inl bad_nodeid
     | Some nodeB \<Rightarrow> if length digest \<noteq> CBV_DIGEST_BYTES then Inl bad_digest
         else Inr (concat [CAP_DOMAIN, u8 (int (length (utf8 WRITE_FLIGHT_ACK_V1))), utf8 WRITE_FLIGHT_ACK_V1, nodeB, digest]))"

record cap_frame =
  capId :: string
  cap_nodeId :: string
  cap_sig :: string

definition signCapAttest :: "(bytes \<Rightarrow> bytes) \<Rightarrow> (bytes \<Rightarrow> bytes) option \<Rightarrow> fieldv \<Rightarrow> string \<Rightarrow> cap_error + cap_frame" where
  "signCapAttest dig signFn nodeId cbv = (case signFn of None \<Rightarrow> Inl cap_no_signer
     | Some sg \<Rightarrow> (case cbvDigest dig cbv of Inl e \<Rightarrow> Inl e
        | Inr digest \<Rightarrow> (case buildCapTranscript nodeId digest of Inl e \<Rightarrow> Inl e
           | Inr transcript \<Rightarrow> let sig = sg transcript in
               if length sig \<noteq> 64 then Inl cap_bad_sig_len
               else Inr \<lparr>capId = WRITE_FLIGHT_ACK_V1, cap_nodeId = field_lc nodeId, cap_sig = bytesToHex sig\<rparr>)))"

definition verifyCapAttest :: "(bytes \<Rightarrow> bytes) \<Rightarrow> vrf \<Rightarrow> cap_frame \<Rightarrow> bytes option \<Rightarrow> string \<Rightarrow> string \<Rightarrow> cap_error + string" where
  "verifyCapAttest dig vrf k peerKey expectedNodeId cbv =
     (if capId k \<noteq> WRITE_FLIGHT_ACK_V1 then Inl bad_capid
      else case peerKey of None \<Rightarrow> Inl no_peer_key
      | Some key \<Rightarrow>
        if expectedNodeId = [] then Inl no_expected_nodeid
        else if lc (cap_nodeId k) \<noteq> lc expectedNodeId then Inl nodeid_mismatch
        else (case hexToBytes (cap_sig k) (Some 64) of None \<Rightarrow> Inl cap_bad_sig_len
         | Some sig \<Rightarrow> (case cbvDigest dig cbv of Inl e \<Rightarrow> Inl e
            | Inr digest \<Rightarrow> (case buildCapTranscript (FHex expectedNodeId) digest of Inl e \<Rightarrow> Inl e
               | Inr transcript \<Rightarrow> (case vrf key transcript sig of None \<Rightarrow> Inl cap_verify_threw
                  | Some False \<Rightarrow> Inl cap_bad_signature
                  | Some True \<Rightarrow> Inr (lc expectedNodeId))))))"

section \<open>The handoff capability\<close>

definition HANDOFF_DOMAIN :: bytes where
  "HANDOFF_DOMAIN = utf8 ''AXONA_HANDOFF_CAP_V1''"

text \<open>\<open>None\<close>: the Error thrown on a correlation id of a wrong length or an id of a wrong width.\<close>

definition handoffTranscript :: "string \<Rightarrow> string \<Rightarrow> string \<Rightarrow> string \<Rightarrow> int \<Rightarrow> bytes option" where
  "handoffTranscript topicId corr loser winner loserEpoch = (let c = utf8 corr in
     if length c < 1 \<or> length c > 255 then None
     else (case (hexToBytes (lc topicId) (Some 33), hexToBytes (lc loser) (Some 33), hexToBytes (lc winner) (Some 33)) of
         (Some t, Some l, Some w) \<Rightarrow> Some (concat [HANDOFF_DOMAIN, u8 (int (length c)), c, t, l, w, u32be loserEpoch])
       | _ \<Rightarrow> None))"

record offer =
  o_topicId :: string
  o_corr :: string
  o_loser :: string
  o_loserEpoch :: js
  o_handoff :: js
  o_handoffSig :: string
  o_handoffPub :: string

text \<open>The loser's signature fields; its epoch is an integer (\<open>| 0\<close> is the identity on 32-bit integers).\<close>

definition signHandoff :: "(bytes \<Rightarrow> bytes) option \<Rightarrow> bytes \<Rightarrow> offer \<Rightarrow> string \<Rightarrow> (string \<times> string) option" where
  "signHandoff identity pubkey f winnerHex = (case identity of None \<Rightarrow> None
     | Some sg \<Rightarrow> (case handoffTranscript (o_topicId f) (o_corr f) (o_loser f) winnerHex (num_int (o_loserEpoch f)) of
          None \<Rightarrow> None
        | Some t \<Rightarrow> let sig = sg t in if length sig \<noteq> 64 then None else Some (bytesToHex sig, bytesToHex pubkey)))"

definition verifyHandoff :: "keyspace \<Rightarrow> (bytes \<Rightarrow> bytes) \<Rightarrow> vrf \<Rightarrow> int \<Rightarrow> offer \<Rightarrow> string \<Rightarrow> bool" where
  "verifyHandoff ks dig vrf nodeId f loserHex =
     (if o_handoff f \<noteq> jint 1 then False
      else if \<not> (length (o_handoffSig f) = 128 \<and> list_all is_lower_hex_char (o_handoffSig f))
           \<or> \<not> (length (o_handoffPub f) = 64 \<and> list_all is_lower_hex_char (o_handoffPub f)) \<or> \<not> ps_isHexId loserHex then False
      else (case hexToBytes (o_handoffPub f) (Some 32) of None \<Rightarrow> False
       | Some pub \<Rightarrow> (case asId ks (JStr loserHex) of Inl e \<Rightarrow> False
          | Inr loserBig \<Rightarrow>
            if \<not> rootPubMatchesNodeHash ks dig pub loserBig then False
            else (case handoffTranscript (o_topicId f) (o_corr f) loserHex (lc (idHex nodeId))
                     (if num_is_integer (o_loserEpoch f) then num_int (o_loserEpoch f) else 0) of
                None \<Rightarrow> False
              | Some t \<Rightarrow> (case hexToBytes (o_handoffSig f) (Some 64) of None \<Rightarrow> False
                   | Some sig \<Rightarrow> (case vrf pub t sig of None \<Rightarrow> False | Some b \<Rightarrow> b))))))"

end
