(* ===== verification/Envelopes.thy ===== *)
theory Envelopes
  imports Canonical SignedFrames
begin

text \<open>
  The signed JSON objects of the pub/sub layer: \<open>src/src/pubsub/kill.js\<close>, \<open>unpub.js\<close>, \<open>touch.js\<close> and
  \<open>envelope.js\<close>. Parameters: \<open>ns\<close> (number printing), \<open>sha\<close> (SHA-256 of a string, in hex), \<open>sg\<close> and
  \<open>vrf\<close> (Ed25519), \<open>pow\<close> (the work nonce of \<open>pow.js\<close>). A received object is a JavaScript value; a
  rejected promise is \<open>Threw\<close>.
\<close>

datatype reason = not_an_object | missing_topicId | missing_msgId | missing_ts | missing_seq | missing_signerPubkey | missing_topicName
  | missing_ownerNodeId | missing_destroy | missing_topic | missing_message | unknown_signature_scheme
  | wrong_key_or_signature_length | bad_sig | bad_msgid_hash | stale_ts

datatype 'a verdict = Threw | Refused reason | Accepted 'a

text \<open>The fields of a value that passes \<open>typeof v === 'object'\<close>; an array has no named field.\<close>

definition fields_of :: "js \<Rightarrow> (string \<times> js) list option" where
  "fields_of v = (case v of JObj fs \<Rightarrow> Some fs | JArr _ \<Rightarrow> Some [] | _ \<Rightarrow> None)"

fun is_str :: "js \<Rightarrow> bool" where
  "is_str (JStr _) = True" | "is_str _ = False"

fun is_num :: "js \<Rightarrow> bool" where
  "is_num (JNum _) = True" | "is_num _ = False"

fun is_boolean :: "js \<Rightarrow> bool" where
  "is_boolean (JBool _) = True" | "is_boolean _ = False"

fun str_of :: "js \<Rightarrow> string" where
  "str_of (JStr s) = s" | "str_of _ = []"

definition SIG_PREFIX :: string where
  "SIG_PREFIX = ''ed25519:''"

definition sig_scheme :: "js \<Rightarrow> bool" where
  "sig_scheme v \<longleftrightarrow> is_str v \<and> take (length SIG_PREFIX) (str_of v) = SIG_PREFIX"

text \<open>The part every verifier repeats: decode signature and key, check the widths, verify the bytes of the core.\<close>

definition checkSignature :: "(rat \<Rightarrow> string) \<Rightarrow> vrf \<Rightarrow> js \<Rightarrow> js \<Rightarrow> js \<Rightarrow> unit verdict" where
  "checkSignature ns vrf signature pubkey core =
     (case lenientBytes (drop (length SIG_PREFIX) (str_of signature)) of None \<Rightarrow> Threw
      | Some sigBytes \<Rightarrow> (case lenientBytes (str_of pubkey) of None \<Rightarrow> Threw
         | Some pkBytes \<Rightarrow>
             if length sigBytes \<noteq> 64 \<or> length pkBytes \<noteq> 32 then Refused wrong_key_or_signature_length
             else (case canonical ns core of None \<Rightarrow> Threw
              | Some c \<Rightarrow> (case vrf pkBytes (utf8 c) sigBytes of None \<Rightarrow> Threw
                  | Some False \<Rightarrow> Refused bad_sig | Some True \<Rightarrow> Accepted ()))))"

section \<open>Kill\<close>

record author =
  privateKey :: "bytes \<Rightarrow> bytes"
  pubkeyHex :: string
  authorId :: "string option"

definition KILL_DOMAIN :: string where
  "KILL_DOMAIN = ''axona:pubsub-kill:v1''"

definition kill_core :: "js \<Rightarrow> js \<Rightarrow> js \<Rightarrow> js \<Rightarrow> js" where
  "kill_core tid mid ts seq = JObj [(''d'', JStr KILL_DOMAIN), (''topicId'', tid), (''msgId'', mid), (''ts'', ts), (''seq'', seq)]"

definition sig_text :: "bytes \<Rightarrow> js" where
  "sig_text b = JStr (SIG_PREFIX @ bytesToHex b)"

text \<open>\<open>None\<close>: a TypeError, or the one \<open>canonical\<close> throws.\<close>

definition buildKill :: "(rat \<Rightarrow> string) \<Rightarrow> js \<Rightarrow> js \<Rightarrow> js \<Rightarrow> js \<Rightarrow> author option \<Rightarrow> js option" where
  "buildKill ns tid mid ts seq identity = (case identity of None \<Rightarrow> None
     | Some i \<Rightarrow> if \<not> is_str tid \<or> \<not> is_str mid then None
         else (case canonical ns (kill_core tid mid ts seq) of None \<Rightarrow> None
          | Some c \<Rightarrow> Some (JObj [(''kind'', JStr KILL_DOMAIN), (''topicId'', tid), (''msgId'', mid), (''ts'', ts), (''seq'', seq),
               (''signerPubkey'', JStr (pubkeyHex i)), (''signature'', sig_text (privateKey i (utf8 c)))])))"

definition verifyKill :: "(rat \<Rightarrow> string) \<Rightarrow> vrf \<Rightarrow> js \<Rightarrow> string verdict" where
  "verifyKill ns vrf v = (case fields_of v of None \<Rightarrow> Refused not_an_object
     | Some k \<Rightarrow>
       if \<not> is_str (obj_get k ''topicId'') then Refused missing_topicId
       else if \<not> is_str (obj_get k ''msgId'') then Refused missing_msgId
       else if \<not> is_num (obj_get k ''ts'') then Refused missing_ts
       else if \<not> is_num (obj_get k ''seq'') then Refused missing_seq
       else if \<not> is_str (obj_get k ''signerPubkey'') then Refused missing_signerPubkey
       else if \<not> sig_scheme (obj_get k ''signature'') then Refused unknown_signature_scheme
       else (case checkSignature ns vrf (obj_get k ''signature'') (obj_get k ''signerPubkey'')
                (kill_core (obj_get k ''topicId'') (obj_get k ''msgId'') (obj_get k ''ts'') (obj_get k ''seq'')) of
          Threw \<Rightarrow> Threw | Refused r \<Rightarrow> Refused r | Accepted _ \<Rightarrow> Accepted (str_of (obj_get k ''signerPubkey''))))"

section \<open>Touch\<close>

definition TOUCH_DOMAIN :: string where
  "TOUCH_DOMAIN = ''axona:pubsub-touch:v1''"

definition touch_core :: "js \<Rightarrow> js \<Rightarrow> js \<Rightarrow> js \<Rightarrow> js" where
  "touch_core tid mid ts seq = JObj [(''d'', JStr TOUCH_DOMAIN), (''topicId'', tid), (''msgId'', mid), (''ts'', ts), (''seq'', seq)]"

definition buildTouch :: "(rat \<Rightarrow> string) \<Rightarrow> js \<Rightarrow> js \<Rightarrow> js \<Rightarrow> js \<Rightarrow> author option \<Rightarrow> js option" where
  "buildTouch ns tid mid ts seq identity = (case identity of None \<Rightarrow> None
     | Some i \<Rightarrow> if \<not> is_str tid \<or> \<not> is_str mid then None
         else (case canonical ns (touch_core tid mid ts seq) of None \<Rightarrow> None
          | Some c \<Rightarrow> Some (JObj [(''kind'', JStr TOUCH_DOMAIN), (''topicId'', tid), (''msgId'', mid), (''ts'', ts), (''seq'', seq),
               (''signerPubkey'', JStr (pubkeyHex i)), (''signature'', sig_text (privateKey i (utf8 c)))])))"

definition verifyTouch :: "(rat \<Rightarrow> string) \<Rightarrow> vrf \<Rightarrow> js \<Rightarrow> string verdict" where
  "verifyTouch ns vrf v = (case fields_of v of None \<Rightarrow> Refused not_an_object
     | Some k \<Rightarrow>
       if \<not> is_str (obj_get k ''topicId'') then Refused missing_topicId
       else if \<not> is_str (obj_get k ''msgId'') then Refused missing_msgId
       else if \<not> is_num (obj_get k ''ts'') then Refused missing_ts
       else if \<not> is_num (obj_get k ''seq'') then Refused missing_seq
       else if \<not> is_str (obj_get k ''signerPubkey'') then Refused missing_signerPubkey
       else if \<not> sig_scheme (obj_get k ''signature'') then Refused unknown_signature_scheme
       else (case checkSignature ns vrf (obj_get k ''signature'') (obj_get k ''signerPubkey'')
                (touch_core (obj_get k ''topicId'') (obj_get k ''msgId'') (obj_get k ''ts'') (obj_get k ''seq'')) of
          Threw \<Rightarrow> Threw | Refused r \<Rightarrow> Refused r | Accepted _ \<Rightarrow> Accepted (str_of (obj_get k ''signerPubkey''))))"

section \<open>Unpub\<close>

definition UNPUB_DOMAIN :: string where
  "UNPUB_DOMAIN = ''axona:pubsub-unpub:v1''"

definition unpub_core :: "js \<Rightarrow> js \<Rightarrow> js \<Rightarrow> js \<Rightarrow> js \<Rightarrow> js \<Rightarrow> js" where
  "unpub_core tid name ow destroy ts seq = JObj [(''d'', JStr UNPUB_DOMAIN), (''topicId'', tid), (''topicName'', name), (''ownerNodeId'', ow),
     (''destroy'', destroy), (''ts'', ts), (''seq'', seq)]"

definition buildUnpub :: "(rat \<Rightarrow> string) \<Rightarrow> js \<Rightarrow> js \<Rightarrow> js \<Rightarrow> js \<Rightarrow> js \<Rightarrow> js \<Rightarrow> author option \<Rightarrow> js option" where
  "buildUnpub ns tid name ow destroy ts seq identity = (case identity of None \<Rightarrow> None
     | Some i \<Rightarrow> if \<not> is_str tid \<or> \<not> is_str name \<or> \<not> is_str ow then None
         else (let flag = JBool (destroy = JBool True) in
           case canonical ns (unpub_core tid name ow flag ts seq) of None \<Rightarrow> None
          | Some c \<Rightarrow> Some (JObj [(''kind'', JStr UNPUB_DOMAIN), (''topicId'', tid), (''topicName'', name), (''ownerNodeId'', ow), (''destroy'', flag),
               (''ts'', ts), (''seq'', seq), (''signerPubkey'', JStr (pubkeyHex i)), (''signature'', sig_text (privateKey i (utf8 c)))])))"

definition verifyUnpub :: "(rat \<Rightarrow> string) \<Rightarrow> vrf \<Rightarrow> js \<Rightarrow> string verdict" where
  "verifyUnpub ns vrf v = (case fields_of v of None \<Rightarrow> Refused not_an_object
     | Some k \<Rightarrow>
       if \<not> is_str (obj_get k ''topicId'') then Refused missing_topicId
       else if \<not> is_str (obj_get k ''topicName'') then Refused missing_topicName
       else if \<not> is_str (obj_get k ''ownerNodeId'') then Refused missing_ownerNodeId
       else if \<not> is_boolean (obj_get k ''destroy'') then Refused missing_destroy
       else if \<not> is_num (obj_get k ''ts'') then Refused missing_ts
       else if \<not> is_num (obj_get k ''seq'') then Refused missing_seq
       else if \<not> is_str (obj_get k ''signerPubkey'') then Refused missing_signerPubkey
       else if \<not> sig_scheme (obj_get k ''signature'') then Refused unknown_signature_scheme
       else (case checkSignature ns vrf (obj_get k ''signature'') (obj_get k ''signerPubkey'')
                (unpub_core (obj_get k ''topicId'') (obj_get k ''topicName'') (obj_get k ''ownerNodeId'') (obj_get k ''destroy'')
                   (obj_get k ''ts'') (obj_get k ''seq'')) of
          Threw \<Rightarrow> Threw | Refused r \<Rightarrow> Refused r | Accepted _ \<Rightarrow> Accepted (str_of (obj_get k ''signerPubkey''))))"

section \<open>Envelopes\<close>

definition ENVELOPE_DOMAIN :: string where
  "ENVELOPE_DOMAIN = ''axona:pubsub-envelope:v2''"

definition MAX_PUBLISH_SKEW_MS :: rat where
  "MAX_PUBLISH_SKEW_MS = 300000"

definition msg_core :: "js \<Rightarrow> js \<Rightarrow> js" where
  "msg_core publisher message = JObj [(''publisher'', publisher), (''message'', message)]"

definition computeMsgId :: "(rat \<Rightarrow> string) \<Rightarrow> (string \<Rightarrow> string) \<Rightarrow> js \<Rightarrow> js \<Rightarrow> string option" where
  "computeMsgId ns sha publisher message = map_option sha (canonical ns (msg_core publisher message))"

definition envelope_core :: "js \<Rightarrow> js \<Rightarrow> js \<Rightarrow> js \<Rightarrow> js" where
  "envelope_core seq ts topic message = JObj [(''d'', JStr ENVELOPE_DOMAIN), (''seq'', seq), (''ts'', ts), (''topic'', topic), (''message'', message)]"

definition buildEnvelope ::
  "(rat \<Rightarrow> string) \<Rightarrow> (string \<Rightarrow> string) \<Rightarrow> (string \<Rightarrow> js) \<Rightarrow> js \<Rightarrow> js \<Rightarrow> js \<Rightarrow> js \<Rightarrow> author option \<Rightarrow> bool \<Rightarrow> js option" where
  "buildEnvelope ns sha pow topic message ts seq identity doSign =
     (if doSign then
        (case identity of None \<Rightarrow> None
         | Some i \<Rightarrow> (case canonical ns (envelope_core seq ts topic message) of None \<Rightarrow> None
             | Some c \<Rightarrow>
                 let signature = sig_text (privateKey i (utf8 c));
                     signerPubkey = (case authorId i of Some a \<Rightarrow> a | None \<Rightarrow> pubkeyHex i) in
                 (case computeMsgId ns sha (JStr signerPubkey) message of None \<Rightarrow> None
                  | Some msgId \<Rightarrow> Some (JObj [(''msgId'', JStr msgId), (''seq'', seq), (''ts'', ts), (''topic'', topic), (''message'', message),
                       (''signature'', signature), (''signerPubkey'', JStr signerPubkey), (''signerPow'', pow signerPubkey)]))))
      else (case computeMsgId ns sha Null message of None \<Rightarrow> None
         | Some msgId \<Rightarrow> Some (JObj [(''msgId'', JStr msgId), (''seq'', seq), (''ts'', ts), (''topic'', topic), (''message'', message)])))"

datatype env_verdict = EThrew | ERefused reason bool | EOk bool

text \<open>The last step of \<open>verifyEnvelope\<close>: the content address of the claimed author and the message.\<close>

definition checkMsgId :: "(rat \<Rightarrow> string) \<Rightarrow> (string \<Rightarrow> string) \<Rightarrow> (string \<times> js) list \<Rightarrow> bool \<Rightarrow> env_verdict" where
  "checkMsgId ns sha e sd =
     (case computeMsgId ns sha (if sd then obj_get e ''signerPubkey'' else Null) (obj_get e ''message'') of None \<Rightarrow> EThrew
      | Some expected \<Rightarrow> if JStr expected \<noteq> obj_get e ''msgId'' then ERefused bad_msgid_hash sd else EOk sd)"

definition topic_ok :: "js \<Rightarrow> bool" where
  "topic_ok t = (case fields_of t of None \<Rightarrow> False | Some fs \<Rightarrow> is_str (obj_get fs ''name''))"

definition verifyEnvelope :: "keyspace \<Rightarrow> (rat \<Rightarrow> string) \<Rightarrow> (string \<Rightarrow> string) \<Rightarrow> vrf \<Rightarrow> js \<Rightarrow> env_verdict" where
  "verifyEnvelope ks ns sha vrf v = (case fields_of v of None \<Rightarrow> ERefused not_an_object False
     | Some e \<Rightarrow>
       if \<not> is_str (obj_get e ''msgId'') then ERefused missing_msgId False
       else if \<not> is_num (obj_get e ''ts'') then ERefused missing_ts False
       else if \<not> topic_ok (obj_get e ''topic'') then ERefused missing_topic False
       else if ''message'' \<notin> fst ` set e then ERefused missing_message False
       else if \<not> is_num (obj_get e ''seq'') then ERefused missing_seq False
       else if is_str (obj_get e ''signature'') then
         (if \<not> is_str (obj_get e ''signerPubkey'') then ERefused missing_signerPubkey True
          else if \<not> sig_scheme (obj_get e ''signature'') then ERefused unknown_signature_scheme True
          else if AUTH_VERIFY_RELAXED ks then checkMsgId ns sha e True
          else (case checkSignature ns vrf (obj_get e ''signature'') (obj_get e ''signerPubkey'')
                  (envelope_core (obj_get e ''seq'') (obj_get e ''ts'') (obj_get e ''topic'') (obj_get e ''message'')) of
             Threw \<Rightarrow> EThrew | Refused r \<Rightarrow> ERefused r True | Accepted _ \<Rightarrow> checkMsgId ns sha e True))
       else checkMsgId ns sha e False)"

text \<open>Freshness, read off the signed \<open>ts\<close> at live-publish ingress.\<close>

definition checkFreshness :: "js \<Rightarrow> rat \<Rightarrow> rat \<Rightarrow> reason option" where
  "checkFreshness v now maxSkewMs = (case fields_of v of None \<Rightarrow> Some missing_ts
     | Some e \<Rightarrow> (case obj_get e ''ts'' of
          JNum (Fin ts) \<Rightarrow> if \<bar>ts - now\<bar> > maxSkewMs then Some stale_ts else None
        | JNum NaN \<Rightarrow> None
        | JNum _ \<Rightarrow> Some stale_ts
        | _ \<Rightarrow> Some missing_ts))"

end
