(* ===== verification/EnvelopeLaws.thy ===== *)
theory EnvelopeLaws
  imports Envelopes
begin

text \<open>
  What an accepted kill, touch, unpub or envelope proves, that built objects are accepted, and how far
  the text of the author key is bound.
\<close>

section \<open>Normal forms of the signed cores\<close>

lemma jnorm_kill_core:
  "jnorm (kill_core (JStr a) (JStr b) (JNum x) (JNum y)) = JObj [(''d'', JStr KILL_DOMAIN), (''msgId'', JStr b), (''seq'', jnorm (JNum y)),
     (''topicId'', JStr a), (''ts'', jnorm (JNum x))]"
  by (simp add: kill_core_def less_char_def)

lemma jnorm_touch_core:
  "jnorm (touch_core (JStr a) (JStr b) (JNum x) (JNum y)) = JObj [(''d'', JStr TOUCH_DOMAIN), (''msgId'', JStr b), (''seq'', jnorm (JNum y)),
     (''topicId'', JStr a), (''ts'', jnorm (JNum x))]"
  by (simp add: touch_core_def less_char_def)

lemma jnorm_unpub_core:
  "jnorm (unpub_core (JStr a) (JStr n) (JStr w) (JBool f) (JNum x) (JNum y)) = JObj [(''d'', JStr UNPUB_DOMAIN), (''destroy'', JBool f),
     (''ownerNodeId'', JStr w), (''seq'', jnorm (JNum y)), (''topicId'', JStr a), (''topicName'', JStr n), (''ts'', jnorm (JNum x))]"
  by (simp add: unpub_core_def less_char_def)

lemma jnorm_envelope_core: "\<exists>r. jnorm (envelope_core sq ts tp m) = JObj ((''d'', JStr ENVELOPE_DOMAIN) # r)"
  by (simp add: envelope_core_def less_char_def)

lemma domains_differ: "KILL_DOMAIN \<noteq> TOUCH_DOMAIN" "KILL_DOMAIN \<noteq> UNPUB_DOMAIN" "KILL_DOMAIN \<noteq> ENVELOPE_DOMAIN"
  "TOUCH_DOMAIN \<noteq> UNPUB_DOMAIN" "TOUCH_DOMAIN \<noteq> ENVELOPE_DOMAIN" "UNPUB_DOMAIN \<noteq> ENVELOPE_DOMAIN"
  by (simp_all add: KILL_DOMAIN_def TOUCH_DOMAIN_def UNPUB_DOMAIN_def ENVELOPE_DOMAIN_def)

section \<open>What an author signs\<close>

text \<open>The objects an author issued: kills and touches (topic, message, ts, seq), unpubs (topic, name, owner,
  destroy, ts, seq) and envelopes (seq, ts, topic, message).\<close>

record issued =
  kills :: "(string \<times> string \<times> jsnum \<times> jsnum) set"
  touches :: "(string \<times> string \<times> jsnum \<times> jsnum) set"
  unpubs :: "(string \<times> string \<times> string \<times> bool \<times> jsnum \<times> jsnum) set"
  envelopes :: "(js \<times> js \<times> js \<times> js) set"

definition issued_cores :: "issued \<Rightarrow> js set" where
  "issued_cores s = (\<lambda>(a, b, x, y). kill_core (JStr a) (JStr b) (JNum x) (JNum y)) ` kills s
     \<union> (\<lambda>(a, b, x, y). touch_core (JStr a) (JStr b) (JNum x) (JNum y)) ` touches s
     \<union> (\<lambda>(a, n, w, f, x, y). unpub_core (JStr a) (JStr n) (JStr w) (JBool f) (JNum x) (JNum y)) ` unpubs s
     \<union> (\<lambda>(sq, ts, tp, m). envelope_core sq ts tp m) ` envelopes s"

definition signed_bytes :: "(rat \<Rightarrow> string) \<Rightarrow> issued \<Rightarrow> bytes set" where
  "signed_bytes ns s = {t. \<exists>w c. w \<in> issued_cores s \<and> canonical ns w = Some c \<and> t = utf8 c}"

lemma checkSignature_Accepted:
  assumes "checkSignature ns vrf sig pub core = Accepted u"
  shows "\<exists>sb pk c. lenientBytes (str_of pub) = Some pk \<and> length pk = 32 \<and> canonical ns core = Some c \<and> vrf pk (utf8 c) sb = Some True"
  using assms by (auto simp: checkSignature_def split: option.splits if_splits bool.splits)

lemma canonical_has_big: "canonical ns v = Some c \<Longrightarrow> \<not> has_big v"
  by (simp add: canonical_def split: if_splits)

text \<open>A core whose signature verifies has the normal form of a core the key's owner issued.\<close>

lemma verified_core:
  assumes "num_printer ns" "checkSignature ns vrf sig pub core = Accepted u"
    and "\<And>pk t s. lenientBytes (str_of pub) = Some pk \<Longrightarrow> vrf pk t s = Some True \<Longrightarrow> t \<in> signed_bytes ns iss"
  shows "\<exists>w \<in> issued_cores iss. jnorm w = jnorm core"
proof -
  from checkSignature_Accepted [OF assms(2)] obtain sb pk c where c: "lenientBytes (str_of pub) = Some pk" "canonical ns core = Some c"
    "vrf pk (utf8 c) sb = Some True" by blast
  from assms(3) [OF c(1,3)] obtain w c' where w: "w \<in> issued_cores iss" "canonical ns w = Some c'" "utf8 c = utf8 c'"
    by (auto simp: signed_bytes_def)
  then have "canonical ns w = canonical ns core" using c(2) utf8_inj by simp
  then have "jnorm w = jnorm core"
    using canonical_eq_iff [OF assms(1) canonical_has_big [OF w(2)] canonical_has_big [OF c(2)]] by blast
  then show ?thesis using w(1) by blast
qed

lemma issued_cases:
  assumes "w \<in> issued_cores s"
  obtains (kill) a b x y where "(a, b, x, y) \<in> kills s" "w = kill_core (JStr a) (JStr b) (JNum x) (JNum y)"
  | (touch) a b x y where "(a, b, x, y) \<in> touches s" "w = touch_core (JStr a) (JStr b) (JNum x) (JNum y)"
  | (unpub) a n ow f x y where "(a, n, ow, f, x, y) \<in> unpubs s" "w = unpub_core (JStr a) (JStr n) (JStr ow) (JBool f) (JNum x) (JNum y)"
  | (envelope) sq ts tp m where "(sq, ts, tp, m) \<in> envelopes s" "w = envelope_core sq ts tp m"
  using assms unfolding issued_cores_def by auto

definition dom_of :: "js \<Rightarrow> js" where
  "dom_of w = (case w of JObj ((k, v) # r) \<Rightarrow> v | _ \<Rightarrow> Null)"

lemma dom_of_cores [simp]:
  "dom_of (jnorm (kill_core (JStr a) (JStr b) (JNum x) (JNum y))) = JStr KILL_DOMAIN"
  "dom_of (jnorm (touch_core (JStr a) (JStr b) (JNum x) (JNum y))) = JStr TOUCH_DOMAIN"
  "dom_of (jnorm (unpub_core (JStr a) (JStr n) (JStr ow) (JBool f) (JNum x) (JNum y))) = JStr UNPUB_DOMAIN"
  "dom_of (jnorm (envelope_core sq ts tp m)) = JStr ENVELOPE_DOMAIN"
  using jnorm_envelope_core [of sq ts tp m]
  by (auto simp: dom_of_def jnorm_kill_core jnorm_touch_core jnorm_unpub_core)

lemma issued_domain:
  assumes "w \<in> issued_cores s" "jnorm w = n"
  shows "dom_of n = JStr KILL_DOMAIN \<Longrightarrow> \<exists>(a, b, x, y) \<in> kills s. n = jnorm (kill_core (JStr a) (JStr b) (JNum x) (JNum y))"
    "dom_of n = JStr TOUCH_DOMAIN \<Longrightarrow> \<exists>(a, b, x, y) \<in> touches s. n = jnorm (touch_core (JStr a) (JStr b) (JNum x) (JNum y))"
    "dom_of n = JStr UNPUB_DOMAIN \<Longrightarrow> \<exists>(a, m, ow, f, x, y) \<in> unpubs s. n = jnorm (unpub_core (JStr a) (JStr m) (JStr ow) (JBool f) (JNum x) (JNum y))"
    "dom_of n = JStr ENVELOPE_DOMAIN \<Longrightarrow> \<exists>(sq, ts, tp, m) \<in> envelopes s. n = jnorm (envelope_core sq ts tp m)"
  using assms domains_differ by (cases rule: issued_cases [OF assms(1)]; force)+

lemma is_kinds: "is_str v \<longleftrightarrow> (\<exists>s. v = JStr s)" "is_num v \<longleftrightarrow> (\<exists>n. v = JNum n)" "is_boolean v \<longleftrightarrow> (\<exists>b. v = JBool b)"
  by (cases v; simp)+

lemma verifyKill_Accepted:
  assumes "verifyKill ns vrf v = Accepted p"
  shows "\<exists>k a b x y. fields_of v = Some k \<and> obj_get k ''topicId'' = JStr a \<and> obj_get k ''msgId'' = JStr b \<and> obj_get k ''ts'' = JNum x
    \<and> obj_get k ''seq'' = JNum y \<and> obj_get k ''signerPubkey'' = JStr p
    \<and> checkSignature ns vrf (obj_get k ''signature'') (JStr p) (kill_core (JStr a) (JStr b) (JNum x) (JNum y)) = Accepted ()"
  using assms by (auto simp: verifyKill_def is_kinds split: option.splits if_splits verdict.splits)

lemma verifyTouch_Accepted:
  assumes "verifyTouch ns vrf v = Accepted p"
  shows "\<exists>k a b x y. fields_of v = Some k \<and> obj_get k ''topicId'' = JStr a \<and> obj_get k ''msgId'' = JStr b \<and> obj_get k ''ts'' = JNum x
    \<and> obj_get k ''seq'' = JNum y \<and> obj_get k ''signerPubkey'' = JStr p
    \<and> checkSignature ns vrf (obj_get k ''signature'') (JStr p) (touch_core (JStr a) (JStr b) (JNum x) (JNum y)) = Accepted ()"
  using assms by (auto simp: verifyTouch_def is_kinds split: option.splits if_splits verdict.splits)

lemma verifyUnpub_Accepted:
  assumes "verifyUnpub ns vrf v = Accepted p"
  shows "\<exists>k a n ow f x y. fields_of v = Some k \<and> obj_get k ''topicId'' = JStr a \<and> obj_get k ''topicName'' = JStr n \<and> obj_get k ''ownerNodeId'' = JStr ow
    \<and> obj_get k ''destroy'' = JBool f \<and> obj_get k ''ts'' = JNum x \<and> obj_get k ''seq'' = JNum y \<and> obj_get k ''signerPubkey'' = JStr p
    \<and> checkSignature ns vrf (obj_get k ''signature'') (JStr p) (unpub_core (JStr a) (JStr n) (JStr ow) (JBool f) (JNum x) (JNum y)) = Accepted ()"
  using assms by (auto simp: verifyUnpub_def is_kinds split: option.splits if_splits verdict.splits)

lemma checkMsgId_flag: "checkMsgId ns sha e b = EOk c \<Longrightarrow> c = b"
  by (auto simp: checkMsgId_def split: option.splits if_splits)

lemma verifyEnvelope_EOk:
  assumes "verifyEnvelope ks ns sha vrf v = EOk True" "\<not> AUTH_VERIFY_RELAXED ks"
  shows "\<exists>e p. fields_of v = Some e \<and> obj_get e ''signerPubkey'' = JStr p \<and> checkMsgId ns sha e True = EOk True
    \<and> checkSignature ns vrf (obj_get e ''signature'') (JStr p)
        (envelope_core (obj_get e ''seq'') (obj_get e ''ts'') (obj_get e ''topic'') (obj_get e ''message'')) = Accepted ()"
  using assms
  by (auto simp: verifyEnvelope_def is_kinds dest: checkMsgId_flag split: option.splits if_splits verdict.splits)

text \<open>The four readings, each from an issued core with the normal form of the accepted one.\<close>

lemma kill_read:
  assumes "w \<in> issued_cores s" "jnorm w = jnorm (kill_core (JStr a) (JStr b) (JNum x) (JNum y))"
  shows "\<exists>(a', b', x', y') \<in> kills s. a = a' \<and> b = b' \<and> jnorm (JNum x) = jnorm (JNum x') \<and> jnorm (JNum y) = jnorm (JNum y')"
proof -
  from issued_domain(1) [OF assms] obtain a' b' x' y' where k: "(a', b', x', y') \<in> kills s"
    "jnorm (kill_core (JStr a) (JStr b) (JNum x) (JNum y)) = jnorm (kill_core (JStr a') (JStr b') (JNum x') (JNum y'))" by auto
  from k(2) show ?thesis unfolding jnorm_kill_core by (intro bexI [OF _ k(1)]) (simp del: jnorm.simps)
qed

lemma touch_read:
  assumes "w \<in> issued_cores s" "jnorm w = jnorm (touch_core (JStr a) (JStr b) (JNum x) (JNum y))"
  shows "\<exists>(a', b', x', y') \<in> touches s. a = a' \<and> b = b' \<and> jnorm (JNum x) = jnorm (JNum x') \<and> jnorm (JNum y) = jnorm (JNum y')"
proof -
  from issued_domain(2) [OF assms] obtain a' b' x' y' where k: "(a', b', x', y') \<in> touches s"
    "jnorm (touch_core (JStr a) (JStr b) (JNum x) (JNum y)) = jnorm (touch_core (JStr a') (JStr b') (JNum x') (JNum y'))" by auto
  from k(2) show ?thesis unfolding jnorm_touch_core by (intro bexI [OF _ k(1)]) (simp del: jnorm.simps)
qed

lemma unpub_read:
  assumes "w \<in> issued_cores s" "jnorm w = jnorm (unpub_core (JStr a) (JStr n) (JStr ow) (JBool f) (JNum x) (JNum y))"
  shows "\<exists>(a', n', ow', f', x', y') \<in> unpubs s. a = a' \<and> n = n' \<and> ow = ow' \<and> f = f' \<and> jnorm (JNum x) = jnorm (JNum x') \<and> jnorm (JNum y) = jnorm (JNum y')"
proof -
  from issued_domain(3) [OF assms] obtain a' n' ow' f' x' y' where k: "(a', n', ow', f', x', y') \<in> unpubs s"
    "jnorm (unpub_core (JStr a) (JStr n) (JStr ow) (JBool f) (JNum x) (JNum y)) = jnorm (unpub_core (JStr a') (JStr n') (JStr ow') (JBool f') (JNum x') (JNum y'))" by auto
  from k(2) show ?thesis unfolding jnorm_unpub_core by (intro bexI [OF _ k(1)]) (simp del: jnorm.simps)
qed

lemma signed_objects_authentic_parts:
  assumes ns: "num_printer ns"
    and unforged: "\<And>p pk t s. lenientBytes p = Some pk \<Longrightarrow> vrf pk t s = Some True \<Longrightarrow> t \<in> signed_bytes ns (iss p)"
  shows "verifyKill ns vrf v = Accepted p \<Longrightarrow> fields_of v = Some k \<Longrightarrow> \<exists>(a, b, x, y) \<in> kills (iss p).
      obj_get k ''topicId'' = JStr a \<and> obj_get k ''msgId'' = JStr b \<and> jnorm (obj_get k ''ts'') = jnorm (JNum x) \<and> jnorm (obj_get k ''seq'') = jnorm (JNum y)"
    "verifyTouch ns vrf v = Accepted p \<Longrightarrow> fields_of v = Some k \<Longrightarrow> \<exists>(a, b, x, y) \<in> touches (iss p).
      obj_get k ''topicId'' = JStr a \<and> obj_get k ''msgId'' = JStr b \<and> jnorm (obj_get k ''ts'') = jnorm (JNum x) \<and> jnorm (obj_get k ''seq'') = jnorm (JNum y)"
    "verifyUnpub ns vrf v = Accepted p \<Longrightarrow> fields_of v = Some k \<Longrightarrow> \<exists>(a, n, ow, f, x, y) \<in> unpubs (iss p).
      obj_get k ''topicId'' = JStr a \<and> obj_get k ''topicName'' = JStr n \<and> obj_get k ''ownerNodeId'' = JStr ow \<and> obj_get k ''destroy'' = JBool f
      \<and> jnorm (obj_get k ''ts'') = jnorm (JNum x) \<and> jnorm (obj_get k ''seq'') = jnorm (JNum y)"
    "verifyEnvelope ks ns sha vrf v = EOk True \<Longrightarrow> \<not> AUTH_VERIFY_RELAXED ks \<Longrightarrow> fields_of v = Some k \<Longrightarrow>
      \<exists>(sq, ts, tp, m) \<in> envelopes (iss (str_of (obj_get k ''signerPubkey''))).
      jnorm (envelope_core sq ts tp m) = jnorm (envelope_core (obj_get k ''seq'') (obj_get k ''ts'') (obj_get k ''topic'') (obj_get k ''message''))"
proof -
  have core: "\<exists>w \<in> issued_cores (iss p). jnorm w = jnorm c" if "checkSignature ns vrf sig (JStr p) c = Accepted ()" for sig p c
    by (rule verified_core [OF ns that]) (use unforged in auto)
  {
    assume "verifyKill ns vrf v = Accepted p" "fields_of v = Some k"
    from verifyKill_Accepted [OF this(1)] this(2) obtain a b x y where r: "obj_get k ''topicId'' = JStr a" "obj_get k ''msgId'' = JStr b"
      "obj_get k ''ts'' = JNum x" "obj_get k ''seq'' = JNum y"
      "checkSignature ns vrf (obj_get k ''signature'') (JStr p) (kill_core (JStr a) (JStr b) (JNum x) (JNum y)) = Accepted ()" by auto
    from core [OF r(5)] kill_read show "\<exists>(a, b, x, y) \<in> kills (iss p). obj_get k ''topicId'' = JStr a \<and> obj_get k ''msgId'' = JStr b
        \<and> jnorm (obj_get k ''ts'') = jnorm (JNum x) \<and> jnorm (obj_get k ''seq'') = jnorm (JNum y)" unfolding r by fastforce
  }
  {
    assume "verifyTouch ns vrf v = Accepted p" "fields_of v = Some k"
    from verifyTouch_Accepted [OF this(1)] this(2) obtain a b x y where r: "obj_get k ''topicId'' = JStr a" "obj_get k ''msgId'' = JStr b"
      "obj_get k ''ts'' = JNum x" "obj_get k ''seq'' = JNum y"
      "checkSignature ns vrf (obj_get k ''signature'') (JStr p) (touch_core (JStr a) (JStr b) (JNum x) (JNum y)) = Accepted ()" by auto
    from core [OF r(5)] touch_read show "\<exists>(a, b, x, y) \<in> touches (iss p). obj_get k ''topicId'' = JStr a \<and> obj_get k ''msgId'' = JStr b
        \<and> jnorm (obj_get k ''ts'') = jnorm (JNum x) \<and> jnorm (obj_get k ''seq'') = jnorm (JNum y)" unfolding r by fastforce
  }
  {
    assume "verifyUnpub ns vrf v = Accepted p" "fields_of v = Some k"
    from verifyUnpub_Accepted [OF this(1)] this(2) obtain a n ow f x y where r: "obj_get k ''topicId'' = JStr a" "obj_get k ''topicName'' = JStr n"
      "obj_get k ''ownerNodeId'' = JStr ow" "obj_get k ''destroy'' = JBool f" "obj_get k ''ts'' = JNum x" "obj_get k ''seq'' = JNum y"
      "checkSignature ns vrf (obj_get k ''signature'') (JStr p) (unpub_core (JStr a) (JStr n) (JStr ow) (JBool f) (JNum x) (JNum y)) = Accepted ()" by auto
    from core [OF r(7)] unpub_read show "\<exists>(a, n, ow, f, x, y) \<in> unpubs (iss p). obj_get k ''topicId'' = JStr a \<and> obj_get k ''topicName'' = JStr n
        \<and> obj_get k ''ownerNodeId'' = JStr ow \<and> obj_get k ''destroy'' = JBool f
        \<and> jnorm (obj_get k ''ts'') = jnorm (JNum x) \<and> jnorm (obj_get k ''seq'') = jnorm (JNum y)" unfolding r by fastforce
  }
  assume "verifyEnvelope ks ns sha vrf v = EOk True" "\<not> AUTH_VERIFY_RELAXED ks" "fields_of v = Some k"
  from verifyEnvelope_EOk [OF this(1,2)] this(3) obtain q where r: "obj_get k ''signerPubkey'' = JStr q"
    "checkSignature ns vrf (obj_get k ''signature'') (JStr q)
        (envelope_core (obj_get k ''seq'') (obj_get k ''ts'') (obj_get k ''topic'') (obj_get k ''message'')) = Accepted ()" by auto
  from core [OF r(2)] issued_domain(4) [OF _ refl] show "\<exists>(sq, ts, tp, m) \<in> envelopes (iss (str_of (obj_get k ''signerPubkey''))).
      jnorm (envelope_core sq ts tp m) = jnorm (envelope_core (obj_get k ''seq'') (obj_get k ''ts'') (obj_get k ''topic'') (obj_get k ''message''))"
    unfolding r by fastforce
qed

text \<open>C16. Authenticity of the signed pub/sub objects. Suppose whatever verifies under the key a text decodes to was
  issued by its owner, as a kill, touch, unpub or envelope. Then an accepted kill was issued as a kill of
  this topic and message, with this timestamp and sequence; likewise a touch and an unpub, with its owner, name and
  destroy flag; and an accepted signed envelope has the signed core of an envelope its author
  issued. No object of one kind is accepted as another, and no field can be changed.\<close>

theorem signed_objects_authentic:
  assumes ns: "num_printer ns"
    and unforged: "\<And>p pk t s. lenientBytes p = Some pk \<Longrightarrow> vrf pk t s = Some True \<Longrightarrow> t \<in> signed_bytes ns (iss p)"
    and fields: "fields_of v = Some k"
  shows "(verifyKill ns vrf v = Accepted p \<longrightarrow> (\<exists>(a, b, x, y) \<in> kills (iss p).
      obj_get k ''topicId'' = JStr a \<and> obj_get k ''msgId'' = JStr b \<and> jnorm (obj_get k ''ts'') = jnorm (JNum x) \<and> jnorm (obj_get k ''seq'') = jnorm (JNum y)))
    \<and> (verifyTouch ns vrf v = Accepted p \<longrightarrow> (\<exists>(a, b, x, y) \<in> touches (iss p).
      obj_get k ''topicId'' = JStr a \<and> obj_get k ''msgId'' = JStr b \<and> jnorm (obj_get k ''ts'') = jnorm (JNum x) \<and> jnorm (obj_get k ''seq'') = jnorm (JNum y)))
    \<and> (verifyUnpub ns vrf v = Accepted p \<longrightarrow> (\<exists>(a, n, ow, f, x, y) \<in> unpubs (iss p).
      obj_get k ''topicId'' = JStr a \<and> obj_get k ''topicName'' = JStr n \<and> obj_get k ''ownerNodeId'' = JStr ow \<and> obj_get k ''destroy'' = JBool f
      \<and> jnorm (obj_get k ''ts'') = jnorm (JNum x) \<and> jnorm (obj_get k ''seq'') = jnorm (JNum y)))
    \<and> (verifyEnvelope ks ns sha vrf v = EOk True \<and> \<not> AUTH_VERIFY_RELAXED ks \<longrightarrow>
      (\<exists>(sq, ts, tp, m) \<in> envelopes (iss (str_of (obj_get k ''signerPubkey''))).
      jnorm (envelope_core sq ts tp m) = jnorm (envelope_core (obj_get k ''seq'') (obj_get k ''ts'') (obj_get k ''topic'') (obj_get k ''message''))))"
proof (intro conjI impI, goal_cases)
  case 1
  show ?case by (rule signed_objects_authentic_parts(1) [OF ns _ 1 fields]) (erule (1) unforged)
next
  case 2
  show ?case by (rule signed_objects_authentic_parts(2) [OF ns _ 2 fields]) (erule (1) unforged)
next
  case 3
  show ?case by (rule signed_objects_authentic_parts(3) [OF ns _ 3 fields]) (erule (1) unforged)
next
  case 4
  show ?case by (rule signed_objects_authentic_parts(4) [OF ns _ conjunct1 [OF 4] conjunct2 [OF 4] fields]) (erule (1) unforged)
qed

section \<open>Built objects are accepted\<close>

lemma sig_text_simps [simp]: "is_str (sig_text b)" "str_of (sig_text b) = SIG_PREFIX @ bytesToHex b" "sig_scheme (sig_text b)"
  by (simp_all add: sig_text_def sig_scheme_def)

lemma checkSignature_built:
  "length pk = 32 \<Longrightarrow> length sb = 64 \<Longrightarrow> canonical ns core = Some c \<Longrightarrow> vrf pk (utf8 c) sb = Some True
    \<Longrightarrow> checkSignature ns vrf (sig_text sb) (JStr (bytesToHex pk)) core = Accepted ()"
  by (simp add: checkSignature_def)

lemma obj_get_simps [simp]: "obj_get [] k = Undefined" "obj_get ((k', v) # r) k = (if k = k' then v else obj_get r k)"
  by (simp_all add: obj_get_def)

definition signs :: "vrf \<Rightarrow> bytes \<Rightarrow> author \<Rightarrow> bytes \<Rightarrow> bool" where
  "signs vrf pk i m \<longleftrightarrow> length (privateKey i m) = 64 \<and> vrf pk m (privateKey i m) = Some True"

lemma kill_verifies:
  assumes "buildKill ns tid mid (JNum x) (JNum y) (Some i) = Some v" "pubkeyHex i = bytesToHex pk" "length pk = 32"
    and "\<And>c. canonical ns (kill_core tid mid (JNum x) (JNum y)) = Some c \<Longrightarrow> signs vrf pk i (utf8 c)"
  shows "verifyKill ns vrf v = Accepted (pubkeyHex i)"
proof -
  from assms(1) obtain c where c: "is_str tid" "is_str mid" "canonical ns (kill_core tid mid (JNum x) (JNum y)) = Some c"
    and v: "v = JObj [(''kind'', JStr KILL_DOMAIN), (''topicId'', tid), (''msgId'', mid), (''ts'', JNum x), (''seq'', JNum y),
               (''signerPubkey'', JStr (pubkeyHex i)), (''signature'', sig_text (privateKey i (utf8 c)))]"
    by (auto simp: buildKill_def split: if_splits option.splits)
  have "checkSignature ns vrf (sig_text (privateKey i (utf8 c))) (JStr (bytesToHex pk)) (kill_core tid mid (JNum x) (JNum y)) = Accepted ()"
    using assms(4) [OF c(3)] c(3) assms(3) by (intro checkSignature_built) (auto simp: signs_def)
  then show ?thesis using c assms(2) by (simp add: verifyKill_def v fields_of_def)
qed

lemma touch_verifies:
  assumes "buildTouch ns tid mid (JNum x) (JNum y) (Some i) = Some v" "pubkeyHex i = bytesToHex pk" "length pk = 32"
    and "\<And>c. canonical ns (touch_core tid mid (JNum x) (JNum y)) = Some c \<Longrightarrow> signs vrf pk i (utf8 c)"
  shows "verifyTouch ns vrf v = Accepted (pubkeyHex i)"
proof -
  from assms(1) obtain c where c: "is_str tid" "is_str mid" "canonical ns (touch_core tid mid (JNum x) (JNum y)) = Some c"
    and v: "v = JObj [(''kind'', JStr TOUCH_DOMAIN), (''topicId'', tid), (''msgId'', mid), (''ts'', JNum x), (''seq'', JNum y),
               (''signerPubkey'', JStr (pubkeyHex i)), (''signature'', sig_text (privateKey i (utf8 c)))]"
    by (auto simp: buildTouch_def split: if_splits option.splits)
  have "checkSignature ns vrf (sig_text (privateKey i (utf8 c))) (JStr (bytesToHex pk)) (touch_core tid mid (JNum x) (JNum y)) = Accepted ()"
    using assms(4) [OF c(3)] c(3) assms(3) by (intro checkSignature_built) (auto simp: signs_def)
  then show ?thesis using c assms(2) by (simp add: verifyTouch_def v fields_of_def)
qed

lemma unpub_verifies:
  assumes "buildUnpub ns tid nm ow ds (JNum x) (JNum y) (Some i) = Some v" "pubkeyHex i = bytesToHex pk" "length pk = 32"
    and "\<And>c. canonical ns (unpub_core tid nm ow (JBool (ds = JBool True)) (JNum x) (JNum y)) = Some c \<Longrightarrow> signs vrf pk i (utf8 c)"
  shows "verifyUnpub ns vrf v = Accepted (pubkeyHex i)"
proof -
  let ?core = "unpub_core tid nm ow (JBool (ds = JBool True)) (JNum x) (JNum y)"
  from assms(1) obtain c where c: "is_str tid" "is_str nm" "is_str ow" "canonical ns ?core = Some c"
    and v: "v = JObj [(''kind'', JStr UNPUB_DOMAIN), (''topicId'', tid), (''topicName'', nm), (''ownerNodeId'', ow), (''destroy'', JBool (ds = JBool True)),
               (''ts'', JNum x), (''seq'', JNum y), (''signerPubkey'', JStr (pubkeyHex i)), (''signature'', sig_text (privateKey i (utf8 c)))]"
    by (auto simp: buildUnpub_def Let_def split: if_splits option.splits)
  have "checkSignature ns vrf (sig_text (privateKey i (utf8 c))) (JStr (bytesToHex pk)) ?core = Accepted ()"
    using assms(4) [OF c(4)] c(4) assms(3) by (intro checkSignature_built) (auto simp: signs_def)
  then show ?thesis using c assms(2) by (simp add: verifyUnpub_def v fields_of_def)
qed

lemma envelope_verifies:
  assumes "buildEnvelope ns sha pow tp m (JNum x) (JNum y) (Some i) True = Some v" "topic_ok tp"
    and "pubkeyHex i = bytesToHex pk" "length pk = 32" "authorId i = None \<or> authorId i = Some (pubkeyHex i)"
    and "\<And>c. canonical ns (envelope_core (JNum y) (JNum x) tp m) = Some c \<Longrightarrow> signs vrf pk i (utf8 c)"
  shows "verifyEnvelope ks ns sha vrf v = EOk True"
proof -
  let ?core = "envelope_core (JNum y) (JNum x) tp m"
  have a: "(case authorId i of Some a \<Rightarrow> a | None \<Rightarrow> pubkeyHex i) = pubkeyHex i" using assms(5) by auto
  from assms(1) obtain c d where c: "canonical ns ?core = Some c" "computeMsgId ns sha (JStr (pubkeyHex i)) m = Some d"
    and v: "v = JObj [(''msgId'', JStr d), (''seq'', JNum y), (''ts'', JNum x), (''topic'', tp), (''message'', m),
       (''signature'', sig_text (privateKey i (utf8 c))), (''signerPubkey'', JStr (pubkeyHex i)), (''signerPow'', pow (pubkeyHex i))]"
    by (auto simp: buildEnvelope_def a Let_def split: option.splits)
  have "checkSignature ns vrf (sig_text (privateKey i (utf8 c))) (JStr (bytesToHex pk)) ?core = Accepted ()"
    using assms(6) [OF c(1)] c(1) assms(4) by (intro checkSignature_built) (auto simp: signs_def)
  then show ?thesis using c assms(2,3) by (simp add: verifyEnvelope_def v fields_of_def checkMsgId_def)
qed

lemma built_objects_verify_parts:
  assumes "pubkeyHex i = bytesToHex pk" "length pk = 32" "authorId i = None \<or> authorId i = Some (pubkeyHex i)"
    and "\<And>b. signs vrf pk i b"
  shows "buildKill ns tid mid (JNum x) (JNum y) (Some i) = Some v \<Longrightarrow> verifyKill ns vrf v = Accepted (pubkeyHex i)"
    "buildTouch ns tid mid (JNum x) (JNum y) (Some i) = Some v \<Longrightarrow> verifyTouch ns vrf v = Accepted (pubkeyHex i)"
    "buildUnpub ns tid nm ow ds (JNum x) (JNum y) (Some i) = Some v \<Longrightarrow> verifyUnpub ns vrf v = Accepted (pubkeyHex i)"
    "buildEnvelope ns sha pow tp m (JNum x) (JNum y) (Some i) True = Some v \<Longrightarrow> topic_ok tp \<Longrightarrow> verifyEnvelope ks ns sha vrf v = EOk True"
  by (erule kill_verifies [OF _ assms(1,2) assms(4)], erule touch_verifies [OF _ assms(1,2) assms(4)],
      erule unpub_verifies [OF _ assms(1,2) assms(4)], erule (1) envelope_verifies [OF _ _ assms(1-4)])

text \<open>C37. Built objects are accepted. A kill, touch, unpub or envelope built by an author whose key text is the hex
  of the key, and whose signatures verify, is accepted under that key; an envelope needs a topic
  descriptor with a name.\<close>

theorem built_objects_verify:
  assumes "pubkeyHex i = bytesToHex pk" "length pk = 32" "authorId i = None \<or> authorId i = Some (pubkeyHex i)"
    and "\<And>b. signs vrf pk i b"
  shows "(buildKill ns tid mid (JNum x) (JNum y) (Some i) = Some v \<longrightarrow> verifyKill ns vrf v = Accepted (pubkeyHex i))
    \<and> (buildTouch ns tid mid (JNum x) (JNum y) (Some i) = Some v \<longrightarrow> verifyTouch ns vrf v = Accepted (pubkeyHex i))
    \<and> (buildUnpub ns tid nm ow ds (JNum x) (JNum y) (Some i) = Some v \<longrightarrow> verifyUnpub ns vrf v = Accepted (pubkeyHex i))
    \<and> (buildEnvelope ns sha pow tp m (JNum x) (JNum y) (Some i) True = Some v \<and> topic_ok tp \<longrightarrow> verifyEnvelope ks ns sha vrf v = EOk True)"
proof (intro conjI impI, goal_cases)
  case 1
  then show ?case by (rule built_objects_verify_parts(1) [OF assms])
next
  case 2
  then show ?case by (rule built_objects_verify_parts(2) [OF assms])
next
  case 3
  then show ?case by (rule built_objects_verify_parts(3) [OF assms])
next
  case 4
  show ?case by (rule built_objects_verify_parts(4) [OF assms conjunct1 [OF 4] conjunct2 [OF 4]])
qed

definition demo_author :: author where
  "demo_author = \<lparr>privateKey = (\<lambda>_. replicate 64 0), pubkeyHex = bytesToHex (replicate 32 161), authorId = None\<rparr>"

theorem built_objects_verify_witness:
  "\<exists>v. buildEnvelope unary_ns id (\<lambda>_. JStr []) (JObj [(''name'', JStr ''cats'')]) (JStr ''hi'') (jint 1) (jint 2) (Some demo_author) True = Some v
     \<and> verifyEnvelope production unary_ns id (\<lambda>_ _ _. Some True) v = EOk True"
proof -
  obtain v where v: "buildEnvelope unary_ns id (\<lambda>_. JStr []) (JObj [(''name'', JStr ''cats'')]) (JStr ''hi'') (jint 1) (jint 2) (Some demo_author) True = Some v"
    by (simp add: buildEnvelope_def demo_author_def canonical_def envelope_core_def computeMsgId_def msg_core_def Let_def)
  have "verifyEnvelope production unary_ns id (\<lambda>_ _ _. Some True) v = EOk True"
    by (rule built_objects_verify [THEN conjunct2, THEN conjunct2, THEN conjunct2, rule_format, where pk = "replicate 32 161"], rule_tac [5] conjI [OF v])
      (simp_all add: demo_author_def signs_def topic_ok_def fields_of_def)
  with v show ?thesis by blast
qed

text \<open>An instance for the authenticity property: one issued kill, and a verifier that accepts exactly its core.\<close>

definition demo_issued :: issued where
  "demo_issued = \<lparr>kills = {(''t'', ''m'', Fin 1, Fin 2)}, touches = {}, unpubs = {}, envelopes = {}\<rparr>"

definition demo_kill_core :: js where
  "demo_kill_core = kill_core (JStr ''t'') (JStr ''m'') (JNum (Fin 1)) (JNum (Fin 2))"

definition demo_kvrf :: vrf where
  "demo_kvrf pk t s = Some (Some t = map_option utf8 (canonical unary_ns demo_kill_core))"

theorem signed_objects_authentic_witness:
  "\<exists>v k. verifyKill unary_ns demo_kvrf v = Accepted (pubkeyHex demo_author) \<and> fields_of v = Some k \<and> obj_get k ''topicId'' = JStr ''t''"
proof -
  obtain v where v: "buildKill unary_ns (JStr ''t'') (JStr ''m'') (JNum (Fin 1)) (JNum (Fin 2)) (Some demo_author) = Some v"
    by (simp add: buildKill_def canonical_def kill_core_def)
  have a: "verifyKill unary_ns demo_kvrf v = Accepted (pubkeyHex demo_author)"
    by (rule kill_verifies [OF v, where pk = "replicate 32 161"]) (simp_all add: demo_author_def signs_def demo_kvrf_def demo_kill_core_def)
  obtain k where k: "fields_of v = Some k" using verifyKill_Accepted [OF a] by blast
  have un: "t \<in> signed_bytes unary_ns demo_issued" if "demo_kvrf pk t s = Some True" for pk t s
  proof -
    from that obtain c where "canonical unary_ns demo_kill_core = Some c" "t = utf8 c"
      by (cases "canonical unary_ns demo_kill_core") (simp_all add: demo_kvrf_def)
    then show ?thesis by (auto simp: signed_bytes_def issued_cores_def demo_issued_def demo_kill_core_def)
  qed
  have "\<exists>(a, b, x, y) \<in> kills demo_issued. obj_get k ''topicId'' = JStr a \<and> obj_get k ''msgId'' = JStr b
      \<and> jnorm (obj_get k ''ts'') = jnorm (JNum x) \<and> jnorm (obj_get k ''seq'') = jnorm (JNum y)"
    by (rule signed_objects_authentic [of unary_ns demo_kvrf "\<lambda>_. demo_issued", OF num_printer_unary _ k, THEN conjunct1, rule_format, OF _ a]) (rule un)
  then show ?thesis using a k by (auto simp: demo_issued_def)
qed

section \<open>The text of the author key\<close>

definition readdress :: "string \<Rightarrow> string \<Rightarrow> (string \<times> js) list \<Rightarrow> (string \<times> js) list" where
  "readdress p d e = map (\<lambda>(k, v). (k, if k = ''signerPubkey'' then JStr p else if k = ''msgId'' then JStr d else v)) e"

lemma readdress_simps [simp]: "readdress p d [] = []"
  "readdress p d ((k, v) # e) = (k, if k = ''signerPubkey'' then JStr p else if k = ''msgId'' then JStr d else v) # readdress p d e"
  by (simp_all add: readdress_def)

lemma obj_get_readdress: "k \<noteq> ''signerPubkey'' \<Longrightarrow> k \<noteq> ''msgId'' \<Longrightarrow> obj_get (readdress p d e) k = obj_get e k"
proof (induction e)
  case (Cons q e)
  then show ?case by (cases q) simp
qed simp

lemma obj_get_readdressed:
  "obj_get e ''signerPubkey'' \<noteq> Undefined \<Longrightarrow> obj_get (readdress p d e) ''signerPubkey'' = JStr p"
  "obj_get e ''msgId'' \<noteq> Undefined \<Longrightarrow> obj_get (readdress p d e) ''msgId'' = JStr d"
proof (induction e)
  case (Cons q e)
  { case 1 then show ?case using Cons by (cases q) (simp split: if_splits) }
  { case 2 then show ?case using Cons by (cases q) (auto split: if_splits) }
qed simp_all

lemma verifyEnvelope_guards:
  assumes "verifyEnvelope ks ns sha vrf (JObj e) = EOk True"
  shows "is_str (obj_get e ''msgId'') \<and> is_num (obj_get e ''ts'') \<and> topic_ok (obj_get e ''topic'') \<and> ''message'' \<in> fst ` set e
    \<and> is_num (obj_get e ''seq'') \<and> is_str (obj_get e ''signature'') \<and> sig_scheme (obj_get e ''signature'')"
  using assms unfolding verifyEnvelope_def fields_of_def by (auto dest: checkMsgId_flag split: if_splits)

lemma fst_readdress: "fst ` set (readdress p d e) = fst ` set e"
  by (force simp: readdress_def)

lemma msg_core_inj: "p' \<noteq> p \<Longrightarrow> jnorm (msg_core (JStr p) m) \<noteq> jnorm (msg_core (JStr p') m)"
  by (cases "m = Undefined") (simp_all add: msg_core_def less_char_def)

lemma computeMsgId_collision:
  assumes "num_printer ns" "p' \<noteq> p" "computeMsgId ns sha (JStr p) m = Some d" "computeMsgId ns sha (JStr p') m = Some d"
  shows "\<exists>a b. a \<noteq> b \<and> sha a = sha b"
proof -
  from assms(3,4) obtain a b where ab: "canonical ns (msg_core (JStr p) m) = Some a" "canonical ns (msg_core (JStr p') m) = Some b" "sha a = d" "sha b = d"
    by (auto simp: computeMsgId_def)
  have "canonical ns (msg_core (JStr p) m) \<noteq> canonical ns (msg_core (JStr p') m)"
    using canonical_eq_iff [OF assms(1) canonical_has_big [OF ab(1)] canonical_has_big [OF ab(2)]] msg_core_inj [OF assms(2)] by blast
  then show ?thesis using ab by metis
qed

lemma checkMsgId_EOk: "checkMsgId ns sha e True = EOk True \<longleftrightarrow>
    (\<exists>d. computeMsgId ns sha (obj_get e ''signerPubkey'') (obj_get e ''message'') = Some d \<and> obj_get e ''msgId'' = JStr d)"
  unfolding checkMsgId_def by (cases "computeMsgId ns sha (obj_get e ''signerPubkey'') (obj_get e ''message'')") auto

text \<open>The text of the author key is not bound. Take any accepted signed envelope and any other text that the
  lenient decoder maps to the same key bytes: upper-case hex, say. With the id recomputed for that
  text the envelope is accepted again: whoever holds a signed envelope can give its content a second
  message id, without the author's key, unless SHA-256 collides.\<close>

theorem author_text_not_bound:
  assumes "verifyEnvelope ks ns sha vrf (JObj e) = EOk True" "\<not> AUTH_VERIFY_RELAXED ks" "num_printer ns"
    and "obj_get e ''signerPubkey'' = JStr p" "lenientBytes p' = lenientBytes p" "p' \<noteq> p"
    and "computeMsgId ns sha (JStr p') (obj_get e ''message'') = Some d"
  shows "verifyEnvelope ks ns sha vrf (JObj (readdress p' d e)) = EOk True
    \<and> (obj_get e ''msgId'' \<noteq> JStr d \<or> (\<exists>a b. a \<noteq> b \<and> sha a = sha b))"
proof -
  let ?r = "readdress p' d e"
  let ?core = "envelope_core (obj_get e ''seq'') (obj_get e ''ts'') (obj_get e ''topic'') (obj_get e ''message'')"
  note gd = verifyEnvelope_guards [OF assms(1)]
  have gp: "obj_get ?r ''signerPubkey'' = JStr p'" by (rule obj_get_readdressed(1)) (simp add: assms(4))
  have gm: "obj_get ?r ''msgId'' = JStr d" by (rule obj_get_readdressed(2)) (use gd in \<open>cases "obj_get e ''msgId''"; simp\<close>)
  have gs: "obj_get ?r ''ts'' = obj_get e ''ts''" "obj_get ?r ''seq'' = obj_get e ''seq''" "obj_get ?r ''topic'' = obj_get e ''topic''"
    "obj_get ?r ''message'' = obj_get e ''message''" "obj_get ?r ''signature'' = obj_get e ''signature''"
    by (rule obj_get_readdress; simp)+
  have "fields_of (JObj e) = Some e" by (simp add: fields_of_def)
  with verifyEnvelope_EOk [OF assms(1,2)] assms(4) have id: "checkMsgId ns sha e True = EOk True"
    and sig: "checkSignature ns vrf (obj_get e ''signature'') (JStr p) ?core = Accepted ()" by auto
  have acc: "checkSignature ns vrf (obj_get e ''signature'') (JStr p') ?core = Accepted ()"
    using sig unfolding checkSignature_def str_of.simps assms(5) .
  have "checkMsgId ns sha ?r True = EOk True" unfolding checkMsgId_EOk gp gm gs using assms(7) by blast
  then have "verifyEnvelope ks ns sha vrf (JObj ?r) = EOk True"
    using gd acc assms(2) unfolding verifyEnvelope_def fields_of_def js.case option.case gs gp gm fst_readdress by simp
  moreover have "obj_get e ''msgId'' \<noteq> JStr d \<or> (\<exists>a b. a \<noteq> b \<and> sha a = sha b)"
    using id computeMsgId_collision [OF assms(3,6) _ assms(7)] unfolding checkMsgId_EOk assms(4) by auto
  ultimately show ?thesis by blast
qed

definition demo_env :: "(string \<times> js) list" where
  "demo_env = [(''msgId'', JStr (canonical_str unary_ns (msg_core (JStr (bytesToHex (replicate 32 161))) (JStr ''hi'')))), (''seq'', jint 2), (''ts'', jint 1),
     (''topic'', JObj [(''name'', JStr ''cats'')]), (''message'', JStr ''hi''), (''signature'', sig_text (replicate 64 0)),
     (''signerPubkey'', JStr (bytesToHex (replicate 32 161)))]"

theorem author_text_not_bound_witness:
  "\<exists>p d. p \<noteq> bytesToHex (replicate 32 161) \<and> verifyEnvelope production unary_ns id (\<lambda>_ _ _. Some True) (JObj (readdress p d demo_env)) = EOk True"
proof -
  let ?q = "concat (replicate 32 ''A1'')"
  have l: "lenientBytes ?q = lenientBytes (bytesToHex (replicate 32 161))" by code_simp
  have ne: "?q \<noteq> bytesToHex (replicate 32 161)" by code_simp
  have r: "\<not> AUTH_VERIFY_RELAXED production" by (simp add: AUTH_VERIFY_RELAXED_def production_def recompute_def)
  have v: "verifyEnvelope production unary_ns id (\<lambda>_ _ _. Some True) (JObj demo_env) = EOk True"
  proof -
    have c: "checkSignature unary_ns (\<lambda>_ _ _. Some True) (sig_text (replicate 64 0)) (JStr (bytesToHex (replicate 32 161)))
       (envelope_core (jint 2) (jint 1) (JObj [(''name'', JStr ''cats'')]) (JStr ''hi'')) = Accepted ()"
      by (rule checkSignature_built) (simp_all add: canonical_def envelope_core_def)
    then show ?thesis
      by (simp add: demo_env_def verifyEnvelope_def fields_of_def topic_ok_def checkMsgId_def computeMsgId_def canonical_def msg_core_def del: bytesToHex_simps replicate.simps)
  qed
  have g: "obj_get demo_env ''signerPubkey'' = JStr (bytesToHex (replicate 32 161))" by (simp add: demo_env_def)
  obtain d where d: "computeMsgId unary_ns id (JStr ?q) (obj_get demo_env ''message'') = Some d"
    by (simp add: demo_env_def computeMsgId_def canonical_def msg_core_def)
  from author_text_not_bound [OF v r num_printer_unary g l ne d] ne show ?thesis by blast
qed

end
