(* ===== verification/WriteFlight.thy ===== *)
theory WriteFlight
  imports Envelopes
begin

text \<open>
  The write recovery flight: \<open>src/src/pubsub/writeFlight.js\<close>, with its entry point \<open>_onIngestAck\<close> of
  \<open>wireHandlers.js\<close>. A forwarded write stays in a flight until a correlated ack binds to it; silence
  leads to a probe, a retry, the eviction of the root, and the promotion of the write to the closest
  live candidate. The clock, the random hex strings and the neighbour list are arguments. What the
  flight sends, and the merge hooks it calls (\<open>_mergeFlightSilent\<close>, \<open>_mergeWinnerReminted\<close>), are
  outputs; local ingestion by \<open>_onPub\<close> and \<open>_onKill\<close> is an output as well, run after the sweep. A flight
  key is the triple the code joins with bars.
\<close>

section \<open>State\<close>

datatype wtype = PUB | KILL

text \<open>Of a payload the flight reads the parsed envelope (\<open>None\<close>: \<open>JSON.parse\<close> throws), the id of the
  message a kill names, and whether it carries \<open>holdFwd\<close>.\<close>

record payload =
  pl_env :: "js option"
  pl_kill :: "string option"
  pl_holdFwd :: bool

type_synonym corr = "string \<times> string \<times> string"

type_synonym fkey = "int \<times> string \<times> int"

record went =
  we_type :: wtype
  we_payload :: payload
  we_msgId :: string
  we_op :: string
  we_attemptId :: string
  promotions :: nat
  tried :: "string list"

datatype stage = AwaitAck | Probing | Retrying

record flight =
  fl_topic :: int
  fl_root :: string
  fl_epoch :: int
  fl_entries :: "(corr, went) jmap"
  fl_stage :: stage
  fl_rounds :: nat
  fl_deadline :: int
  fl_ackTo :: string
  fl_nonce :: string
  fl_merge :: bool

record chain =
  ch_promotions :: nat
  ch_tried :: "string list"
  ch_exp :: int

record wstate =
  flights :: "(fkey, flight) jmap"
  beacons :: "(int, string \<times> int option) jmap"
  rtombs :: "(int, string \<times> int \<times> int) jmap"
  chains :: "(corr, chain) jmap"
  winners :: "(int, string \<times> int) jmap"
  holds :: "(int, string) jmap"
  ingestAcks :: "(corr, int \<times> int \<times> js) jmap"

record wenv =
  w_ks :: keyspace
  w_nodeId :: int
  w_bridge :: "int option"
  w_neighbors :: "js list"

datatype out = SendWrite wtype payload string "(string \<times> string \<times> string) option"
  | Probe int int string string
  | Undeliverable wtype int string
  | IngestSelf wtype payload
  | MergeSilent fkey
  | MergeReminted fkey int

definition INGEST_ACK_MS :: int where "INGEST_ACK_MS = 4000"

definition FLIGHT_PROBE_MS :: int where "FLIGHT_PROBE_MS = 3000"

definition FLIGHT_MAX_ROUNDS :: nat where "FLIGHT_MAX_ROUNDS = 2"

definition BEACON_TTL_MS :: int where "BEACON_TTL_MS = 50000"

definition ROOT_TOMBSTONE_TTL_MS :: int where "ROOT_TOMBSTONE_TTL_MS = max 600000 (BEACON_TTL_MS * 12)"

definition FLIGHT_MAX_PROMOTIONS :: nat where "FLIGHT_MAX_PROMOTIONS = 4"

definition FLIGHT_CHAIN_MAX :: nat where "FLIGHT_CHAIN_MAX = 1024"

definition FLIGHT_CHAIN_TTL_MS :: int where "FLIGHT_CHAIN_TTL_MS = ROOT_TOMBSTONE_TTL_MS"

definition corrKey :: "string \<Rightarrow> string \<Rightarrow> string \<Rightarrow> corr" where
  "corrKey topicHex msgId p = (lc topicHex, msgId, p)"

definition flightKey :: "int \<Rightarrow> string \<Rightarrow> int \<Rightarrow> fkey" where
  "flightKey topicBig rootHex epoch = (topicBig, lc rootHex, epoch)"

definition writeMsgId :: "wtype \<Rightarrow> payload \<Rightarrow> string option" where
  "writeMsgId ty p = (case ty of KILL \<Rightarrow> pl_kill p
     | PUB \<Rightarrow> (case pl_env p of None \<Rightarrow> None
        | Some v \<Rightarrow> (case fields_of v of None \<Rightarrow> None
           | Some e \<Rightarrow> if is_str (obj_get e ''msgId'') then Some (str_of (obj_get e ''msgId'')) else None)))"

definition opOf :: "wtype \<Rightarrow> string" where
  "opOf ty = (case ty of KILL \<Rightarrow> ''kill'' | PUB \<Rightarrow> ''pub'')"

section \<open>The chain ledger\<close>

definition flightChainNote :: "corr \<Rightarrow> nat \<Rightarrow> string list \<Rightarrow> int \<Rightarrow> wstate \<Rightarrow> wstate" where
  "flightChainNote ck n tr now s =
     (let m = mset_key ck \<lparr>ch_promotions = n, ch_tried = tr, ch_exp = now + FLIGHT_CHAIN_TTL_MS\<rparr> (mdelete ck (chains s)) in
      s\<lparr>chains := drop (length m - FLIGHT_CHAIN_MAX) m\<rparr>)"

definition flightChainGet :: "corr \<Rightarrow> int \<Rightarrow> wstate \<Rightarrow> chain option \<times> wstate" where
  "flightChainGet ck now s = (case mget (chains s) ck of None \<Rightarrow> (None, s)
     | Some c \<Rightarrow> if now \<ge> ch_exp c then (None, s\<lparr>chains := mdelete ck (chains s)\<rparr>) else (Some c, s))"

section \<open>Open\<close>

definition addTried :: "string list \<Rightarrow> string \<Rightarrow> string list" where
  "addTried xs r = (let h = lc r in if h \<in> set xs then xs else xs @ [h])"

definition inheritChain :: "(nat \<times> string list) option \<Rightarrow> went \<Rightarrow> went" where
  "inheritChain c e = (case c of None \<Rightarrow> e
     | Some (n, tr) \<Rightarrow> e\<lparr>promotions := (if n > promotions e then n else promotions e), tried := foldl addTried (tried e) tr\<rparr>)"

definition chain_view :: "chain \<Rightarrow> nat \<times> string list" where
  "chain_view c = (ch_promotions c, ch_tried c)"

definition openEpoch :: "int option \<Rightarrow> int \<Rightarrow> wstate \<Rightarrow> int" where
  "openEpoch expected topicBig s = (case expected of
      Some x \<Rightarrow> if x \<ge> 1 then x else (case mget (beacons s) topicBig of Some (_, Some e) \<Rightarrow> e | _ \<Rightarrow> 0)
    | None \<Rightarrow> (case mget (beacons s) topicBig of Some (_, Some e) \<Rightarrow> e | _ \<Rightarrow> 0))"

text \<open>\<open>nonce\<close> and \<open>attempt\<close> are the random strings the call would draw.\<close>

definition flightOpen ::
  "wenv \<Rightarrow> int \<Rightarrow> string \<Rightarrow> string \<Rightarrow> int \<Rightarrow> string \<Rightarrow> wtype \<Rightarrow> payload \<Rightarrow> string option \<Rightarrow> int option \<Rightarrow> (nat \<times> string list) option
     \<Rightarrow> wstate \<Rightarrow> (string \<times> string \<times> string) option \<times> wstate" where
  "flightOpen env now nonce attempt topicBig rootHex ty pl0 attemptId expectedEpoch ch s =
     (let pl = pl0\<lparr>pl_holdFwd := False\<rparr> in
      case writeMsgId ty pl of None \<Rightarrow> (None, s)
      | Some msgId \<Rightarrow> if msgId = [] then (None, s)
        else (let epoch = openEpoch expectedEpoch topicBig s;
                  key = flightKey topicBig rootHex epoch;
                  f = (case mget (flights s) key of Some f \<Rightarrow> f
                       | None \<Rightarrow> \<lparr>fl_topic = topicBig, fl_root = lc rootHex, fl_epoch = epoch, fl_entries = [], fl_stage = AwaitAck, fl_rounds = 0,
                                  fl_deadline = now + INGEST_ACK_MS, fl_ackTo = lc (idHex (w_nodeId env)), fl_nonce = nonce, fl_merge = False\<rparr>);
                  p = opOf ty;
                  ck = corrKey (idHex topicBig) msgId p;
                  e0 = (case mget (fl_entries f) ck of Some e \<Rightarrow> e
                        | None \<Rightarrow> \<lparr>we_type = ty, we_payload = pl, we_msgId = msgId, we_op = p,
                                   we_attemptId = (case attemptId of Some a \<Rightarrow> if a = [] then attempt else lc a | None \<Rightarrow> attempt),
                                   promotions = 0, tried = []\<rparr>);
                  (got, s1) = flightChainGet ck now s;
                  e = inheritChain (map_option chain_view got) (inheritChain ch e0);
                  f' = f\<lparr>fl_entries := mset_key ck e (fl_entries f)\<rparr> in
              (Some (fl_ackTo f, fl_nonce f, we_attemptId e), s1\<lparr>flights := mset_key key f' (flights s1)\<rparr>)))"

section \<open>Complete\<close>

definition closeEntry :: "corr \<Rightarrow> flight \<Rightarrow> flight option" where
  "closeEntry ck f = (let es = mdelete ck (fl_entries f) in if es = [] then None else Some (f\<lparr>fl_entries := es\<rparr>))"

definition ack_binds :: "corr \<Rightarrow> string option \<Rightarrow> int \<Rightarrow> flight \<Rightarrow> bool" where
  "ack_binds ck fromH ackEpoch f \<longleftrightarrow> mhas (fl_entries f) ck \<and> fromH = Some (fl_root f) \<and> (fl_epoch f = 0 \<or> ackEpoch = fl_epoch f)"

definition update_flights :: "(fkey \<Rightarrow> flight \<Rightarrow> flight option) \<Rightarrow> wstate \<Rightarrow> wstate" where
  "update_flights g s = s\<lparr>flights := List.map_filter (\<lambda>(k, f). map_option (\<lambda>f'. (k, f')) (g k f)) (flights s)\<rparr>"

definition fromHex_of :: "keyspace \<Rightarrow> js \<Rightarrow> string option" where
  "fromHex_of ks fromId = (case asId ks fromId of Inl _ \<Rightarrow> None | Inr b \<Rightarrow> Some (lc (idHex b)))"

definition flightComplete :: "wenv \<Rightarrow> string \<Rightarrow> string \<Rightarrow> string \<Rightarrow> js \<Rightarrow> int \<Rightarrow> wstate \<Rightarrow> out list \<times> wstate" where
  "flightComplete env topicHex msgId p fromId ackEpoch s =
     (let ck = corrKey topicHex msgId p; fromH = fromHex_of (w_ks env) fromId in
      (concat (map (\<lambda>(k, f). if mhas (fl_entries f) ck \<and> fromH = Some (fl_root f) \<and> fl_epoch f \<noteq> 0 \<and> ackEpoch \<noteq> fl_epoch f \<and> fl_merge f
                             then [MergeReminted k ackEpoch] else []) (flights s)),
       update_flights (\<lambda>k f. if ack_binds ck fromH ackEpoch f then closeEntry ck f else Some f) s))"

text \<open>Completion by a verified signed proof: attempt, reply address, nonce, epoch and authority must bind.\<close>

definition proof_binds :: "keyspace \<Rightarrow> (bytes \<Rightarrow> bytes) \<Rightarrow> corr \<Rightarrow> ack_ok \<Rightarrow> flight \<Rightarrow> bool" where
  "proof_binds ks dig ck pf f = (case mget (fl_entries f) ck of None \<Rightarrow> False
     | Some e \<Rightarrow> we_attemptId e = lc (f_attemptId pf) \<and> fl_ackTo f = lc (f_ackTo pf) \<and> fl_nonce f = lc (f_flightNonce pf)
         \<and> (fl_epoch f = 0 \<or> f_epoch pf = jint (fl_epoch f))
         \<and> (case asId ks (JStr (fl_root f)) of Inl _ \<Rightarrow> False | Inr rootBig \<Rightarrow> rootPubMatchesNodeHash ks dig (f_rootPub pf) rootBig))"

text \<open>The proof handed over is one that \<open>verifyAckProof\<close> accepted, so its operation has a text, which is what the template of the correlation key
  makes of it. The code awaits the digest of the key between the tests of an entry and its removal; here that is one step.\<close>

definition proof_key :: "ack_ok \<Rightarrow> corr" where
  "proof_key pf = corrKey (f_topicId pf) (f_msgId pf) (case op_text (f_op pf) of Some q \<Rightarrow> q | None \<Rightarrow> [])"

definition flightCompleteSigned :: "wenv \<Rightarrow> (bytes \<Rightarrow> bytes) \<Rightarrow> ack_ok \<Rightarrow> wstate \<Rightarrow> wstate" where
  "flightCompleteSigned env dig pf s =
     (let ck = proof_key pf in
      update_flights (\<lambda>k f. if proof_binds (w_ks env) dig ck pf f then closeEntry ck f else Some f) s)"

text \<open>The handler: a frame with a signature is a proof, any other one is the unsigned one-hop ack, which is
  also recorded, the newest 512 of them; a frame whose ids are not strings is \<open>BadAck\<close>.\<close>

datatype ack_msg = SignedAck ack_frame | PlainAck string string string js | BadAck

definition noteAck :: "corr \<Rightarrow> int \<Rightarrow> int \<Rightarrow> js \<Rightarrow> wstate \<Rightarrow> wstate" where
  "noteAck ck epoch now fromId s = (let m = mset_key ck (epoch, now, fromId) (ingestAcks s) in s\<lparr>ingestAcks := drop (length m - 512) m\<rparr>)"

definition onIngestAck :: "wenv \<Rightarrow> (bytes \<Rightarrow> bytes) \<Rightarrow> vrf \<Rightarrow> int \<Rightarrow> ack_msg \<Rightarrow> js \<Rightarrow> wstate \<Rightarrow> out list \<times> wstate" where
  "onIngestAck env dig vrf now m fromId s = (case m of
      SignedAck k \<Rightarrow> (case verifyAckProof vrf k of Inl _ \<Rightarrow> ([], s) | Inr pf \<Rightarrow> ([], flightCompleteSigned env dig pf s))
    | PlainAck topicHex msgId p ep \<Rightarrow>
        if p \<noteq> ''kill'' \<and> p \<noteq> ''pub'' then ([], s)
        else (let epoch = (if num_is_integer ep \<and> num_int ep \<ge> 0 then num_int ep else 0) in
              flightComplete env topicHex msgId p fromId epoch (noteAck (corrKey topicHex msgId p) epoch now fromId s))
    | BadAck \<Rightarrow> ([], s))"

section \<open>Probe answers\<close>

datatype receipt = IngestAckOut string string int string | ReceiptNackOut string string string

text \<open>The root's side: \<open>held\<close> says whether the role has the message in its cache or as a tombstone.\<close>

definition onReceiptProbe :: "string \<Rightarrow> string \<Rightarrow> string \<Rightarrow> (int \<times> (string \<Rightarrow> bool)) option \<Rightarrow> receipt" where
  "onReceiptProbe topicHex msgId p role =
     (let q = (if p = ''kill'' then ''kill'' else ''pub'') in
      case role of None \<Rightarrow> ReceiptNackOut topicHex msgId q
      | Some (epoch, held) \<Rightarrow> if held msgId then IngestAckOut topicHex msgId epoch q else ReceiptNackOut topicHex msgId q)"

definition stamp :: "flight \<Rightarrow> went \<Rightarrow> string \<times> string \<times> string" where
  "stamp f e = (fl_ackTo f, fl_nonce f, we_attemptId e)"

definition onReceiptNack :: "int \<Rightarrow> int \<Rightarrow> wstate \<Rightarrow> out list \<times> wstate" where
  "onReceiptNack topicBig now s =
     (concat (map (\<lambda>(k, f). if fl_topic f = topicBig \<and> fl_stage f = Probing
        then map (\<lambda>(ck, e). SendWrite (we_type e) (we_payload e) (fl_root f) (Some (stamp f e))) (fl_entries f) else []) (flights s)),
      update_flights (\<lambda>k f. Some (if fl_topic f = topicBig \<and> fl_stage f = Probing
        then f\<lparr>fl_stage := Retrying, fl_deadline := now + INGEST_ACK_MS\<rparr> else f)) s)"

section \<open>Eviction and promotion\<close>

definition tombstoneRoot :: "flight \<Rightarrow> int \<Rightarrow> wstate \<Rightarrow> wstate" where
  "tombstoneRoot f now s =
     (if (case mget (rtombs s) (fl_topic f) of None \<Rightarrow> True | Some (_, ep, _) \<Rightarrow> fl_epoch f \<ge> ep)
      then s\<lparr>rtombs := mset_key (fl_topic f) (fl_root f, fl_epoch f, now + ROOT_TOMBSTONE_TTL_MS) (rtombs s)\<rparr> else s)"

definition dropBeacon :: "flight \<Rightarrow> wstate \<Rightarrow> wstate" where
  "dropBeacon f s = (case mget (beacons s) (fl_topic f) of None \<Rightarrow> s
     | Some (r, ep) \<Rightarrow> if lc r = fl_root f \<and> (case ep of None \<Rightarrow> True | Some x \<Rightarrow> x \<le> fl_epoch f)
         then s\<lparr>beacons := mdelete (fl_topic f) (beacons s)\<rparr> else s)"

definition clearWinner :: "flight \<Rightarrow> wstate \<Rightarrow> wstate" where
  "clearWinner f s = (case mget (winners s) (fl_topic f) of None \<Rightarrow> s
     | Some (i, ep) \<Rightarrow> if i = fl_root f \<and> ep \<le> fl_epoch f
         then (let s1 = s\<lparr>winners := mdelete (fl_topic f) (winners s)\<rparr> in
           if mget (holds s1) (fl_topic f) = Some (fl_root f) then s1\<lparr>holds := mdelete (fl_topic f) (holds s1)\<rparr> else s1)
         else s)"

definition endReason :: "int \<Rightarrow> went \<Rightarrow> string option" where
  "endReason now e =
     (if promotions e \<ge> FLIGHT_MAX_PROMOTIONS then Some ''write-flight-promotion-cap''
      else if we_type e = PUB \<and> (case pl_env (we_payload e) of None \<Rightarrow> False
             | Some v \<Rightarrow> checkFreshness v (of_int now) MAX_PUBLISH_SKEW_MS = Some stale_ts)
      then Some ''write-flight-stale'' else None)"

definition excluded :: "flight \<Rightarrow> string list" where
  "excluded f = fl_root f # concat (map (tried \<circ> snd) (fl_entries f))"

definition pick_step :: "wenv \<Rightarrow> int \<Rightarrow> string list \<Rightarrow> js \<Rightarrow> (int \<times> int) option \<Rightarrow> (int \<times> int) option" where
  "pick_step env t ex n best = (case asId (w_ks env) n of Inl _ \<Rightarrow> best
     | Inr nb \<Rightarrow> if nb = w_nodeId env \<or> w_bridge env = Some nb \<or> lc (idHex nb) \<in> set ex then best
         else (let d = nb XOR t in case best of None \<Rightarrow> Some (d, nb) | Some (bd, b) \<Rightarrow> if d < bd then Some (d, nb) else best))"

definition pickNeighbor :: "wenv \<Rightarrow> int \<Rightarrow> string list \<Rightarrow> (int \<times> int) option" where
  "pickNeighbor env t ex = fold (pick_step env t ex) (w_neighbors env) None"

definition pickBest :: "wenv \<Rightarrow> int \<Rightarrow> string list \<Rightarrow> int option" where
  "pickBest env t ex = (let selfD = w_nodeId env XOR t in
     case pickNeighbor env t ex of None \<Rightarrow> Some (w_nodeId env)
     | Some (bd, b) \<Rightarrow> if selfD < bd then Some (w_nodeId env) else Some b)"

definition promote_self :: "flight \<Rightarrow> int \<Rightarrow> corr \<times> went \<Rightarrow> out list \<times> wstate \<Rightarrow> out list \<times> wstate" where
  "promote_self f now p r = (case p of (ck, e) \<Rightarrow>
     (fst r @ [IngestSelf (we_type e) (we_payload e)], flightChainNote ck (promotions e + 1) (tried e @ [fl_root f]) now (snd r)))"

definition promote_to :: "wenv \<Rightarrow> string \<Rightarrow> flight \<Rightarrow> int \<Rightarrow> string \<Rightarrow> corr \<times> went \<Rightarrow> out list \<times> wstate \<Rightarrow> out list \<times> wstate" where
  "promote_to env nonce f now bestHex p r = (case p of (ck, e) \<Rightarrow>
     (let c = (promotions e + 1, tried e @ [fl_root f]);
          s1 = flightChainNote ck (fst c) (snd c) now (snd r);
          (m, s2) = flightOpen env now nonce [] (fl_topic f) bestHex (we_type e) (we_payload e) (Some (we_attemptId e)) None (Some c) s1 in
      (fst r @ [SendWrite (we_type e) (we_payload e) bestHex m], s2)))"

definition flightEvict :: "wenv \<Rightarrow> string \<Rightarrow> int \<Rightarrow> fkey \<Rightarrow> flight \<Rightarrow> wstate \<Rightarrow> out list \<times> wstate" where
  "flightEvict env nonce now key f s0 =
     (let s = clearWinner f (dropBeacon f (tombstoneRoot f now (s0\<lparr>flights := mdelete key (flights s0)\<rparr>)));
          ended = filter (\<lambda>(ck, e). endReason now e \<noteq> None) (fl_entries f);
          f1 = f\<lparr>fl_entries := filter (\<lambda>(ck, e). endReason now e = None) (fl_entries f)\<rparr>;
          outs = map (\<lambda>(ck, e). Undeliverable (we_type e) (fl_topic f) (the (endReason now e))) ended in
      if fl_entries f1 = [] then (outs, s)
      else (case pickBest env (fl_topic f) (excluded f1) of
          None \<Rightarrow> (outs @ map (\<lambda>(ck, e). Undeliverable (we_type e) (fl_topic f) ''no-live-holder'') (fl_entries f1), s)
        | Some best \<Rightarrow>
            if best = w_nodeId env then fold (promote_self f1 now) (fl_entries f1) (outs, s)
            else fold (promote_to env nonce f1 now (lc (idHex best))) (fl_entries f1) (outs, s)))"

section \<open>The sweep\<close>

definition set_flight :: "fkey \<Rightarrow> flight \<Rightarrow> wstate \<Rightarrow> wstate" where
  "set_flight k f s = s\<lparr>flights := mset_key k f (flights s)\<rparr>"

definition probe_flight :: "flight \<Rightarrow> int \<Rightarrow> flight" where
  "probe_flight f now = f\<lparr>fl_stage := Probing, fl_rounds := fl_rounds f + 1, fl_deadline := now + FLIGHT_PROBE_MS\<rparr>"

definition sweep_flight :: "wenv \<Rightarrow> (fkey \<Rightarrow> string) \<Rightarrow> int \<Rightarrow> fkey \<Rightarrow> out list \<times> wstate \<Rightarrow> out list \<times> wstate" where
  "sweep_flight env nonce now key r = (case mget (flights (snd r)) key of None \<Rightarrow> r
     | Some f \<Rightarrow>
       if now < fl_deadline f then r
       else (case fl_stage f of
           Probing \<Rightarrow> (let (o', s') = flightEvict env (nonce key) now key f (snd r) in (fst r @ o', s'))
         | _ \<Rightarrow>
           let silent = (if fl_merge f \<and> fl_stage f = AwaitAck \<and> fl_rounds f = 0 then [MergeSilent key] else []) in
           if fl_rounds f \<ge> FLIGHT_MAX_ROUNDS
           then (let (o', s') = flightEvict env (nonce key) now key f (snd r) in (fst r @ silent @ o', s'))
           else (case fl_entries f of
               [] \<Rightarrow> (fst r @ silent, (snd r)\<lparr>flights := mdelete key (flights (snd r))\<rparr>)
             | (_, first) # _ \<Rightarrow> (case asId (w_ks env) (JStr (fl_root f)) of
                 Inl _ \<Rightarrow> (fst r @ silent, (snd r)\<lparr>flights := mdelete key (flights (snd r))\<rparr>)
               | Inr rootBig \<Rightarrow> (fst r @ silent @ [Probe rootBig (fl_topic f) (we_msgId first) (we_op first)],
                   set_flight key (probe_flight f now) (snd r))))))"

definition flightSweep :: "wenv \<Rightarrow> (fkey \<Rightarrow> string) \<Rightarrow> int \<Rightarrow> wstate \<Rightarrow> out list \<times> wstate" where
  "flightSweep env nonce now s = fold (sweep_flight env nonce now) (mkeys (flights s)) ([], s)"

definition rootTombstoned :: "int \<Rightarrow> string \<Rightarrow> int option \<Rightarrow> int \<Rightarrow> wstate \<Rightarrow> bool \<times> wstate" where
  "rootTombstoned topicBig rootHex epoch now s = (case mget (rtombs s) topicBig of None \<Rightarrow> (False, s)
     | Some (r, ep, x) \<Rightarrow> if now \<ge> x then (False, s\<lparr>rtombs := mdelete topicBig (rtombs s)\<rparr>)
         else (lc rootHex = r \<and> (case epoch of None \<Rightarrow> 0 | Some e \<Rightarrow> e) \<le> ep, s))"

end
