(* ===== verification/FrameLaws.thy ===== *)
theory FrameLaws
  imports SignedFrames
begin

text \<open>
  What a signature over one of the three transcripts proves. Each transcript determines its fields, the
  three kinds and the JSON cores of the pub/sub objects never coincide, and so a frame that verifies
  under a key was signed with exactly the fields the verifier reads.
\<close>

section \<open>Shapes\<close>

lemma field_bytes_length: "field_bytes n f = Some b \<Longrightarrow> length b = n"
  by (auto simp: field_bytes_def split: fieldv.splits option.splits if_splits)

lemma buildTranscript_Inr:
  assumes "buildTranscript f = Inr t"
  shows "\<exists>tb mb ab kb nb pb. isPurpose (a_purpose f) \<and> isOp (a_op f) \<and> field_bytes ID_BYTES (a_topicId f) = Some tb
     \<and> field_bytes MSG_ID_BYTES (a_msgId f) = Some mb \<and> num_is_safe (a_epoch f) \<and> 0 \<le> num_int (a_epoch f)
     \<and> field_bytes ATTEMPT_ID_BYTES (a_attemptId f) = Some ab \<and> field_bytes ID_BYTES (a_ackTo f) = Some kb
     \<and> field_bytes FLIGHT_NONCE_BYTES (a_flightNonce f) = Some nb \<and> field_bytes ROOT_PUB_BYTES (a_rootPub f) = Some pb
     \<and> t = DOMAIN @ u8 (a_purpose f) @ u8 (a_op f) @ tb @ mb @ u64be (num_int (a_epoch f)) @ ab @ kb @ nb @ pb"
  using assms by (auto simp: buildTranscript_def simp del: num_is_safe.simps split: if_splits option.splits)

lemma u8_simps [simp]: "length (u8 n) = 1"
  by (simp add: u8_def)

lemma u8_inj: "u8 m = u8 n \<Longrightarrow> 0 \<le> m \<Longrightarrow> m < 256 \<Longrightarrow> 0 \<le> n \<Longrightarrow> n < 256 \<Longrightarrow> m = n"
proof -
  assume a: "u8 m = u8 n" "0 \<le> m" "m < 256" "0 \<le> n" "n < 256"
  then have "uint (word_of_int m :: byte) = uint (word_of_int n :: byte)" by (simp add: u8_def)
  then show ?thesis using a by (simp only: uint_word_of_int) simp
qed

lemma safe_u64: "num_is_safe v \<Longrightarrow> num_int v < 2 ^ 64"
  by (auto simp: is_safe_integer_def max_safe_integer_def)

text \<open>What a transcript says: the fields, decoded.\<close>

definition ack_says :: "ack_fields \<Rightarrow> int \<times> int \<times> bytes option \<times> bytes option \<times> int \<times> bytes option \<times> bytes option \<times> bytes option \<times> bytes option" where
  "ack_says f = (a_purpose f, a_op f, field_bytes ID_BYTES (a_topicId f), field_bytes MSG_ID_BYTES (a_msgId f), num_int (a_epoch f),
     field_bytes ATTEMPT_ID_BYTES (a_attemptId f), field_bytes ID_BYTES (a_ackTo f), field_bytes FLIGHT_NONCE_BYTES (a_flightNonce f),
     field_bytes ROOT_PUB_BYTES (a_rootPub f))"

lemma ack_transcript_inj:
  assumes "buildTranscript f = Inr t" "buildTranscript g = Inr t"
  shows "ack_says f = ack_says g"
proof -
  obtain tb mb ab kb nb pb where f: "isPurpose (a_purpose f)" "isOp (a_op f)" "field_bytes ID_BYTES (a_topicId f) = Some tb"
     "field_bytes MSG_ID_BYTES (a_msgId f) = Some mb" "num_is_safe (a_epoch f)" "0 \<le> num_int (a_epoch f)"
     "field_bytes ATTEMPT_ID_BYTES (a_attemptId f) = Some ab" "field_bytes ID_BYTES (a_ackTo f) = Some kb"
     "field_bytes FLIGHT_NONCE_BYTES (a_flightNonce f) = Some nb" "field_bytes ROOT_PUB_BYTES (a_rootPub f) = Some pb"
     "t = DOMAIN @ u8 (a_purpose f) @ u8 (a_op f) @ tb @ mb @ u64be (num_int (a_epoch f)) @ ab @ kb @ nb @ pb"
    using buildTranscript_Inr [OF assms(1)] by blast
  obtain tb' mb' ab' kb' nb' pb' where g: "isPurpose (a_purpose g)" "isOp (a_op g)" "field_bytes ID_BYTES (a_topicId g) = Some tb'"
     "field_bytes MSG_ID_BYTES (a_msgId g) = Some mb'" "num_is_safe (a_epoch g)" "0 \<le> num_int (a_epoch g)"
     "field_bytes ATTEMPT_ID_BYTES (a_attemptId g) = Some ab'" "field_bytes ID_BYTES (a_ackTo g) = Some kb'"
     "field_bytes FLIGHT_NONCE_BYTES (a_flightNonce g) = Some nb'" "field_bytes ROOT_PUB_BYTES (a_rootPub g) = Some pb'"
     "t = DOMAIN @ u8 (a_purpose g) @ u8 (a_op g) @ tb' @ mb' @ u64be (num_int (a_epoch g)) @ ab' @ kb' @ nb' @ pb'"
    using buildTranscript_Inr [OF assms(2)] by blast
  have l: "length tb = length tb'" "length mb = length mb'" "length ab = length ab'" "length kb = length kb'" "length nb = length nb'" "length pb = length pb'"
    using f(3,4,7-10) g(3,4,7-10) by (auto dest!: field_bytes_length)
  have e: "u8 (a_purpose f) = u8 (a_purpose g) \<and> u8 (a_op f) = u8 (a_op g) \<and> tb = tb' \<and> mb = mb'
      \<and> u64be (num_int (a_epoch f)) = u64be (num_int (a_epoch g)) \<and> ab = ab' \<and> kb = kb' \<and> nb = nb' \<and> pb = pb'"
    using f(11) g(11) l by simp
  have "a_purpose f = a_purpose g" "a_op f = a_op g"
    using e f(1,2) g(1,2) by (auto intro!: u8_inj simp: isPurpose_def isOp_def)
  moreover have "num_int (a_epoch f) = num_int (a_epoch g)"
    using e f(5,6) g(5,6) safe_u64 by (intro u64be_inj) auto
  ultimately show ?thesis using e f g by (simp add: ack_says_def)
qed

lemma buildCap_Inr:
  assumes "buildCapTranscript n d = Inr t"
  shows "\<exists>nb. field_bytes ID_BYTES n = Some nb \<and> length d = 32
     \<and> t = CAP_DOMAIN @ u8 (int (length (utf8 WRITE_FLIGHT_ACK_V1))) @ utf8 WRITE_FLIGHT_ACK_V1 @ nb @ d"
  using assms by (auto simp: buildCapTranscript_def CBV_DIGEST_BYTES_def split: option.splits if_splits)

lemma cap_transcript_inj:
  assumes "buildCapTranscript n d = Inr t" "buildCapTranscript n' d' = Inr t"
  shows "field_bytes ID_BYTES n = field_bytes ID_BYTES n' \<and> d = d'"
  using buildCap_Inr [OF assms(1)] buildCap_Inr [OF assms(2)] by (auto dest: field_bytes_length)

lemma handoff_Some:
  assumes "handoffTranscript a b c d e = Some t"
  shows "\<exists>ab cb db. hexToBytes (lc a) (Some 33) = Some ab \<and> hexToBytes (lc c) (Some 33) = Some cb \<and> hexToBytes (lc d) (Some 33) = Some db
     \<and> 1 \<le> length (utf8 b) \<and> length (utf8 b) \<le> 255 \<and> length ab = 33 \<and> length cb = 33 \<and> length db = 33
     \<and> t = HANDOFF_DOMAIN @ u8 (int (length (utf8 b))) @ utf8 b @ ab @ cb @ db @ u32be e"
  using assms
  by (auto simp: handoffTranscript_def Let_def not_less Suc_le_eq dest!: hexToBytes_Some split: if_splits option.splits)

lemma handoff_transcript_inj:
  assumes "handoffTranscript a b c d e = Some t" "handoffTranscript a' b' c' d' e' = Some t"
  shows "b = b' \<and> hexToBytes (lc a) (Some 33) = hexToBytes (lc a') (Some 33) \<and> hexToBytes (lc c) (Some 33) = hexToBytes (lc c') (Some 33)
    \<and> hexToBytes (lc d) (Some 33) = hexToBytes (lc d') (Some 33) \<and> e mod 2 ^ 32 = e' mod 2 ^ 32"
proof -
  from handoff_Some [OF assms(1)] obtain x y z where 1: "hexToBytes (lc a) (Some 33) = Some x" "hexToBytes (lc c) (Some 33) = Some y" "hexToBytes (lc d) (Some 33) = Some z"
     "1 \<le> length (utf8 b)" "length (utf8 b) \<le> 255" "length x = 33" "length y = 33" "length z = 33"
     "t = HANDOFF_DOMAIN @ u8 (int (length (utf8 b))) @ utf8 b @ x @ y @ z @ u32be e" by blast
  from handoff_Some [OF assms(2)] obtain x' y' z' where 2: "hexToBytes (lc a') (Some 33) = Some x'" "hexToBytes (lc c') (Some 33) = Some y'" "hexToBytes (lc d') (Some 33) = Some z'"
     "1 \<le> length (utf8 b')" "length (utf8 b') \<le> 255" "length x' = 33" "length y' = 33" "length z' = 33"
     "t = HANDOFF_DOMAIN @ u8 (int (length (utf8 b'))) @ utf8 b' @ x' @ y' @ z' @ u32be e'" by blast
  have u: "u8 (int (length (utf8 b))) = u8 (int (length (utf8 b')))" "utf8 b @ x @ y @ z @ u32be e = utf8 b' @ x' @ y' @ z' @ u32be e'"
    using 1(9) 2(9) by simp_all
  have "length (utf8 b) = length (utf8 b')" using u8_inj [OF u(1)] 1(5) 2(5) by simp
  with u(2) 1 2 have "utf8 b = utf8 b' \<and> x = x' \<and> y = y' \<and> z = z' \<and> u32be e = u32be e'" by simp
  then show ?thesis using 1 2 utf8_inj u32be_inj by metis
qed

section \<open>Domain separation\<close>

text \<open>Everything a node key signs: the three transcripts and JSON cores.\<close>

definition ack_transcripts :: "ack_fields set \<Rightarrow> bytes set" where
  "ack_transcripts F = {t. \<exists>f \<in> F. buildTranscript f = Inr t}"

definition cap_transcripts :: "(fieldv \<times> bytes) set \<Rightarrow> bytes set" where
  "cap_transcripts C = {t. \<exists>(n, d) \<in> C. buildCapTranscript n d = Inr t}"

definition handoff_transcripts :: "(string \<times> string \<times> string \<times> string \<times> int) set \<Rightarrow> bytes set" where
  "handoff_transcripts H = {t. \<exists>(a, b, c, d, e) \<in> H. handoffTranscript a b c d e = Some t}"

definition json_cores :: "bytes set" where
  "json_cores = {t. \<exists>s. t = utf8 (CHR ''{'' # s)}"

definition tag :: "bytes \<Rightarrow> bytes" where
  "tag t = take 13 t"

definition ack_tag :: bytes where "ack_tag = utf8 ''AXONA_INGEST_''"

definition cap_tag :: bytes where "cap_tag = utf8 ''AXONA_CAP_ATT''"

definition handoff_tag :: bytes where "handoff_tag = utf8 ''AXONA_HANDOFF''"

lemmas tag_defs = ack_tag_def cap_tag_def handoff_tag_def tag_def utf8_char_def

lemma tag_ack: "buildTranscript f = Inr t \<Longrightarrow> tag t = ack_tag"
  by (drule buildTranscript_Inr) (auto simp: tag_defs DOMAIN_def)

lemma tag_cap: "buildCapTranscript n d = Inr t \<Longrightarrow> tag t = cap_tag"
  by (drule buildCap_Inr) (auto simp: tag_defs CAP_DOMAIN_def)

lemma tag_handoff: "handoffTranscript a b c d e = Some t \<Longrightarrow> tag t = handoff_tag"
  by (drule handoff_Some) (auto simp: tag_defs HANDOFF_DOMAIN_def)

lemma tag_json: "t \<in> json_cores \<Longrightarrow> \<exists>r. tag t = 123 # r"
  by (auto simp: json_cores_def tag_defs)

lemma tags_differ: "ack_tag \<noteq> cap_tag" "ack_tag \<noteq> handoff_tag" "cap_tag \<noteq> handoff_tag"
  "ack_tag \<noteq> 123 # r" "cap_tag \<noteq> 123 # r" "handoff_tag \<noteq> 123 # r"
  by (simp_all add: tag_defs)

lemma set_tags: "t \<in> ack_transcripts F \<Longrightarrow> tag t = ack_tag" "t \<in> cap_transcripts C \<Longrightarrow> tag t = cap_tag"
  "t \<in> handoff_transcripts H \<Longrightarrow> tag t = handoff_tag"
  by (auto simp: ack_transcripts_def cap_transcripts_def handoff_transcripts_def tag_ack tag_cap tag_handoff)

definition all_signed :: "ack_fields set \<Rightarrow> (fieldv \<times> bytes) set \<Rightarrow> (string \<times> string \<times> string \<times> string \<times> int) set \<Rightarrow> bytes set" where
  "all_signed F C H = ack_transcripts F \<union> cap_transcripts C \<union> handoff_transcripts H \<union> json_cores"

lemma signed_kind:
  assumes "t \<in> all_signed F C H"
  shows "tag t = ack_tag \<Longrightarrow> t \<in> ack_transcripts F" "tag t = cap_tag \<Longrightarrow> t \<in> cap_transcripts C"
    "tag t = handoff_tag \<Longrightarrow> t \<in> handoff_transcripts H"
  using assms tags_differ set_tags tag_json unfolding all_signed_def by (metis UnE)+

lemma signed_ack:
  assumes "buildTranscript f = Inr t" "t \<in> all_signed F C H"
  shows "\<exists>g \<in> F. ack_says g = ack_says f"
proof -
  have "t \<in> ack_transcripts F" by (rule signed_kind(1) [OF assms(2) tag_ack [OF assms(1)]])
  then obtain g where "g \<in> F" "buildTranscript g = Inr t" unfolding ack_transcripts_def by blast
  then show ?thesis using ack_transcript_inj [OF _ assms(1)] by blast
qed

lemma signed_cap:
  assumes "buildCapTranscript n d = Inr t" "t \<in> all_signed F C H"
  shows "\<exists>n'. (n', d) \<in> C \<and> field_bytes ID_BYTES n' = field_bytes ID_BYTES n"
proof -
  have "t \<in> cap_transcripts C" by (rule signed_kind(2) [OF assms(2) tag_cap [OF assms(1)]])
  then obtain n' d' where "(n', d') \<in> C" "buildCapTranscript n' d' = Inr t" unfolding cap_transcripts_def by blast
  then show ?thesis using cap_transcript_inj [OF _ assms(1)] by blast
qed

lemma signed_handoff:
  assumes "handoffTranscript a b c d e = Some t" "t \<in> all_signed F C H"
  shows "\<exists>a' c' d' e'. (a', b, c', d', e') \<in> H \<and> hexToBytes (lc a') (Some 33) = hexToBytes (lc a) (Some 33)
      \<and> hexToBytes (lc c') (Some 33) = hexToBytes (lc c) (Some 33) \<and> hexToBytes (lc d') (Some 33) = hexToBytes (lc d) (Some 33)
      \<and> e' mod 2 ^ 32 = e mod 2 ^ 32"
proof -
  have "t \<in> handoff_transcripts H" by (rule signed_kind(3) [OF assms(2) tag_handoff [OF assms(1)]])
  then obtain a' b' c' d' e' where h: "(a', b', c', d', e') \<in> H" "handoffTranscript a' b' c' d' e' = Some t"
    unfolding handoff_transcripts_def by blast
  from handoff_transcript_inj [OF h(2) assms(1)] h(1) show ?thesis by blast
qed

section \<open>Lower case\<close>

lemma hex_lower_char [simp]: "is_hex_char (lower_char c) = is_hex_char c"
proof (cases "(65 \<le> (of_char c :: nat) \<and> (of_char c :: nat) \<le> 90) \<or> (192 \<le> (of_char c :: nat) \<and> (of_char c :: nat) \<le> 222 \<and> (of_char c :: nat) \<noteq> 215)")
  case True
  then have "(of_char (lower_char c) :: nat) = of_char c + 32" by (auto simp: lower_char_def Let_def)
  then show ?thesis using True unfolding is_hex_char_def Let_def by auto
next
  case False
  then have "lower_char c = c" unfolding lower_char_def Let_def by presburger
  then show ?thesis by simp
qed

lemma hexv_lower_char: "is_hex_char c \<Longrightarrow> hexv (lower_char c) = hexv c"
  by (metis hexd_hexv hexv_hexd hexv_less)

lemma lc_simps [simp]: "lc [] = []" "lc (c # s) = lower_char c # lc s" "length (lc s) = length s" "lc s = [] \<longleftrightarrow> s = []"
  by (simp_all add: lc_def)

lemma hex_lc [simp]: "list_all is_hex_char (lc s) = list_all is_hex_char s"
  by (induction s) simp_all

lemma unhex_lc: "list_all is_hex_char s \<Longrightarrow> unhex (lc s) = unhex s"
  by (induction s rule: unhex.induct) (simp_all add: hexv_lower_char)

lemma hexToBytes_lc [simp]: "hexToBytes (lc s) w = hexToBytes s w"
  by (cases w) (simp_all add: hexToBytes_def unhex_lc)

lemma lower_hex: "is_hex_char c \<Longrightarrow> is_lower_hex_char (lower_char c)"
  by (metis hexd_hexv hexv_less is_lower_hex_hexd)

lemma lower_hex_lc: "list_all is_hex_char s \<Longrightarrow> list_all is_lower_hex_char (lc s)"
  by (induction s) (simp_all add: lower_hex)

lemma field_bytes_hex [simp]: "field_bytes n (FHex h) = hexToBytes h (Some n)"
  by (auto simp: field_bytes_def dest: hexToBytes_Some split: option.split)

lemma field_bytes_text:
  "field_bytes n f = Some b \<Longrightarrow> 0 < n \<Longrightarrow> hexToBytes (field_lc f) (Some n) = Some b"
  "field_bytes n f = Some b \<Longrightarrow> 0 < n \<Longrightarrow> hexToBytes (field_text f) (Some n) = Some b"
proof -
  have bytes: "length b = n \<Longrightarrow> 0 < n \<Longrightarrow> hexToBytes (bytesToHex b) (Some n) = Some b" by (rule hexToBytes_bytesToHex) auto
  assume a: "field_bytes n f = Some b" "0 < n"
  show "hexToBytes (field_lc f) (Some n) = Some b"
    using a bytes by (cases f) (simp_all add: field_lc_def, simp add: field_bytes_def split: if_splits)
  show "hexToBytes (field_text f) (Some n) = Some b"
    using a bytes by (cases f) (simp_all add: field_text_def, simp add: field_bytes_def split: if_splits)
qed

section \<open>Ack proofs\<close>

lemma verifyAck_Inr:
  assumes "verifyAckProof vrf k = Inr r"
  shows "\<exists>q sig t. OP (k_op k) = Some q \<and> isPurpose (k_purpose k) \<and> hexToBytes (k_sig k) (Some 64) = Some sig
     \<and> hexToBytes (k_rootPub k) (Some ROOT_PUB_BYTES) = Some (f_rootPub r) \<and> buildTranscript (frame_fields k q (f_rootPub r)) = Inr t
     \<and> vrf (f_rootPub r) t sig = Some True
     \<and> r = \<lparr>f_purpose = k_purpose k, f_op = k_op k, f_topicId = lc (k_topicId k), f_msgId = k_msgId k,
            f_epoch = k_epoch k, f_attemptId = lc (k_attemptId k), f_ackTo = lc (k_ackTo k),
            f_flightNonce = lc (k_flightNonce k), f_rootPub = f_rootPub r\<rparr>"
  using assms by (auto simp: verifyAckProof_def split: option.splits if_splits sum.splits bool.splits)

text \<open>An instance for the witnesses: one set of fields, and a verifier that accepts exactly its transcript.\<close>

definition demo_fields :: ack_fields where
  "demo_fields = \<lparr>a_purpose = 1, a_op = 1, a_topicId = FBytes (replicate 33 7), a_msgId = FBytes (replicate 32 9), a_epoch = jint 3,
     a_attemptId = FBytes (replicate 16 1), a_ackTo = FBytes (replicate 33 2), a_flightNonce = FBytes (replicate 16 4),
     a_rootPub = FBytes (replicate 32 5)\<rparr>"

definition demo_vrf :: vrf where
  "demo_vrf pub t s = Some (Inr t = buildTranscript demo_fields \<and> s = replicate 64 0)"

definition demo_frame :: ack_frame where
  "demo_frame = (case signAckProof (Some (\<lambda>_. replicate 64 0)) demo_fields of Inr k \<Rightarrow> k)"

lemma demo_builds: "\<exists>t. buildTranscript demo_fields = Inr t"
  by (simp add: buildTranscript_def demo_fields_def isPurpose_def isOp_def field_bytes_def ID_BYTES_def MSG_ID_BYTES_def
      ATTEMPT_ID_BYTES_def FLIGHT_NONCE_BYTES_def ROOT_PUB_BYTES_def is_safe_integer_def max_safe_integer_def)

lemma demo_signed: "signAckProof (Some (\<lambda>_. replicate 64 0)) demo_fields = Inr demo_frame"
  using demo_builds by (auto simp: demo_frame_def signAckProof_def Let_def)

lemma OP_NAME_inv: "isOp q \<Longrightarrow> OP (JStr (OP_NAME q)) = Some q"
  by (auto simp: isOp_def OP_def OP_NAME_def)

lemma signAck_Inr:
  assumes "signAckProof (Some sg) f = Inr k"
  shows "\<exists>t. buildTranscript f = Inr t \<and> length (sg t) = 64
     \<and> k = \<lparr>k_purpose = a_purpose f, k_op = JStr (OP_NAME (a_op f)), k_topicId = field_lc (a_topicId f), k_msgId = field_text (a_msgId f),
            k_epoch = a_epoch f, k_attemptId = field_lc (a_attemptId f), k_ackTo = field_lc (a_ackTo f),
            k_flightNonce = field_lc (a_flightNonce f), k_rootPub = field_lc (a_rootPub f), k_sig = bytesToHex (sg t)\<rparr>"
  using assms by (auto simp: signAckProof_def Let_def split: sum.splits if_splits)

text \<open>Rebuilding a transcript from the text of its own fields gives the same bytes.\<close>

lemma rebuild:
  assumes "buildTranscript f = Inr t" "field_bytes ROOT_PUB_BYTES (a_rootPub f) = Some pub"
    and g: "a_purpose g = a_purpose f" "a_op g = a_op f" "a_epoch g = a_epoch f" "a_topicId g = FHex (field_lc (a_topicId f))"
      "a_msgId g = FHex (field_text (a_msgId f))" "a_attemptId g = FHex (field_lc (a_attemptId f))" "a_ackTo g = FHex (field_lc (a_ackTo f))"
      "a_flightNonce g = FHex (field_lc (a_flightNonce f))" "a_rootPub g = FBytes pub"
  shows "buildTranscript g = Inr t"
proof -
  from buildTranscript_Inr [OF assms(1)] obtain tb mb ab kb nb pb where f: "isPurpose (a_purpose f)" "isOp (a_op f)" "field_bytes ID_BYTES (a_topicId f) = Some tb"
     "field_bytes MSG_ID_BYTES (a_msgId f) = Some mb" "num_is_safe (a_epoch f)" "0 \<le> num_int (a_epoch f)"
     "field_bytes ATTEMPT_ID_BYTES (a_attemptId f) = Some ab" "field_bytes ID_BYTES (a_ackTo f) = Some kb"
     "field_bytes FLIGHT_NONCE_BYTES (a_flightNonce f) = Some nb" "field_bytes ROOT_PUB_BYTES (a_rootPub f) = Some pb"
     "t = DOMAIN @ u8 (a_purpose f) @ u8 (a_op f) @ tb @ mb @ u64be (num_int (a_epoch f)) @ ab @ kb @ nb @ pb" by blast
  have "hexToBytes (field_lc (a_topicId f)) (Some ID_BYTES) = Some tb" "hexToBytes (field_text (a_msgId f)) (Some MSG_ID_BYTES) = Some mb"
    "hexToBytes (field_lc (a_attemptId f)) (Some ATTEMPT_ID_BYTES) = Some ab" "hexToBytes (field_lc (a_ackTo f)) (Some ID_BYTES) = Some kb"
    "hexToBytes (field_lc (a_flightNonce f)) (Some FLIGHT_NONCE_BYTES) = Some nb"
    using f by (auto intro!: field_bytes_text simp: ID_BYTES_def MSG_ID_BYTES_def ATTEMPT_ID_BYTES_def FLIGHT_NONCE_BYTES_def)
  moreover have "field_bytes ROOT_PUB_BYTES (FBytes pub) = Some pb" "pb = pub"
    using assms(2) f(10) field_bytes_length [OF assms(2)] by (simp_all add: field_bytes_def)
  ultimately show ?thesis using f g unfolding buildTranscript_def by (simp del: num_is_safe.simps)
qed

lemma demo_verifies: "\<exists>r. verifyAckProof demo_vrf demo_frame = Inr r"
proof -
  obtain t where t: "buildTranscript demo_fields = Inr t" using demo_builds by blast
  have p: "field_bytes ROOT_PUB_BYTES (a_rootPub demo_fields) = Some (replicate 32 5)"
    by (simp add: demo_fields_def field_bytes_def ROOT_PUB_BYTES_def)
  have k: "demo_frame = \<lparr>k_purpose = a_purpose demo_fields, k_op = JStr (OP_NAME (a_op demo_fields)), k_topicId = field_lc (a_topicId demo_fields),
     k_msgId = field_text (a_msgId demo_fields), k_epoch = a_epoch demo_fields, k_attemptId = field_lc (a_attemptId demo_fields),
     k_ackTo = field_lc (a_ackTo demo_fields), k_flightNonce = field_lc (a_flightNonce demo_fields), k_rootPub = field_lc (a_rootPub demo_fields),
     k_sig = bytesToHex (replicate 64 0)\<rparr>" using signAck_Inr [OF demo_signed] by blast
  have "buildTranscript (frame_fields demo_frame (a_op demo_fields) (replicate 32 5)) = Inr t"
    by (rule rebuild [OF t p]) (simp_all add: frame_fields_def k)
  moreover have "hexToBytes (bytesToHex (replicate 64 (0::byte))) (Some 64) = Some (replicate 64 0)" by (rule hexToBytes_bytesToHex) simp_all
  moreover have "hexToBytes (field_lc (a_rootPub demo_fields)) (Some ROOT_PUB_BYTES) = Some (replicate 32 5)"
    by (rule field_bytes_text(1) [OF p]) (simp add: ROOT_PUB_BYTES_def)
  moreover have "isPurpose (a_purpose demo_fields)" "isOp (a_op demo_fields)" using buildTranscript_Inr [OF t] by blast+
  ultimately show ?thesis using OP_NAME_inv t by (simp add: verifyAckProof_def k demo_vrf_def)
qed

text \<open>C15. Authenticity of ack proofs. Suppose that whatever verifies under a root's key is something the root
  signed: ack transcripts of fields in \<open>F\<close>, attestations in \<open>C\<close>, handoffs in \<open>H\<close>, or JSON cores. Then a
  proof that verifies was signed by the root as an ack proof with exactly the purpose, operation,
  topic, message, epoch, attempt, reply address, nonce and key the verifier reads: a NACK cannot pass
  for an ACK, a proof cannot be moved to another flight, and no other signed object passes for one.\<close>

theorem ack_proof_authentic:
  assumes "verifyAckProof vrf k = Inr r"
    and "\<And>t s. vrf (f_rootPub r) t s = Some True \<Longrightarrow> t \<in> all_signed F C H"
  shows "\<exists>f \<in> F. a_purpose f = f_purpose r \<and> OP (f_op r) = Some (a_op f)
     \<and> field_bytes ID_BYTES (a_topicId f) = hexToBytes (f_topicId r) (Some 33)
     \<and> field_bytes MSG_ID_BYTES (a_msgId f) = hexToBytes (f_msgId r) (Some 32)
     \<and> num_int (a_epoch f) = num_int (f_epoch r)
     \<and> field_bytes ATTEMPT_ID_BYTES (a_attemptId f) = hexToBytes (f_attemptId r) (Some 16)
     \<and> field_bytes ID_BYTES (a_ackTo f) = hexToBytes (f_ackTo r) (Some 33)
     \<and> field_bytes FLIGHT_NONCE_BYTES (a_flightNonce f) = hexToBytes (f_flightNonce r) (Some 16)
     \<and> field_bytes ROOT_PUB_BYTES (a_rootPub f) = Some (f_rootPub r)"
proof -
  from verifyAck_Inr [OF assms(1)] obtain q sig t where v: "OP (k_op k) = Some q" "buildTranscript (frame_fields k q (f_rootPub r)) = Inr t"
    "hexToBytes (k_rootPub k) (Some ROOT_PUB_BYTES) = Some (f_rootPub r)" "vrf (f_rootPub r) t sig = Some True"
    and r: "r = \<lparr>f_purpose = k_purpose k, f_op = k_op k, f_topicId = lc (k_topicId k), f_msgId = k_msgId k,
            f_epoch = k_epoch k, f_attemptId = lc (k_attemptId k), f_ackTo = lc (k_ackTo k),
            f_flightNonce = lc (k_flightNonce k), f_rootPub = f_rootPub r\<rparr>" by blast
  from signed_ack [OF v(2) assms(2) [OF v(4)]] obtain f where f: "f \<in> F" "ack_says f = ack_says (frame_fields k q (f_rootPub r))" by blast
  have "length (f_rootPub r) = ROOT_PUB_BYTES" using hexToBytes_Some [OF v(3)] by blast
  then have "field_bytes ROOT_PUB_BYTES (FBytes (f_rootPub r)) = Some (f_rootPub r)" by (simp add: field_bytes_def)
  moreover have "f_purpose r = k_purpose k" "f_op r = k_op k" "f_topicId r = lc (k_topicId k)" "f_msgId r = k_msgId k" "f_epoch r = k_epoch k"
    "f_attemptId r = lc (k_attemptId k)" "f_ackTo r = lc (k_ackTo k)" "f_flightNonce r = lc (k_flightNonce k)"
    by (subst r, simp only: ack_ok.select_convs)+
  ultimately show ?thesis using f v(1)
    by (intro bexI [of _ f]) (simp_all add: ack_says_def frame_fields_def ID_BYTES_def MSG_ID_BYTES_def ATTEMPT_ID_BYTES_def FLIGHT_NONCE_BYTES_def)
qed

theorem ack_proof_authentic_witness:
  "\<exists>f \<in> {demo_fields}. a_purpose f = f_purpose (projr (verifyAckProof demo_vrf demo_frame))"
proof -
  obtain t where t: "buildTranscript demo_fields = Inr t" using demo_builds by blast
  have "verifyAckProof demo_vrf demo_frame = Inr (projr (verifyAckProof demo_vrf demo_frame))"
    using demo_verifies by auto
  moreover have "u \<in> all_signed {demo_fields} {} {}" if "demo_vrf p u s = Some True" for p u s
    using that t by (auto simp: demo_vrf_def all_signed_def ack_transcripts_def)
  ultimately show ?thesis using ack_proof_authentic [of demo_vrf demo_frame _ "{demo_fields}" "{}" "{}"] by fastforce
qed

text \<open>Round trip of ack proofs. What \<open>signAckProof\<close> produces is accepted by \<open>verifyAckProof\<close> whenever the
  verifier accepts the signer's own signatures, and the accepted fields are the signed ones, the ids in
  lower case.\<close>

lemma ack_proof_roundtrip:
  assumes "signAckProof (Some sg) f = Inr k" "field_bytes ROOT_PUB_BYTES (a_rootPub f) = Some pub"
    and "\<And>t. vrf pub t (sg t) = Some True"
  shows "verifyAckProof vrf k = Inr \<lparr>f_purpose = a_purpose f, f_op = JStr (OP_NAME (a_op f)), f_topicId = lc (field_lc (a_topicId f)),
     f_msgId = field_text (a_msgId f), f_epoch = a_epoch f, f_attemptId = lc (field_lc (a_attemptId f)), f_ackTo = lc (field_lc (a_ackTo f)),
     f_flightNonce = lc (field_lc (a_flightNonce f)), f_rootPub = pub\<rparr>"
proof -
  from signAck_Inr [OF assms(1)] obtain t where t: "buildTranscript f = Inr t" "length (sg t) = 64"
    and k: "k = \<lparr>k_purpose = a_purpose f, k_op = JStr (OP_NAME (a_op f)), k_topicId = field_lc (a_topicId f), k_msgId = field_text (a_msgId f),
            k_epoch = a_epoch f, k_attemptId = field_lc (a_attemptId f), k_ackTo = field_lc (a_ackTo f),
            k_flightNonce = field_lc (a_flightNonce f), k_rootPub = field_lc (a_rootPub f), k_sig = bytesToHex (sg t)\<rparr>" by blast
  have p: "isPurpose (a_purpose f)" "isOp (a_op f)" using buildTranscript_Inr [OF t(1)] by blast+
  have "buildTranscript (frame_fields k (a_op f) pub) = Inr t"
    by (rule rebuild [OF t(1) assms(2)]) (simp_all add: frame_fields_def k)
  moreover have "hexToBytes (bytesToHex (sg t)) (Some 64) = Some (sg t)" using t(2) by (intro hexToBytes_bytesToHex) auto
  moreover have "hexToBytes (field_lc (a_rootPub f)) (Some ROOT_PUB_BYTES) = Some pub"
    by (rule field_bytes_text(1) [OF assms(2)]) (simp add: ROOT_PUB_BYTES_def)
  ultimately show ?thesis using p assms(3) OP_NAME_inv by (simp add: verifyAckProof_def k)
qed

text \<open>The operation of an accepted proof is one of the two by its text, not by its value.\<close>

lemma OP_closed: "OP v = Some q \<Longrightarrow> isOp q \<Longrightarrow> op_text v = Some ''pub'' \<or> op_text v = Some ''kill''"
  by (auto simp: OP_def isOp_def split: option.splits if_splits)

lemma OP_in_array: "OP (JArr [v]) = OP v" "op_throws (JArr [v]) = op_throws v"
  by (simp_all add: OP_def)

lemma op_in_array:
  assumes "verifyAckProof vrf k = Inr r"
  shows "verifyAckProof vrf (k\<lparr>k_op := JArr [k_op k]\<rparr>) = Inr (r\<lparr>f_op := JArr [k_op k]\<rparr>)"
proof -
  have "frame_fields (k\<lparr>k_op := v\<rparr>) q pub = frame_fields k q pub" for v q pub by (simp add: frame_fields_def)
  then show ?thesis using assms
    by (auto simp: verifyAckProof_def OP_in_array simp del: op_throws.simps split: option.splits if_splits sum.splits bool.splits)
qed

lemma ack_op_text:
  assumes "verifyAckProof vrf k = Inr r"
  shows "f_op r = k_op k \<and> (op_text (k_op k) = Some ''pub'' \<or> op_text (k_op k) = Some ''kill'')"
proof -
  from verifyAck_Inr [OF assms] obtain q t where v: "OP (k_op k) = Some q" "buildTranscript (frame_fields k q (f_rootPub r)) = Inr t" and r: "f_op r = k_op k"
    by (metis ack_ok.select_convs(2))
  have "isOp q" using buildTranscript_Inr [OF v(2)] by (auto simp: frame_fields_def)
  then show ?thesis using OP_closed [OF v(1)] r by simp
qed

text \<open>C36. Shape of an accepted proof. Every proof \<open>verifyAckProof\<close> accepts has a known purpose, 66
  hex digits of topic and reply address, 32 of attempt and nonce (all in lower case), 64 of message, a
  non-negative safe epoch and a 32-byte key. Its operation is 'pub' or 'kill' by its text only: the lookup does not coerce it and the
  value of the frame is handed on, so that every accepted frame is accepted as well with its operation in an array of one element, and the
  verdict then has that array for the operation.\<close>

theorem ack_ok_shape:
  assumes "verifyAckProof vrf k = Inr r"
  shows "f_purpose r \<in> {1, 2, 3} \<and> length (f_rootPub r) = 32
    \<and> length (f_topicId r) = 66 \<and> list_all is_lower_hex_char (f_topicId r) \<and> length (f_ackTo r) = 66 \<and> list_all is_lower_hex_char (f_ackTo r)
    \<and> length (f_attemptId r) = 32 \<and> list_all is_lower_hex_char (f_attemptId r) \<and> length (f_flightNonce r) = 32 \<and> list_all is_lower_hex_char (f_flightNonce r)
    \<and> length (f_msgId r) = 64 \<and> list_all is_hex_char (f_msgId r) \<and> num_is_safe (f_epoch r) \<and> 0 \<le> num_int (f_epoch r)
    \<and> f_op r = k_op k \<and> op_text (f_op r) \<in> {Some ''pub'', Some ''kill''}
    \<and> verifyAckProof vrf (k\<lparr>k_op := JArr [k_op k]\<rparr>) = Inr (r\<lparr>f_op := JArr [k_op k]\<rparr>)"
proof -
  from verifyAck_Inr [OF assms] obtain q sig t where v: "OP (k_op k) = Some q" "isPurpose (k_purpose k)"
    "hexToBytes (k_rootPub k) (Some ROOT_PUB_BYTES) = Some (f_rootPub r)" "buildTranscript (frame_fields k q (f_rootPub r)) = Inr t"
    and r: "r = \<lparr>f_purpose = k_purpose k, f_op = k_op k, f_topicId = lc (k_topicId k), f_msgId = k_msgId k,
            f_epoch = k_epoch k, f_attemptId = lc (k_attemptId k), f_ackTo = lc (k_ackTo k),
            f_flightNonce = lc (k_flightNonce k), f_rootPub = f_rootPub r\<rparr>" by blast
  have hx: "length h = 2 * n \<and> list_all is_hex_char h" if "hexToBytes h (Some n) = Some b" for h n b
    using hexToBytes_Some [OF that] by auto
  from buildTranscript_Inr [OF v(4)] have b: "length (k_topicId k) = 66 \<and> list_all is_hex_char (k_topicId k)"
    "length (k_msgId k) = 64 \<and> list_all is_hex_char (k_msgId k)" "num_is_safe (k_epoch k)" "0 \<le> num_int (k_epoch k)"
    "length (k_attemptId k) = 32 \<and> list_all is_hex_char (k_attemptId k)" "length (k_ackTo k) = 66 \<and> list_all is_hex_char (k_ackTo k)"
    "length (k_flightNonce k) = 32 \<and> list_all is_hex_char (k_flightNonce k)"
    by (auto simp: frame_fields_def ID_BYTES_def MSG_ID_BYTES_def ATTEMPT_ID_BYTES_def FLIGHT_NONCE_BYTES_def simp del: num_is_safe.simps dest!: hx)
  have "op_text (k_op k) \<in> {Some ''pub'', Some ''kill''}" using ack_op_text [OF assms] by simp
  moreover have "length (f_rootPub r) = 32" using hexToBytes_Some [OF v(3)] unfolding ROOT_PUB_BYTES_def by blast
  moreover have "k_purpose k \<in> {1, 2, 3}" using v(2) by (auto simp: isPurpose_def)
  moreover have "f_purpose r = k_purpose k" "f_op r = k_op k" "f_topicId r = lc (k_topicId k)" "f_msgId r = k_msgId k" "f_epoch r = k_epoch k"
    "f_attemptId r = lc (k_attemptId k)" "f_ackTo r = lc (k_ackTo k)" "f_flightNonce r = lc (k_flightNonce k)"
    by (subst r, simp only: ack_ok.select_convs)+
  ultimately show ?thesis using b op_in_array [OF assms] by (simp add: lower_hex_lc del: num_is_safe.simps)
qed

theorem ack_ok_shape_witness:
  "length (f_topicId (projr (verifyAckProof demo_vrf demo_frame))) = 66
   \<and> f_op (projr (verifyAckProof demo_vrf (demo_frame\<lparr>k_op := JArr [JStr ''pub'']\<rparr>))) = JArr [JStr ''pub'']"
proof -
  have v: "verifyAckProof demo_vrf demo_frame = Inr (projr (verifyAckProof demo_vrf demo_frame))" using demo_verifies by auto
  have "k_op demo_frame = JStr (OP_NAME (a_op demo_fields))" using signAck_Inr [OF demo_signed] by (metis ack_frame.select_convs(2))
  then have "k_op demo_frame = JStr ''pub''" by (simp add: demo_fields_def OP_NAME_def)
  then show ?thesis using ack_ok_shape [OF v] by simp
qed

section \<open>Capability attestations\<close>

lemma verifyCap_Inr:
  assumes "verifyCapAttest dig vrf k (Some key) nid cbv = Inr n"
  shows "\<exists>sig t. n = lc nid \<and> lc (cap_nodeId k) = lc nid \<and> buildCapTranscript (FHex nid) (dig (utf8 cbv)) = Inr t \<and> vrf key t sig = Some True"
  using assms by (auto simp: verifyCapAttest_def cbvDigest_def split: if_splits option.splits sum.splits bool.splits)

text \<open>Authenticity of capability attestations. An attestation is accepted for a channel only if the owner of
  the key proved for that channel itself signed the attestation with its own id and with the digest of
  this channel's binding string: neither another identity's claim nor one made on an earlier channel
  passes. The frame contributes neither the key nor the digest.\<close>

theorem cap_attest_authentic:
  assumes "verifyCapAttest dig vrf k (Some key) nid cbv = Inr n"
    and "\<And>t s. vrf key t s = Some True \<Longrightarrow> t \<in> all_signed F C H"
  shows "n = lc nid \<and> (\<exists>n'. (n', dig (utf8 cbv)) \<in> C \<and> field_bytes ID_BYTES n' = hexToBytes nid (Some 33))"
proof -
  from verifyCap_Inr [OF assms(1)] obtain sig t where v: "n = lc nid" "buildCapTranscript (FHex nid) (dig (utf8 cbv)) = Inr t"
    "vrf key t sig = Some True" by blast
  from signed_cap [OF v(2) assms(2) [OF v(3)]] v(1) show ?thesis by (simp add: ID_BYTES_def)
qed

lemma cap_roundtrip:
  assumes "signCapAttest dig (Some sg) (FHex nid) cbv = Inr k"
    "\<And>t. buildCapTranscript (FHex nid) (dig (utf8 cbv)) = Inr t \<Longrightarrow> vrf key t (sg t) = Some True"
  shows "verifyCapAttest dig vrf k (Some key) nid cbv = Inr (lc nid)"
proof -
  from assms(1) obtain t where t: "cbv \<noteq> []" "buildCapTranscript (FHex nid) (dig (utf8 cbv)) = Inr t" "length (sg t) = 64"
      "k = \<lparr>capId = WRITE_FLIGHT_ACK_V1, cap_nodeId = lc nid, cap_sig = bytesToHex (sg t)\<rparr>"
    by (auto simp: signCapAttest_def cbvDigest_def field_lc_def Let_def split: sum.splits if_splits)
  have "nid \<noteq> []" using buildCap_Inr [OF t(2)] by (auto dest!: hexToBytes_Some)
  moreover have "hexToBytes (bytesToHex (sg t)) (Some 64) = Some (sg t)" using t(3) by (intro hexToBytes_bytesToHex) auto
  moreover have "lc (lc nid) = lc nid"
  proof -
    have "list_all is_hex_char nid" using buildCap_Inr [OF t(2)] by (auto dest!: hexToBytes_Some)
    then show ?thesis by (induction nid) (simp_all, metis hexd_hexv hexv_less hexv_lower_char hex_lower_char)
  qed
  ultimately show ?thesis using t assms(2) by (simp add: verifyCapAttest_def cbvDigest_def)
qed

lemma cap_demo:
  assumes "length nb = 33" "length d = 32"
  shows "\<exists>k. verifyCapAttest (\<lambda>_. d) (\<lambda>p u s. Some (Inr u = buildCapTranscript (FBytes nb) d)) k (Some []) (bytesToHex nb) ''c''
      = Inr (lc (bytesToHex nb))"
proof -
  have "hexToBytes (bytesToHex nb) (Some 33) = Some nb" using assms by (intro hexToBytes_bytesToHex) auto
  then have t: "\<exists>t. buildCapTranscript (FHex (bytesToHex nb)) d = Inr t \<and> buildCapTranscript (FBytes nb) d = Inr t"
    using assms by (simp add: buildCapTranscript_def ID_BYTES_def CBV_DIGEST_BYTES_def field_bytes_def)
  then obtain k where k: "signCapAttest (\<lambda>_. d) (Some (\<lambda>_. replicate 64 0)) (FHex (bytesToHex nb)) ''c'' = Inr k"
    by (auto simp: signCapAttest_def cbvDigest_def)
  show ?thesis by (rule exI [of _ k], rule cap_roundtrip [OF k]) (use t in auto)
qed

theorem cap_attest_authentic_witness:
  "\<exists>n'. (n', replicate 32 (6::byte)) \<in> {(FBytes (replicate 33 7), replicate 32 6)} \<and> field_bytes ID_BYTES n' = hexToBytes (bytesToHex (replicate 33 7)) (Some 33)"
proof -
  define nb d where "nb = replicate 33 (7::byte)" and "d = replicate 32 (6::byte)"
  have l: "length nb = 33" "length d = 32" by (simp_all add: nb_def d_def)
  from cap_demo [OF l] obtain k where
    k: "verifyCapAttest (\<lambda>_. d) (\<lambda>p u s. Some (Inr u = buildCapTranscript (FBytes nb) d)) k (Some []) (bytesToHex nb) ''c'' = Inr (lc (bytesToHex nb))"
    by blast
  have "u \<in> all_signed {} {(FBytes nb, d)} {}" if "Some (Inr u = buildCapTranscript (FBytes nb) d) = Some True" for u
    using that by (simp add: all_signed_def cap_transcripts_def)
  from cap_attest_authentic [OF k this] show ?thesis unfolding nb_def d_def by blast
qed

section \<open>Handoff capabilities\<close>

lemma verifyHandoff_True:
  assumes "verifyHandoff ks dig vrf me f loserHex"
  shows "\<exists>pub loserBig t sig. asId ks (JStr loserHex) = Inr loserBig \<and> rootPubMatchesNodeHash ks dig pub loserBig
     \<and> handoffTranscript (o_topicId f) (o_corr f) loserHex (lc (idHex me)) (if num_is_integer (o_loserEpoch f) then num_int (o_loserEpoch f) else 0) = Some t
     \<and> vrf pub t sig = Some True"
  using assms unfolding verifyHandoff_def
  by (auto simp del: num_is_integer.simps split: if_splits option.splits sum.splits)

text \<open>Authenticity of handoff capabilities. A candidate stages a handover only for an offer that a key hashing
  into the loser's id signed for this round, this topic, this loser, this candidate and this epoch: the
  flag cannot be added to, or moved between, offers.\<close>

theorem handoff_authentic:
  assumes "verifyHandoff ks dig vrf me f loserHex"
    and "\<And>pub loserBig t s. asId ks (JStr loserHex) = Inr loserBig \<Longrightarrow> rootPubMatchesNodeHash ks dig pub loserBig
          \<Longrightarrow> vrf pub t s = Some True \<Longrightarrow> t \<in> all_signed F C H"
  shows "\<exists>topic loser winner epoch. (topic, o_corr f, loser, winner, epoch) \<in> H
     \<and> hexToBytes topic (Some 33) = hexToBytes (o_topicId f) (Some 33) \<and> hexToBytes loser (Some 33) = hexToBytes loserHex (Some 33)
     \<and> hexToBytes winner (Some 33) = hexToBytes (idHex me) (Some 33)
     \<and> (num_is_integer (o_loserEpoch f) \<longrightarrow> epoch mod 2 ^ 32 = num_int (o_loserEpoch f) mod 2 ^ 32)"
proof -
  from verifyHandoff_True [OF assms(1)] obtain pub b t sig where v: "asId ks (JStr loserHex) = Inr b" "rootPubMatchesNodeHash ks dig pub b"
     "handoffTranscript (o_topicId f) (o_corr f) loserHex (lc (idHex me)) (if num_is_integer (o_loserEpoch f) then num_int (o_loserEpoch f) else 0) = Some t"
     "vrf pub t sig = Some True" by blast
  note signed_handoff [OF v(3) assms(2) [OF v(1,2,4)]]
  then show ?thesis by (cases "num_is_integer (o_loserEpoch f)") (simp_all del: num_is_integer.simps, blast)
qed

text \<open>An instance: the all-zero ids, and a verifier that accepts exactly one transcript.\<close>

definition zid :: string where "zid = replicate 66 (CHR ''0'')"

definition zsig :: string where "zsig = replicate 128 (CHR ''0'')"

definition zpub :: string where "zpub = replicate 64 (CHR ''0'')"

definition demo_offer :: offer where
  "demo_offer = \<lparr>o_topicId = zid, o_corr = ''c'', o_loser = zid, o_loserEpoch = jint 1,
     o_handoff = jint 1, o_handoffSig = zsig, o_handoffPub = zpub\<rparr>"

definition demo_hvrf :: vrf where
  "demo_hvrf pub t s = Some (Some t = handoffTranscript zid ''c'' zid zid 1)"

lemma zeros: "lc (idHex 0) = zid" "asId production (JStr zid) = Inr 0" "ps_isHexId zid" "length zsig = 128" "list_all is_lower_hex_char zsig"
  "length zpub = 64" "list_all is_lower_hex_char zpub" "\<exists>b. hexToBytes zid (Some 33) = Some b" "\<exists>b. hexToBytes zsig (Some 64) = Some b"
  "hexToBytes zpub (Some 32) = Some (replicate 32 0)" "rootPubMatchesNodeHash production (\<lambda>_. []) (replicate 32 0) 0"
proof -
  have "hexToBytes zid (Some 33) = Some (replicate 33 0)" "hexToBytes zsig (Some 64) = Some (replicate 64 0)" by code_simp+
  then show "\<exists>b. hexToBytes zid (Some 33) = Some b" "\<exists>b. hexToBytes zsig (Some 64) = Some b" by auto
qed code_simp+

lemma demo_handoff: "\<exists>t. handoffTranscript zid ''c'' zid zid 1 = Some t" "verifyHandoff production (\<lambda>_. []) demo_hvrf 0 demo_offer zid"
proof -
  show t: "\<exists>t. handoffTranscript zid ''c'' zid zid 1 = Some t"
    using zeros(8) by (auto simp: handoffTranscript_def utf8_char_def)
  show "verifyHandoff production (\<lambda>_. []) demo_hvrf 0 demo_offer zid"
    using zeros t by (auto simp: verifyHandoff_def demo_offer_def demo_hvrf_def)
qed

lemma handoff_in: "handoffTranscript a b c d e = Some t \<Longrightarrow> t \<in> all_signed F C {(a, b, c, d, e)}"
  by (simp add: all_signed_def handoff_transcripts_def)

theorem handoff_authentic_witness:
  "\<exists>topic loser winner epoch. (topic, ''c'', loser, winner, epoch) \<in> {(zid, ''c'', zid, zid, 1 :: int)} \<and> hexToBytes winner (Some 33) = hexToBytes (idHex 0) (Some 33)"
proof -
  have "t \<in> all_signed {} {} {(zid, ''c'', zid, zid, 1)}" if "demo_hvrf pub t s = Some True" for pub t s
    using that by (intro handoff_in) (simp add: demo_hvrf_def)
  from handoff_authentic [OF demo_handoff(2) this] show ?thesis by (simp add: demo_offer_def)
qed

end
