(* ===== verification/FlightLaws.thy ===== *)
theory FlightLaws
  imports WriteFlight FrameLaws
begin

text \<open>
  The write flight over every history of its operations: the invariant of its state, the cap on
  promotions, the bound on the life of a flight, the fate of an evicted write, and what completes an
  entry.
\<close>

section \<open>Lookup after an update of every flight\<close>

lemma map_filter_keys: "fst ` set (List.map_filter (\<lambda>(k, f). map_option (\<lambda>f'. (k, f')) (g k f)) m) \<subseteq> fst ` set m"
  by (induction m) (auto simp: map_filter_simps split: option.splits)

lemma minvar_Cons [simp]: "minvar ((k, v) # m) \<longleftrightarrow> k \<notin> fst ` set m \<and> minvar m"
  by (simp add: minvar_def)

lemma map_filter_minvar: "minvar m \<Longrightarrow> minvar (List.map_filter (\<lambda>(k, f). map_option (\<lambda>f'. (k, f')) (g k f)) m)"
proof (induction m)
  case (Cons q m)
  obtain k v where q: "q = (k, v)" by (cases q)
  show ?case using Cons map_filter_keys [of g m] by (auto simp: q map_filter_simps split: option.split)
qed (simp add: map_filter_simps)

lemma mget_map_filter:
  "minvar m \<Longrightarrow> mget (List.map_filter (\<lambda>(k, f). map_option (\<lambda>f'. (k, f')) (g k f)) m) k = (case mget m k of None \<Rightarrow> None | Some f \<Rightarrow> g k f)"
proof (induction m)
  case (Cons q m)
  obtain k' v where q: "q = (k', v)" by (cases q)
  have "k' \<notin> fst ` set m" "minvar m" using Cons.prems by (simp_all add: q)
  moreover from this have "mget m k' = None" by (simp add: mget_None_iff)
  ultimately show ?case using Cons.IH by (auto simp: q map_filter_simps split: option.split)
qed (simp add: map_filter_simps)

lemma get_update_flights:
  "minvar (flights s) \<Longrightarrow> mget (flights (update_flights g s)) k = (case mget (flights s) k of None \<Rightarrow> None | Some f \<Rightarrow> g k f)"
  by (simp add: update_flights_def mget_map_filter)

lemma update_flights_simps [simp]:
  "minvar (flights s) \<Longrightarrow> minvar (flights (update_flights g s))" "chains (update_flights g s) = chains s" "beacons (update_flights g s) = beacons s"
  by (simp_all add: update_flights_def map_filter_minvar)

section \<open>The invariant\<close>

definition went_ok :: "int \<Rightarrow> corr \<Rightarrow> went \<Rightarrow> bool" where
  "went_ok t ck e \<longleftrightarrow> promotions e \<le> FLIGHT_MAX_PROMOTIONS \<and> writeMsgId (we_type e) (we_payload e) = Some (we_msgId e) \<and> we_msgId e \<noteq> []
     \<and> \<not> pl_holdFwd (we_payload e) \<and> we_op e = opOf (we_type e) \<and> ck = corrKey (idHex t) (we_msgId e) (we_op e) \<and> we_attemptId e \<noteq> []"

definition stage_ok :: "flight \<Rightarrow> bool" where
  "stage_ok f \<longleftrightarrow> fl_rounds f \<le> FLIGHT_MAX_ROUNDS \<and> (fl_stage f = AwaitAck \<longleftrightarrow> fl_rounds f = 0)"

definition flight_ok :: "fkey \<Rightarrow> flight \<Rightarrow> bool" where
  "flight_ok k f \<longleftrightarrow> k = (fl_topic f, fl_root f, fl_epoch f) \<and> stage_ok f \<and> fl_entries f \<noteq> [] \<and> minvar (fl_entries f)
     \<and> (\<forall>ck e. mget (fl_entries f) ck = Some e \<longrightarrow> went_ok (fl_topic f) ck e)"

definition wf_ok :: "wstate \<Rightarrow> bool" where
  "wf_ok s \<longleftrightarrow> minvar (flights s) \<and> minvar (chains s) \<and> (\<forall>k f. mget (flights s) k = Some f \<longrightarrow> flight_ok k f)
     \<and> (\<forall>ck c. mget (chains s) ck = Some c \<longrightarrow> ch_promotions c \<le> FLIGHT_MAX_PROMOTIONS)"

lemma wf_cong: "flights s' = flights s \<Longrightarrow> chains s' = chains s \<Longrightarrow> wf_ok s' = wf_ok s"
  by (simp add: wf_ok_def)

lemma wf_frame [simp]:
  "wf_ok (s\<lparr>rtombs := x\<rparr>) = wf_ok s" "wf_ok (s\<lparr>beacons := y\<rparr>) = wf_ok s" "wf_ok (s\<lparr>winners := z\<rparr>) = wf_ok s" "wf_ok (s\<lparr>holds := u\<rparr>) = wf_ok s" "wf_ok (s\<lparr>ingestAcks := v\<rparr>) = wf_ok s"
  by (rule wf_cong; simp)+

lemma wf_evict_prefix [simp]:
  "wf_ok (tombstoneRoot f now s) = wf_ok s" "wf_ok (dropBeacon f s) = wf_ok s" "wf_ok (clearWinner f s) = wf_ok s"
  by (simp_all add: tombstoneRoot_def dropBeacon_def clearWinner_def Let_def split: option.split prod.split)

lemma wf_delete: "wf_ok s \<Longrightarrow> wf_ok (s\<lparr>flights := mdelete k (flights s)\<rparr>)"
  by (auto simp: wf_ok_def split: if_splits)

lemma wf_set: "wf_ok s \<Longrightarrow> flight_ok k f \<Longrightarrow> wf_ok (s\<lparr>flights := mset_key k f (flights s)\<rparr>)"
  by (auto simp: wf_ok_def)

lemma wf_get: "wf_ok s \<Longrightarrow> mget (flights s) k = Some f \<Longrightarrow> flight_ok k f"
  unfolding wf_ok_def by blast

lemma wf_chain: "wf_ok s \<Longrightarrow> mget (chains s) ck = Some c \<Longrightarrow> ch_promotions c \<le> FLIGHT_MAX_PROMOTIONS"
  unfolding wf_ok_def by blast

lemma wf_update:
  assumes "wf_ok s" "\<And>k f f'. mget (flights s) k = Some f \<Longrightarrow> g k f = Some f' \<Longrightarrow> flight_ok k f'"
  shows "wf_ok (update_flights g s)"
  using assms by (auto simp: wf_ok_def get_update_flights split: option.splits)

lemma closeEntry_ok: "flight_ok k f \<Longrightarrow> closeEntry ck f = Some f' \<Longrightarrow> flight_ok k f'"
  by (auto simp: flight_ok_def closeEntry_def stage_ok_def Let_def split: if_splits)

lemma minvar_drop: "minvar m \<Longrightarrow> minvar (drop n m)"
  by (simp add: minvar_def drop_map [symmetric])

lemma mget_drop: "minvar m \<Longrightarrow> mget (drop n m) k = Some v \<Longrightarrow> mget m k = Some v"
  using minvar_get_iff [OF minvar_drop] minvar_get_iff [of m k v] set_drop_subset by (metis subsetD)

lemma wf_chainNote: "wf_ok s \<Longrightarrow> n \<le> FLIGHT_MAX_PROMOTIONS \<Longrightarrow> wf_ok (flightChainNote ck n tr now s)"
  unfolding wf_ok_def flightChainNote_def Let_def
  by (auto simp: minvar_drop dest!: mget_drop [rotated] split: if_splits)

lemma wf_chainGet: "wf_ok s \<Longrightarrow> wf_ok (snd (flightChainGet ck now s))"
  by (auto simp: wf_ok_def flightChainGet_def split: option.split if_splits)

lemma chainGet_flights [simp]: "flights (snd (flightChainGet ck now s)) = flights s"
  by (simp add: flightChainGet_def split: option.split)

lemma chainGet_le: "wf_ok s \<Longrightarrow> fst (flightChainGet ck now s) = Some c \<Longrightarrow> ch_promotions c \<le> FLIGHT_MAX_PROMOTIONS"
  by (auto simp: flightChainGet_def dest: wf_chain split: option.splits if_splits)

lemma inherit_ok:
  "went_ok t ck e \<Longrightarrow> (\<And>n tr. c = Some (n, tr) \<Longrightarrow> n \<le> FLIGHT_MAX_PROMOTIONS) \<Longrightarrow> went_ok t ck (inheritChain c e)"
  by (auto simp: went_ok_def inheritChain_def split: option.split)

lemma inherit_attempt [simp]: "we_attemptId (inheritChain c e) = we_attemptId e"
  by (simp add: inheritChain_def split: option.split)

text \<open>Opening a flight, in three cases: no message id, a new flight or entry, a joined one.\<close>

definition new_flight :: "wenv \<Rightarrow> int \<Rightarrow> string \<Rightarrow> int \<Rightarrow> string \<Rightarrow> int \<Rightarrow> flight" where
  "new_flight env now nonce t rh epoch = \<lparr>fl_topic = t, fl_root = lc rh, fl_epoch = epoch, fl_entries = [], fl_stage = AwaitAck, fl_rounds = 0,
     fl_deadline = now + INGEST_ACK_MS, fl_ackTo = lc (idHex (w_nodeId env)), fl_nonce = nonce, fl_merge = False\<rparr>"

definition target_flight :: "wenv \<Rightarrow> int \<Rightarrow> string \<Rightarrow> int \<Rightarrow> string \<Rightarrow> int \<Rightarrow> wstate \<Rightarrow> flight" where
  "target_flight env now nonce t rh epoch s = (case mget (flights s) (flightKey t rh epoch) of Some f \<Rightarrow> f | None \<Rightarrow> new_flight env now nonce t rh epoch)"

lemma flightOpen_eq:
  assumes "writeMsgId ty (pl\<lparr>pl_holdFwd := False\<rparr>) = Some msgId" "msgId \<noteq> []"
  shows "flightOpen env now nonce att t rh ty pl aid ex ch s =
    (let k = flightKey t rh (openEpoch ex t s); f = target_flight env now nonce t rh (openEpoch ex t s) s; ck = corrKey (idHex t) msgId (opOf ty);
         e0 = (case mget (fl_entries f) ck of Some e \<Rightarrow> e | None \<Rightarrow> \<lparr>we_type = ty, we_payload = pl\<lparr>pl_holdFwd := False\<rparr>, we_msgId = msgId, we_op = opOf ty,
          we_attemptId = (case aid of Some a \<Rightarrow> if a = [] then att else lc a | None \<Rightarrow> att), promotions = 0, tried = []\<rparr>);
         e = inheritChain (map_option chain_view (fst (flightChainGet ck now s))) (inheritChain ch e0) in
     (Some (fl_ackTo f, fl_nonce f, we_attemptId e),
      (snd (flightChainGet ck now s))\<lparr>flights := mset_key k (f\<lparr>fl_entries := mset_key ck e (fl_entries f)\<rparr>) (flights s)\<rparr>))"
  unfolding flightOpen_def target_flight_def new_flight_def case_prod_unfold Let_def using assms by simp

lemma flightOpen_cases:
  fixes s :: wstate
  assumes "flightOpen env now nonce att t rh ty pl aid ex ch s = (m, s')"
  obtains (malformed) "m = None" "s' = s" "writeMsgId ty (pl\<lparr>pl_holdFwd := False\<rparr>) = None \<or> writeMsgId ty (pl\<lparr>pl_holdFwd := False\<rparr>) = Some []"
  | (opened) msgId k f ck e0 e where "writeMsgId ty (pl\<lparr>pl_holdFwd := False\<rparr>) = Some msgId" "msgId \<noteq> []"
      "k = flightKey t rh (openEpoch ex t s)" "f = target_flight env now nonce t rh (openEpoch ex t s) s"
      "ck = corrKey (idHex t) msgId (opOf ty)"
      "e0 = (case mget (fl_entries f) ck of Some e \<Rightarrow> e | None \<Rightarrow> \<lparr>we_type = ty, we_payload = pl\<lparr>pl_holdFwd := False\<rparr>, we_msgId = msgId, we_op = opOf ty,
          we_attemptId = (case aid of Some a \<Rightarrow> if a = [] then att else lc a | None \<Rightarrow> att), promotions = 0, tried = []\<rparr>)"
      "e = inheritChain (map_option chain_view (fst (flightChainGet ck now s))) (inheritChain ch e0)"
      "m = Some (fl_ackTo f, fl_nonce f, we_attemptId e)"
      "s' = (snd (flightChainGet ck now s))\<lparr>flights := mset_key k (f\<lparr>fl_entries := mset_key ck e (fl_entries f)\<rparr>) (flights s)\<rparr>"
proof (cases "\<exists>msgId. writeMsgId ty (pl\<lparr>pl_holdFwd := False\<rparr>) = Some msgId \<and> msgId \<noteq> []")
  case True
  then obtain msgId where w: "writeMsgId ty (pl\<lparr>pl_holdFwd := False\<rparr>) = Some msgId" "msgId \<noteq> []" by blast
  show thesis
    by (rule opened [OF w refl refl refl refl refl])
      (use assms [symmetric] in \<open>simp_all only: flightOpen_eq [OF w] Let_def prod.inject\<close>)
next
  case False
  then show thesis using assms
    by (intro malformed) (auto simp: flightOpen_def Let_def split: option.splits if_splits)
qed

lemma new_went_ok:
  assumes "writeMsgId ty pl = Some msgId" "msgId \<noteq> []" "\<not> pl_holdFwd pl" "att \<noteq> []"
  shows "went_ok t (corrKey (idHex t) msgId (opOf ty)) \<lparr>we_type = ty, we_payload = pl, we_msgId = msgId, we_op = opOf ty,
     we_attemptId = (case aid of Some a \<Rightarrow> if a = [] then att else lc a | None \<Rightarrow> att), promotions = 0, tried = []\<rparr>"
  using assms by (auto simp: went_ok_def split: option.split)

text \<open>A flight with one more entry is still well formed; it need not have had any.\<close>

definition shell_ok :: "fkey \<Rightarrow> flight \<Rightarrow> bool" where
  "shell_ok k f \<longleftrightarrow> k = (fl_topic f, fl_root f, fl_epoch f) \<and> stage_ok f \<and> minvar (fl_entries f)
     \<and> (\<forall>ck e. mget (fl_entries f) ck = Some e \<longrightarrow> went_ok (fl_topic f) ck e)"

lemma mset_key_ne [simp]: "mset_key k v m \<noteq> []"
  by (cases m) (auto split: if_splits)

lemma shell_add: "shell_ok k f \<Longrightarrow> went_ok (fl_topic f) ck e \<Longrightarrow> flight_ok k (f\<lparr>fl_entries := mset_key ck e (fl_entries f)\<rparr>)"
  by (auto simp: shell_ok_def flight_ok_def stage_ok_def)

lemma target_shell: "wf_ok s \<Longrightarrow> shell_ok (flightKey t rh ep) (target_flight env now nonce t rh ep s) \<and> fl_topic (target_flight env now nonce t rh ep s) = t
   \<and> fl_root (target_flight env now nonce t rh ep s) = lc rh"
  using wf_get [of s "flightKey t rh ep"]
  by (auto simp: target_flight_def shell_ok_def flight_ok_def new_flight_def flightKey_def stage_ok_def split: option.split)

lemma wf_open:
  assumes "wf_ok s" "flightOpen env now nonce att t rh ty pl aid ex ch s = (m, s')" "\<And>n tr. ch = Some (n, tr) \<Longrightarrow> n \<le> FLIGHT_MAX_PROMOTIONS" 
    and "att \<noteq> [] \<or> (\<exists>a. aid = Some a \<and> a \<noteq> [])"
  shows "wf_ok s'"
  using assms(2)
proof (cases rule: flightOpen_cases)
  case (opened msgId k f ck e0 e)
  note sh = target_shell [OF assms(1), of t rh "openEpoch ex t s" env now nonce, folded opened(3,4)]
  have "went_ok t ck e0"
  proof (cases "mget (fl_entries f) ck")
    case None
    then show ?thesis using opened(1,2,5,6) assms(4) by (auto simp: went_ok_def split: option.split)
  next
    case (Some x)
    then show ?thesis using sh opened(6) unfolding shell_ok_def by (metis option.simps(5))
  qed
  then have "went_ok t ck e" unfolding opened(7)
    by (intro inherit_ok) (use assms(3) chainGet_le [OF assms(1), of ck now] in \<open>auto simp: chain_view_def\<close>)
  then have "flight_ok k (f\<lparr>fl_entries := mset_key ck e (fl_entries f)\<rparr>)" using sh by (intro shell_add) auto
  then show ?thesis using wf_set [OF wf_chainGet [OF assms(1)]] opened(9) by (metis chainGet_flights)
qed (use assms(1) in simp)

section \<open>Promotion and eviction keep the invariant\<close>

lemma promote_self_wf:
  "wf_ok (snd r) \<Longrightarrow> promotions (snd p) < FLIGHT_MAX_PROMOTIONS \<Longrightarrow> wf_ok (snd (promote_self f now p r))"
  by (cases p) (simp add: promote_self_def wf_chainNote)

lemma promote_to_wf:
  assumes "wf_ok (snd r)" "promotions (snd p) < FLIGHT_MAX_PROMOTIONS" "we_attemptId (snd p) \<noteq> []"
  shows "wf_ok (snd (promote_to env nonce f now bh p r))"
proof -
  obtain ck e where p: "p = (ck, e)" by (cases p)
  define s1 where "s1 = flightChainNote ck (promotions e + 1) (tried e @ [fl_root f]) now (snd r)"
  obtain m s2 where o: "flightOpen env now nonce [] (fl_topic f) bh (we_type e) (we_payload e) (Some (we_attemptId e)) None
      (Some (promotions e + 1, tried e @ [fl_root f])) s1 = (m, s2)" by fastforce
  have "wf_ok s1" using assms by (simp add: s1_def wf_chainNote p)
  then have "wf_ok s2" using o by (rule wf_open) (use assms p in auto)
  then show ?thesis using o by (simp add: promote_to_def p s1_def)
qed

lemma fold_inv: "P b \<Longrightarrow> (\<And>x b. x \<in> set xs \<Longrightarrow> P b \<Longrightarrow> P (f x b)) \<Longrightarrow> P (fold f xs b)"
  by (induction xs arbitrary: b) auto

lemma endReason_None_lt: "endReason now e = None \<Longrightarrow> promotions e < FLIGHT_MAX_PROMOTIONS"
  by (simp add: endReason_def split: if_splits)

lemma entry_went: "flight_ok k f \<Longrightarrow> (ck, e) \<in> set (fl_entries f) \<Longrightarrow> went_ok (fl_topic f) ck e"
  unfolding flight_ok_def using minvar_get_iff by fast

lemma wf_evict:
  assumes "wf_ok s" "flight_ok key f"
  shows "wf_ok (snd (flightEvict env nonce now key f s))"
proof -
  define es where "es = filter (\<lambda>(ck, e). endReason now e = None) (fl_entries f)"
  define s1 where "s1 = clearWinner f (dropBeacon f (tombstoneRoot f now (s\<lparr>flights := mdelete key (flights s)\<rparr>)))"
  have s1: "wf_ok s1" by (simp add: s1_def wf_delete assms)
  have es: "promotions (snd p) < FLIGHT_MAX_PROMOTIONS" "we_attemptId (snd p) \<noteq> []" if "p \<in> set es" for p
    using that entry_went [OF assms(2), of "fst p" "snd p"] by (auto simp: es_def went_ok_def endReason_None_lt)
  show ?thesis
    unfolding flightEvict_def Let_def es_def [symmetric] s1_def [symmetric]
    using es by (auto intro!: fold_inv [where P = "\<lambda>r. wf_ok (snd r)"] promote_self_wf promote_to_wf simp: s1 split: option.split)
qed

lemma probe_ok: "flight_ok k f \<Longrightarrow> fl_stage f \<noteq> Probing \<Longrightarrow> fl_rounds f < FLIGHT_MAX_ROUNDS \<Longrightarrow> flight_ok k (probe_flight f now)"
  by (auto simp: flight_ok_def probe_flight_def stage_ok_def)

lemma sweep_flight_wf:
  assumes "wf_ok (snd r)"
  shows "wf_ok (snd (sweep_flight env nonce now k r))"
proof (cases "mget (flights (snd r)) k")
  case None
  then show ?thesis using assms by (simp add: sweep_flight_def)
next
  case (Some f)
  note ok = wf_get [OF assms Some]
  show ?thesis using assms probe_ok [OF ok] wf_evict [OF assms ok] Some
    by (auto simp: sweep_flight_def Let_def wf_delete wf_set set_flight_def case_prod_unfold split: stage.split list.split sum.split)
qed

lemma wf_sweep: "wf_ok s \<Longrightarrow> wf_ok (snd (flightSweep env nonce now s))"
  unfolding flightSweep_def by (rule fold_inv [where P = "\<lambda>r. wf_ok (snd r)"]) (auto intro: sweep_flight_wf)

lemma wf_nack: "wf_ok s \<Longrightarrow> wf_ok (snd (onReceiptNack t now s))"
  by (auto simp: onReceiptNack_def flight_ok_def stage_ok_def dest!: wf_get intro!: wf_update)

lemma wf_close:
  assumes "wf_ok s"
  shows "wf_ok (update_flights (\<lambda>k f. if P f then closeEntry ck f else Some f) s)"
  using assms
proof (rule wf_update)
  fix k f f'
  assume "mget (flights s) k = Some f" "(if P f then closeEntry ck f else Some f) = Some f'"
  then show "flight_ok k f'" using wf_get [OF assms] closeEntry_ok by (metis option.inject)
qed

lemma wf_complete: "wf_ok s \<Longrightarrow> wf_ok (snd (flightComplete env th m p fromId ep s))"
  by (simp add: flightComplete_def Let_def wf_close)

lemma wf_completeSigned: "wf_ok s \<Longrightarrow> wf_ok (flightCompleteSigned env dig pf s)"
  by (simp add: flightCompleteSigned_def Let_def wf_close)

lemma noteAck_frame [simp]: "wf_ok (noteAck ck ep now fr s) = wf_ok s" "flights (noteAck ck ep now fr s) = flights s"
  by (simp_all add: noteAck_def Let_def)

lemma wf_onIngestAck: "wf_ok s \<Longrightarrow> wf_ok (snd (onIngestAck env dig vrf now m fromId s))"
  by (simp add: onIngestAck_def wf_complete wf_completeSigned Let_def split: ack_msg.split sum.split)

section \<open>What an operation does to the clock of a flight\<close>

text \<open>The stage, the rounds and the deadline of a flight; joining it or closing one of its entries
  leaves them as they are.\<close>

definition skel :: "flight \<Rightarrow> stage \<times> nat \<times> int" where
  "skel f = (fl_stage f, fl_rounds f, fl_deadline f)"

definition fresh_at :: "int \<Rightarrow> flight \<Rightarrow> bool" where
  "fresh_at now f \<longleftrightarrow> skel f = (AwaitAck, 0, now + INGEST_ACK_MS)"

definition grows :: "int \<Rightarrow> wstate \<Rightarrow> wstate \<Rightarrow> bool" where
  "grows now s s' \<longleftrightarrow> (\<forall>k f'. mget (flights s') k = Some f' \<longrightarrow> fresh_at now f' \<or> (\<exists>f. mget (flights s) k = Some f \<and> skel f' = skel f))"

lemma growsD: "grows now s s' \<Longrightarrow> mget (flights s') k = Some f' \<Longrightarrow> fresh_at now f' \<or> (\<exists>f. mget (flights s) k = Some f \<and> skel f' = skel f)"
  unfolding grows_def by blast

lemma grows_same: "flights s' = flights s \<Longrightarrow> grows now s s'"
  by (simp add: grows_def)

lemma grows_trans: "grows now s s1 \<Longrightarrow> grows now s1 s2 \<Longrightarrow> grows now s s2"
  unfolding grows_def fresh_at_def by metis

lemma grows_set: "fresh_at now f' \<or> (\<exists>f. mget (flights s) k = Some f \<and> skel f' = skel f) \<Longrightarrow> flights s' = mset_key k f' (flights s) \<Longrightarrow> grows now s s'"
  unfolding grows_def by (auto split: if_splits)

lemma chainNote_flights [simp]: "flights (flightChainNote ck n tr now s) = flights s"
  by (simp add: flightChainNote_def Let_def)

lemma target_skel: "fresh_at now (target_flight env now nonce t rh ep s) \<or> mget (flights s) (flightKey t rh ep) = Some (target_flight env now nonce t rh ep s)"
  by (simp add: target_flight_def new_flight_def fresh_at_def skel_def split: option.split)

lemma grows_open:
  assumes "flightOpen env now nonce att t rh ty pl aid ex ch s = (m, s')"
  shows "grows now s s'"
  using assms
proof (cases rule: flightOpen_cases)
  case (opened msgId k f ck e0 e)
  show ?thesis
    by (rule grows_set [where k = k and f' = "f\<lparr>fl_entries := mset_key ck e (fl_entries f)\<rparr>"])
      (use target_skel [of now env nonce t rh "openEpoch ex t s" s, folded opened(3,4)] opened(9) in \<open>auto simp: fresh_at_def skel_def\<close>)
qed (simp add: grows_same)

lemma grows_promote_to: "grows now (snd r) (snd (promote_to env nonce f now bh p r))"
proof -
  obtain ck e where p: "p = (ck, e)" by (cases p)
  define s1 where "s1 = flightChainNote ck (promotions e + 1) (tried e @ [fl_root f]) now (snd r)"
  obtain m s2 where o: "flightOpen env now nonce [] (fl_topic f) bh (we_type e) (we_payload e) (Some (we_attemptId e)) None
      (Some (promotions e + 1, tried e @ [fl_root f])) s1 = (m, s2)" by fastforce
  have "grows now (snd r) s1" by (rule grows_same) (simp add: s1_def)
  then have "grows now (snd r) s2" using grows_open [OF o] by (rule grows_trans)
  then show ?thesis using o by (simp add: promote_to_def p s1_def)
qed

lemma grows_fold: "(\<And>p r. grows now (snd r) (snd (g p r))) \<Longrightarrow> grows now (snd r) (snd (fold g ps r))"
proof (induction ps arbitrary: r)
  case (Cons p ps)
  have "grows now (snd (g p r)) (snd (fold g ps (g p r)))" using Cons by blast
  then show ?case using grows_trans [OF Cons.prems] by simp
qed (simp add: grows_same)

lemma evict_prefix_flights [simp]:
  "flights (tombstoneRoot f now s) = flights s" "flights (dropBeacon f s) = flights s" "flights (clearWinner f s) = flights s"
  by (simp_all add: tombstoneRoot_def dropBeacon_def clearWinner_def Let_def split: option.split prod.split)

lemma grows_evict: "grows now (s\<lparr>flights := mdelete key (flights s)\<rparr>) (snd (flightEvict env nonce now key f s))"
proof -
  define s1 where "s1 = clearWinner f (dropBeacon f (tombstoneRoot f now (s\<lparr>flights := mdelete key (flights s)\<rparr>)))"
  have g: "grows now (s\<lparr>flights := mdelete key (flights s)\<rparr>) s1" by (rule grows_same) (simp add: s1_def)
  have self: "grows now (snd r) (snd (promote_self f1 now p r))" for p r f1
    by (rule grows_same) (cases p, simp add: promote_self_def)
  have "grows now s1 (snd (fold (promote_self f1 now) es (outs, s1)))" "grows now s1 (snd (fold (promote_to env nonce f1 now bh) es (outs, s1)))" for es outs f1 bh
    using grows_fold [OF self, where r = "(outs, s1)"] grows_fold [OF grows_promote_to, where r = "(outs, s1)"] by simp_all
  note f = this [THEN grows_trans [OF g]]
  show ?thesis
    unfolding flightEvict_def Let_def s1_def [symmetric] using f g by (simp split: option.split)
qed

text \<open>One pass of the sweep over the keys it has still to visit: a flight it has not visited is as it
  was, every other one is not due, and is as it was, newly probed, or newly opened.\<close>

definition probed :: "int \<Rightarrow> flight \<Rightarrow> flight \<Rightarrow> bool" where
  "probed now f f' \<longleftrightarrow> fl_deadline f \<le> now \<and> fl_stage f \<noteq> Probing \<and> fl_rounds f < FLIGHT_MAX_ROUNDS
     \<and> skel f' = (Probing, fl_rounds f + 1, now + FLIGHT_PROBE_MS)"

definition swept :: "int \<Rightarrow> wstate \<Rightarrow> fkey \<Rightarrow> flight \<Rightarrow> bool" where
  "swept now s k f' \<longleftrightarrow> fresh_at now f' \<or> (\<exists>f. mget (flights s) k = Some f \<and> (skel f' = skel f \<and> now < fl_deadline f \<or> probed now f f'))"

definition sweeping :: "int \<Rightarrow> wstate \<Rightarrow> fkey set \<Rightarrow> wstate \<Rightarrow> bool" where
  "sweeping now s K s' \<longleftrightarrow> (\<forall>k f'. mget (flights s') k = Some f' \<longrightarrow> swept now s k f' \<or> k \<in> K \<and> (\<exists>f. mget (flights s) k = Some f \<and> skel f' = skel f))"

lemma sweepingD: "sweeping now s K s' \<Longrightarrow> mget (flights s') k = Some f' \<Longrightarrow> swept now s k f' \<or> k \<in> K \<and> (\<exists>f. mget (flights s) k = Some f \<and> skel f' = skel f)"
  unfolding sweeping_def by blast

lemma swept_cong: "skel f1 = skel f2 \<Longrightarrow> swept now s k f1 = swept now s k f2"
  by (simp add: swept_def probed_def fresh_at_def)

lemma sweeping_grows: "sweeping now s K s1 \<Longrightarrow> grows now s1 s2 \<Longrightarrow> sweeping now s K s2"
  unfolding sweeping_def grows_def using swept_cong swept_def by metis

lemma sweeping_delete: "sweeping now s K s1 \<Longrightarrow> sweeping now s (K - {k}) (s1\<lparr>flights := mdelete k (flights s1)\<rparr>)"
  unfolding sweeping_def by auto

lemma sweeping_set:
  "sweeping now s K s1 \<Longrightarrow> swept now s k f' \<Longrightarrow> sweeping now s (K - {k}) (s1\<lparr>flights := mset_key k f' (flights s1)\<rparr>)"
  unfolding sweeping_def by (auto split: if_splits)

lemma sweeping_evict: "sweeping now s K s1 \<Longrightarrow> sweeping now s (K - {k}) (snd (flightEvict env nonce now k f s1))"
  by (rule sweeping_grows [OF sweeping_delete grows_evict])

lemma sweeping_idle:
  assumes "sweeping now s K s1" "\<And>f. mget (flights s1) k = Some f \<Longrightarrow> now < fl_deadline f"
  shows "sweeping now s (K - {k}) s1"
  unfolding sweeping_def
proof (intro allI impI)
  fix k' f' assume g: "mget (flights s1) k' = Some f'"
  from sweepingD [OF assms(1) this]
  show "swept now s k' f' \<or> k' \<in> K - {k} \<and> (\<exists>f. mget (flights s) k' = Some f \<and> skel f' = skel f)"
    using assms(2) g by (cases "k' = k") (auto simp: swept_def skel_def)
qed

lemma sweeping_probe:
  assumes "sweeping now s K s1" "mget (flights s1) k = Some f" "fl_deadline f \<le> now" "fl_stage f \<noteq> Probing" "fl_rounds f < FLIGHT_MAX_ROUNDS"
  shows "swept now s k (probe_flight f now)"
proof -
  have "\<not> fresh_at now f" using assms(3) by (auto simp: fresh_at_def skel_def INGEST_ACK_MS_def)
  moreover have "\<not> probed now g f" for g using assms(4) by (simp add: probed_def skel_def)
  ultimately obtain g where "mget (flights s) k = Some g" "skel f = skel g"
    using sweepingD [OF assms(1,2)] by (auto simp: swept_def)
  then show ?thesis using assms(3-5) by (auto simp: swept_def probed_def probe_flight_def skel_def)
qed

lemma sweeping_step:
  assumes "sweeping now s K (snd r)"
  shows "sweeping now s (K - {k}) (snd (sweep_flight env nonce now k r))"
proof (cases "mget (flights (snd r)) k")
  case None
  then show ?thesis using sweeping_idle [OF assms, of k] by (simp add: sweep_flight_def)
next
  case (Some f)
  show ?thesis
  proof (cases "now < fl_deadline f")
    case True
    then show ?thesis using sweeping_idle [OF assms, of k] Some by (simp add: sweep_flight_def)
  next
    case False
    then show ?thesis using Some sweeping_evict [OF assms] sweeping_delete [OF assms] sweeping_set [OF assms sweeping_probe [OF assms Some]]
      by (auto simp: sweep_flight_def Let_def set_flight_def case_prod_unfold split: stage.split list.split sum.split)
  qed
qed

lemma sweeping_fold:
  "sweeping now s K (snd r) \<Longrightarrow> sweeping now s (K - set ks) (snd (fold (sweep_flight env nonce now) ks r))"
proof (induction ks arbitrary: r K)
  case (Cons k ks)
  have "sweeping now s (K - {k} - set ks) (snd (fold (sweep_flight env nonce now) (k # ks) r))"
    using Cons.IH [OF sweeping_step [OF Cons.prems]] by simp
  moreover have "K - {k} - set ks = K - set (k # ks)" by auto
  ultimately show ?case by simp
qed simp

lemma sweep_swept:
  assumes "mget (flights (snd (flightSweep env nonce now s))) k = Some f'"
  shows "swept now s k f'"
proof -
  have "sweeping now s (set (mkeys (flights s))) s"
    unfolding sweeping_def using mget_None_iff by (metis option.distinct(1))
  from sweeping_fold [of now s _ "([], s)" "mkeys (flights s)", simplified, OF this]
  show ?thesis using assms by (auto simp: flightSweep_def dest: sweepingD)
qed

section \<open>Runs\<close>

text \<open>The events of a node: a forwarded write opens a flight, an ack or a negative receipt arrives, the
  sweep runs, and the rest of the manager rewrites the tables it shares with the flights.\<close>

datatype wevent = OpenFlight string string int string wtype payload "int option"
  | IngestAck ack_msg js
  | ReceiptNack int
  | Sweep "fkey \<Rightarrow> string"
  | Other "(int, string \<times> int option) jmap" "(int, string \<times> int \<times> int) jmap" "(int, string \<times> int) jmap" "(int, string) jmap" "fkey \<Rightarrow> bool"

fun wstep :: "wenv \<Rightarrow> (bytes \<Rightarrow> bytes) \<Rightarrow> vrf \<Rightarrow> int \<Rightarrow> wevent \<Rightarrow> wstate \<Rightarrow> wstate" where
  "wstep env dig vrf now (OpenFlight nonce att t rh ty pl ex) s = snd (flightOpen env now nonce att t rh ty pl None ex None s)"
| "wstep env dig vrf now (IngestAck m fromId) s = snd (onIngestAck env dig vrf now m fromId s)"
| "wstep env dig vrf now (ReceiptNack t) s = snd (onReceiptNack t now s)"
| "wstep env dig vrf now (Sweep nonce) s = snd (flightSweep env nonce now s)"
| "wstep env dig vrf now (Other b r w h M) s =
     update_flights (\<lambda>k f. Some (f\<lparr>fl_merge := M k\<rparr>)) s\<lparr>beacons := b, rtombs := r, winners := w, holds := h\<rparr>"

fun event_ok :: "wevent \<Rightarrow> bool" where
  "event_ok (OpenFlight nonce att t rh ty pl ex) \<longleftrightarrow> att \<noteq> []"
| "event_ok _ \<longleftrightarrow> True"

fun is_sweep :: "wevent \<Rightarrow> bool" where
  "is_sweep (Sweep _) \<longleftrightarrow> True"
| "is_sweep _ \<longleftrightarrow> False"

text \<open>A run in which the sweep is never more than \<open>G\<close> late. \<open>born\<close> is an observer: the time at which the
  flight of a key was opened, read from the deadline while it awaits its first ack.\<close>

definition observe :: "wstate \<Rightarrow> (fkey \<Rightarrow> int) \<Rightarrow> fkey \<Rightarrow> int" where
  "observe s born k = (case mget (flights s) k of None \<Rightarrow> born k
     | Some f \<Rightarrow> if fl_stage f = AwaitAck then fl_deadline f - INGEST_ACK_MS else born k)"

inductive run :: "wenv \<Rightarrow> (bytes \<Rightarrow> bytes) \<Rightarrow> vrf \<Rightarrow> int \<Rightarrow> int \<Rightarrow> int \<Rightarrow> (fkey \<Rightarrow> int) \<Rightarrow> wstate \<Rightarrow> bool"
  for env dig vrf G where
  start: "flights s = [] \<Longrightarrow> chains s = [] \<Longrightarrow> run env dig vrf G t t (\<lambda>_. t) s"
| event: "run env dig vrf G now ls born s \<Longrightarrow> now \<le> t \<Longrightarrow> t \<le> ls + G \<Longrightarrow> event_ok ev \<Longrightarrow> s' = wstep env dig vrf t ev s
    \<Longrightarrow> run env dig vrf G t (if is_sweep ev then t else ls) (observe s' born) s'"

lemma flight_ok_merge [simp]: "flight_ok k (f\<lparr>fl_merge := b\<rparr>) = flight_ok k f"
  by (simp add: flight_ok_def stage_ok_def)

lemma wstep_wf: "wf_ok s \<Longrightarrow> event_ok ev \<Longrightarrow> wf_ok (wstep env dig vrf now ev s)"
proof (cases ev)
  case (OpenFlight nonce att t rh ty pl ex)
  assume s: "wf_ok s" and "event_ok ev"
  obtain m s' where o: "flightOpen env now nonce att t rh ty pl None ex None s = (m, s')" by fastforce
  have "wf_ok s'" by (rule wf_open [OF s o]) (use \<open>event_ok ev\<close> OpenFlight in auto)
  then show ?thesis by (simp add: OpenFlight o)
next
  case (Other b r w h M)
  assume s: "wf_ok s"
  have "wf_ok (update_flights (\<lambda>k f. Some (f\<lparr>fl_merge := M k\<rparr>)) s)"
    using s by (rule wf_update) (simp, metis wf_get [OF s] flight_ok_merge)
  then show ?thesis by (simp add: Other)
qed (auto intro: wf_onIngestAck wf_nack wf_sweep)

lemma run_wf: "run env dig vrf G now ls born s \<Longrightarrow> wf_ok s"
proof (induction rule: run.induct)
  case (start s t)
  then show ?case by (simp add: wf_ok_def minvar_def)
qed (simp add: wstep_wf)

text \<open>How an event other than the sweep changes the clock of a flight.\<close>

definition nacked :: "int \<Rightarrow> flight \<Rightarrow> flight \<Rightarrow> bool" where
  "nacked now f f' \<longleftrightarrow> fl_stage f = Probing \<and> skel f' = (Retrying, fl_rounds f, now + INGEST_ACK_MS)"

lemma closeEntry_skel: "closeEntry ck f = Some f' \<Longrightarrow> skel f' = skel f"
  by (auto simp: closeEntry_def Let_def skel_def split: if_splits)

lemma grows_close: "minvar (flights s1) \<Longrightarrow> flights s1 = flights s \<Longrightarrow> grows now s (update_flights (\<lambda>k f. if P f then closeEntry ck f else Some f) s1)"
  by (auto simp: grows_def get_update_flights dest: closeEntry_skel split: option.splits if_splits)

lemma grows_ack: "minvar (flights s) \<Longrightarrow> grows t s (snd (onIngestAck env dig vrf now m fromId s))"
  by (auto simp: onIngestAck_def flightComplete_def flightCompleteSigned_def Let_def grows_same intro: grows_close split: ack_msg.split sum.split)

lemma wstep_clock:
  assumes "wf_ok s" "mget (flights (wstep env dig vrf now ev s)) k = Some f'" "\<not> is_sweep ev"
  shows "fresh_at now f' \<or> (\<exists>f. mget (flights s) k = Some f \<and> (skel f' = skel f \<or> nacked now f f'))"
proof (cases ev)
  case (OpenFlight nonce att t rh ty pl ex)
  obtain m s' where o: "flightOpen env now nonce att t rh ty pl None ex None s = (m, s')" by fastforce
  show ?thesis using growsD [OF grows_open [OF o], of k f'] assms(2) by (auto simp: OpenFlight o)
next
  case (IngestAck m fromId)
  show ?thesis using growsD [OF grows_ack [of s now env dig vrf now m fromId], of k f'] assms(1,2) by (auto simp: IngestAck wf_ok_def)
next
  case (ReceiptNack t)
  then show ?thesis using assms(1,2)
    by (auto simp: onReceiptNack_def get_update_flights wf_ok_def nacked_def skel_def split: option.splits if_splits)
next
  case (Other b r w h M)
  then show ?thesis using assms(1,2) by (auto simp: get_update_flights wf_ok_def skel_def split: option.splits)
qed (use assms(3) in simp)

section \<open>The life of a flight\<close>

text \<open>The stages a flight has left; a flight at its last one is evicted by the next sweep after its
  deadline.\<close>

definition stages_left :: "flight \<Rightarrow> int" where
  "stages_left f = (case fl_stage f of AwaitAck \<Rightarrow> 5 | Probing \<Rightarrow> 2 * (2 - int (fl_rounds f)) + 2 | Retrying \<Rightarrow> 2 * (2 - int (fl_rounds f)) + 1)"

definition horizon :: "int \<Rightarrow> flight \<Rightarrow> int" where
  "horizon G f = fl_deadline f + (stages_left f - 1) * (INGEST_ACK_MS + G)"

definition on_time :: "int \<Rightarrow> int \<Rightarrow> (fkey \<Rightarrow> int) \<Rightarrow> wstate \<Rightarrow> bool" where
  "on_time G ls born s \<longleftrightarrow> (\<forall>k f. mget (flights s) k = Some f \<longrightarrow> ls < fl_deadline f \<and> horizon G f \<le> born k + INGEST_ACK_MS + 4 * (INGEST_ACK_MS + G))"

lemma on_timeD: "on_time G ls born s \<Longrightarrow> mget (flights s) k = Some f \<Longrightarrow> ls < fl_deadline f \<and> horizon G f \<le> born k + INGEST_ACK_MS + 4 * (INGEST_ACK_MS + G)"
  unfolding on_time_def by blast

lemma horizon_skel: "skel f' = skel f \<Longrightarrow> horizon G f' = horizon G f"
  by (simp add: horizon_def stages_left_def skel_def split: stage.split)

lemma horizon_fresh: "fresh_at now f' \<Longrightarrow> horizon G f' = now + INGEST_ACK_MS + 4 * (INGEST_ACK_MS + G)"
  by (simp add: horizon_def stages_left_def fresh_at_def skel_def)

lemma horizon_nacked: "nacked now f f' \<Longrightarrow> now \<le> ls + G \<Longrightarrow> ls < fl_deadline f \<Longrightarrow> horizon G f' \<le> horizon G f"
  by (auto simp: horizon_def stages_left_def nacked_def skel_def algebra_simps)

lemma horizon_probed:
  "probed now f f' \<Longrightarrow> stage_ok f \<Longrightarrow> now \<le> ls + G \<Longrightarrow> ls < fl_deadline f \<Longrightarrow> horizon G f' \<le> horizon G f"
  by (cases "fl_stage f") (auto simp: horizon_def stages_left_def probed_def skel_def stage_ok_def INGEST_ACK_MS_def FLIGHT_PROBE_MS_def algebra_simps)

lemma observe_fresh: "mget (flights s) k = Some f \<Longrightarrow> fresh_at now f \<Longrightarrow> observe s born k = now"
  by (simp add: observe_def fresh_at_def skel_def)

text \<open>A flight that still awaits its first ack has the horizon its opening gave it.\<close>

lemma on_time_keep:
  assumes "mget (flights s') k = Some f'" "horizon G f' \<le> born k + INGEST_ACK_MS + 4 * (INGEST_ACK_MS + G)"
  shows "horizon G f' \<le> observe s' born k + INGEST_ACK_MS + 4 * (INGEST_ACK_MS + G)"
  using assms by (simp add: observe_def horizon_def stages_left_def)

text \<open>What an event leaves of a flight has no later horizon than the flight had, and is not due.\<close>

definition behind :: "int \<Rightarrow> int \<Rightarrow> wstate \<Rightarrow> fkey \<Rightarrow> flight \<Rightarrow> bool" where
  "behind G ls s k f' \<longleftrightarrow> (\<exists>f. mget (flights s) k = Some f \<and> horizon G f' \<le> horizon G f \<and> ls < fl_deadline f')"

lemma behind_sweep:
  assumes "wf_ok s" "on_time G ls born s" "t \<le> ls + G" "swept t s k f'" "\<not> fresh_at t f'"
  shows "behind G t s k f'"
proof -
  from assms(4,5) obtain f where f: "mget (flights s) k = Some f" "skel f' = skel f \<and> t < fl_deadline f \<or> probed t f f'"
    unfolding swept_def by blast
  have ok: "stage_ok f" using wf_get [OF assms(1) f(1)] by (simp add: flight_ok_def)
  have d: "ls < fl_deadline f" using on_timeD [OF assms(2) f(1)] by blast
  have "horizon G f' \<le> horizon G f" using f(2)
  proof
    assume "probed t f f'"
    then show ?thesis using ok assms(3) d by (rule horizon_probed)
  next
    assume "skel f' = skel f \<and> t < fl_deadline f"
    then show ?thesis using horizon_skel [of f' f G] by simp
  qed
  moreover have "t < fl_deadline f'" using f(2) by (auto simp: probed_def skel_def FLIGHT_PROBE_MS_def)
  ultimately show ?thesis using f(1) unfolding behind_def by blast
qed

lemma behind_step:
  assumes "wf_ok s" "on_time G ls born s" "t \<le> ls + G" "ls \<le> t" "mget (flights (wstep env dig vrf t ev s)) k = Some f'" "\<not> is_sweep ev" "\<not> fresh_at t f'"
  shows "behind G ls s k f'"
proof -
  from wstep_clock [OF assms(1,5,6)] assms(7)
  obtain f where f: "mget (flights s) k = Some f" "skel f' = skel f \<or> nacked t f f'" by blast
  have d: "ls < fl_deadline f" using on_timeD [OF assms(2) f(1)] by blast
  have "horizon G f' \<le> horizon G f" using f(2)
  proof
    assume "nacked t f f'"
    then show ?thesis using assms(3) d by (rule horizon_nacked)
  next
    assume "skel f' = skel f"
    then show ?thesis using horizon_skel [of f' f G] by simp
  qed
  moreover have "ls < fl_deadline f'" using f(2) d assms(4) by (auto simp: nacked_def skel_def INGEST_ACK_MS_def)
  ultimately show ?thesis using f(1) unfolding behind_def by blast
qed

lemma on_time_step:
  assumes "wf_ok s" "on_time G ls born s" "t \<le> ls + G" "ls \<le> t" "s' = wstep env dig vrf t ev s"
  defines "ls' \<equiv> (if is_sweep ev then t else ls)"
  shows "on_time G ls' (observe s' born) s'"
  unfolding on_time_def
proof (intro allI impI)
  fix k f' assume g: "mget (flights s') k = Some f'"
  show "ls' < fl_deadline f' \<and> horizon G f' \<le> observe s' born k + INGEST_ACK_MS + 4 * (INGEST_ACK_MS + G)"
  proof (cases "fresh_at t f'")
    case True
    then have "t < fl_deadline f'" by (simp add: fresh_at_def skel_def INGEST_ACK_MS_def)
    moreover have "ls' \<le> t" using assms(4) by (simp add: ls'_def)
    ultimately show ?thesis using observe_fresh [OF g True, of born] horizon_fresh [OF True, of G] by simp
  next
    case False
    have "behind G ls' s k f'"
    proof (cases "is_sweep ev")
      case True
      then obtain nonce where "ev = Sweep nonce" by (cases ev) simp_all
      with g have "swept t s k f'" unfolding assms(5) by (simp add: sweep_swept)
      then show ?thesis using behind_sweep [OF assms(1-3) _ False] True by (simp add: ls'_def)
    next
      case ns: False
      then show ?thesis using behind_step [OF assms(1-4) g [unfolded assms(5)] ns False] by (simp add: ls'_def)
    qed
    then obtain f where f: "mget (flights s) k = Some f" "horizon G f' \<le> horizon G f" "ls' < fl_deadline f'" unfolding behind_def by blast
    have "horizon G f' \<le> born k + INGEST_ACK_MS + 4 * (INGEST_ACK_MS + G)" using f(2) on_timeD [OF assms(2) f(1)] by linarith
    then show ?thesis using f(3) on_time_keep [OF g] by blast
  qed
qed

lemma run_on_time: "run env dig vrf G now ls born s \<Longrightarrow> ls \<le> now \<and> on_time G ls born s"
proof (induction rule: run.induct)
  case (start s t)
  then show ?case by (simp add: on_time_def)
next
  case (event now ls born s t ev s')
  then show ?case using on_time_step [OF run_wf [OF event(1)] _ event(3) _ event(5)] by auto
qed

text \<open>The observed opening is in the past.\<close>

definition opened_by :: "int \<Rightarrow> wstate \<Rightarrow> bool" where
  "opened_by now s \<longleftrightarrow> (\<forall>k f. mget (flights s) k = Some f \<longrightarrow> fl_stage f = AwaitAck \<longrightarrow> fl_deadline f \<le> now + INGEST_ACK_MS)"

lemma opened_byD: "opened_by now s \<Longrightarrow> mget (flights s) k = Some f \<Longrightarrow> fl_stage f = AwaitAck \<Longrightarrow> fl_deadline f \<le> now + INGEST_ACK_MS"
  unfolding opened_by_def by blast

lemma opened_step:
  assumes "wf_ok s" "opened_by now s" "now \<le> t"
  shows "opened_by t (wstep env dig vrf t ev s)"
  unfolding opened_by_def
proof (intro allI impI)
  fix k f' assume g: "mget (flights (wstep env dig vrf t ev s)) k = Some f'" and aw: "fl_stage f' = AwaitAck"
  have "fresh_at t f' \<or> (\<exists>f. mget (flights s) k = Some f \<and> skel f' = skel f)"
  proof (cases "is_sweep ev")
    case True
    then obtain nonce where "ev = Sweep nonce" by (cases ev) simp_all
    with g have "swept t s k f'" by (simp add: sweep_swept)
    then show ?thesis using aw by (auto simp: swept_def probed_def skel_def)
  next
    case False
    then show ?thesis using wstep_clock [OF assms(1) g] aw by (auto simp: nacked_def skel_def)
  qed
  then show "fl_deadline f' \<le> t + INGEST_ACK_MS"
    using opened_byD [OF assms(2), of k] assms(3) aw by (fastforce simp: fresh_at_def skel_def)
qed

lemma run_opened: "run env dig vrf G now ls born s \<Longrightarrow> opened_by now s \<and> (\<forall>k. born k \<le> now)"
proof (induction rule: run.induct)
  case (start s t)
  then show ?case by (simp add: opened_by_def)
next
  case (event now ls born s t ev s')
  have o: "opened_by t s'" using event opened_step [OF run_wf [OF event(1)]] by blast
  have "observe s' born k \<le> t" for k
  proof -
    have "born k \<le> t" using event.IH event(2) order_trans by blast
    then show ?thesis using opened_byD [OF o, of k] by (fastforce simp: observe_def split: option.split)
  qed
  then show ?case using o by simp
qed

text \<open>C18. In every run, every flight keeps its budget: at most two rounds of probing, and no entry promoted
  more than four times, whatever chain it inherited; the flight is filed under the topic, root and epoch it
  names and is never empty, and each entry is filed under its own topic, message id and operation.\<close>

theorem flight_budget:
  assumes "run env dig vrf G now ls born s" "mget (flights s) k = Some f" "mget (fl_entries f) ck = Some e"
  shows "k = (fl_topic f, fl_root f, fl_epoch f) \<and> fl_rounds f \<le> FLIGHT_MAX_ROUNDS \<and> promotions e \<le> FLIGHT_MAX_PROMOTIONS
    \<and> fl_entries f \<noteq> [] \<and> ck = corrKey (idHex (fl_topic f)) (we_msgId e) (opOf (we_type e)) \<and> writeMsgId (we_type e) (we_payload e) = Some (we_msgId e)"
proof -
  have "flight_ok k f" using wf_get [OF run_wf [OF assms(1)] assms(2)] .
  moreover from this have "went_ok (fl_topic f) ck e" using assms(3) unfolding flight_ok_def by blast
  ultimately show ?thesis by (simp add: flight_ok_def stage_ok_def went_ok_def)
qed

definition kill_payload :: payload where
  "kill_payload = \<lparr>pl_env = None, pl_kill = Some ''m'', pl_holdFwd = True\<rparr>"

definition empty_flights :: wstate where
  "empty_flights = \<lparr>flights = [], beacons = [], rtombs = [], chains = [], winners = [], holds = [], ingestAcks = []\<rparr>"

definition one_flight :: "wenv \<Rightarrow> wstate" where
  "one_flight env = wstep env (\<lambda>b. b) (\<lambda>_ _ _. Some False) 0 (OpenFlight ''n'' ''a'' 5 zid KILL kill_payload None) empty_flights"

definition demo_env :: wenv where
  "demo_env = \<lparr>w_ks = production, w_nodeId = 7, w_bridge = None, w_neighbors = []\<rparr>"

lemma one_flight_run: "run demo_env (\<lambda>b. b) (\<lambda>_ _ _. Some False) 1000 0 0 (observe (one_flight demo_env) (\<lambda>_. 0)) (one_flight demo_env)"
proof -
  have "run demo_env (\<lambda>b. b) (\<lambda>_ _ _. Some False) 1000 0 0 (\<lambda>_. 0) empty_flights" by (rule run.start) (simp_all add: empty_flights_def)
  from run.event [OF this, of 0 "OpenFlight ''n'' ''a'' 5 zid KILL kill_payload None", OF _ _ _ refl]
  show ?thesis by (simp add: one_flight_def)
qed

lemma one_flight_eq: "flights (one_flight env) = [(flightKey 5 zid 0, (new_flight env 0 ''n'' 5 zid 0)\<lparr>fl_entries := [(corrKey (idHex 5) ''m'' ''kill'',
    \<lparr>we_type = KILL, we_payload = kill_payload\<lparr>pl_holdFwd := False\<rparr>, we_msgId = ''m'', we_op = ''kill'', we_attemptId = ''a'', promotions = 0, tried = []\<rparr>)]\<rparr>)]"
proof -
  have "writeMsgId KILL (kill_payload\<lparr>pl_holdFwd := False\<rparr>) = Some ''m''" by (simp add: writeMsgId_def kill_payload_def)
  then show ?thesis
    by (simp add: one_flight_def flightOpen_eq Let_def empty_flights_def openEpoch_def target_flight_def flightChainGet_def inheritChain_def opOf_def new_flight_def)
qed

theorem flight_budget_witness:
  "run demo_env (\<lambda>b. b) (\<lambda>_ _ _. Some False) 1000 0 0 (observe (one_flight demo_env) (\<lambda>_. 0)) (one_flight demo_env)
   \<and> (\<exists>k f ck e. mget (flights (one_flight demo_env)) k = Some f \<and> mget (fl_entries f) ck = Some e \<and> promotions e \<le> FLIGHT_MAX_PROMOTIONS)"
proof -
  obtain k f ck e where "flights (one_flight demo_env) = [(k, f)]" "fl_entries f = [(ck, e)]"
    using that [OF one_flight_eq] by simp
  then have g: "mget (flights (one_flight demo_env)) k = Some f" "mget (fl_entries f) ck = Some e" by simp_all
  show ?thesis using flight_budget [OF one_flight_run g] one_flight_run g by blast
qed

text \<open>C12. No flight lives for ever: while the sweep is never more than \<open>G\<close> late, a flight is closed by its
  acks or evicted less than \<open>5 * (4000 + G)\<close> milliseconds after it was opened, however often its root
  answers a probe with a negative receipt and however many writes join it.\<close>

theorem flight_ends:
  assumes "run env dig vrf G now ls born s" "mget (flights s) k = Some f" "0 \<le> G"
  shows "born k \<le> now \<and> now < born k + 5 * (INGEST_ACK_MS + G)"
proof -
  have ok: "stage_ok f" using wf_get [OF run_wf [OF assms(1)] assms(2)] by (simp add: flight_ok_def)
  have "now \<le> ls + G \<or> now = ls" using assms(1) by (cases rule: run.cases) auto
  then have n: "now \<le> ls + G" using assms(3) by auto
  note ot = on_timeD [OF conjunct2 [OF run_on_time [OF assms(1)]] assms(2)]
  have "1 \<le> stages_left f" using ok by (auto simp: stages_left_def stage_ok_def FLIGHT_MAX_ROUNDS_def split: stage.split)
  then have "fl_deadline f \<le> horizon G f" using assms(3) by (simp add: horizon_def INGEST_ACK_MS_def)
  moreover have "born k \<le> now" using run_opened [OF assms(1)] by blast
  ultimately show ?thesis using ot n by (simp add: INGEST_ACK_MS_def)
qed

theorem flight_ends_witness:
  "\<exists>k f. mget (flights (one_flight demo_env)) k = Some f \<and> 0 < observe (one_flight demo_env) (\<lambda>_. 0) k + 5 * (INGEST_ACK_MS + 1000)"
proof -
  obtain k f where "flights (one_flight demo_env) = [(k, f)]" using that [OF one_flight_eq] .
  then have g: "mget (flights (one_flight demo_env)) k = Some f" by simp
  have "0 < observe (one_flight demo_env) (\<lambda>_. 0) k + 5 * (INGEST_ACK_MS + 1000)" using flight_ends [OF one_flight_run g] by simp
  then show ?thesis using g by blast
qed

section \<open>What an eviction does with the writes\<close>

lemma pick_step_cases:
  "pick_step env t ex n best = best \<or> (\<exists>d b. pick_step env t ex n best = Some (d, b) \<and> lc (idHex b) \<notin> set ex \<and> b \<noteq> w_nodeId env)"
proof (cases "asId (w_ks env) n")
  case (Inl e)
  then show ?thesis by (simp add: pick_step_def)
next
  case (Inr nb)
  show ?thesis
  proof (cases "nb = w_nodeId env \<or> w_bridge env = Some nb \<or> lc (idHex nb) \<in> set ex")
    case True
    then have "pick_step env t ex n best = best" unfolding pick_step_def Inr by simp
    then show ?thesis ..
  next
    case False
    then have "pick_step env t ex n best = best \<or> pick_step env t ex n best = Some (nb XOR t, nb)"
      unfolding pick_step_def Inr Let_def by (cases best) auto
    then show ?thesis using False by blast
  qed
qed

lemma pickNeighbor_ok:
  assumes "pickNeighbor env t ex = Some (d, b)"
  shows "lc (idHex b) \<notin> set ex \<and> b \<noteq> w_nodeId env"
proof -
  define P where "P best \<longleftrightarrow> (\<forall>d b. best = Some (d, b) \<longrightarrow> lc (idHex b) \<notin> set ex \<and> b \<noteq> w_nodeId env)" for best :: "(int \<times> int) option"
  have N: "P None" unfolding P_def by blast
  have S: "P (pick_step env t ex n best)" if p: "P best" for n best
    using pick_step_cases [of env t ex n best]
  proof
    assume "pick_step env t ex n best = best"
    then show ?thesis using p by (rule ssubst)
  next
    assume "\<exists>d b. pick_step env t ex n best = Some (d, b) \<and> lc (idHex b) \<notin> set ex \<and> b \<noteq> w_nodeId env"
    then show ?thesis unfolding P_def by auto
  qed
  have "P (pickNeighbor env t ex)" unfolding pickNeighbor_def by (rule fold_inv [of P, OF N S])
  then show ?thesis using assms unfolding P_def by blast
qed

lemma pickBest_ok: "\<exists>b. pickBest env t ex = Some b \<and> (b = w_nodeId env \<or> lc (idHex b) \<notin> set ex)"
proof (cases "pickNeighbor env t ex")
  case (Some q)
  obtain d b where "q = (d, b)" by (cases q)
  then show ?thesis using Some pickNeighbor_ok [of env t ex d b] by (simp add: pickBest_def Let_def)
qed (simp add: pickBest_def Let_def)

lemma excluded_iff: "r \<in> set (excluded f) \<longleftrightarrow> r = fl_root f \<or> (\<exists>q \<in> set (fl_entries f). r \<in> set (tried (snd q)))"
  by (auto simp: excluded_def)

text \<open>The outputs of a fold are kept, and so are the entries the promotion has filed.\<close>

definition filed :: "fkey \<Rightarrow> corr \<Rightarrow> nat \<Rightarrow> string \<Rightarrow> wstate \<Rightarrow> bool" where
  "filed k ck n r s \<longleftrightarrow> (\<exists>f e. mget (flights s) k = Some f \<and> mget (fl_entries f) ck = Some e \<and> n \<le> promotions e \<and> r \<in> set (tried e))"

lemma addTried_set [simp]: "set (addTried xs r) = insert (lc r) (set xs)"
  by (auto simp: addTried_def Let_def)

lemma foldl_addTried_set [simp]: "set (foldl addTried xs rs) = set xs \<union> lc ` set rs"
  by (induction rs arbitrary: xs) auto

lemma inherit_mono: "promotions e \<le> promotions (inheritChain c e)" "set (tried e) \<subseteq> set (tried (inheritChain c e))"
  by (auto simp: inheritChain_def split: option.split)

lemma inherit_takes: "c = Some (n, tr) \<Longrightarrow> n \<le> promotions (inheritChain c e) \<and> lc ` set tr \<subseteq> set (tried (inheritChain c e))"
  by (auto simp: inheritChain_def)

lemma filed_cong: "flights s' = flights s \<Longrightarrow> filed k ck n r s' = filed k ck n r s"
  by (simp add: filed_def)

lemma filed_open:
  assumes "flightOpen env now nonce att t rh ty pl aid ex ch s = (m, s')" "filed k ck n r s"
  shows "filed k ck n r s'"
  using assms(1)
proof (cases rule: flightOpen_cases)
  case (opened msgId k' f ck' e0 e)
  obtain f1 e1 where h: "mget (flights s) k = Some f1" "mget (fl_entries f1) ck = Some e1" "n \<le> promotions e1" "r \<in> set (tried e1)"
    using assms(2) unfolding filed_def by blast
  show ?thesis
  proof (cases "k' = k \<and> ck' = ck")
    case True
    then have "f = f1" "e0 = e1" using h opened(3,4,6) by (simp_all add: target_flight_def)
    then have "n \<le> promotions e" "r \<in> set (tried e)" unfolding opened(7) using h(3,4) inherit_mono by (meson order_trans subsetD)+
    then show ?thesis using True by (simp add: filed_def opened(9))
  next
    case False
    have "mget (fl_entries f) ck = Some e1" if "k' = k" using h that opened(3,4) by (simp add: target_flight_def)
    then show ?thesis using False h by (cases "k' = k") (simp_all add: filed_def opened(9))
  qed
qed (use assms(2) in simp)

lemma opens_files:
  assumes "flightOpen env now nonce att t rh ty pl aid ex (Some (n, tr)) s = (m, s')" "writeMsgId ty pl = Some msgId" "msgId \<noteq> []" "\<not> pl_holdFwd pl" "r \<in> set tr"
  shows "(\<exists>x. m = Some x) \<and> (\<exists>ep. filed (flightKey t rh ep) (corrKey (idHex t) msgId (opOf ty)) n (lc r) s')"
  using assms(1)
proof (cases rule: flightOpen_cases)
  case malformed
  have "pl\<lparr>pl_holdFwd := False\<rparr> = pl" using assms(4) by simp
  then show ?thesis using malformed(3) assms(2,3) by simp
next
  case (opened msgId' k f ck e0 e)
  have pl: "pl\<lparr>pl_holdFwd := False\<rparr> = pl" using assms(4) by simp
  have m: "msgId' = msgId" using opened(1) assms(2) by (simp add: pl)
  have i: "n \<le> promotions (inheritChain (Some (n, tr)) e0)" "lc r \<in> set (tried (inheritChain (Some (n, tr)) e0))"
    using inherit_takes [OF refl, of n tr e0] assms(5) by auto
  then have "n \<le> promotions e" "lc r \<in> set (tried e)" unfolding opened(7) using inherit_mono by (meson order_trans subsetD)+
  then have "filed k ck n (lc r) s'" by (simp add: filed_def opened(9))
  then show ?thesis using opened(3,5,8) m by blast
qed

lemma promote_to_snd:
  obtains m s2 where "promote_to env nonce f now bh (ck, e) r = (fst r @ [SendWrite (we_type e) (we_payload e) bh m], s2)"
    "flightOpen env now nonce [] (fl_topic f) bh (we_type e) (we_payload e) (Some (we_attemptId e)) None (Some (promotions e + 1, tried e @ [fl_root f]))
       (flightChainNote ck (promotions e + 1) (tried e @ [fl_root f]) now (snd r)) = (m, s2)"
proof -
  obtain m s2 where o: "flightOpen env now nonce [] (fl_topic f) bh (we_type e) (we_payload e) (Some (we_attemptId e)) None (Some (promotions e + 1, tried e @ [fl_root f]))
       (flightChainNote ck (promotions e + 1) (tried e @ [fl_root f]) now (snd r)) = (m, s2)" by fastforce
  show thesis by (rule that [OF _ o]) (use o in \<open>simp add: promote_to_def\<close>)
qed

lemma fold_reach:
  assumes "x \<in> set xs" "\<And>b. Q (g x b)" "\<And>y b. Q b \<Longrightarrow> Q (g y b)"
  shows "Q (fold g xs b)"
proof -
  obtain ys zs where "xs = ys @ x # zs" using split_list [OF assms(1)] by blast
  then have "fold g xs b = fold g zs (g x (fold g ys b))" by simp
  also have "Q \<dots>" using assms(2) by (rule fold_inv) (rule assms(3))
  finally show ?thesis .
qed

lemma promote_out_keeps: "set (fst r) \<subseteq> set (fst (promote_self f now p r))" "set (fst r) \<subseteq> set (fst (promote_to env nonce f now bh p r))"
proof -
  obtain ck e where p: "p = (ck, e)" by (cases p)
  show "set (fst r) \<subseteq> set (fst (promote_self f now p r))" by (auto simp: promote_self_def p)
  show "set (fst r) \<subseteq> set (fst (promote_to env nonce f now bh p r))"
    unfolding p by (rule promote_to_snd [of env nonce f now bh ck e r]) auto
qed

lemma self_ingests:
  assumes "(ck, e) \<in> set ps"
  shows "IngestSelf (we_type e) (we_payload e) \<in> set (fst (fold (promote_self f now) ps r))"
  using assms by (rule fold_reach) (use promote_out_keeps in \<open>auto simp: promote_self_def\<close>)

lemma promoted_files:
  fixes bh :: string
  assumes "(ck, e) \<in> set ps" "went_ok (fl_topic f) ck e"
  defines "Q \<equiv> \<lambda>r. (\<exists>x. SendWrite (we_type e) (we_payload e) bh (Some x) \<in> set (fst r)) \<and> (\<exists>ep. filed (flightKey (fl_topic f) bh ep) ck (promotions e + 1) (lc (fl_root f)) (snd r))"
  shows "Q (fold (promote_to env nonce f now bh) ps r)"
  using assms(1)
proof (rule fold_reach)
  fix r
  obtain m s2 where o: "promote_to env nonce f now bh (ck, e) r = (fst r @ [SendWrite (we_type e) (we_payload e) bh m], s2)"
    "flightOpen env now nonce [] (fl_topic f) bh (we_type e) (we_payload e) (Some (we_attemptId e)) None (Some (promotions e + 1, tried e @ [fl_root f]))
       (flightChainNote ck (promotions e + 1) (tried e @ [fl_root f]) now (snd r)) = (m, s2)" by (rule promote_to_snd)
  show "Q (promote_to env nonce f now bh (ck, e) r)"
    using opens_files [OF o(2), of "we_msgId e" "fl_root f"] assms(2) unfolding Q_def o(1) by (auto simp: went_ok_def)
next
  fix y :: "corr \<times> went" and r assume q: "Q r"
  obtain ck' e' where y: "y = (ck', e')" by (cases y)
  obtain m s2 where o: "promote_to env nonce f now bh (ck', e') r = (fst r @ [SendWrite (we_type e') (we_payload e') bh m], s2)"
    "flightOpen env now nonce [] (fl_topic f) bh (we_type e') (we_payload e') (Some (we_attemptId e')) None (Some (promotions e' + 1, tried e' @ [fl_root f]))
       (flightChainNote ck' (promotions e' + 1) (tried e' @ [fl_root f]) now (snd r)) = (m, s2)" by (rule promote_to_snd)
  have "filed k ck n x s2" if "filed k ck n x (snd r)" for k n x
    using filed_open [OF o(2)] that filed_cong [OF chainNote_flights] by metis
  moreover have "set (fst r) \<subseteq> set (fst (promote_to env nonce f now bh y r))" by (rule promote_out_keeps)
  moreover have "snd (promote_to env nonce f now bh y r) = s2" unfolding y o(1) by simp
  ultimately show "Q (promote_to env nonce f now bh y r)" using q unfolding Q_def by blast
qed

definition kept :: "int \<Rightarrow> flight \<Rightarrow> flight" where
  "kept now f = f\<lparr>fl_entries := filter (\<lambda>(ck, e). endReason now e = None) (fl_entries f)\<rparr>"

definition ended_outs :: "int \<Rightarrow> flight \<Rightarrow> out list" where
  "ended_outs now f = map (\<lambda>(ck, e). Undeliverable (we_type e) (fl_topic f) (the (endReason now e))) (filter (\<lambda>(ck, e). endReason now e \<noteq> None) (fl_entries f))"

lemma flightEvict_cases:
  obtains (empty) s1 where "flightEvict env nonce now k f s = (ended_outs now f, s1)" "fl_entries (kept now f) = []"
  | (self) s1 where "flightEvict env nonce now k f s = fold (promote_self (kept now f) now) (fl_entries (kept now f)) (ended_outs now f, s1)"
  | (other) s1 b where "flightEvict env nonce now k f s = fold (promote_to env nonce (kept now f) now (lc (idHex b))) (fl_entries (kept now f)) (ended_outs now f, s1)"
      "lc (idHex b) \<notin> set (excluded (kept now f))"
proof -
  define s1 where "s1 = clearWinner f (dropBeacon f (tombstoneRoot f now (s\<lparr>flights := mdelete k (flights s)\<rparr>)))"
  obtain b where b: "pickBest env (fl_topic f) (excluded (kept now f)) = Some b" "b = w_nodeId env \<or> lc (idHex b) \<notin> set (excluded (kept now f))"
    using pickBest_ok by blast
  have e: "flightEvict env nonce now k f s = (if fl_entries (kept now f) = [] then (ended_outs now f, s1)
      else if b = w_nodeId env then fold (promote_self (kept now f) now) (fl_entries (kept now f)) (ended_outs now f, s1)
      else fold (promote_to env nonce (kept now f) now (lc (idHex b))) (fl_entries (kept now f)) (ended_outs now f, s1))"
    unfolding flightEvict_def Let_def kept_def [symmetric] ended_outs_def [symmetric] s1_def [symmetric] b(1) by simp
  show thesis
  proof (cases "fl_entries (kept now f) = []")
    case True then show thesis using empty e by simp
  next
    case False then show thesis using self other e b(2) by (cases "b = w_nodeId env") simp_all
  qed
qed

lemma fold_outs: "(\<And>p r. set (fst r) \<subseteq> set (fst (g p r))) \<Longrightarrow> set outs \<subseteq> set (fst (fold g ps (outs, s)))"
  by (rule fold_inv [where P = "\<lambda>r. set outs \<subseteq> set (fst r)"]) (auto, blast)

lemma evict_ended:
  assumes "flightEvict env nonce now k f s = (outs, s')"
  shows "set (ended_outs now f) \<subseteq> set outs"
proof (rule flightEvict_cases [of env nonce now k f s])
  fix s1 assume "flightEvict env nonce now k f s = (ended_outs now f, s1)"
  then show ?thesis using assms by simp
next
  fix s1 assume "flightEvict env nonce now k f s = fold (promote_self (kept now f) now) (fl_entries (kept now f)) (ended_outs now f, s1)"
  then have "fold (promote_self (kept now f) now) (fl_entries (kept now f)) (ended_outs now f, s1) = (outs, s')" using assms by (rule subst)
  from fold_outs [of "promote_self (kept now f) now", OF promote_out_keeps(1), of "ended_outs now f" "fl_entries (kept now f)" s1, unfolded this fst_conv]
  show ?thesis .
next
  fix s1 b assume "flightEvict env nonce now k f s = fold (promote_to env nonce (kept now f) now (lc (idHex b))) (fl_entries (kept now f)) (ended_outs now f, s1)"
  then have "fold (promote_to env nonce (kept now f) now (lc (idHex b))) (fl_entries (kept now f)) (ended_outs now f, s1) = (outs, s')" using assms by (rule subst)
  from fold_outs [of "promote_to env nonce (kept now f) now (lc (idHex b))", OF promote_out_keeps(2), of "ended_outs now f" "fl_entries (kept now f)" s1, unfolded this fst_conv]
  show ?thesis .
qed

lemma evict_kept:
  assumes "flightEvict env nonce now k f s = (outs, s')" "(ck, e) \<in> set (fl_entries (kept now f))" "went_ok (fl_topic f) ck e"
  shows "IngestSelf (we_type e) (we_payload e) \<in> set outs
    \<or> (\<exists>bh x ep. bh \<noteq> fl_root f \<and> bh \<notin> set (tried e) \<and> SendWrite (we_type e) (we_payload e) bh (Some x) \<in> set outs
         \<and> filed (flightKey (fl_topic f) bh ep) ck (promotions e + 1) (lc (fl_root f)) s')"
proof (rule flightEvict_cases [of env nonce now k f s])
  assume "fl_entries (kept now f) = []"
  then show ?thesis using assms(2) by simp
next
  fix s1 assume "flightEvict env nonce now k f s = fold (promote_self (kept now f) now) (fl_entries (kept now f)) (ended_outs now f, s1)"
  from self_ingests [OF assms(2), of "kept now f" now "(ended_outs now f, s1)", folded this, unfolded assms(1)]
  show ?thesis unfolding fst_conv by blast
next
  fix s1 b assume o: "flightEvict env nonce now k f s = fold (promote_to env nonce (kept now f) now (lc (idHex b))) (fl_entries (kept now f)) (ended_outs now f, s1)"
    and x: "lc (idHex b) \<notin> set (excluded (kept now f))"
  have same: "fl_topic (kept now f) = fl_topic f" "fl_root (kept now f) = fl_root f" by (simp_all add: kept_def)
  have n: "lc (idHex b) \<noteq> fl_root f" "lc (idHex b) \<notin> set (tried e)"
    using x assms(2) unfolding excluded_iff same by (blast, metis snd_conv)
  from promoted_files [OF assms(2), of "kept now f" "lc (idHex b)" env nonce now "(ended_outs now f, s1)", unfolded same, OF assms(3), folded o, unfolded assms(1) fst_conv snd_conv]
  show ?thesis using n by blast
qed

text \<open>C19. An eviction accounts for every write of the flight. A write that is at the cap or stale is reported
  undeliverable with that reason; any other one is ingested by the node itself, or sent to a node that is
  neither the evicted root nor any root its chain has left, under a new flight that remembers the evicted
  root and one more promotion. So a chain of promotions gets strictly longer and ends at the cap.\<close>

theorem evict_accounts:
  assumes "run env dig vrf G now0 ls born s" "mget (flights s) k = Some f" "mget (fl_entries f) ck = Some e"
    "flightEvict env nonce now k f s = (outs, s')"
  shows "(\<exists>why. endReason now e = Some why \<and> Undeliverable (we_type e) (fl_topic f) why \<in> set outs)
    \<or> promotions e < FLIGHT_MAX_PROMOTIONS \<and> (IngestSelf (we_type e) (we_payload e) \<in> set outs
       \<or> (\<exists>bh x ep. bh \<noteq> fl_root f \<and> bh \<notin> set (tried e) \<and> SendWrite (we_type e) (we_payload e) bh (Some x) \<in> set outs
            \<and> filed (flightKey (fl_topic f) bh ep) ck (promotions e + 1) (lc (fl_root f)) s'))"
proof (cases "endReason now e")
  case None
  have ok: "flight_ok k f" using wf_get [OF run_wf [OF assms(1)] assms(2)] .
  have inE: "(ck, e) \<in> set (fl_entries f)" using mget_Some_in [OF assms(3)] .
  then have "(ck, e) \<in> set (fl_entries (kept now f))" using None by (simp add: kept_def)
  from evict_kept [OF assms(4) this entry_went [OF ok inE]] show ?thesis using endReason_None_lt [OF None] by blast
next
  case (Some why)
  have "Undeliverable (we_type e) (fl_topic f) why \<in> set (ended_outs now f)"
    unfolding ended_outs_def using mget_Some_in [OF assms(3)] Some by force
  then show ?thesis using evict_ended [OF assms(4)] Some by blast
qed

theorem evict_accounts_witness:
  "\<exists>k f ck e. mget (flights (one_flight demo_env)) k = Some f \<and> mget (fl_entries f) ck = Some e \<and> endReason 9000 e = None
     \<and> fst (flightEvict demo_env ''z'' 9000 k f (one_flight demo_env)) \<noteq> []"
proof -
  obtain k f ck e where "flights (one_flight demo_env) = [(k, f)]" "fl_entries f = [(ck, e)]" and e: "promotions e = 0" "we_type e = KILL"
    using that [OF one_flight_eq] by simp
  then have g: "mget (flights (one_flight demo_env)) k = Some f" "mget (fl_entries f) ck = Some e" by simp_all
  have n: "endReason 9000 e = None" using e by (simp add: endReason_def FLIGHT_MAX_PROMOTIONS_def)
  obtain outs s' where o: "flightEvict demo_env ''z'' 9000 k f (one_flight demo_env) = (outs, s')" by fastforce
  from evict_accounts [OF one_flight_run g o] have "outs \<noteq> []" by auto
  then show ?thesis using g n o by (metis fst_conv)
qed

section \<open>What completes an entry\<close>

lemma close_removes:
  assumes "minvar (flights s)" "mget (flights s) k = Some f" "mget (fl_entries f) ck = Some e"
    and "\<not> (\<exists>f'. mget (flights (update_flights (\<lambda>k f. if P f then closeEntry ck' f else Some f) s)) k = Some f' \<and> mget (fl_entries f') ck = Some e)"
  shows "P f \<and> ck = ck'"
proof (rule ccontr)
  assume "\<not> (P f \<and> ck = ck')"
  then have "\<exists>f'. (if P f then closeEntry ck' f else Some f) = Some f' \<and> mget (fl_entries f') ck = Some e"
    using assms(3) mdelete_idle by (auto simp: closeEntry_def Let_def dest: arg_cong [where f = "\<lambda>m. mget m ck"])
  then show False using assms(4) get_update_flights [OF assms(1)] assms(2) by simp
qed

lemma close_closes:
  assumes "minvar (flights s)" "mget (flights s) k = Some f" "P f"
  shows "\<not> (\<exists>f' e. mget (flights (update_flights (\<lambda>k f. if P f then closeEntry ck f else Some f) s)) k = Some f' \<and> mget (fl_entries f') ck = Some e)"
  using assms by (auto simp: get_update_flights closeEntry_def Let_def split: if_splits)

lemma verified_says:
  assumes "verifyAckProof vrf fr = Inr pf" "\<And>t x. vrf (f_rootPub pf) t x = Some True \<Longrightarrow> t \<in> all_signed F C H"
  shows "\<exists>g \<in> F. field_bytes ATTEMPT_ID_BYTES (a_attemptId g) = hexToBytes (lc (f_attemptId pf)) (Some 16) \<and> field_bytes ID_BYTES (a_ackTo g) = hexToBytes (lc (f_ackTo pf)) (Some 33)"
proof -
  from verifyAck_Inr [OF assms(1)] obtain q sig t where v: "buildTranscript (frame_fields fr q (f_rootPub pf)) = Inr t" "vrf (f_rootPub pf) t sig = Some True"
    and r: "pf = \<lparr>f_purpose = k_purpose fr, f_op = k_op fr, f_topicId = lc (k_topicId fr), f_msgId = k_msgId fr,
            f_epoch = k_epoch fr, f_attemptId = lc (k_attemptId fr), f_ackTo = lc (k_ackTo fr),
            f_flightNonce = lc (k_flightNonce fr), f_rootPub = f_rootPub pf\<rparr>" by blast
  have "f_attemptId pf = lc (k_attemptId fr)" "f_ackTo pf = lc (k_ackTo fr)" by (subst r, simp only: ack_ok.select_convs)+
  then show ?thesis using signed_ack [OF v(1) assms(2) [OF v(2)]]
    by (auto simp: ack_says_def frame_fields_def ID_BYTES_def ATTEMPT_ID_BYTES_def)
qed

text \<open>The key of an accepted proof names one of the two operations.\<close>

lemma proof_key_verified:
  "verifyAckProof vrf fr = Inr pf \<Longrightarrow> \<exists>q \<in> {''pub'', ''kill''}. proof_key pf = corrKey (f_topicId pf) (f_msgId pf) q \<and> op_text (f_op pf) = Some q"
  using ack_op_text [of vrf fr pf] by (auto simp: proof_key_def)

lemma proof_bindsD:
  assumes "proof_binds ks dig ck pf f" "mget (fl_entries f) ck = Some e"
  shows "we_attemptId e = lc (f_attemptId pf) \<and> fl_ackTo f = lc (f_ackTo pf) \<and> fl_nonce f = lc (f_flightNonce pf) \<and> (fl_epoch f = 0 \<or> f_epoch pf = jint (fl_epoch f))
     \<and> (\<exists>rootBig. asId ks (JStr (fl_root f)) = Inr rootBig \<and> rootPubMatchesNodeHash ks dig (f_rootPub pf) rootBig)"
  using assms unfolding proof_binds_def by (auto split: sum.splits)

lemma ack_signed:
  "m = SignedAck fr \<Longrightarrow> verifyAckProof vrf fr = Inr pf \<Longrightarrow> snd (onIngestAck env dig vrf now m fromId s) =
     update_flights (\<lambda>k f. if proof_binds (w_ks env) dig (proof_key pf) pf f
       then closeEntry (proof_key pf) f else Some f) s"
  by (simp add: onIngestAck_def flightCompleteSigned_def Let_def)

lemma ack_plain:
  "m = PlainAck th mid p ep \<Longrightarrow> p = ''kill'' \<or> p = ''pub'' \<Longrightarrow> epoch = (if num_is_integer ep \<and> num_int ep \<ge> 0 then num_int ep else 0) \<Longrightarrow>
     snd (onIngestAck env dig vrf now m fromId s) = update_flights (\<lambda>k f. if ack_binds (corrKey th mid p) (fromHex_of (w_ks env) fromId) epoch f
       then closeEntry (corrKey th mid p) f else Some f) (noteAck (corrKey th mid p) epoch now fromId s)"
  by (auto simp: onIngestAck_def flightComplete_def Let_def)

text \<open>C17. An ack closes only the write it is about. If the handler of an incoming ack closes an entry, then
  either the ack is unsigned, names that topic, message and operation, and comes from the root of the flight
  with the epoch of the flight; or it is a verified proof whose topic, message, operation, attempt, reply address,
  nonce and epoch are those of the entry, whose key hashes to the id of the root, and which, when all that verifies
  under that key was signed by its holder, the holder signed for exactly that attempt and reply address. (One step of the model tests an entry
  and removes it; the code awaits the digest of the key between the two.)\<close>

theorem completion_binds:
  assumes "run env dig vrf G now0 ls born s" "mget (flights s) k = Some f" "mget (fl_entries f) ck = Some e"
    and "\<not> (\<exists>f'. mget (flights (snd (onIngestAck env dig vrf now m fromId s))) k = Some f' \<and> mget (fl_entries f') ck = Some e)"
    and signs: "\<And>pub t x. vrf pub t x = Some True \<Longrightarrow> t \<in> all_signed (F pub) C H"
  shows "(\<exists>th mid p ep. m = PlainAck th mid p ep \<and> ck = corrKey th mid p \<and> fromHex_of (w_ks env) fromId = Some (fl_root f)
       \<and> (fl_epoch f = 0 \<or> num_int ep = fl_epoch f))
    \<or> (\<exists>fr pf rootBig. m = SignedAck fr \<and> verifyAckProof vrf fr = Inr pf \<and> ck = proof_key pf
       \<and> we_attemptId e = lc (f_attemptId pf) \<and> fl_ackTo f = lc (f_ackTo pf) \<and> fl_nonce f = lc (f_flightNonce pf) \<and> (fl_epoch f = 0 \<or> f_epoch pf = jint (fl_epoch f))
       \<and> asId (w_ks env) (JStr (fl_root f)) = Inr rootBig \<and> rootPubMatchesNodeHash (w_ks env) dig (f_rootPub pf) rootBig
       \<and> (\<exists>g \<in> F (f_rootPub pf). field_bytes ATTEMPT_ID_BYTES (a_attemptId g) = hexToBytes (we_attemptId e) (Some 16) \<and> field_bytes ID_BYTES (a_ackTo g) = hexToBytes (fl_ackTo f) (Some 33)))"
proof -
  have inv: "minvar (flights s)" using run_wf [OF assms(1)] by (simp add: wf_ok_def)
  show ?thesis
  proof (cases m)
    case (SignedAck fr)
    then obtain pf where v: "verifyAckProof vrf fr = Inr pf" using assms(2-4) by (auto simp: onIngestAck_def split: sum.splits)
    have b: "proof_binds (w_ks env) dig (proof_key pf) pf f \<and> ck = proof_key pf"
      by (rule close_removes [OF inv assms(2,3) assms(4) [unfolded ack_signed [OF SignedAck v]]])
    then have "proof_binds (w_ks env) dig ck pf f" by simp
    note d = proof_bindsD [OF this assms(3)]
    have "\<exists>g \<in> F (f_rootPub pf). field_bytes ATTEMPT_ID_BYTES (a_attemptId g) = hexToBytes (we_attemptId e) (Some 16) \<and> field_bytes ID_BYTES (a_ackTo g) = hexToBytes (fl_ackTo f) (Some 33)"
      using verified_says [OF v signs] d by simp
    then show ?thesis using SignedAck v b d by blast
  next
    case (PlainAck th mid p ep)
    define epoch where "epoch = (if num_is_integer ep \<and> num_int ep \<ge> 0 then num_int ep else 0)"
    have pk: "p = ''kill'' \<or> p = ''pub''"
    proof (rule ccontr)
      assume "\<not> ?thesis"
      then have "snd (onIngestAck env dig vrf now m fromId s) = s" by (simp add: onIngestAck_def PlainAck)
      then show False using assms(2-4) by simp
    qed
    have "ack_binds (corrKey th mid p) (fromHex_of (w_ks env) fromId) epoch f \<and> ck = corrKey th mid p"
      by (rule close_removes [OF _ _ assms(3) assms(4) [unfolded ack_plain [OF PlainAck pk epoch_def]]]) (use inv assms(2) in simp_all)
    then have "fromHex_of (w_ks env) fromId = Some (fl_root f)" "fl_epoch f = 0 \<or> epoch = fl_epoch f" "ck = corrKey th mid p" unfolding ack_binds_def by blast+
    moreover from this(2) have "fl_epoch f = 0 \<or> num_int ep = fl_epoch f" unfolding epoch_def by presburger
    ultimately show ?thesis using PlainAck by blast
  next
    case BadAck
    then show ?thesis using assms(2-4) by (simp add: onIngestAck_def)
  qed
qed

lemma lc_zid: "lc zid = zid"
  by code_simp

theorem completion_binds_witness:
  "\<exists>k f ck e. mget (flights (one_flight demo_env)) k = Some f \<and> mget (fl_entries f) ck = Some e
     \<and> flights (snd (onIngestAck demo_env (\<lambda>b. b) (\<lambda>_ _ _. Some False) 10 (PlainAck (idHex 5) ''m'' ''kill'' (jint 0)) (JStr zid) (one_flight demo_env))) = []
     \<and> fromHex_of (w_ks demo_env) (JStr zid) = Some (fl_root f)"
proof -
  obtain k f ck e where o: "flights (one_flight demo_env) = [(k, f)]" "fl_entries f = [(ck, e)]" "ck = corrKey (idHex 5) ''m'' ''kill''" "fl_root f = zid" "fl_epoch f = 0"
    using that [OF one_flight_eq] by (simp add: new_flight_def lc_zid)
  then have g: "mget (flights (one_flight demo_env)) k = Some f" "mget (fl_entries f) ck = Some e" by simp_all
  have "fromHex_of production (JStr zid) = Some zid" using zeros(1,2) by (simp add: fromHex_of_def)
  then have "ack_binds ck (fromHex_of (w_ks demo_env) (JStr zid)) 0 f" using o by (simp add: ack_binds_def demo_env_def)
  then have gone: "flights (snd (onIngestAck demo_env (\<lambda>b. b) (\<lambda>_ _ _. Some False) 10 (PlainAck (idHex 5) ''m'' ''kill'' (jint 0)) (JStr zid) (one_flight demo_env))) = []"
    using o by (subst ack_plain [OF refl _ refl]) (simp_all add: update_flights_def closeEntry_def map_filter_simps mdelete_def Let_def)
  have "fromHex_of (w_ks demo_env) (JStr zid) = Some (fl_root f)"
    using completion_binds [OF one_flight_run g, of 10 "PlainAck (idHex 5) ''m'' ''kill'' (jint 0)" "JStr zid" "\<lambda>_. {}" "{}" "{}"] gone by simp
  then show ?thesis using g gone by blast
qed

text \<open>C38. The purpose of a proof is not looked at: a verified proof that the root signed to say that it does not hold
  the write (\<open>RECEIPT_NACK\<close>, purpose 2) closes the entry it binds to, as an \<open>INGEST_ACK\<close> would.\<close>

theorem nack_proof_completes:
  assumes "verifyAckProof vrf fr = Inr pf" "f_purpose pf = 2" "minvar (flights s)" "mget (flights s) k = Some f"
    "proof_binds (w_ks env) dig (proof_key pf) pf f"
  shows "\<not> (\<exists>f' e. mget (flights (snd (onIngestAck env dig vrf now (SignedAck fr) fromId s))) k = Some f'
      \<and> mget (fl_entries f') (proof_key pf) = Some e)"
  unfolding ack_signed [OF refl assms(1)] using assms(3-5) by (rule close_closes)

definition nack_fields :: ack_fields where
  "nack_fields = demo_fields\<lparr>a_purpose := 2, a_rootPub := FBytes (replicate 32 0)\<rparr>"

definition any_vrf :: vrf where
  "any_vrf pub t s = Some (s = replicate 64 0)"

definition nack_frame :: ack_frame where
  "nack_frame = (case signAckProof (Some (\<lambda>_. replicate 64 0)) nack_fields of Inr k \<Rightarrow> k)"

definition nack_pf :: ack_ok where
  "nack_pf = projr (verifyAckProof any_vrf nack_frame)"

lemma nack_verifies: "verifyAckProof any_vrf nack_frame = Inr nack_pf" "f_purpose nack_pf = 2" "f_rootPub nack_pf = replicate 32 0"
proof -
  have "\<exists>t. buildTranscript nack_fields = Inr t"
    by (simp add: buildTranscript_def nack_fields_def demo_fields_def isPurpose_def isOp_def field_bytes_def ID_BYTES_def MSG_ID_BYTES_def
      ATTEMPT_ID_BYTES_def FLIGHT_NONCE_BYTES_def ROOT_PUB_BYTES_def is_safe_integer_def max_safe_integer_def)
  then have s: "signAckProof (Some (\<lambda>_. replicate 64 0)) nack_fields = Inr nack_frame" by (auto simp: nack_frame_def signAckProof_def Let_def)
  have p: "field_bytes ROOT_PUB_BYTES (a_rootPub nack_fields) = Some (replicate 32 0)" by (simp add: nack_fields_def field_bytes_def ROOT_PUB_BYTES_def)
  have "any_vrf pub t ((\<lambda>_. replicate 64 0) t) = Some True" for pub t by (simp add: any_vrf_def)
  note v = ack_proof_roundtrip [of "\<lambda>_. replicate 64 0" nack_fields nack_frame "replicate 32 0" any_vrf, OF s p this]
  show "verifyAckProof any_vrf nack_frame = Inr nack_pf" "f_purpose nack_pf = 2" "f_rootPub nack_pf = replicate 32 0"
    using v by (simp_all add: nack_pf_def nack_fields_def)
qed

definition nack_flight :: flight where
  "nack_flight = \<lparr>fl_topic = 0, fl_root = zid, fl_epoch = 0,
     fl_entries = [(proof_key nack_pf, \<lparr>we_type = PUB, we_payload = kill_payload, we_msgId = f_msgId nack_pf, we_op = ''pub'',
        we_attemptId = lc (f_attemptId nack_pf), promotions = 0, tried = []\<rparr>)],
     fl_stage = Probing, fl_rounds = 1, fl_deadline = 10, fl_ackTo = lc (f_ackTo nack_pf), fl_nonce = lc (f_flightNonce nack_pf), fl_merge = False\<rparr>"

theorem nack_proof_completes_witness:
  "f_purpose nack_pf = 2 \<and> (let s = empty_flights\<lparr>flights := [((0, zid, 0), nack_flight)]\<rparr> in
     mget (flights (snd (onIngestAck demo_env (\<lambda>_. []) any_vrf 5 (SignedAck nack_frame) (JStr zid) s))) (0, zid, 0) = None)"
proof -
  define s where "s = empty_flights\<lparr>flights := [((0, zid, 0), nack_flight)]\<rparr>"
  have b: "proof_binds (w_ks demo_env) (\<lambda>_. []) (proof_key nack_pf) nack_pf nack_flight"
    using zeros(2,11) nack_verifies(3) by (simp add: proof_binds_def nack_flight_def demo_env_def)
  have inv: "minvar (flights s)" and g: "mget (flights s) (0, zid, 0) = Some nack_flight" by (simp_all add: s_def minvar_def)
  from nack_proof_completes [OF nack_verifies(1,2) inv g b, of 5 "JStr zid"]
  have n: "mget (fl_entries f') (proof_key nack_pf) = None"
    if "mget (flights (snd (onIngestAck demo_env (\<lambda>_. []) any_vrf 5 (SignedAck nack_frame) (JStr zid) s))) (0, zid, 0) = Some f'" for f'
    using that by (metis option.exhaust)
  have "mget (flights (snd (onIngestAck demo_env (\<lambda>_. []) any_vrf 5 (SignedAck nack_frame) (JStr zid) s))) (0, zid, 0) = None"
    using n b g unfolding ack_signed [OF refl nack_verifies(1)] get_update_flights [OF inv]
    by (auto simp: closeEntry_def Let_def mdelete_def nack_flight_def split: if_splits)
  then show ?thesis using nack_verifies(2) by (simp add: s_def Let_def)
qed

end
