(* ===== verification/TopicStore.thy ===== *)
theory TopicStore
  imports Envelopes
begin

text \<open>
  Per-topic storage: \<open>src/src/pubsub/topicStore.js\<close>, with the commit check \<open>_cutHolds\<close> of
  \<open>mergeMachine.js\<close>, the metric-name test of \<open>metrics.js\<close>, \<open>_applyKill\<close> of \<open>wireHandlers.js\<close> and
  \<open>_taVerifyBoundKill\<close> of \<open>tombstoneAuthWiring.js\<close>. The clock is an argument. A role object is a record
  with an identity (\<open>ro_ref\<close>), so that the comparison of objects is the comparison of identities;
  \<open>role.gen | 0\<close> is a 32-bit word. Log lines and latency marks are left out; the ids handed to
  \<open>_taObserveEvict\<close>, the messages sent and the calls out of the store are outputs. Stamps are integers.
\<close>

section \<open>State\<close>

record centry =
  ce_msgId :: string
  ce_json :: "string option"
  ce_ts :: int
  ce_bytes :: int

type_synonym gen_tag = "string \<times> 32 word"

record tstone =
  tb_exp :: int
  tb_killTs :: int
  tb_signer :: "string option"
  tb_seq :: "int option"
  tb_kill :: "js option"
  tb_gen :: "gen_tag option"
  tb_owners :: "gen_tag list"

record role =
  ro_ref :: nat
  ro_topicId :: int
  isRoot :: bool
  gate :: "bool option"
  dismantling :: bool
  retired :: bool
  gen :: "32 word"
  latestOnly :: "bool option"
  cache :: "centry list"
  cacheIds :: "string set"
  cacheBytes :: int
  publishes :: nat
  pins :: "string set"
  tombstones :: "(string, tstone) jmap"
  lastTs :: int
  ro_seq :: int

definition TTL_MS :: int where "TTL_MS = 24 * 60 * 60 * 1000"

definition APP_DEDUP_MAX :: nat where "APP_DEDUP_MAX = 8192"

section \<open>The cut\<close>

type_synonym cut = "nat \<times> 32 word"

definition cutCapture :: "role option \<Rightarrow> cut option" where
  "cutCapture r = map_option (\<lambda>r. (ro_ref r, gen r)) r"

text \<open>\<open>live\<close> is \<open>axonRoles.get(role.topicId)\<close>, as an identity.\<close>

definition cutHolds :: "nat option \<Rightarrow> role \<Rightarrow> cut option \<Rightarrow> bool" where
  "cutHolds live r c \<longleftrightarrow> gate r \<noteq> Some False \<and> \<not> dismantling r \<and> \<not> retired r \<and> (live = None \<or> live = Some (ro_ref r))
     \<and> (case c of None \<Rightarrow> True | Some (role0, gen0) \<Rightarrow> ro_ref r = role0 \<and> gen r = gen0)"

section \<open>The cache\<close>

text \<open>\<open>role.cache.splice(i, 1)\<close> with its two counters.\<close>

definition remove_at :: "nat \<Rightarrow> role \<Rightarrow> role" where
  "remove_at i r = r\<lparr>cache := take i (cache r) @ drop (Suc i) (cache r), cacheIds := cacheIds r - {ce_msgId (cache r ! i)},
     cacheBytes := cacheBytes r - ce_bytes (cache r ! i)\<rparr>"

fun first_unpinned :: "string set \<Rightarrow> centry list \<Rightarrow> nat option" where
  "first_unpinned p [] = None"
| "first_unpinned p (c # cs) = (if ce_msgId c \<in> p then map_option Suc (first_unpinned p cs) else Some 0)"

text \<open>The first argument is the loop's own \<open>guard\<close>.\<close>

fun evict_loop :: "nat \<Rightarrow> nat \<Rightarrow> int \<Rightarrow> role \<Rightarrow> string list \<times> role" where
  "evict_loop 0 cacheMax bytesMax r = ([], r)"
| "evict_loop (Suc g) cacheMax bytesMax r =
     (if length (cache r) > cacheMax \<or> cacheBytes r > bytesMax
      then (case first_unpinned (pins r) (cache r) of None \<Rightarrow> ([], r)
         | Some i \<Rightarrow> (let (ev, r') = evict_loop g cacheMax bytesMax (remove_at i r) in (ce_msgId (cache r ! i) # ev, r')))
      else ([], r))"

text \<open>From the entry before the last one down to the first.\<close>

fun trim_loop :: "nat \<Rightarrow> role \<Rightarrow> string list \<times> role" where
  "trim_loop 0 r = ([], r)"
| "trim_loop (Suc i) r = (if ce_msgId (cache r ! i) \<in> pins r then trim_loop i r
     else (let (ev, r') = trim_loop i (remove_at i r) in (ce_msgId (cache r ! i) # ev, r')))"

definition newestTs :: "centry list \<Rightarrow> int option" where
  "newestTs cs = fold (\<lambda>e n. case n of None \<Rightarrow> Some (ce_ts e) | Some t \<Rightarrow> if ce_ts e > t then Some (ce_ts e) else n) cs None"

definition superseded :: "role \<Rightarrow> centry \<Rightarrow> bool" where
  "superseded r e \<longleftrightarrow> latestOnly r = Some True \<and> (case newestTs (cache r) of None \<Rightarrow> False | Some t \<Rightarrow> ce_ts e \<le> t)"

definition entryBytes :: "centry \<Rightarrow> int" where
  "entryBytes e = (case ce_json e of None \<Rightarrow> 0 | Some j \<Rightarrow> int (length j)) + 80"

definition append_entry :: "centry \<Rightarrow> role \<Rightarrow> role" where
  "append_entry e r = r\<lparr>cache := cache r @ [e\<lparr>ce_bytes := entryBytes e\<rparr>], cacheIds := insert (ce_msgId e) (cacheIds r),
     cacheBytes := cacheBytes r + entryBytes e, publishes := publishes r + 1\<rparr>"

definition cachePush :: "nat \<Rightarrow> int \<Rightarrow> nat option \<Rightarrow> role \<Rightarrow> centry \<Rightarrow> cut option \<Rightarrow> bool \<times> string list \<times> role" where
  "cachePush cacheMax bytesMax live r e c =
     (if \<not> cutHolds live r c then (False, [], r)
      else if superseded r e then (True, [], r)
      else (let r1 = append_entry e r;
                (ev1, r2) = evict_loop (length (cache r1) + 1) cacheMax bytesMax r1;
                (ev2, r3) = (if latestOnly r2 = Some True \<and> length (cache r2) > 1 then trim_loop (length (cache r2) - 1) r2 else ([], r2)) in
            (True, ev1 @ ev2, r3)))"

definition METRIC_NAMESPACE :: string where "METRIC_NAMESPACE = ''axona:metric:''"

definition isMetricTopicName :: "js \<Rightarrow> bool" where
  "isMetricTopicName v = (case v of JStr s \<Rightarrow> take (length METRIC_NAMESPACE) s = METRIC_NAMESPACE | _ \<Rightarrow> False)"

definition noteMetricRole :: "role \<Rightarrow> js \<Rightarrow> role" where
  "noteMetricRole r name = (if latestOnly r \<noteq> None then r else r\<lparr>latestOnly := Some (isMetricTopicName name)\<rparr>)"

function expire_loop :: "int \<Rightarrow> nat \<Rightarrow> role \<Rightarrow> string list \<times> role" where
  "expire_loop now i r =
     (if i < length (cache r) \<and> now - ce_ts (cache r ! i) > TTL_MS
      then (if ce_msgId (cache r ! i) \<in> pins r then expire_loop now (Suc i) r
            else (let (ev, r') = expire_loop now i (remove_at i r) in (ce_msgId (cache r ! i) # ev, r')))
      else ([], r))"
  by pat_completeness auto
termination
  by (relation "measure (\<lambda>(now, i, r). length (cache r) - i)") (auto simp: remove_at_def)

declare expire_loop.simps [simp del]

definition expireCache :: "role \<Rightarrow> int \<Rightarrow> string list \<times> role" where
  "expireCache r now = expire_loop now 0 r"

definition expireTombstones :: "role \<Rightarrow> int \<Rightarrow> role" where
  "expireTombstones r now = r\<lparr>tombstones := filter (\<lambda>(m, t). \<not> (tb_exp t \<le> now \<and> m \<notin> pins r)) (tombstones r)\<rparr>"

definition highWater :: "role \<Rightarrow> int" where
  "highWater r = max (lastTs r) (if cache r = [] then 0 else ce_ts (last (cache r)))"

definition lowWater :: "role \<Rightarrow> int" where
  "lowWater r = (if cache r = [] then 0 else ce_ts (hd (cache r)))"

section \<open>Tombstones\<close>

text \<open>\<open>author\<close> is the signer of the parsed message, \<open>None\<close> when it has none or does not parse.\<close>

definition tombstoned :: "role option \<Rightarrow> string \<Rightarrow> string option \<Rightarrow> bool \<times> role option" where
  "tombstoned ro msgId author = (case ro of None \<Rightarrow> (False, None)
     | Some r \<Rightarrow> (case mget (tombstones r) msgId of None \<Rightarrow> (False, Some r)
        | Some t \<Rightarrow> (case tb_signer t of None \<Rightarrow> (True, Some r)
           | Some s \<Rightarrow> if s = [] then (True, Some r)
               else if (case author of None \<Rightarrow> False | Some a \<Rightarrow> a \<noteq> [] \<and> lc a = lc s) then (True, Some r)
               else (False, Some (r\<lparr>tombstones := mdelete msgId (tombstones r)\<rparr>)))))"

record del =
  d_msgId :: string
  d_killTs :: "int option"
  d_signer :: "string option"
  d_seq :: "int option"
  d_kill :: "js option"

definition activeDels :: "bool \<Rightarrow> role \<Rightarrow> int \<Rightarrow> del list" where
  "activeDels ta r now = map (\<lambda>(m, t). \<lparr>d_msgId = m, d_killTs = Some (tb_killTs t), d_signer = tb_signer t, d_seq = tb_seq t,
     d_kill = (if ta then tb_kill t else None)\<rparr>) (filter (\<lambda>(m, t). tb_exp t > now) (tombstones r))"

definition kill_bound :: "keyspace \<Rightarrow> int \<Rightarrow> string \<Rightarrow> js \<Rightarrow> bool" where
  "kill_bound ks topicBig target k = (case fields_of k of None \<Rightarrow> False
     | Some f \<Rightarrow> obj_get f ''msgId'' = JStr target \<and> obj_get f ''topicId'' \<notin> {Undefined, Null}
         \<and> (case asId ks (obj_get f ''topicId'') of Inl _ \<Rightarrow> False | Inr b \<Rightarrow> b = topicBig))"

definition verifyBoundKill :: "keyspace \<Rightarrow> (rat \<Rightarrow> string) \<Rightarrow> vrf \<Rightarrow> int \<Rightarrow> del \<Rightarrow> bool" where
  "verifyBoundKill ks ns vrf topicBig d = (case d_kill d of None \<Rightarrow> False
     | Some k \<Rightarrow> kill_bound ks topicBig (d_msgId d) k
         \<and> (case verifyKill ns vrf k of Accepted s \<Rightarrow> (case d_signer d of None \<Rightarrow> False | Some c \<Rightarrow> lc c = lc s) | _ \<Rightarrow> False))"

datatype sout = CancelDurable string
  | FanDel string int "string option" "int option" "js option"
  | Replicate int
  | ConfirmPending int string
  | DeliverKill int string int "int option"

text \<open>The signer of a retained proof, already verified by the caller.\<close>

definition proof_signer :: "js \<Rightarrow> string" where
  "proof_signer k = (case fields_of k of None \<Rightarrow> [] | Some f \<Rightarrow> lc (str_of (obj_get f ''signerPubkey'')))"

definition own :: "gen_tag option \<Rightarrow> tstone \<Rightarrow> tstone" where
  "own g t = (case g of None \<Rightarrow> t | Some x \<Rightarrow> if x \<in> set (tb_owners t) then t else t\<lparr>tb_owners := tb_owners t @ [x]\<rparr>)"

definition take_seq :: "int option \<Rightarrow> role \<Rightarrow> role" where
  "take_seq s r = (case s of None \<Rightarrow> r | Some n \<Rightarrow> if n > ro_seq r then r\<lparr>ro_seq := n\<rparr> else r)"

fun find_index :: "('a \<Rightarrow> bool) \<Rightarrow> 'a list \<Rightarrow> nat option" where
  "find_index P [] = None"
| "find_index P (x # xs) = (if P x then Some 0 else map_option Suc (find_index P xs))"

definition drop_target :: "string \<Rightarrow> role \<Rightarrow> role" where
  "drop_target m r = (let r1 = (case find_index (\<lambda>c. ce_msgId c = m) (cache r) of None \<Rightarrow> r
       | Some i \<Rightarrow> r\<lparr>cacheBytes := cacheBytes r - ce_bytes (cache r ! i), cache := take i (cache r) @ drop (Suc i) (cache r)\<rparr>) in
     r1\<lparr>cacheIds := cacheIds r1 - {m}\<rparr>)"

text \<open>\<open>rr\<close>: the node keeps replicas of its roots. A root confirms its own kill only after the replication, which
  is not part of the store.\<close>

definition new_tomb :: "int \<Rightarrow> int \<Rightarrow> js option \<Rightarrow> gen_tag option \<Rightarrow> del \<Rightarrow> tstone" where
  "new_tomb now killTs prf g m = \<lparr>tb_exp = now + TTL_MS, tb_killTs = killTs,
     tb_signer = (case prf of Some k \<Rightarrow> Some (proof_signer k) | None \<Rightarrow> d_signer m), tb_seq = d_seq m, tb_kill = prf, tb_gen = g,
     tb_owners = (case g of None \<Rightarrow> [] | Some x \<Rightarrow> [x])\<rparr>"

definition attach_proof :: "js \<Rightarrow> tstone \<Rightarrow> tstone" where
  "attach_proof k t = t\<lparr>tb_kill := Some k, tb_signer := Some (proof_signer k)\<rparr>"

definition applyKill ::
  "keyspace \<Rightarrow> bool \<Rightarrow> bool \<Rightarrow> int \<Rightarrow> nat option \<Rightarrow> int \<Rightarrow> del \<Rightarrow> cut option \<Rightarrow> gen_tag option \<Rightarrow> role option \<Rightarrow> bool \<times> sout list \<times> role option" where
  "applyKill ks ta rr now live topicBig m c g ro =
     (let target = d_msgId m; killTs = (case d_killTs m of Some t \<Rightarrow> t | None \<Rightarrow> now);
          prf = (if ta then (case d_kill m of Some k \<Rightarrow> if kill_bound ks topicBig target k then Some k else None | None \<Rightarrow> None) else None) in
      case ro of
        None \<Rightarrow> (True, [CancelDurable target, ConfirmPending topicBig target, DeliverKill topicBig target killTs (d_seq m)], None)
      | Some r0 \<Rightarrow>
        if \<not> cutHolds live r0 c then (False, [], ro)
        else (let r = take_seq (d_seq m) r0; rep = (if isRoot r \<and> rr then [Replicate topicBig] else []) in
          case mget (tombstones r) target of
            Some t \<Rightarrow>
              (case prf of
                 Some k \<Rightarrow>
                   if tb_kill t = None
                   then (let t' = attach_proof k (own g t) in
                     (True, [CancelDurable target, FanDel target (tb_killTs t') (tb_signer t') (tb_seq t') (Some k)] @ rep,
                      Some (r\<lparr>tombstones := mset_key target t' (tombstones r)\<rparr>)))
                   else (True, [CancelDurable target, ConfirmPending topicBig target, DeliverKill topicBig target killTs (d_seq m)],
                      Some (r\<lparr>tombstones := mset_key target (own g t) (tombstones r)\<rparr>))
               | None \<Rightarrow> (True, [CancelDurable target, ConfirmPending topicBig target, DeliverKill topicBig target killTs (d_seq m)],
                      Some (r\<lparr>tombstones := mset_key target (own g t) (tombstones r)\<rparr>)))
          | None \<Rightarrow>
              (let t = new_tomb now killTs prf g m;
                   r' = drop_target target (r\<lparr>tombstones := mset_key target t (tombstones r)\<rparr>) in
               (True, [CancelDurable target, FanDel target killTs (tb_signer t) (d_seq m) prf] @ rep
                  @ (if isRoot r \<and> rr then [] else [ConfirmPending topicBig target]) @ [DeliverKill topicBig target killTs (d_seq m)], Some r'))))"

definition strip_unverified :: "keyspace \<Rightarrow> (rat \<Rightarrow> string) \<Rightarrow> vrf \<Rightarrow> bool \<Rightarrow> int \<Rightarrow> del \<Rightarrow> del" where
  "strip_unverified ks ns vrf ta topicBig d =
     (if ta \<and> d_kill d \<noteq> None \<and> \<not> verifyBoundKill ks ns vrf topicBig d then d\<lparr>d_kill := None\<rparr> else d)"

fun applyDels ::
  "keyspace \<Rightarrow> (rat \<Rightarrow> string) \<Rightarrow> vrf \<Rightarrow> bool \<Rightarrow> bool \<Rightarrow> int \<Rightarrow> nat option \<Rightarrow> int \<Rightarrow> cut option \<Rightarrow> gen_tag option \<Rightarrow> del list \<Rightarrow> role option
     \<Rightarrow> bool \<times> sout list \<times> role option" where
  "applyDels ks ns vrf ta rr now live topicBig c g [] ro = (True, [], ro)"
| "applyDels ks ns vrf ta rr now live topicBig c g (d # ds) ro =
     (if d_msgId d = [] then applyDels ks ns vrf ta rr now live topicBig c g ds ro
      else (let (ok, o1, ro1) = applyKill ks ta rr now live topicBig (strip_unverified ks ns vrf ta topicBig d) c g ro in
        if ok then (let (ok', o2, ro2) = applyDels ks ns vrf ta rr now live topicBig c g ds ro1 in (ok', o1 @ o2, ro2))
        else (False, o1, ro1)))"

section \<open>Delivery to the application\<close>

record delivery =
  mySubs :: "(int, int option) jmap"
  appDelivered :: "string list"
  lastSeen :: "(int, int) jmap"

datatype dout = Pending int string | AppMessage int string string int "int option" | AppDeleted int string int "int option"

text \<open>\<open>BigInt.prototype.toString(16)\<close>, and the prefix the keys of a topic begin with.\<close>

definition big_hex :: "int \<Rightarrow> string" where
  "big_hex i = (if i < 0 then CHR ''-'' # hex_digits (nat (- i)) else hex_digits (nat i))"

definition topicPrefix :: "int \<Rightarrow> string" where
  "topicPrefix topicBig = big_hex topicBig @ '':''"

definition bodyKey :: "int \<Rightarrow> string \<Rightarrow> string" where
  "bodyKey topicBig msgId = big_hex topicBig @ '':'' @ msgId"

definition killKey :: "int \<Rightarrow> string \<Rightarrow> string" where
  "killKey topicBig target = big_hex topicBig @ '':kill:'' @ target"

text \<open>Insertion of a key that is not there, and the eviction of the oldest one above the bound.\<close>

definition remember :: "string \<Rightarrow> delivery \<Rightarrow> delivery" where
  "remember k d = (let ks = appDelivered d @ [k] in d\<lparr>appDelivered := (if length ks > APP_DEDUP_MAX then tl ks else ks)\<rparr>)"

definition advance :: "int \<Rightarrow> int \<Rightarrow> delivery \<Rightarrow> delivery" where
  "advance topicBig ts d = (let prev = (case mget (lastSeen d) topicBig of None \<Rightarrow> 0 | Some t \<Rightarrow> t) in
     if ts > prev then d\<lparr>lastSeen := mset_key topicBig ts (lastSeen d)\<rparr> else d)"

definition deliverToApp :: "int \<Rightarrow> string \<Rightarrow> string \<Rightarrow> int \<Rightarrow> int option \<Rightarrow> delivery \<Rightarrow> dout list \<times> delivery" where
  "deliverToApp topicBig json msgId ts sq d =
     (if \<not> mhas (mySubs d) topicBig \<or> bodyKey topicBig msgId \<in> set (appDelivered d) then ([], d)
      else ([Pending topicBig msgId, AppMessage topicBig json msgId ts sq], advance topicBig ts (remember (bodyKey topicBig msgId) d)))"

definition deliverKillToApp :: "int \<Rightarrow> string \<Rightarrow> int \<Rightarrow> int option \<Rightarrow> delivery \<Rightarrow> dout list \<times> delivery" where
  "deliverKillToApp topicBig target killTs sq d =
     (if \<not> mhas (mySubs d) topicBig then ([], d)
      else (let d1 = advance topicBig killTs d in
        if killKey topicBig target \<in> set (appDelivered d1) then ([], d1)
        else (let d2 = remember (killKey topicBig target) d1 in
          if bodyKey topicBig target \<notin> set (appDelivered d2) then ([], d2)
          else ([AppDeleted topicBig target killTs sq], d2))))"

text \<open>The two ends of a subscription at the application. \<open>pubsubResetTopicConsumption\<close> forgets what the application has
  consumed of the topic: the floor goes to 0 and every key of the topic is deleted. \<open>_applySince\<close> seeds the floor a
  subscription starts from; a stamp \<open>now\<close> is the clock of the call. Of these steps the
  effect on this state is modelled; a \<open>since\<close> of no valid form is refused with an exception before it, and \<open>_replayLocal\<close>, which \<open>pubsubSubscribe\<close> runs
  on a held role, is a sequence of deliveries.\<close>

definition resetTopicConsumption :: "int \<Rightarrow> delivery \<Rightarrow> delivery" where
  "resetTopicConsumption topicBig d = d\<lparr>lastSeen := mset_key topicBig 0 (lastSeen d),
     appDelivered := filter (\<lambda>k. take (length (topicPrefix topicBig)) k \<noteq> topicPrefix topicBig) (appDelivered d)\<rparr>"

datatype since = LiveTail | FullReplay | Latest | FromTs int

fun applySince :: "int \<Rightarrow> int \<Rightarrow> since \<Rightarrow> delivery \<Rightarrow> delivery" where
  "applySince now topicBig LiveTail d = d\<lparr>lastSeen := mset_key topicBig now (lastSeen d)\<rparr>"
| "applySince now topicBig FullReplay d = resetTopicConsumption topicBig d"
| "applySince now topicBig Latest d = d\<lparr>lastSeen := mset_key topicBig now (lastSeen d)\<rparr>"
| "applySince now topicBig (FromTs s) d = d\<lparr>lastSeen := mset_key topicBig s (lastSeen d)\<rparr>"

definition pubsubSubscribe :: "int \<Rightarrow> int \<Rightarrow> delivery \<Rightarrow> delivery" where
  "pubsubSubscribe now topicBig d =
     (let since = (case mget (lastSeen d) topicBig of Some s \<Rightarrow> s | None \<Rightarrow> now) in d\<lparr>mySubs := mset_key topicBig (Some since) (mySubs d)\<rparr>)"

definition pubsubUnsubscribe :: "int \<Rightarrow> delivery \<Rightarrow> delivery" where
  "pubsubUnsubscribe topicBig d = resetTopicConsumption topicBig (d\<lparr>mySubs := mdelete topicBig (mySubs d)\<rparr>)"

text \<open>The part of \<open>resetState\<close> that clears this state.\<close>

definition resetDelivery :: "delivery \<Rightarrow> delivery" where
  "resetDelivery d = d\<lparr>mySubs := [], lastSeen := [], appDelivered := []\<rparr>"

definition sinceFor :: "role option \<Rightarrow> int \<Rightarrow> delivery \<Rightarrow> int" where
  "sinceFor ro topicBig d =
     (let relay = (case ro of None \<Rightarrow> 0 | Some r \<Rightarrow> if cache r = [] then 0 else ce_ts (last (cache r)));
          seen = (case mget (lastSeen d) topicBig of None \<Rightarrow> 0 | Some t \<Rightarrow> t);
          sub = (case mget (mySubs d) topicBig of Some (Some s) \<Rightarrow> s | _ \<Rightarrow> 0) in
      max relay (max seen sub))"

end
