(* ===== verification/TopicLifetime.thy ===== *)
theory TopicLifetime
  imports TopicStore
begin

text \<open>
  Topic lifetime: \<open>src/src/pubsub/topicLifetime.js\<close> and \<open>standingLease.js\<close>, with what they rest on: the
  grant rule of \<open>syncEngine.js\<close> and the backup appointment and election relation of \<open>rootClaim.js\<close>, the
  detach site \<open>_retireRole\<close> of \<open>repairPlane.js\<close>, \<open>_knownEpoch\<close> of \<open>rootElection.js\<close>, \<open>_custodyAlive\<close> of
  \<open>mergeMachine.js\<close> and the parent's half of \<open>_onUnsub\<close>.
  \<^item> \<open>lrole\<close> extends the storage role by the fields the lifetime rules read: seats, replicas, epoch,
    appointment, leases and the open exchanges (as counts). \<open>dismantling\<close> is split into the flag of
    the storage role, \<open>lr_dism_at\<close> and \<open>lr_sends\<close>.
  \<^item> \<open>lman\<close> is the manager: its maps, its own subscriptions (the \<open>delivery\<close> state of the storage), the
    two clocks of the jump check and the configuration. The wall clock \<open>now\<close> and the monotonic clock \<open>mo\<close> are arguments.
  \<^item> \<open>x | 0\<close> on an integer is \<open>i32\<close>, the signed 32-bit value. An epoch is any integer, as on the wire.
  \<^item> sends, the application row and the calls into other components are outputs \<open>lout\<close>. Log lines and the
    counters behind the diagnostics are left out, except those that \<open>_lifetimeInspect\<close> reports.
\<close>

section \<open>Constants\<close>

definition DROP_MS :: int where "DROP_MS = 180000"
definition STANDBY_LEASE_MS :: int where "STANDBY_LEASE_MS = DROP_MS"
definition APPOINTMENT_DELAY_MS :: int where "APPOINTMENT_DELAY_MS = 60000"
definition APPOINTMENT_SKEW_MS :: int where "APPOINTMENT_SKEW_MS = 15000"
definition LEFT_RECORD_MAX :: nat where "LEFT_RECORD_MAX = 4096"
definition TOPIC_TERMINATE_TRIES :: nat where "TOPIC_TERMINATE_TRIES = 3"
definition CHILD_MIN_READERS :: int where "CHILD_MIN_READERS = 2"
definition CHILD_STEP_DOWN_MS :: int where "CHILD_STEP_DOWN_MS = 90000"
definition CHILD_MIN_STAY_MS :: int where "CHILD_MIN_STAY_MS = 90000"
definition CHILD_COOLDOWN_MS :: int where "CHILD_COOLDOWN_MS = 300000"
definition STANDING_LEASE_MS :: int where "STANDING_LEASE_MS = 6 * 3600000"
definition STEPDOWN_HOLD_MS :: int where "STEPDOWN_HOLD_MS = 300000"
definition ROLE_GRACE_MS :: int where "ROLE_GRACE_MS = 90000"
definition ROLE_ADMIT_PER_TICK :: nat where "ROLE_ADMIT_PER_TICK = 4"
definition BEACON_FANOUT :: nat where "BEACON_FANOUT = 6"
definition BEACON_LAYERS :: int where "BEACON_LAYERS = 2"
definition STANDING_LEASE_MAX_MS :: int where "STANDING_LEASE_MAX_MS = 24 * 3600000"

section \<open>Seats and demand\<close>

definition i32 :: "int \<Rightarrow> int" where
  "i32 x = sint (word_of_int x :: 32 word)"

definition trunc :: "rat \<Rightarrow> int" where
  "trunc r = (if r \<ge> 0 then \<lfloor>r\<rfloor> else - \<lfloor>- r\<rfloor>)"

datatype seat_kind = Reader | ChildSeat | Standby

record seat =
  se_kind :: seat_kind
  se_demand :: int

text \<open>The fields \<open>standby\<close> and \<open>demand\<close> of a SUB.\<close>

definition seatKindOf :: "js \<Rightarrow> js \<Rightarrow> seat" where
  "seatKindOf standby demand = (if standby = JBool True then \<lparr>se_kind = Standby, se_demand = 0\<rparr>
     else case demand of
       JNum (Fin r) \<Rightarrow> \<lparr>se_kind = ChildSeat, se_demand = max 0 (i32 (trunc r))\<rparr>
     | _ \<Rightarrow> \<lparr>se_kind = Reader, se_demand = 1\<rparr>)"

type_synonym gen_id = "string \<times> int"

text \<open>The winner that a root which gave up its claim accepted, and the rest of the merge state (the cut and the pins are
  fields of the storage role).\<close>

record winner =
  ac_id :: string
  ac_epoch :: int
  ac_exp :: int

record lmerge =
  lm_token :: "string option"
  lm_candidate :: "gen_id option"
  lm_completing :: bool
  lm_accepted :: "winner option"
  lm_pendingDelegation :: nat

record lrole = role +
  lr_epoch :: int
  lr_subs :: "(string, seat) jmap"
  lr_children :: "string set"
  lr_replicas :: "string list"
  lr_merge :: "lmerge option"
  lr_openMerges :: nat
  lr_openPulls :: nat
  lr_dism_at :: int
  lr_sends :: nat
  lr_backupOf :: "string option"
  lr_standbyGen :: "gen_id option"
  lr_standbyIssuedAt :: "int option"
  lr_lastReplicaAt :: int
  lr_lastDemandAt :: "int option"
  lr_createdAt :: int
  lr_metricsOn :: "int option"
  lr_standingUntil :: "int option"
  lr_thinSince :: "int option"
  lr_upstreamHeld :: "string set option"
  lr_readHolder :: bool
  lr_formedAt :: int
  lr_lastVerify :: int
  lr_inheritedSubs :: "(string, int \<times> bool) jmap"
  lr_inheritedMetrics :: int
  lr_inheritedStanding :: int

text \<open>A comparison with a field that may be undefined is false there.\<close>

definition lasts_past :: "int option \<Rightarrow> int \<Rightarrow> bool" where
  "lasts_past x now \<longleftrightarrow> (case x of None \<Rightarrow> False | Some t \<Rightarrow> t > now)"

definition seat_demand :: "seat \<Rightarrow> int" where
  "seat_demand s = (case se_kind s of Standby \<Rightarrow> 0 | ChildSeat \<Rightarrow> i32 (se_demand s) | Reader \<Rightarrow> 1)"

definition roleDemand :: "lrole \<Rightarrow> int" where
  "roleDemand r = sum_list (map (seat_demand \<circ> snd) (lr_subs r))"

definition seatIsStandby :: "lrole \<Rightarrow> string \<Rightarrow> bool" where
  "seatIsStandby r h \<longleftrightarrow> (case mget (lr_subs r) h of None \<Rightarrow> False | Some s \<Rightarrow> se_kind s = Standby)"

section \<open>Generations\<close>

definition sameGen :: "gen_id \<Rightarrow> gen_id \<Rightarrow> bool" where
  "sameGen a b \<longleftrightarrow> fst a = fst b \<and> i32 (snd a) = i32 (snd b)"

definition genValid :: "js \<Rightarrow> bool" where
  "genValid g \<longleftrightarrow> (case g of
     JObj fs \<Rightarrow> (case obj_get fs ''root'' of JStr s \<Rightarrow> ps_isHexId (lc s) | _ \<Rightarrow> False)
   | _ \<Rightarrow> False)"

definition genNorm :: "js \<Rightarrow> gen_id" where
  "genNorm g = (case g of
     JObj fs \<Rightarrow> (case obj_get fs ''root'' of JStr s \<Rightarrow> lc s | _ \<Rightarrow> [],
       let e = obj_get fs ''epoch'' in if num_is_integer e \<and> num_int e \<ge> 0 then num_int e else 0)
   | _ \<Rightarrow> ([], 0))"

section \<open>Manager\<close>

record leftrec =
  lf_root :: "string option"
  lf_epoch :: int
  lf_upstream :: "string option"
  lf_until :: int

text \<open>A cached root beacon (an epoch may be missing), a convicted root, and a step-down hold.\<close>

record beacon =
  bc_root :: string
  bc_at :: int
  bc_exp :: int
  bc_epoch :: "int option"
  bc_verified :: bool

record conviction =
  cv_root :: string
  cv_epoch :: int
  cv_exp :: int

record hold =
  ho_to :: string
  ho_at :: int

record lman =
  lm_me :: string
  lm_roles :: "(int, lrole) jmap"
  lm_left :: "(int, leftrec) jmap"
  lm_genHighWater :: "(int, int \<times> int) jmap"
  lm_childCooldown :: "(string, int) jmap"
  lm_upstream :: "(int, string list) jmap"
  lm_attach :: "(int, gen_id option) jmap"
  lm_backups :: "int list"
  lm_app :: delivery
  lm_hosted :: "int set"
  lm_beacons :: "(int, beacon) jmap"
  lm_rootTombs :: "(int, conviction) jmap"
  lm_stepDownHold :: "(int, hold) jmap"
  lm_metricsWanted :: "(int, int) jmap"
  lm_lastAnnounce :: "(int, int) jmap"
  lm_beaconSeen :: "(string, int) jmap"
  lm_beaconSeq :: nat
  lm_admitTickAt :: int
  lm_admitTickCount :: nat
  lm_rootBirthsRefused :: nat
  lm_hints :: "int set"
  lm_unattached :: "int set"
  lm_grantHoldUntil :: int
  lm_lastClocks :: "(int \<times> int) option"
  lm_terminated :: nat
  lm_steppedDown :: nat
  lm_standbyLapsed :: nat
  lm_grantsRefused :: nat
  lm_rehomed :: nat
  lm_subsEnded :: nat
  topicLifetime :: bool
  standingLease :: bool
  dropMs :: int
  childMinReaders :: int
  childStepDownMs :: int
  childMinStayMs :: int
  childCooldownMs :: int
  mergeCapable :: bool
  replicateSubs :: bool
  subTerminalVerify :: bool
  cutover :: bool
  neverRoot :: bool
  stepDownHoldMs :: int
  roleAdmitPerTick :: nat
  refreshIntervalMs :: int
  roleGraceMs :: int
  joinedAt :: int
  beaconFanout :: nat
  beaconLayers :: int

datatype lout =
    SendTerminated string int gen_id
  | SendRehome string int string "gen_id option"
  | SendUnsubStepped int string
  | AppTerminated int gen_id
  | FastRenewal int
  | SendSubscribe int

definition new_lman :: "string \<Rightarrow> bool \<Rightarrow> bool \<Rightarrow> lman" where
  "new_lman me lifetime standing = \<lparr>lm_me = me, lm_roles = [], lm_left = [], lm_genHighWater = [], lm_childCooldown = [],
     lm_upstream = [], lm_attach = [], lm_backups = [], lm_app = \<lparr>mySubs = [], appDelivered = [], lastSeen = []\<rparr>, lm_hosted = {},
     lm_beacons = [], lm_rootTombs = [], lm_stepDownHold = [], lm_metricsWanted = [], lm_lastAnnounce = [], lm_beaconSeen = [],
     lm_beaconSeq = 0, lm_admitTickAt = 0, lm_admitTickCount = 0, lm_rootBirthsRefused = 0, lm_hints = {}, lm_unattached = {}, lm_grantHoldUntil = 0, lm_lastClocks = None,
     lm_terminated = 0, lm_steppedDown = 0, lm_standbyLapsed = 0, lm_grantsRefused = 0, lm_rehomed = 0, lm_subsEnded = 0,
     topicLifetime = lifetime, standingLease = standing, dropMs = DROP_MS, childMinReaders = CHILD_MIN_READERS,
     childStepDownMs = CHILD_STEP_DOWN_MS, childMinStayMs = CHILD_MIN_STAY_MS, childCooldownMs = CHILD_COOLDOWN_MS,
     mergeCapable = True, replicateSubs = True, subTerminalVerify = False, cutover = False, neverRoot = False,
     stepDownHoldMs = STEPDOWN_HOLD_MS, roleAdmitPerTick = ROLE_ADMIT_PER_TICK, refreshIntervalMs = 5000,
     roleGraceMs = ROLE_GRACE_MS, joinedAt = 0, beaconFanout = BEACON_FANOUT, beaconLayers = BEACON_LAYERS\<rparr>"

definition has_sub :: "lman \<Rightarrow> int \<Rightarrow> bool" where
  "has_sub m t \<longleftrightarrow> mhas (mySubs (lm_app m)) t"

definition upstreamOf :: "lman \<Rightarrow> int \<Rightarrow> string option" where
  "upstreamOf m t = (case mget (lm_upstream m) t of Some (u # us) \<Rightarrow> if u = [] then None else Some u | _ \<Rightarrow> None)"

definition attachedGenOf :: "lman \<Rightarrow> int \<Rightarrow> gen_id option" where
  "attachedGenOf m t = Option.bind (mget (lm_attach m) t) id"

definition genOf :: "lman \<Rightarrow> lrole \<Rightarrow> gen_id" where
  "genOf m r = (lc (lm_me m), i32 (lr_epoch r))"

definition genCarried :: "lman \<Rightarrow> lrole option \<Rightarrow> gen_id option" where
  "genCarried m r = (case r of None \<Rightarrow> None
     | Some r \<Rightarrow> if isRoot r then Some (genOf m r) else attachedGenOf m (ro_topicId r))"

section \<open>LEFT records\<close>

definition leftSpan :: int where
  "leftSpan = STANDBY_LEASE_MS + APPOINTMENT_SKEW_MS + APPOINTMENT_DELAY_MS"

text \<open>The first expired record of a full map.\<close>

definition leftVictim :: "int \<Rightarrow> (int, leftrec) jmap \<Rightarrow> int option" where
  "leftVictim mo l = map_option fst (List.find (\<lambda>(k, r). lf_until r \<le> mo) l)"

definition leftRecord :: "int \<Rightarrow> string option \<Rightarrow> int \<Rightarrow> string option \<Rightarrow> leftrec" where
  "leftRecord mo rt ep up = \<lparr>
     lf_root = (case rt of Some s \<Rightarrow> if s = [] then None else Some (lc s) | None \<Rightarrow> None), lf_epoch = i32 ep,
     lf_upstream = (case up of Some s \<Rightarrow> if s = [] then None else Some (lc s) | None \<Rightarrow> None), lf_until = mo + leftSpan\<rparr>"

definition leftWrite :: "int \<Rightarrow> int \<Rightarrow> string option \<Rightarrow> int \<Rightarrow> string option \<Rightarrow> lman \<Rightarrow> bool \<times> lman" where
  "leftWrite mo t rt ep up m = (let l = lm_left m; rec = leftRecord mo rt ep up in
     if length l \<ge> LEFT_RECORD_MAX \<and> \<not> mhas l t then
       (case leftVictim mo l of
          None \<Rightarrow> (False, m)
        | Some v \<Rightarrow> (True, m\<lparr>lm_left := mset_key t rec (mdelete v l)\<rparr>))
     else (True, m\<lparr>lm_left := mset_key t rec l\<rparr>))"

definition leftGet :: "int \<Rightarrow> int \<Rightarrow> lman \<Rightarrow> leftrec option \<times> lman" where
  "leftGet mo t m = (case mget (lm_left m) t of
     None \<Rightarrow> (None, m)
   | Some r \<Rightarrow> if lf_until r \<le> mo then (None, m\<lparr>lm_left := mdelete t (lm_left m)\<rparr>) else (Some r, m))"

definition leftPrune :: "int \<Rightarrow> lman \<Rightarrow> lman" where
  "leftPrune mo m = m\<lparr>lm_left := filter (\<lambda>(k, r). lf_until r > mo) (lm_left m),
     lm_genHighWater := filter (\<lambda>(k, g). snd g > mo) (lm_genHighWater m)\<rparr>"

definition leftRefuses :: "int \<Rightarrow> int \<Rightarrow> gen_id option \<Rightarrow> lman \<Rightarrow> bool \<times> lman" where
  "leftRefuses mo t g m = (case leftGet mo t m of (r, m') \<Rightarrow>
     (case r of
        None \<Rightarrow> False
      | Some r \<Rightarrow> (case g of
          None \<Rightarrow> True
        | Some g \<Rightarrow> lf_root r \<noteq> None \<and> lf_root r = Some (fst g) \<and> i32 (lf_epoch r) = i32 (snd g)), m'))"

section \<open>Epochs and the election relation\<close>

definition raise_to :: "int option \<Rightarrow> int \<Rightarrow> int" where
  "raise_to x e = (case x of None \<Rightarrow> e | Some x \<Rightarrow> if x > e then x else e)"

definition knownEpoch :: "int \<Rightarrow> int \<Rightarrow> lman \<Rightarrow> int" where
  "knownEpoch mo t m =
     (let e1 = raise_to (map_option lr_epoch (mget (lm_roles m) t)) 0;
          e2 = raise_to (Option.bind (mget (lm_beacons m) t) bc_epoch) e1;
          e3 = raise_to (map_option cv_epoch (mget (lm_rootTombs m) t)) e2
      in (case mget (lm_genHighWater m) t of None \<Rightarrow> e3 | Some (ep, until) \<Rightarrow> if ep > e3 \<and> until > mo then ep else e3))"

text \<open>The epoch a role is given when it becomes root.\<close>

definition mintEpoch :: "int \<Rightarrow> int \<Rightarrow> lman \<Rightarrow> int" where
  "mintEpoch mo t m = knownEpoch mo t m + 1"

definition claimWins :: "int \<Rightarrow> gen_id \<Rightarrow> gen_id \<Rightarrow> bool" where
  "claimWins t a b = (if snd a > 0 \<and> snd b > 0 \<and> snd a \<noteq> snd b then snd a > snd b
     else int (hex_val (fst a)) XOR t < int (hex_val (fst b)) XOR t)"

section \<open>The grant rule\<close>

datatype freshness = Fresh | Dropped | Legacy

definition grantFresh :: "int option \<Rightarrow> int \<Rightarrow> lman \<Rightarrow> freshness" where
  "grantFresh issuedAt now m = (case issuedAt of
     None \<Rightarrow> Legacy
   | Some iss \<Rightarrow> if lm_grantHoldUntil m \<noteq> 0 \<and> now < lm_grantHoldUntil m then Dropped
       else if now - iss \<le> APPOINTMENT_DELAY_MS + APPOINTMENT_SKEW_MS then Fresh else Dropped)"

definition wallJumpCheck :: "int \<Rightarrow> int \<Rightarrow> lman \<Rightarrow> lman" where
  "wallJumpCheck now mo m =
     (case lm_lastClocks m of
        None \<Rightarrow> m
      | Some (w, mz) \<Rightarrow> if \<bar>(now - w) - (mo - mz)\<bar> > APPOINTMENT_SKEW_MS
          then m\<lparr>lm_grantHoldUntil := now + APPOINTMENT_DELAY_MS\<rparr> else m)\<lparr>lm_lastClocks := Some (now, mo)\<rparr>"

datatype refusal = LegacyNotPrincipal | LeftRecord | InvalidEpoch | NoStamp | Stale | ObsoleteGeneration | ObsoleteGrant | Outranked

text \<open>The tests of one grant, in the order of the code: the first that fails is the reason.\<close>

definition grantRefusal :: "int \<Rightarrow> int \<Rightarrow> int \<Rightarrow> string option \<Rightarrow> js \<Rightarrow> int option \<Rightarrow> lman \<Rightarrow> refusal option \<times> gen_id option \<times> lman" where
  "grantRefusal now mo t from rawGen issuedAt m =
     (if \<not> topicLifetime m then (None, None, m)
      else let role = mget (lm_roles m) t in
        if \<not> genValid rawGen then
          ((case role of
              None \<Rightarrow> Some LegacyNotPrincipal
            | Some r \<Rightarrow> if lr_backupOf r = None \<or> lr_backupOf r \<noteq> from then Some LegacyNotPrincipal else None), None, m)
        else let g = genNorm rawGen; (refuses, m1) = leftRefuses mo t (Some g) m in
          ((if refuses then Some LeftRecord
            else if \<not> snd g \<ge> 1 then Some InvalidEpoch
            else (case issuedAt of
              None \<Rightarrow> Some NoStamp
            | Some iss \<Rightarrow>
                if grantFresh issuedAt now m1 = Dropped then Some Stale
                else (case role of
                  None \<Rightarrow> None
                | Some r \<Rightarrow> (case lr_standbyGen r of
                    None \<Rightarrow> None
                  | Some sg \<Rightarrow>
                      if fst sg = fst g \<and> snd g < i32 (snd sg) then Some ObsoleteGeneration
                      else if fst sg \<noteq> fst g \<and> (case lr_standbyIssuedAt r of None \<Rightarrow> False | Some si \<Rightarrow> iss + APPOINTMENT_SKEW_MS < si)
                        then Some ObsoleteGrant
                      else if lr_backupOf r \<noteq> None \<and> fst sg \<noteq> fst g \<and> now - lr_lastReplicaAt r < STANDBY_LEASE_MS \<and> \<not> claimWins t g sg
                        then Some Outranked
                      else None)))), Some g, m1))"

definition new_lrole :: "nat \<Rightarrow> int \<Rightarrow> bool \<Rightarrow> int \<Rightarrow> lrole" where
  "new_lrole ref t rt createdAt = \<lparr>ro_ref = ref, ro_topicId = t, isRoot = rt, gate = None, dismantling = False, retired = False,
     gen = 0, latestOnly = None, cache = [], cacheIds = {}, cacheBytes = 0, publishes = 0, pins = {}, tombstones = [], lastTs = 0,
     ro_seq = 0, lr_epoch = 0, lr_subs = [], lr_children = {}, lr_replicas = [], lr_merge = None, lr_openMerges = 0, lr_openPulls = 0,
     lr_dism_at = 0, lr_sends = 0, lr_backupOf = None, lr_standbyGen = None, lr_standbyIssuedAt = None, lr_lastReplicaAt = 0,
     lr_lastDemandAt = Some createdAt, lr_createdAt = createdAt, lr_metricsOn = None, lr_standingUntil = None, lr_thinSince = None,
     lr_upstreamHeld = None, lr_readHolder = False, lr_formedAt = 0, lr_lastVerify = 0, lr_inheritedSubs = [], lr_inheritedMetrics = 0,
     lr_inheritedStanding = 0\<rparr>"

definition put_role :: "int \<Rightarrow> lrole \<Rightarrow> lman \<Rightarrow> lman" where
  "put_role t r m = m\<lparr>lm_roles := mset_key t r (lm_roles m)\<rparr>"

definition becomeBackup :: "int \<Rightarrow> int \<Rightarrow> string option \<Rightarrow> gen_id option \<Rightarrow> int option \<Rightarrow> lrole \<Rightarrow> lman \<Rightarrow> lman" where
  "becomeBackup now t prin g issuedAt r m =
     (let r1 = r\<lparr>lr_backupOf := prin, lr_lastReplicaAt := now\<rparr>;
          r2 = (case g of None \<Rightarrow> r1 | Some g \<Rightarrow> r1\<lparr>lr_standbyGen := Some (lc (fst g), snd g)\<rparr>);
          r3 = (case issuedAt of None \<Rightarrow> r2 | Some iss \<Rightarrow> r2\<lparr>lr_standbyIssuedAt := Some iss\<rparr>)
      in put_role t r3 (m\<lparr>lm_backups := (if t \<in> set (lm_backups m) then lm_backups m else lm_backups m @ [t])\<rparr>))"

text \<open>A REPLICATE at a node that is not the root of the topic, up to the ingestion of its bodies. The third
  argument is the identity of a role object made here.\<close>

definition onReplicateGrant :: "int \<Rightarrow> int \<Rightarrow> nat \<Rightarrow> int \<Rightarrow> string option \<Rightarrow> js \<Rightarrow> int option \<Rightarrow> lman \<Rightarrow> refusal option \<times> lman" where
  "onReplicateGrant now mo ref t from rawGen issuedAt m =
     (case grantRefusal now mo t from rawGen issuedAt m of
        (Some why, _, m1) \<Rightarrow> (Some why, m1\<lparr>lm_grantsRefused := lm_grantsRefused m1 + 1\<rparr>)
      | (None, g, m1) \<Rightarrow>
          (let r = (case mget (lm_roles m1) t of None \<Rightarrow> new_lrole ref t False now | Some r \<Rightarrow> r)
           in (None, becomeBackup now t from g (if topicLifetime m then issuedAt else None) r m1)))"

section \<open>Detaching a role\<close>

definition retireBackup :: "int \<Rightarrow> lman \<Rightarrow> lman" where
  "retireBackup t m = (case mget (lm_roles m) t of
     None \<Rightarrow> m
   | Some r \<Rightarrow> if lr_backupOf r = None \<and> t \<notin> set (lm_backups m) then m
       else put_role t (r\<lparr>lr_backupOf := None\<rparr>) (m\<lparr>lm_backups := filter (\<lambda>x. x \<noteq> t) (lm_backups m)\<rparr>))"

text \<open>The detached object is no longer reachable here; its marks (\<open>retired\<close>, the next generation) are those \<open>cutHolds\<close> reads.\<close>

definition retired_role :: "lrole \<Rightarrow> lrole" where
  "retired_role r = r\<lparr>retired := True, gen := gen r + 1\<rparr>"

definition retireRole :: "int \<Rightarrow> lman \<Rightarrow> lman" where
  "retireRole t m = m\<lparr>lm_roles := mdelete t (lm_roles m), lm_upstream := mdelete t (lm_upstream m),
     lm_attach := (if has_sub m t then lm_attach m else mdelete t (lm_attach m))\<rparr>"

section \<open>Custody and leases\<close>

definition custodyOpen :: "lrole \<Rightarrow> int \<Rightarrow> bool" where
  "custodyOpen r now \<longleftrightarrow> (case lr_merge r of
       None \<Rightarrow> False
     | Some mg \<Rightarrow> lm_completing mg \<or> gate r \<noteq> None \<or> lasts_past (map_option ac_exp (lm_accepted mg)) now \<or> pins r \<noteq> {} \<or> lm_pendingDelegation mg > 0)
     \<or> lr_openMerges r > 0 \<or> lr_openPulls r > 0"

definition custodyAlive :: "lrole \<Rightarrow> int \<Rightarrow> bool" where
  "custodyAlive r now \<longleftrightarrow> (case lr_merge r of
       None \<Rightarrow> False
     | Some mg \<Rightarrow> lm_completing mg \<or> gate r \<noteq> None \<or> lasts_past (map_option ac_exp (lm_accepted mg)) now \<or> pins r \<noteq> {})
     \<or> lr_openMerges r > 0 \<or> lr_openPulls r > 0 \<or> list_ex (\<lambda>(k, tb). tb_exp tb > now) (tombstones r)"

definition standingLeased :: "lman \<Rightarrow> lrole \<Rightarrow> int \<Rightarrow> bool" where
  "standingLeased m r now \<longleftrightarrow> standingLease m \<and> lasts_past (lr_standingUntil r) now"

text \<open>\<open>mine\<close>: the node subscribes with \<open>standing\<close>.\<close>

definition standingForSub :: "lman \<Rightarrow> lrole option \<Rightarrow> bool \<Rightarrow> int \<Rightarrow> int" where
  "standingForSub m role mine now = (if \<not> standingLease m then 0
     else let o1 = (if mine then STANDING_LEASE_MS else 0);
              held = (case role of None \<Rightarrow> 0 | Some r \<Rightarrow>
                (case lr_standingUntil r of None \<Rightarrow> 0 | Some u \<Rightarrow> if u > now then u - now else 0))
          in min (max o1 held) STANDING_LEASE_MAX_MS)"

text \<open>\<open>ms\<close>: the declared lease, when it is a finite number.\<close>

definition noteStandingSub :: "lman \<Rightarrow> int option \<Rightarrow> int \<Rightarrow> lrole \<Rightarrow> lrole" where
  "noteStandingSub m ms now r = (if \<not> standingLease m then r
     else case ms of None \<Rightarrow> r
       | Some d \<Rightarrow> if d \<le> 0 then r
           else let until = now + min d STANDING_LEASE_MAX_MS in
             if lasts_past (lr_standingUntil r) until then r else r\<lparr>lr_standingUntil := Some until\<rparr>)"

section \<open>The standby lease\<close>

definition lapse_role :: "int \<Rightarrow> int \<Rightarrow> int \<Rightarrow> lman \<Rightarrow> lman" where
  "lapse_role now mo t m = (case mget (lm_roles m) t of
     None \<Rightarrow> m
   | Some r \<Rightarrow> (case lr_backupOf r of
       None \<Rightarrow> m
     | Some prin \<Rightarrow>
         if isRoot r \<or> now - lr_lastReplicaAt r \<le> STANDBY_LEASE_MS then m
         else if cache r \<noteq> [] \<or> custodyAlive r now then m
         else let m1 = snd (case lr_standbyGen r of
                  None \<Rightarrow> leftWrite mo t (Some prin) 0 (Some prin) m
                | Some g \<Rightarrow> leftWrite mo t (Some (fst g)) (snd g) (Some prin) m);
                  m2 = retireBackup t m1
              in (case mget (lm_roles m2) t of None \<Rightarrow> m2
                  | Some r2 \<Rightarrow> put_role t (r2\<lparr>lr_standbyGen := None\<rparr>) (m2\<lparr>lm_standbyLapsed := lm_standbyLapsed m2 + 1\<rparr>))))"

definition standbyLeaseSweep :: "int \<Rightarrow> int \<Rightarrow> lman \<Rightarrow> lman" where
  "standbyLeaseSweep now mo m = fold (lapse_role now mo) (lm_backups m) m"

section \<open>Termination\<close>

text \<open>The addressees of a notice: the seats, then the replicas, without this node.\<close>

definition noticeTargets :: "lman \<Rightarrow> lrole \<Rightarrow> string list" where
  "noticeTargets m r = filter (\<lambda>h. h \<noteq> lc (lm_me m))
     (mkeys (lr_subs r) @ filter (\<lambda>h. h \<notin> set (mkeys (lr_subs r))) (lr_replicas r))"

definition terminateStep :: "int \<Rightarrow> int \<Rightarrow> lman \<Rightarrow> lout list \<times> lman" where
  "terminateStep mo t m = (case mget (lm_roles m) t of
     None \<Rightarrow> ([], m)
   | Some r \<Rightarrow>
       if noticeTargets m r = [] \<or> lr_sends r \<ge> TOPIC_TERMINATE_TRIES then
         let m1 = m\<lparr>lm_genHighWater := mset_key t (i32 (lr_epoch r), mo + leftSpan) (lm_genHighWater m)\<rparr>;
             m2 = retireRole t (retireBackup t m1)
         in ([], m2\<lparr>lm_terminated := lm_terminated m2 + 1\<rparr>)
       else (map (\<lambda>h. SendTerminated h t (genOf m r)) (noticeTargets m r), put_role t (r\<lparr>lr_sends := lr_sends r + 1\<rparr>) m))"

text \<open>What keeps the topic of a root open.\<close>

definition heldOpen :: "int \<Rightarrow> int \<Rightarrow> lrole \<Rightarrow> lman \<Rightarrow> bool" where
  "heldOpen now t r m \<longleftrightarrow> cache r \<noteq> [] \<or> custodyOpen r now \<or> has_sub m t \<or> t \<in> lm_hosted m
     \<or> lasts_past (lr_metricsOn r) now \<or> standingLeased m r now \<or> roleDemand r > 0
     \<or> now - (case lr_lastDemandAt r of Some a \<Rightarrow> a | None \<Rightarrow> lr_createdAt r) \<le> dropMs m"

definition terminate_role :: "int \<Rightarrow> int \<Rightarrow> int \<Rightarrow> lman \<Rightarrow> lout list \<times> lman" where
  "terminate_role now mo t m = (case mget (lm_roles m) t of
     None \<Rightarrow> ([], m)
   | Some r \<Rightarrow>
       if \<not> isRoot r then ([], m)
       else if dismantling r then terminateStep mo t m
       else if heldOpen now t r m then ([], m)
       else terminateStep mo t (put_role t (r\<lparr>dismantling := True, lr_dism_at := now, lr_sends := 0, gen := gen r + 1\<rparr>) m))"

definition topic_sweep :: "(int \<Rightarrow> lman \<Rightarrow> lout list \<times> lman) \<Rightarrow> int list \<Rightarrow> lman \<Rightarrow> lout list \<times> lman" where
  "topic_sweep f ts m = fold (\<lambda>t (out, m). case f t m of (o1, m1) \<Rightarrow> (out @ o1, m1)) ts ([], m)"

definition terminationSweep :: "int \<Rightarrow> int \<Rightarrow> lman \<Rightarrow> lout list \<times> lman" where
  "terminationSweep now mo m = topic_sweep (terminate_role now mo) (mkeys (lm_roles m)) m"

section \<open>The notice, received\<close>

text \<open>The decimal spelling of an integer below \<open>10 ^ 21\<close> in a template string.\<close>

fun dec_digits :: "nat \<Rightarrow> string" where
  "dec_digits n = (if n < 10 then [char_of (48 + n)] else dec_digits (n div 10) @ [char_of (48 + n mod 10)])"

declare dec_digits.simps [simp del]

definition int_text :: "int \<Rightarrow> string" where
  "int_text i = (if i < 0 then CHR ''-'' # dec_digits (nat (- i)) else dec_digits (nat i))"

definition terminatedKey :: "int \<Rightarrow> gen_id \<Rightarrow> string" where
  "terminatedKey t g = big_hex t @ '':terminated:'' @ fst g @ '':'' @ int_text (snd g)"

text \<open>What the end does to the application's side: whether the notice had been delivered, and the state after it.\<close>

definition endedApp :: "int \<Rightarrow> gen_id \<Rightarrow> delivery \<Rightarrow> bool \<times> delivery" where
  "endedApp t g d =
     (let key = terminatedKey t g;
          seen = key \<in> set (appDelivered d);
          app = (if seen then d else remember key d)
      in (seen, app\<lparr>mySubs := mdelete t (mySubs app)\<rparr>))"

definition endSubscription :: "int \<Rightarrow> gen_id \<Rightarrow> lman \<Rightarrow> lout list \<times> lman" where
  "endSubscription t g m =
     (let (seen, app1) = endedApp t g (lm_app m)
      in (if seen then [] else [AppTerminated t g],
          m\<lparr>lm_app := app1, lm_upstream := mdelete t (lm_upstream m), lm_unattached := lm_unattached m - {t},
            lm_attach := mdelete t (lm_attach m), lm_subsEnded := lm_subsEnded m + 1\<rparr>))"

text \<open>The end of an obligation removes its owner from every tombstone, and the tombstones nobody owns any more.\<close>

definition dropOwned :: "gen_id option \<Rightarrow> lrole \<Rightarrow> lrole" where
  "dropOwned owner r = r\<lparr>tombstones := concat (map (\<lambda>(k, tb).
     if tb_owners tb \<noteq> [] then
       (case owner of None \<Rightarrow> [(k, tb)]
        | Some g \<Rightarrow> let os = filter (\<lambda>x. x \<noteq> (fst g, word_of_int (snd g))) (tb_owners tb)
            in if os = [] then [] else [(k, tb\<lparr>tb_owners := os\<rparr>)])
     else (if owner = None then [] else [(k, tb)])) (tombstones r))\<rparr>"

definition appointmentMatch :: "gen_id \<Rightarrow> lrole option \<Rightarrow> bool" where
  "appointmentMatch g role \<longleftrightarrow> (case role of None \<Rightarrow> False
     | Some r \<Rightarrow> (case lr_backupOf r of None \<Rightarrow> False
       | Some p \<Rightarrow> (case lr_standbyGen r of Some sg \<Rightarrow> sameGen sg g | None \<Rightarrow> p = fst g)))"

definition attachmentMatch :: "gen_id \<Rightarrow> string option \<Rightarrow> int \<Rightarrow> lman \<Rightarrow> bool" where
  "attachmentMatch g from t m \<longleftrightarrow> (case attachedGenOf m t of
       Some a \<Rightarrow> sameGen a g
     | None \<Rightarrow> (case upstreamOf m t of
           Some u \<Rightarrow> u = fst g \<or> Some u = from
         | None \<Rightarrow> \<not> mhas (lm_roles m) t))"

definition on_role :: "int \<Rightarrow> (lrole \<Rightarrow> lrole) \<Rightarrow> lman \<Rightarrow> lman" where
  "on_role t f m = (case mget (lm_roles m) t of None \<Rightarrow> m | Some r \<Rightarrow> put_role t (f r) m)"

definition end_appointment :: "int \<Rightarrow> lman \<Rightarrow> lman" where
  "end_appointment t m = (case mget (lm_roles m) t of None \<Rightarrow> m
     | Some r \<Rightarrow> on_role t (\<lambda>x. dropOwned (lr_standbyGen r) (x\<lparr>lr_standbyGen := None\<rparr>)) (retireBackup t m))"

definition relay_seats :: "lman \<Rightarrow> lrole \<Rightarrow> string list" where
  "relay_seats m r = map fst (filter (\<lambda>(h, s). h \<noteq> lc (lm_me m) \<and> se_kind s \<noteq> Standby) (lr_subs r))"

definition end_attachment :: "int \<Rightarrow> gen_id \<Rightarrow> lman \<Rightarrow> lout list \<times> lman" where
  "end_attachment t g m =
     (let att = attachedGenOf m t;
          fwd = (case mget (lm_roles m) t of None \<Rightarrow> [] | Some r \<Rightarrow> map (\<lambda>h. SendTerminated h t g) (relay_seats m r));
          m1 = on_role t (\<lambda>r. dropOwned att (r\<lparr>lr_subs := [], lr_children := {}, lr_upstreamHeld := Some {}\<rparr>)) m;
          m2 = m1\<lparr>lm_attach := mdelete t (lm_attach m1), lm_upstream := mdelete t (lm_upstream m1),
            lm_beacons := (case mget (lm_beacons m1) t of
               Some b \<Rightarrow> if lc (bc_root b) = fst g then mdelete t (lm_beacons m1) else lm_beacons m1 | None \<Rightarrow> lm_beacons m1),
            lm_hints := lm_hints m1 - {t}\<rparr>;
          (o3, m3) = (if has_sub m2 t then endSubscription t g m2 else ([], m2))
      in (fwd @ o3, m3))"

text \<open>The role object goes only when no live duty remains on it.\<close>

definition settle_role :: "int \<Rightarrow> lman \<Rightarrow> lman" where
  "settle_role t m = (case mget (lm_roles m) t of None \<Rightarrow> m
     | Some r \<Rightarrow> if lr_backupOf r = None \<and> \<not> has_sub m t \<and> lr_subs r = [] then retireRole t m else m)"

definition onTopicTerminated :: "bool \<Rightarrow> int option \<Rightarrow> js \<Rightarrow> string option \<Rightarrow> lman \<Rightarrow> lout list \<times> lman" where
  "onTopicTerminated forMe topic rawGen from m =
     (if \<not> forMe \<or> \<not> topicLifetime m then ([], m)
      else case topic of None \<Rightarrow> ([], m)
      | Some t \<Rightarrow>
          if \<not> genValid rawGen then ([], m)
          else let g = genNorm rawGen; role = mget (lm_roles m) t; am = appointmentMatch g role; tm = attachmentMatch g from t m in
            if (case role of None \<Rightarrow> False | Some r \<Rightarrow> isRoot r) then ([], m)
            else if \<not> am \<and> \<not> tm then ([], m)
            else if am \<and> (case role of None \<Rightarrow> False | Some r \<Rightarrow> cache r \<noteq> []) then ([], m)
            else let m1 = (if am then end_appointment t m else m);
                     (o2, m2) = (if tm then end_attachment t g m1 else ([], m1))
                 in (o2, settle_role t m2))"

section \<open>The thin branch\<close>

definition stepDownChild :: "int \<Rightarrow> int \<Rightarrow> string \<Rightarrow> lman \<Rightarrow> lout list \<times> lman" where
  "stepDownChild mo t up m = (case mget (lm_roles m) t of None \<Rightarrow> ([], m)
     | Some r \<Rightarrow>
         (let o1 = map (\<lambda>h. SendRehome h t up (attachedGenOf m t)) (relay_seats m r) @ [SendUnsubStepped t up];
              m1 = snd (leftWrite mo t None 0 (Some up) m);
              m2 = retireRole t m1
          in (o1 @ (if has_sub m2 t then [FastRenewal t] else []), m2\<lparr>lm_steppedDown := lm_steppedDown m2 + 1\<rparr>)))"

text \<open>\<open>reach\<close> is \<open>_isReachableId\<close>.\<close>

definition thin_role :: "(string \<Rightarrow> bool) \<Rightarrow> int \<Rightarrow> int \<Rightarrow> int \<Rightarrow> lman \<Rightarrow> lout list \<times> lman" where
  "thin_role reach now mo t m = (case mget (lm_roles m) t of None \<Rightarrow> ([], m)
     | Some r \<Rightarrow>
         if isRoot r \<or> lr_backupOf r \<noteq> None \<or> t \<in> set (lm_backups m) \<or> lr_readHolder r then ([], m)
         else if lr_subs r = [] then ([], m)
         else if roleDemand r \<ge> childMinReaders m then ([], put_role t (r\<lparr>lr_thinSince := None\<rparr>) m)
         else case lr_thinSince r of
           None \<Rightarrow> ([], put_role t (r\<lparr>lr_thinSince := Some now\<rparr>) m)
         | Some since \<Rightarrow>
             if now - since \<le> childStepDownMs m then ([], m)
             else if now - lr_createdAt r \<le> childMinStayMs m then ([], m)
             else case upstreamOf m t of
               None \<Rightarrow> ([], m)
             | Some up \<Rightarrow>
                 if up = lc (lm_me m) \<or> \<not> reach up then ([], m)
                 else if custodyOpen r now then ([], m)
                 else if list_ex (\<lambda>c. case lr_upstreamHeld r of None \<Rightarrow> True | Some held \<Rightarrow> ce_msgId c \<notin> held) (cache r) then ([], m)
                 else stepDownChild mo t up m)"

definition thinBranchSweep :: "(string \<Rightarrow> bool) \<Rightarrow> int \<Rightarrow> int \<Rightarrow> lman \<Rightarrow> lout list \<times> lman" where
  "thinBranchSweep reach now mo m = topic_sweep (thin_role reach now mo) (mkeys (lm_roles m)) m"

definition onRehome :: "bool \<Rightarrow> int option \<Rightarrow> string option \<Rightarrow> js \<Rightarrow> js \<Rightarrow> lman \<Rightarrow> lout list \<times> lman" where
  "onRehome forMe topic from rawGen rawUp m =
     (if \<not> forMe \<or> \<not> topicLifetime m then ([], m)
      else case topic of None \<Rightarrow> ([], m)
      | Some t \<Rightarrow>
          if from = None \<or> upstreamOf m t \<noteq> from then ([], m)
          else if (case mget (lm_roles m) t of None \<Rightarrow> False | Some r \<Rightarrow> isRoot r) then ([], m)
          else if genValid rawGen \<and> (case attachedGenOf m t of None \<Rightarrow> False | Some a \<Rightarrow> \<not> sameGen a (genNorm rawGen)) then ([], m)
          else let nxt = (case rawUp of JStr u \<Rightarrow> if ps_isHexId (lc u) \<and> lc u \<noteq> lc (lm_me m) then Some (lc u) else None | _ \<Rightarrow> None);
                   m1 = m\<lparr>lm_upstream := (case nxt of Some u \<Rightarrow> mset_key t [u] (lm_upstream m) | None \<Rightarrow> mdelete t (lm_upstream m))\<rparr>;
                   m2 = on_role t (\<lambda>r. r\<lparr>lr_upstreamHeld := Some {}\<rparr>) m1
               in ((if has_sub m2 t then [FastRenewal t] else []) @ [SendSubscribe t], m2\<lparr>lm_rehomed := lm_rehomed m2 + 1\<rparr>))"

text \<open>The parent of a node that unsubscribes, or steps down.\<close>

definition onUnsub :: "int \<Rightarrow> int \<Rightarrow> string \<Rightarrow> js \<Rightarrow> lman \<Rightarrow> lman" where
  "onUnsub now t subscriberId steppedDown m =
     (let s = lc subscriberId;
          m1 = on_role t (\<lambda>r. r\<lparr>lr_subs := mdelete s (lr_subs r), lr_children := lr_children r - {s}\<rparr>) m
      in if topicLifetime m \<and> steppedDown = JBool True \<and> ps_isHexId s
         then m1\<lparr>lm_childCooldown := mset_key s (now + childCooldownMs m) (lm_childCooldown m1)\<rparr> else m1)"

section \<open>The tick\<close>

definition metadataPrune :: "lman \<Rightarrow> lman" where
  "metadataPrune m = m\<lparr>lm_roles := map (\<lambda>(t, r). (t, case lr_upstreamHeld r of None \<Rightarrow> r
     | Some held \<Rightarrow> r\<lparr>lr_upstreamHeld := Some (held \<inter> cacheIds r)\<rparr>)) (lm_roles m)\<rparr>"

definition lifetimeTick :: "(string \<Rightarrow> bool) \<Rightarrow> int \<Rightarrow> int \<Rightarrow> lman \<Rightarrow> lout list \<times> lman" where
  "lifetimeTick reach now mo m = (if \<not> topicLifetime m then ([], m)
     else let m1 = leftPrune mo (wallJumpCheck now mo m);
              m2 = m1\<lparr>lm_childCooldown := filter (\<lambda>(h, u). u > now) (lm_childCooldown m1)\<rparr>;
              m3 = standbyLeaseSweep now mo (metadataPrune m2);
              (o4, m4) = terminationSweep now mo m3;
              (o5, m5) = thinBranchSweep reach now mo m4
          in (o4 @ o5, m5))"

end
