(* ===== verification/StoreLaws.thy ===== *)
theory StoreLaws
  imports TopicLifetime
begin

text \<open>
  The topic store against its specification: the cache with its two counters refines a plain list with a
  declarative eviction rule, expiry is a filter when the stamps are in order, the application sees a
  message once, and a migrated deletion suppresses the message at the receiver.
\<close>

section \<open>The counters of a role\<close>

definition ids :: "centry list \<Rightarrow> string list" where
  "ids cs = map ce_msgId cs"

definition total_bytes :: "centry list \<Rightarrow> int" where
  "total_bytes cs = sum_list (map ce_bytes cs)"

definition role_ok :: "role \<Rightarrow> bool" where
  "role_ok r \<longleftrightarrow> distinct (ids (cache r)) \<and> cacheIds r = set (ids (cache r)) \<and> cacheBytes r = total_bytes (cache r) \<and> (\<forall>c \<in> set (cache r). 0 \<le> ce_bytes c)"

lemma ids_simps [simp]: "ids [] = []" "ids (c # cs) = ce_msgId c # ids cs" "ids (xs @ ys) = ids xs @ ids ys"
  by (simp_all add: ids_def)

lemma total_simps [simp]: "total_bytes [] = 0" "total_bytes (c # cs) = ce_bytes c + total_bytes cs" "total_bytes (xs @ ys) = total_bytes xs + total_bytes ys"
  by (simp_all add: total_bytes_def)

lemma remove_at_simps [simp]:
  "cache (remove_at i r) = take i (cache r) @ drop (Suc i) (cache r)" "pins (remove_at i r) = pins r" "latestOnly (remove_at i r) = latestOnly r"
  "tombstones (remove_at i r) = tombstones r"
  by (simp_all add: remove_at_def)

lemma cut_cong:
  "gate r' = gate r \<Longrightarrow> dismantling r' = dismantling r \<Longrightarrow> retired r' = retired r \<Longrightarrow> ro_ref r' = ro_ref r \<Longrightarrow> gen r' = gen r \<Longrightarrow> cutHolds live r' = cutHolds live r"
  by (rule ext) (simp only: cutHolds_def)

lemma cut_remove_at [simp]: "cutHolds live (remove_at i r) = cutHolds live r"
  by (rule cut_cong) (simp_all add: remove_at_def)

lemma splice:
  assumes "i < length cs"
  obtains pre post where "cs = pre @ cs ! i # post" "take i cs @ drop (Suc i) cs = pre @ post" "length pre = i"
  using id_take_nth_drop [OF assms] assms by (intro that [of "take i cs" "drop (Suc i) cs"]) simp_all

lemma remove_at_ok:
  assumes "role_ok r" "i < length (cache r)"
  shows "role_ok (remove_at i r)"
proof -
  obtain pre post where s: "cache r = pre @ cache r ! i # post" "take i (cache r) @ drop (Suc i) (cache r) = pre @ post" using splice [OF assms(2)] by metis
  define c where "c = cache r ! i"
  have e: "cache r = pre @ c # post" using s(1) by (simp add: c_def)
  have d: "distinct (ids (pre @ c # post))" "cacheIds r = set (ids (pre @ c # post))" "cacheBytes r = total_bytes (pre @ c # post)" "\<forall>x \<in> set (pre @ c # post). 0 \<le> ce_bytes x"
    using assms(1) unfolding role_ok_def e by blast+
  have "cache (remove_at i r) = pre @ post" "cacheIds (remove_at i r) = cacheIds r - {ce_msgId c}" "cacheBytes (remove_at i r) = cacheBytes r - ce_bytes c"
    using s(2) by (simp_all add: c_def) (simp_all add: remove_at_def)
  then show ?thesis using d unfolding role_ok_def by auto
qed

section \<open>Eviction\<close>

text \<open>The specification: the first \<open>n\<close> entries that are not pinned go, with the least \<open>n\<close> for which the rest
  fits or only pinned entries are left.\<close>

fun drop_unpinned :: "string set \<Rightarrow> nat \<Rightarrow> centry list \<Rightarrow> centry list" where
  "drop_unpinned p n [] = []"
| "drop_unpinned p n (c # cs) = (if ce_msgId c \<in> p then c # drop_unpinned p n cs else (case n of 0 \<Rightarrow> c # cs | Suc m \<Rightarrow> drop_unpinned p m cs))"

definition fits :: "nat \<Rightarrow> int \<Rightarrow> centry list \<Rightarrow> bool" where
  "fits mx mb cs \<longleftrightarrow> length cs \<le> mx \<and> total_bytes cs \<le> mb"

definition all_pinned :: "string set \<Rightarrow> centry list \<Rightarrow> bool" where
  "all_pinned p cs \<longleftrightarrow> set (ids cs) \<subseteq> p"

definition need :: "string set \<Rightarrow> nat \<Rightarrow> int \<Rightarrow> centry list \<Rightarrow> nat" where
  "need p mx mb cs = (LEAST n. fits mx mb (drop_unpinned p n cs) \<or> all_pinned p (drop_unpinned p n cs))"

lemma drop_unpinned_0 [simp]: "drop_unpinned p 0 cs = cs"
  by (induction cs) auto

lemma drop_unpinned_pinned: "all_pinned p cs \<Longrightarrow> drop_unpinned p n cs = cs"
  by (induction cs) (auto simp: all_pinned_def)

lemma drop_unpinned_Suc: "drop_unpinned p (Suc n) cs = drop_unpinned p n (drop_unpinned p (Suc 0) cs)"
  by (induction cs) simp_all

lemma drop_unpinned_all: "length cs \<le> n \<Longrightarrow> all_pinned p (drop_unpinned p n cs)"
proof (induction cs arbitrary: n)
  case (Cons c cs)
  then obtain m where m: "n = Suc m" "length cs \<le> m" by (cases n) auto
  then have "all_pinned p (drop_unpinned p m cs)" "all_pinned p (drop_unpinned p n cs)" using Cons.IH by simp_all
  then show ?case by (simp add: m(1) all_pinned_def)
qed (simp add: all_pinned_def)

lemma need_ok: "fits mx mb (drop_unpinned p (need p mx mb cs) cs) \<or> all_pinned p (drop_unpinned p (need p mx mb cs) cs)"
  unfolding need_def by (rule LeastI [of _ "length cs"]) (simp add: drop_unpinned_all)

lemma need_0: "fits mx mb cs \<or> all_pinned p cs \<Longrightarrow> need p mx mb cs = 0"
  unfolding need_def by (rule Least_equality) simp_all

lemma need_Suc:
  assumes "\<not> fits mx mb cs" "\<not> all_pinned p cs"
  shows "need p mx mb cs = Suc (need p mx mb (drop_unpinned p (Suc 0) cs))"
proof -
  define P where "P n \<longleftrightarrow> fits mx mb (drop_unpinned p n cs) \<or> all_pinned p (drop_unpinned p n cs)" for n
  have "P (length cs)" unfolding P_def using drop_unpinned_all [of cs "length cs" p] by blast
  moreover have "\<not> P 0" using assms by (simp add: P_def)
  ultimately have L: "(LEAST n. P n) = Suc (LEAST m. P (Suc m))" by (rule Least_Suc)
  have e: "P (Suc m) = (fits mx mb (drop_unpinned p m (drop_unpinned p (Suc 0) cs)) \<or> all_pinned p (drop_unpinned p m (drop_unpinned p (Suc 0) cs)))" for m
    unfolding P_def drop_unpinned_Suc [of p m cs] by (rule refl)
  have "need p mx mb (drop_unpinned p (Suc 0) cs) = (LEAST m. P (Suc m))" unfolding need_def e by (rule refl)
  moreover have "need p mx mb cs = (LEAST n. P n)" unfolding need_def P_def by (rule refl)
  ultimately show ?thesis using L by (simp only:)
qed

lemma first_unpinned_None: "first_unpinned p cs = None \<longleftrightarrow> all_pinned p cs"
  by (induction cs) (auto simp: all_pinned_def)

lemma first_unpinned_Some:
  "first_unpinned p cs = Some i \<Longrightarrow> i < length cs \<and> take i cs @ drop (Suc i) cs = drop_unpinned p (Suc 0) cs \<and> ce_msgId (cs ! i) \<notin> p"
  by (induction cs arbitrary: i) (auto split: if_splits)

lemma cache_remove_first: "first_unpinned (pins r) (cache r) = Some i \<Longrightarrow> cache (remove_at i r) = drop_unpinned (pins r) (Suc 0) (cache r)"
  using first_unpinned_Some [of "pins r" "cache r" i] by simp

lemma length_drop_1:
  assumes "first_unpinned p cs = Some i"
  shows "Suc (length (drop_unpinned p (Suc 0) cs)) = length cs"
proof -
  have fu: "i < length cs" "take i cs @ drop (Suc i) cs = drop_unpinned p (Suc 0) cs" using first_unpinned_Some [OF assms] by blast+
  show ?thesis unfolding fu(2) [symmetric] using fu(1) by simp
qed

definition evicted :: "role \<Rightarrow> string list \<Rightarrow> role \<Rightarrow> bool" where
  "evicted r ev r' \<longleftrightarrow> role_ok r' \<and> pins r' = pins r \<and> latestOnly r' = latestOnly r \<and> tombstones r' = tombstones r
     \<and> (\<forall>live. cutHolds live r' = cutHolds live r) \<and> distinct ev \<and> set ev \<inter> cacheIds r' = {} \<and> cacheIds r = set ev \<union> cacheIds r' \<and> set ev \<inter> pins r = {}"

lemma evicted_refl: "role_ok r \<Longrightarrow> evicted r [] r"
  by (simp add: evicted_def)

lemma evicted_remove:
  assumes "role_ok r" "i < length (cache r)" "ce_msgId (cache r ! i) \<notin> pins r" "evicted (remove_at i r) ev r'"
  shows "evicted r (ce_msgId (cache r ! i) # ev) r'"
proof -
  have "ce_msgId (cache r ! i) \<in> cacheIds r" using assms(1,2) unfolding role_ok_def ids_def by simp
  moreover have "cacheIds (remove_at i r) = cacheIds r - {ce_msgId (cache r ! i)}" by (simp add: remove_at_def)
  ultimately show ?thesis using assms(3,4) unfolding evicted_def by auto
qed

lemma evicted_trans: "evicted r ev1 r1 \<Longrightarrow> evicted r1 ev2 r2 \<Longrightarrow> evicted r (ev1 @ ev2) r2"
  unfolding evicted_def by auto

lemma evict_loop_spec:
  assumes "role_ok r" "length (cache r) \<le> g" "evict_loop g mx mb r = (ev, r')"
  shows "cache r' = drop_unpinned (pins r) (need (pins r) mx mb (cache r)) (cache r) \<and> evicted r ev r'"
  using assms
proof (induction g arbitrary: r ev)
  case 0
  then have "cache r = []" by simp
  then show ?case using 0 evicted_refl by simp
next
  case (Suc g)
  have fit: "length (cache r) > mx \<or> cacheBytes r > mb \<longleftrightarrow> \<not> fits mx mb (cache r)" using Suc.prems(1) by (auto simp: fits_def role_ok_def)
  show ?case
  proof (cases "fits mx mb (cache r) \<or> all_pinned (pins r) (cache r)")
    case True
    have "first_unpinned (pins r) (cache r) = None \<or> fits mx mb (cache r)" using True first_unpinned_None by blast
    then have "ev = [] \<and> r' = r" using Suc.prems(3) fit by auto
    then show ?thesis using need_0 [OF True] evicted_refl [OF Suc.prems(1)] by simp
  next
    case False
    then obtain i where i: "first_unpinned (pins r) (cache r) = Some i" using first_unpinned_None [of "pins r" "cache r"] by blast
    note fu = first_unpinned_Some [OF i]
    obtain ev1 where e1: "evict_loop g mx mb (remove_at i r) = (ev1, r')" "ev = ce_msgId (cache r ! i) # ev1"
      using Suc.prems(3) fit False i by (auto split: prod.splits)
    have ok: "role_ok (remove_at i r)" using remove_at_ok Suc.prems(1) fu by blast
    have "length (cache (remove_at i r)) \<le> g" using Suc.prems(2) length_drop_1 [OF i] cache_remove_first [OF i] by simp
    from Suc.IH [OF ok this e1(1)] have IH: "cache r' = drop_unpinned (pins r) (need (pins r) mx mb (cache (remove_at i r))) (cache (remove_at i r))" "evicted (remove_at i r) ev1 r'"
      by simp_all
    have "need (pins r) mx mb (cache r) = Suc (need (pins r) mx mb (cache (remove_at i r)))"
      using need_Suc [of mx mb "cache r" "pins r"] False unfolding cache_remove_first [OF i] by blast
    then have "cache r' = drop_unpinned (pins r) (need (pins r) mx mb (cache r)) (cache r)"
      using IH(1) drop_unpinned_Suc cache_remove_first [OF i] by metis
    then show ?thesis using evicted_remove [OF Suc.prems(1) _ _ IH(2)] fu e1(2) by blast
  qed
qed

section \<open>Trimming, supersession, expiry, deletion\<close>

lemma take_Suc_filter: "i < length cs \<Longrightarrow> filter P (take (Suc i) cs) = filter P (take i cs) @ (if P (cs ! i) then [cs ! i] else [])"
  by (simp add: take_Suc_conv_app_nth)

lemma trim_loop_spec:
  assumes "role_ok r" "i \<le> length (cache r)" "trim_loop i r = (ev, r')"
  shows "cache r' = filter (\<lambda>c. ce_msgId c \<in> pins r) (take i (cache r)) @ drop i (cache r) \<and> evicted r ev r'"
  using assms
proof (induction i arbitrary: r ev)
  case 0
  then show ?case by (simp add: evicted_refl)
next
  case (Suc i)
  have i: "i < length (cache r)" using Suc.prems(2) by simp
  note tk = take_Suc_filter [OF i, of "\<lambda>c. ce_msgId c \<in> pins r"]
  have dr: "drop i (cache r) = cache r ! i # drop (Suc i) (cache r)" using i by (rule Cons_nth_drop_Suc [symmetric])
  show ?case
  proof (cases "ce_msgId (cache r ! i) \<in> pins r")
    case True
    then have "trim_loop i r = (ev, r')" using Suc.prems(3) by simp
    from Suc.IH [OF Suc.prems(1) _ this] i show ?thesis unfolding tk dr using True by simp
  next
    case False
    obtain ev1 where e1: "trim_loop i (remove_at i r) = (ev1, r')" "ev = ce_msgId (cache r ! i) # ev1"
      using Suc.prems(3) False by (auto split: prod.splits)
    have "i \<le> length (cache (remove_at i r))" using i by simp
    from Suc.IH [OF remove_at_ok [OF Suc.prems(1) i] this e1(1)]
    have "cache r' = filter (\<lambda>c. ce_msgId c \<in> pins r) (take i (cache r)) @ drop (Suc i) (cache r)" "evicted (remove_at i r) ev1 r'" using i by simp_all
    then show ?thesis unfolding tk e1(2) using evicted_remove [OF Suc.prems(1) i False] False by simp
  qed
qed

definition newest_step :: "centry \<Rightarrow> int option \<Rightarrow> int option" where
  "newest_step e n = (case n of None \<Rightarrow> Some (ce_ts e) | Some t \<Rightarrow> if ce_ts e > t then Some (ce_ts e) else n)"

lemma newest_fold: "fold newest_step cs (Some t) = Some (fold max (map ce_ts cs) t)"
  by (induction cs arbitrary: t) (auto simp: newest_step_def max_def)

lemma fold_max_le: "(x :: int) \<le> fold max ts t \<longleftrightarrow> x \<le> t \<or> (\<exists>y \<in> set ts. x \<le> y)"
  by (induction ts arbitrary: t) auto

lemma superseded_iff: "superseded r e \<longleftrightarrow> latestOnly r = Some True \<and> (\<exists>x \<in> set (cache r). ce_ts e \<le> ce_ts x)"
proof -
  have n: "newestTs cs = fold newest_step cs None" for cs unfolding newestTs_def newest_step_def by (rule refl)
  show ?thesis
  proof (cases "cache r")
    case (Cons c cs)
    have "newestTs (cache r) = Some (fold max (map ce_ts cs) (ce_ts c))" unfolding n Cons by (simp add: newest_fold) (simp add: newest_step_def newest_fold)
    then show ?thesis by (simp add: superseded_def Cons fold_max_le)
  qed (simp add: superseded_def newestTs_def)
qed

text \<open>Expiry stops at the first entry that is not expired.\<close>

definition expired :: "int \<Rightarrow> centry \<Rightarrow> bool" where
  "expired now c \<longleftrightarrow> now - ce_ts c > TTL_MS"

fun expire_spec :: "string set \<Rightarrow> int \<Rightarrow> centry list \<Rightarrow> centry list" where
  "expire_spec p now [] = []"
| "expire_spec p now (c # cs) = (if expired now c then (if ce_msgId c \<in> p then c # expire_spec p now cs else expire_spec p now cs) else c # cs)"

lemma expire_loop_spec:
  assumes "role_ok r" "i \<le> length (cache r)" "expire_loop now i r = (ev, r')"
  shows "cache r' = take i (cache r) @ expire_spec (pins r) now (drop i (cache r)) \<and> evicted r ev r'"
  using assms
proof (induction now i r arbitrary: ev rule: expire_loop.induct)
  case (1 now i r)
  note eq = expire_loop.simps [of now i r]
  show ?case
  proof (cases "i < length (cache r) \<and> now - ce_ts (cache r ! i) > TTL_MS")
    case False
    have "ev = [] \<and> r' = r" using 1(5) unfolding eq if_not_P [OF False] by simp
    moreover have "expire_spec (pins r) now (drop i (cache r)) = drop i (cache r)"
      using False by (cases "i < length (cache r)") (simp_all add: Cons_nth_drop_Suc [symmetric] expired_def)
    ultimately show ?thesis using evicted_refl [OF 1(3)] by simp
  next
    case True
    then have i: "i < length (cache r)" and x: "expired now (cache r ! i)" by (simp_all add: expired_def)
    have dr: "drop i (cache r) = cache r ! i # drop (Suc i) (cache r)" using i by (rule Cons_nth_drop_Suc [symmetric])
    show ?thesis
    proof (cases "ce_msgId (cache r ! i) \<in> pins r")
      case pin: True
      then have "expire_loop now (Suc i) r = (ev, r')" using 1(5) eq True by simp
      from 1(1) [OF True pin 1(3) _ this] i show ?thesis unfolding dr using pin x by (simp add: take_Suc_conv_app_nth)
    next
      case np: False
      obtain ev1 where e1: "expire_loop now i (remove_at i r) = (ev1, r')" "ev = ce_msgId (cache r ! i) # ev1"
        using 1(5) eq True np by (auto split: prod.splits)
      have "i \<le> length (cache (remove_at i r))" using i by simp
      from 1(2) [OF True np remove_at_ok [OF 1(3) i] this e1(1)]
      have "cache r' = take i (cache r) @ expire_spec (pins r) now (drop (Suc i) (cache r))" "evicted (remove_at i r) ev1 r'" using i by simp_all
      then show ?thesis unfolding dr e1(2) using evicted_remove [OF 1(3) i np] np x by simp
    qed
  qed
qed

lemma find_index_Some: "find_index P xs = Some i \<Longrightarrow> i < length xs \<and> P (xs ! i) \<and> (\<forall>j < i. \<not> P (xs ! j))"
  by (induction xs arbitrary: i) (auto split: if_splits simp: less_Suc_eq_0_disj)

lemma find_index_None: "find_index P xs = None \<longleftrightarrow> (\<forall>x \<in> set xs. \<not> P x)"
  by (induction xs) auto

lemma drop_target_simps [simp]:
  "pins (drop_target m r) = pins r" "latestOnly (drop_target m r) = latestOnly r" "tombstones (drop_target m r) = tombstones r"
  by (simp_all add: drop_target_def Let_def split: option.split)

lemma drop_target_spec:
  assumes "role_ok r"
  shows "cache (drop_target m r) = filter (\<lambda>c. ce_msgId c \<noteq> m) (cache r) \<and> role_ok (drop_target m r)"
proof (cases "find_index (\<lambda>c. ce_msgId c = m) (cache r)")
  case None
  then have f: "filter (\<lambda>c. ce_msgId c \<noteq> m) (cache r) = cache r" "m \<notin> set (ids (cache r))" by (auto simp: find_index_None filter_id_conv ids_def)
  have "drop_target m r = r\<lparr>cacheIds := cacheIds r - {m}\<rparr>" using None by (simp add: drop_target_def Let_def)
  then show ?thesis using f assms by (simp add: role_ok_def)
next
  case (Some i)
  note fi = find_index_Some [OF Some]
  obtain pre post where s: "cache r = pre @ cache r ! i # post" "take i (cache r) @ drop (Suc i) (cache r) = pre @ post" using splice [of i "cache r"] fi by metis
  define c where "c = cache r ! i"
  have e: "cache r = pre @ c # post" "ce_msgId c = m" using s(1) fi by (simp_all add: c_def)
  have "m \<notin> set (ids pre)" "m \<notin> set (ids post)" using assms unfolding role_ok_def e(1) using e(2) by auto
  then have "filter (\<lambda>c. ce_msgId c \<noteq> m) pre = pre" "filter (\<lambda>c. ce_msgId c \<noteq> m) post = post" by (force simp: filter_id_conv ids_def)+
  then have f: "filter (\<lambda>c. ce_msgId c \<noteq> m) (cache r) = pre @ post" using e by simp
  have d: "drop_target m r = remove_at i r" using Some fi by (simp add: drop_target_def Let_def remove_at_def)
  show ?thesis using f d s(2) remove_at_ok [OF assms] fi by simp
qed

section \<open>The cache refines a list\<close>

text \<open>The interface: a concrete state with an invariant, an abstraction, and on both sides a step for every
  event. One step that keeps the invariant and commutes with the abstraction gives the whole history.\<close>

fun legal_run :: "('e \<Rightarrow> 's \<Rightarrow> bool) \<Rightarrow> ('e \<Rightarrow> 's \<Rightarrow> 's) \<Rightarrow> 'e list \<Rightarrow> 's \<Rightarrow> bool" where
  "legal_run legal step [] s \<longleftrightarrow> True"
| "legal_run legal step (e # es) s \<longleftrightarrow> legal e s \<and> legal_run legal step es (step e s)"

locale refinement =
  fixes inv :: "'s \<Rightarrow> bool" and abs :: "'s \<Rightarrow> 'a" and legal :: "'e \<Rightarrow> 's \<Rightarrow> bool" and step :: "'e \<Rightarrow> 's \<Rightarrow> 's" and spec :: "'e \<Rightarrow> 'a \<Rightarrow> 'a"
  assumes inv_step: "inv s \<Longrightarrow> legal e s \<Longrightarrow> inv (step e s)"
    and abs_step: "inv s \<Longrightarrow> legal e s \<Longrightarrow> abs (step e s) = spec e (abs s)"
begin

lemma run_refines: "inv s \<Longrightarrow> legal_run legal step es s \<Longrightarrow> inv (fold step es s) \<and> abs (fold step es s) = fold spec es (abs s)"
  by (induction es arbitrary: s) (auto simp: inv_step abs_step)

end

text \<open>The abstract cache: the entries in order, what is pinned, whether only the newest counts, and whether a
  write may commit. No counter and no id set.\<close>

record acache =
  entries :: "centry list"
  a_pins :: "string set"
  a_latest :: "bool option"
  a_open :: "nat option \<Rightarrow> cut option \<Rightarrow> bool"

datatype cevent = Push "nat option" centry "cut option" | Expire int | Retract string | Pin "string set"

definition cabs :: "role \<Rightarrow> acache" where
  "cabs r = \<lparr>entries = cache r, a_pins = pins r, a_latest = latestOnly r, a_open = (\<lambda>live. cutHolds live r)\<rparr>"

definition spec_push :: "nat \<Rightarrow> int \<Rightarrow> acache \<Rightarrow> centry \<Rightarrow> centry list" where
  "spec_push mx mb a e =
     (let cs = entries a @ [e\<lparr>ce_bytes := entryBytes e\<rparr>]; ds = drop_unpinned (a_pins a) (need (a_pins a) mx mb cs) cs in
      if a_latest a = Some True \<and> length ds > 1 then filter (\<lambda>c. ce_msgId c \<in> a_pins a) (butlast ds) @ [last ds] else ds)"

fun cspec :: "nat \<Rightarrow> int \<Rightarrow> cevent \<Rightarrow> acache \<Rightarrow> acache" where
  "cspec mx mb (Push live e c) a =
     (if \<not> a_open a live c \<or> a_latest a = Some True \<and> (\<exists>x \<in> set (entries a). ce_ts e \<le> ce_ts x) then a
      else a\<lparr>entries := spec_push mx mb a e\<rparr>)"
| "cspec mx mb (Expire now) a = a\<lparr>entries := expire_spec (a_pins a) now (entries a)\<rparr>"
| "cspec mx mb (Retract m) a = a\<lparr>entries := filter (\<lambda>c. ce_msgId c \<noteq> m) (entries a)\<rparr>"
| "cspec mx mb (Pin p) a = a\<lparr>a_pins := p\<rparr>"

fun cstep :: "nat \<Rightarrow> int \<Rightarrow> cevent \<Rightarrow> role \<Rightarrow> role" where
  "cstep mx mb (Push live e c) r = snd (snd (cachePush mx mb live r e c))"
| "cstep mx mb (Expire now) r = snd (expireCache r now)"
| "cstep mx mb (Retract m) r = drop_target m r"
| "cstep mx mb (Pin p) r = r\<lparr>pins := p\<rparr>"

text \<open>The callers of \<open>_cachePush\<close> check \<open>cacheIds\<close> first; only \<open>_onDeliver\<close> may await the derivation of the topic id between the check and the push, once per
  role, so that two deliveries of one message in flight together push it twice (see \<open>double_push_breaks\<close>).\<close>

fun clegal :: "cevent \<Rightarrow> role \<Rightarrow> bool" where
  "clegal (Push live e c) r \<longleftrightarrow> ce_msgId e \<notin> cacheIds r"
| "clegal _ r \<longleftrightarrow> True"

lemma append_entry_ok: "role_ok r \<Longrightarrow> ce_msgId e \<notin> cacheIds r \<Longrightarrow> role_ok (append_entry e r)"
  by (auto simp: role_ok_def append_entry_def entryBytes_def split: option.split)

lemma append_entry_simps [simp]:
  "cache (append_entry e r) = cache r @ [e\<lparr>ce_bytes := entryBytes e\<rparr>]" "pins (append_entry e r) = pins r" "latestOnly (append_entry e r) = latestOnly r"
  "tombstones (append_entry e r) = tombstones r"
  by (simp_all add: append_entry_def)

lemma cut_frame [simp]:
  "cutHolds live (append_entry e r) = cutHolds live r" "cutHolds live (r\<lparr>pins := p\<rparr>) = cutHolds live r" "cutHolds live (drop_target m r) = cutHolds live r"
  by (rule cut_cong; simp add: append_entry_def drop_target_def Let_def split: option.split)+

lemma butlast_drop: "xs \<noteq> [] \<Longrightarrow> take (length xs - 1) xs = butlast xs \<and> drop (length xs - 1) xs = [last xs]"
  by (cases xs rule: rev_cases) simp_all

text \<open>A push that commits: the entries, and what went.\<close>

lemma cachePush_commits:
  assumes "role_ok r" "ce_msgId e \<notin> cacheIds r" "cutHolds live r c" "\<not> superseded r e" "cachePush mx mb live r e c = (ok, ev, r')"
  shows "ok \<and> cache r' = spec_push mx mb (cabs r) e \<and> evicted (append_entry e r) ev r'"
proof -
  define r1 where "r1 = append_entry e r"
  have ok1: "role_ok r1" unfolding r1_def using assms(1,2) by (rule append_entry_ok)
  obtain ev1 r2 where e1: "evict_loop (length (cache r1) + 1) mx mb r1 = (ev1, r2)" by fastforce
  have s2: "cache r2 = drop_unpinned (pins r1) (need (pins r1) mx mb (cache r1)) (cache r1)" "evicted r1 ev1 r2" using evict_loop_spec [OF ok1 _ e1] by simp_all
  then have ok2: "role_ok r2" and p2: "pins r2 = pins r" "latestOnly r2 = latestOnly r" by (simp_all add: evicted_def r1_def)
  obtain ev2 r3 where e3: "(if latestOnly r2 = Some True \<and> length (cache r2) > 1 then trim_loop (length (cache r2) - 1) r2 else ([], r2)) = (ev2, r3)" by fastforce
  have "cachePush mx mb live r e c = (True, ev1 @ ev2, r3)"
    unfolding cachePush_def Let_def r1_def [symmetric] e1 prod.case e3 using assms(3,4) by simp
  then have c: "ok = True" "ev = ev1 @ ev2" "r' = r3" using assms(5) by simp_all
  have s3: "cache r3 = (if latestOnly r = Some True \<and> length (cache r2) > 1 then filter (\<lambda>c. ce_msgId c \<in> pins r) (butlast (cache r2)) @ [last (cache r2)] else cache r2) \<and> evicted r2 ev2 r3"
  proof (cases "latestOnly r2 = Some True \<and> length (cache r2) > 1")
    case True
    then have "trim_loop (length (cache r2) - 1) r2 = (ev2, r3)" using e3 by simp
    note ts = trim_loop_spec [OF ok2 _ this]
    have ne: "cache r2 \<noteq> []" using True by auto
    show ?thesis using ts True p2 unfolding conjunct1 [OF butlast_drop [OF ne]] conjunct2 [OF butlast_drop [OF ne]] by simp
  next
    case False
    have "ev2 = [] \<and> r3 = r2" using e3 unfolding if_not_P [OF False] by simp
    then show ?thesis using False p2 evicted_refl [OF ok2] by auto
  qed
  have "cache r' = spec_push mx mb (cabs r) e"
    using s3 s2(1) c(3) unfolding spec_push_def cabs_def Let_def r1_def by simp
  then show ?thesis using c evicted_trans [OF s2(2)] s3 unfolding r1_def by blast
qed

lemma cachePush_idle: "\<not> cutHolds live r c \<or> superseded r e \<Longrightarrow> cachePush mx mb live r e c = (cutHolds live r c, [], r)"
  by (auto simp: cachePush_def)

lemma cabs_evicted: "evicted r ev r' \<Longrightarrow> cabs r' = (cabs r)\<lparr>entries := cache r'\<rparr>"
  by (simp add: evicted_def cabs_def)

lemma cstep_push:
  assumes "role_ok r" "ce_msgId e \<notin> cacheIds r"
  shows "role_ok (cstep mx mb (Push live e c) r) \<and> cabs (cstep mx mb (Push live e c) r) = cspec mx mb (Push live e c) (cabs r)"
proof (cases "\<not> cutHolds live r c \<or> superseded r e")
  case True
  then have "a_latest (cabs r) = Some True \<and> (\<exists>x \<in> set (entries (cabs r)). ce_ts e \<le> ce_ts x) \<or> \<not> a_open (cabs r) live c" unfolding superseded_iff by (auto simp: cabs_def)
  then have "cspec mx mb (Push live e c) (cabs r) = cabs r" by auto
  then show ?thesis using assms(1) cachePush_idle [OF True] by simp
next
  case False
  obtain ok ev r' where p: "cachePush mx mb live r e c = (ok, ev, r')" by (cases "cachePush mx mb live r e c") auto
  from False have f: "cutHolds live r c" "\<not> superseded r e" by simp_all
  note k = cachePush_commits [OF assms f p]
  have n: "\<not> (a_latest (cabs r) = Some True \<and> (\<exists>x \<in> set (entries (cabs r)). ce_ts e \<le> ce_ts x))" using f(2) unfolding superseded_iff by (simp add: cabs_def)
  have "cabs r' = (cabs (append_entry e r))\<lparr>entries := cache r'\<rparr>" using k by (intro cabs_evicted) blast
  also have "\<dots> = (cabs r)\<lparr>entries := cache r'\<rparr>" by (simp add: cabs_def)
  also have "\<dots> = cspec mx mb (Push live e c) (cabs r)"
  proof -
    have "a_open (cabs r) live c" using f(1) by (simp add: cabs_def)
    then have "cspec mx mb (Push live e c) (cabs r) = (cabs r)\<lparr>entries := spec_push mx mb (cabs r) e\<rparr>" using n by auto
    then show ?thesis using k by simp
  qed
  finally have "cabs r' = cspec mx mb (Push live e c) (cabs r)" .
  then show ?thesis using k p by (simp add: evicted_def)
qed

interpretation cache: refinement role_ok cabs clegal "cstep mx mb" "cspec mx mb"
proof (unfold_locales, goal_cases)
  case (1 r e)
  then show ?case
  proof (cases e)
    case (Expire now)
    obtain ev r' where x: "expire_loop now 0 r = (ev, r')" by fastforce
    show ?thesis using expire_loop_spec [OF 1(1) _ x] by (simp add: Expire expireCache_def x evicted_def)
  next
    case (Push live x c)
    then show ?thesis using 1 cstep_push [of r x mx mb live c] by simp
  next
    case (Retract m)
    then show ?thesis using drop_target_spec [OF 1(1), of m] by simp
  next
    case (Pin p)
    then show ?thesis using 1(1) by (simp add: role_ok_def)
  qed
next
  case (2 r e)
  then show ?case
  proof (cases e)
    case (Push live x c)
    then show ?thesis using 2 cstep_push [of r x mx mb live c] by simp
  next
    case (Expire now)
    obtain ev r' where x: "expire_loop now 0 r = (ev, r')" by fastforce
    show ?thesis using expire_loop_spec [OF 2(1) _ x] cabs_evicted [of r ev r'] by (simp add: Expire expireCache_def x) (simp add: cabs_def)
  next
    case (Retract m)
    then show ?thesis using drop_target_spec [OF 2(1), of m] by (simp add: cabs_def)
  next
    case (Pin p)
    then show ?thesis by (simp add: cabs_def)
  qed
qed

text \<open>C2. The cache of a role refines a plain list. After every history of pushes, expiries, retractions and changes
  of the pins in which no held message is pushed again, the id set and the byte counter are those of the entries,
  and the entries are what the specification gives: a push appends and then drops the least number of oldest unpinned entries
  that makes the rest fit (on a metric topic only the newest stays), and a refused or superseded push changes nothing. The code checks the id set
  before every push, but one of its callers may lose the check to a concurrent delivery.\<close>

theorem cache_refines:
  assumes "role_ok r" "legal_run clegal (cstep mx mb) es r"
  shows "role_ok (fold (cstep mx mb) es r) \<and> cabs (fold (cstep mx mb) es r) = fold (cspec mx mb) es (cabs r)"
  using assms by (rule cache.run_refines)

definition fresh_role :: role where
  "fresh_role = \<lparr>ro_ref = 0, ro_topicId = 5, isRoot = True, gate = None, dismantling = False, retired = False, gen = 0, latestOnly = None, cache = [],
     cacheIds = {}, cacheBytes = 0, publishes = 0, pins = {}, tombstones = [], lastTs = 0, ro_seq = 0\<rparr>"

definition msg :: "string \<Rightarrow> int \<Rightarrow> centry" where
  "msg m t = \<lparr>ce_msgId = m, ce_json = Some m, ce_ts = t, ce_bytes = 0\<rparr>"

lemma fresh_role_ok: "role_ok fresh_role"
  by (simp add: role_ok_def fresh_role_def)

lemmas store_eval = fresh_role_def msg_def cachePush_def cutHolds_def superseded_def newestTs_def append_entry_def entryBytes_def remove_at_def Let_def

definition two_pushes :: "int \<Rightarrow> cevent list" where
  "two_pushes t = [Push None (msg ''a'' t) None, Push None (msg ''b'' 0) None]"

lemma double_push_breaks: "\<not> role_ok (fold (cstep 10 1000) [Push None (msg ''a'' 1) None, Push None (msg ''a'' 1) None] fresh_role)"
  by (simp add: store_eval role_ok_def numeral_2_eq_2)

lemma two_pushes_legal: "legal_run clegal (cstep 1 1000) (two_pushes t) fresh_role"
  by (simp add: two_pushes_def store_eval numeral_2_eq_2)

theorem cache_refines_witness:
  "role_ok fresh_role \<and> legal_run clegal (cstep 1 1000) (two_pushes 7) fresh_role \<and> length (two_pushes 7) = 2
   \<and> role_ok (fold (cstep 1 1000) (two_pushes 7) fresh_role)"
  using cache_refines [OF fresh_role_ok two_pushes_legal] fresh_role_ok two_pushes_legal by (simp add: two_pushes_def)

lemma total_filter: "\<forall>c \<in> set cs. 0 \<le> ce_bytes c \<Longrightarrow> total_bytes (filter P cs) \<le> total_bytes cs"
  by (induction cs) auto

lemma fits_trim:
  assumes "\<forall>c \<in> set cs. 0 \<le> ce_bytes c" "fits mx mb cs" "cs \<noteq> []"
  shows "fits mx mb (filter P (butlast cs) @ [last cs])"
proof -
  obtain ys y where "cs = ys @ [y]" using assms(3) by (cases cs rule: rev_cases) auto
  moreover have "Suc (length (filter P ys)) \<le> Suc (length ys)" by simp
  ultimately show ?thesis using assms(1,2) total_filter [of ys P] le_trans [of "Suc (length (filter P ys))" "Suc (length ys)" mx] by (auto simp: fits_def)
qed

lemma drop_unpinned_subset: "set (drop_unpinned p n cs) \<subseteq> set cs"
  by (induction cs arbitrary: n) (auto split: nat.split)

lemma spec_push_bounded:
  assumes "\<forall>c \<in> set (entries a). 0 \<le> ce_bytes c"
  shows "fits mx mb (spec_push mx mb a e) \<or> all_pinned (a_pins a) (spec_push mx mb a e)"
proof -
  define cs where "cs = entries a @ [e\<lparr>ce_bytes := entryBytes e\<rparr>]"
  define ds where "ds = drop_unpinned (a_pins a) (need (a_pins a) mx mb cs) cs"
  have "\<forall>c \<in> set cs. 0 \<le> ce_bytes c" using assms by (auto simp: cs_def entryBytes_def split: option.split)
  then have nn: "\<forall>c \<in> set ds. 0 \<le> ce_bytes c" using drop_unpinned_subset unfolding ds_def by blast
  have d: "fits mx mb ds \<or> all_pinned (a_pins a) ds" unfolding ds_def by (rule need_ok)
  have s: "spec_push mx mb a e = (if a_latest a = Some True \<and> length ds > 1 then filter (\<lambda>c. ce_msgId c \<in> a_pins a) (butlast ds) @ [last ds] else ds)"
    unfolding spec_push_def Let_def ds_def cs_def by (rule refl)
  have l: "all_pinned (a_pins a) ds \<Longrightarrow> ds \<noteq> [] \<Longrightarrow> all_pinned (a_pins a) (filter P (butlast ds) @ [last ds])" for P
    by (cases ds rule: rev_cases) (auto simp: all_pinned_def ids_def)
  show ?thesis
  proof (cases "a_latest a = Some True \<and> length ds > 1")
    case True
    then have "ds \<noteq> []" by auto
    then show ?thesis using d fits_trim [OF nn] l unfolding s if_P [OF True] by blast
  next
    case False
    then show ?thesis using d unfolding s if_not_P [OF False] by blast
  qed
qed

text \<open>The caps of the cache. A push that commits leaves the cache within the count and byte caps, or with pinned
  entries only; it never evicts a pinned entry; what it reports as evicted is exactly what left the cache, each id once.\<close>

theorem push_bounds:
  assumes "role_ok r" "ce_msgId e \<notin> cacheIds r" "cutHolds live r c" "\<not> superseded r e" "cachePush mx mb live r e c = (ok, ev, r')"
  shows "(length (cache r') \<le> mx \<and> cacheBytes r' \<le> mb \<or> cacheIds r' \<subseteq> pins r) \<and> set ev \<inter> pins r = {}
    \<and> distinct ev \<and> set ev \<inter> cacheIds r' = {} \<and> set ev \<union> cacheIds r' = insert (ce_msgId e) (cacheIds r)"
proof -
  note k = cachePush_commits [OF assms]
  then have ev: "evicted (append_entry e r) ev r'" by blast
  have "\<forall>c \<in> set (entries (cabs r)). 0 \<le> ce_bytes c" using assms(1) by (simp add: role_ok_def cabs_def)
  then have "fits mx mb (cache r') \<or> all_pinned (pins r) (cache r')" using spec_push_bounded [of "cabs r" mx mb e] k by (simp add: cabs_def)
  moreover have "role_ok r'" using ev by (simp add: evicted_def)
  moreover have "cacheIds (append_entry e r) = insert (ce_msgId e) (cacheIds r)" by (simp add: append_entry_def)
  ultimately show ?thesis using ev by (auto simp: fits_def all_pinned_def role_ok_def evicted_def)
qed

theorem push_bounds_witness:
  "\<exists>ok ev r'. cachePush 1 1000 None fresh_role (msg ''a'' 7) None = (ok, ev, r') \<and> (length (cache r') \<le> 1 \<and> cacheBytes r' \<le> 1000 \<or> cacheIds r' \<subseteq> {})"
proof -
  obtain ok ev r' where p: "cachePush 1 1000 None fresh_role (msg ''a'' 7) None = (ok, ev, r')" by (cases "cachePush 1 1000 None fresh_role (msg ''a'' 7) None") auto
  have "length (cache r') \<le> 1 \<and> cacheBytes r' \<le> 1000 \<or> cacheIds r' \<subseteq> pins fresh_role"
    using push_bounds [OF fresh_role_ok _ _ _ p] by (simp add: store_eval)
  then show ?thesis using p by (simp add: fresh_role_def)
qed

section \<open>Expiry\<close>

lemma expire_spec_sorted:
  "sorted (map ce_ts cs) \<Longrightarrow> expire_spec p now cs = filter (\<lambda>c. \<not> expired now c \<or> ce_msgId c \<in> p) cs"
proof (induction cs)
  case (Cons c cs)
  show ?case
  proof (cases "expired now c")
    case False
    then have "\<forall>x \<in> set cs. \<not> expired now x" using Cons.prems by (fastforce simp: expired_def)
    then have "filter (\<lambda>c. \<not> expired now c \<or> ce_msgId c \<in> p) cs = cs" by (simp add: filter_id_conv)
    then show ?thesis using False by simp
  qed (use Cons in simp)
qed simp

text \<open>Expiry. When the stamps of the cache are in order, \<open>_expireCache\<close> removes exactly the unpinned messages older than
  the hold time, reports each of them once, and keeps the counters.\<close>

theorem expire_exact:
  assumes "role_ok r" "sorted (map ce_ts (cache r))" "expireCache r now = (ev, r')"
  shows "cache r' = filter (\<lambda>c. now - ce_ts c \<le> TTL_MS \<or> ce_msgId c \<in> pins r) (cache r) \<and> role_ok r'
    \<and> distinct ev \<and> set ev = cacheIds r - cacheIds r'"
proof -
  have "expire_loop now 0 r = (ev, r')" using assms(3) by (simp add: expireCache_def)
  note x = expire_loop_spec [OF assms(1) _ this]
  have f: "(\<lambda>c. \<not> expired now c \<or> ce_msgId c \<in> pins r) = (\<lambda>c. now - ce_ts c \<le> TTL_MS \<or> ce_msgId c \<in> pins r)" by (auto simp: expired_def)
  have "cache r' = filter (\<lambda>c. now - ce_ts c \<le> TTL_MS \<or> ce_msgId c \<in> pins r) (cache r)" using x expire_spec_sorted [OF assms(2), of "pins r" now] unfolding f by simp
  then show ?thesis using x by (auto simp: evicted_def)
qed

definition two_held :: "int \<Rightarrow> role" where
  "two_held t = fold (cstep 10 1000) (two_pushes t) fresh_role"

lemma two_held_eq:
  "two_held t = fresh_role\<lparr>cache := [\<lparr>ce_msgId = ''a'', ce_json = Some ''a'', ce_ts = t, ce_bytes = 81\<rparr>, \<lparr>ce_msgId = ''b'', ce_json = Some ''b'', ce_ts = 0, ce_bytes = 81\<rparr>],
     cacheIds := {''b'', ''a''}, cacheBytes := 162, publishes := 2\<rparr>"
  by (simp add: two_held_def two_pushes_def store_eval numeral_2_eq_2 eval_nat_numeral)

lemma two_held_ok: "role_ok (two_held t)"
  by (simp add: two_held_eq role_ok_def fresh_role_def insert_commute)

theorem expire_exact_witness:
  "cache (snd (expireCache (two_held 0) (TTL_MS + 1))) = []"
proof -
  obtain ev r' where x: "expireCache (two_held 0) (TTL_MS + 1) = (ev, r')" by fastforce
  have "sorted (map ce_ts (cache (two_held 0)))" by (simp add: two_held_eq)
  from expire_exact [OF two_held_ok this x] have "cache r' = []" by (simp add: two_held_eq fresh_role_def)
  then show ?thesis unfolding x by simp
qed

text \<open>The cache is kept in the order of arrival and \<open>_expireCache\<close> stops at the first message that is not expired: a
  message that arrives after a newer one is still held, and still served, however long it has been expired while the newer one is not.\<close>

theorem late_message_not_expired:
  "\<exists>es. legal_run clegal (cstep 10 1000) es fresh_role \<and> pins (fold (cstep 10 1000) es fresh_role) = {}
     \<and> (\<exists>c \<in> set (cache (snd (expireCache (fold (cstep 10 1000) es fresh_role) (2 * TTL_MS)))). 2 * TTL_MS - ce_ts c > TTL_MS)"
proof -
  have "legal_run clegal (cstep 10 1000) (two_pushes (2 * TTL_MS)) fresh_role" by (simp add: two_pushes_def store_eval numeral_2_eq_2)
  moreover have "expireCache (two_held (2 * TTL_MS)) (2 * TTL_MS) = ([], two_held (2 * TTL_MS))"
    by (simp add: expireCache_def expire_loop.simps two_held_eq TTL_MS_def)
  moreover have "\<exists>c \<in> set (cache (two_held (2 * TTL_MS))). 2 * TTL_MS - ce_ts c > TTL_MS" "pins (two_held (2 * TTL_MS)) = {}"
    by (simp_all add: two_held_eq TTL_MS_def fresh_role_def)
  ultimately show ?thesis by (intro exI [of _ "two_pushes (2 * TTL_MS)"]) (simp add: two_held_def [symmetric])
qed

section \<open>Exactly-once delivery\<close>

text \<open>What reaches the application's side of a topic: a body, a kill, the three steps of a subscription, and the end of a
  generation, whose notice takes a key of the same bounded set, and the reset of the manager.\<close>

datatype devent = Body int string string int "int option" | Kill int string int "int option" | Since int int since | Subscribe int int | Unsubscribe int
  | Ended int gen_id | ResetState

fun dstep :: "devent \<Rightarrow> delivery \<Rightarrow> dout list \<times> delivery" where
  "dstep (Body t j m ts sq) d = deliverToApp t j m ts sq d"
| "dstep (Kill t m ts sq) d = deliverKillToApp t m ts sq d"
| "dstep (Since now t s) d = ([], applySince now t s d)"
| "dstep (Subscribe now t) d = ([], pubsubSubscribe now t d)"
| "dstep (Unsubscribe t) d = ([], pubsubUnsubscribe t d)"
| "dstep (Ended t g) d = ([], snd (endedApp t g d))"
| "dstep ResetState d = ([], resetDelivery d)"

text \<open>The events after which the application starts the topic anew: the end of its subscription, a subscription since 'all', and
  the reset of the whole manager.\<close>

fun resets :: "int \<Rightarrow> devent \<Rightarrow> bool" where
  "resets t (Unsubscribe t') \<longleftrightarrow> t' = t"
| "resets t (Since now t' FullReplay) \<longleftrightarrow> t' = t"
| "resets t ResetState \<longleftrightarrow> True"
| "resets t _ \<longleftrightarrow> False"

fun drun :: "devent list \<Rightarrow> delivery \<Rightarrow> dout list \<times> delivery" where
  "drun [] d = ([], d)"
| "drun (e # es) d = (let (o1, d1) = dstep e d; (o2, d2) = drun es d1 in (o1 @ o2, d2))"

text \<open>A key stays among the remembered ones as long as fewer than \<open>APP_DEDUP_MAX\<close> keys came after it.\<close>

definition after :: "'a \<Rightarrow> 'a list \<Rightarrow> nat" where
  "after k ks = length (takeWhile (\<lambda>x. x \<noteq> k) (rev ks))"

lemma advance_simps [simp]: "appDelivered (advance t ts d) = appDelivered d" "mySubs (advance t ts d) = mySubs d"
  by (simp_all add: advance_def Let_def)

lemma after_append [simp]: "x \<noteq> k \<Longrightarrow> after k (ks @ [x]) = Suc (after k ks)" "after k (ks @ [k]) = 0"
  by (simp_all add: after_def)

lemma after_tl:
  assumes "k \<in> set ks" "after k ks < length ks - 1"
  shows "k \<in> set (tl ks) \<and> after k (tl ks) = after k ks"
proof (cases ks)
  case (Cons x xs)
  show ?thesis
  proof (cases "k \<in> set xs")
    case True
    then have "takeWhile (\<lambda>x. x \<noteq> k) (rev xs @ [x]) = takeWhile (\<lambda>x. x \<noteq> k) (rev xs)" by (intro takeWhile_append1 [of k]) auto
    then show ?thesis using True Cons by (simp add: after_def)
  next
    case False
    then have "takeWhile (\<lambda>x. x \<noteq> k) (rev xs @ [x]) = rev xs @ takeWhile (\<lambda>x. x \<noteq> k) [x]" by (intro takeWhile_append2) auto
    then have "after k ks \<ge> length xs" using Cons by (simp add: after_def)
    then show ?thesis using assms(2) Cons by simp
  qed
qed (use assms in simp)

lemma remember_other:
  assumes "k \<in> set (appDelivered d)" "after k (appDelivered d) < n" "n < APP_DEDUP_MAX" "x \<noteq> k"
  shows "k \<in> set (appDelivered (remember x d)) \<and> after k (appDelivered (remember x d)) < Suc n"
proof -
  define ks where "ks = appDelivered d @ [x]"
  have k: "k \<in> set ks" "after k ks < Suc n" using assms by (simp_all add: ks_def)
  show ?thesis
  proof (cases "length ks > APP_DEDUP_MAX")
    case True
    have "after k ks < length ks - 1" using k(2) assms(3) True by linarith
    then show ?thesis using after_tl [OF k(1)] k(2) True by (simp add: remember_def Let_def ks_def [symmetric])
  next
    case False
    then show ?thesis using k by (simp add: remember_def Let_def ks_def [symmetric])
  qed
qed

lemma remember_new: "k \<in> set (appDelivered (remember k d)) \<and> after k (appDelivered (remember k d)) = 0"
proof -
  define ks where "ks = appDelivered d @ [k]"
  have k: "k \<in> set ks" "after k ks = 0" by (simp_all add: ks_def)
  show ?thesis
  proof (cases "length ks > APP_DEDUP_MAX")
    case True
    have "after k ks < length ks - 1" using k(2) True by (simp add: APP_DEDUP_MAX_def)
    then show ?thesis using after_tl [OF k(1)] k(2) True by (simp add: remember_def Let_def ks_def [symmetric])
  next
    case False
    then show ?thesis using k by (simp add: remember_def Let_def ks_def [symmetric])
  qed
qed

definition holds_key :: "string \<Rightarrow> nat \<Rightarrow> delivery \<Rightarrow> bool" where
  "holds_key k n d \<longleftrightarrow> k \<in> set (appDelivered d) \<and> after k (appDelivered d) < n"

lemma holds_remember: "holds_key k n d \<Longrightarrow> n < APP_DEDUP_MAX \<Longrightarrow> x \<notin> set (appDelivered d) \<Longrightarrow> holds_key k (Suc n) (remember x d)"
  using remember_other [of k d n x] unfolding holds_key_def by metis

lemma holds_cong: "appDelivered d' = appDelivered d \<Longrightarrow> holds_key k n d' = holds_key k n d"
  by (simp add: holds_key_def)

lemma holds_Suc: "holds_key k n d \<Longrightarrow> holds_key k (Suc n) d"
  by (simp add: holds_key_def)

text \<open>The keys of a topic are those with its prefix, and no key of another topic has it.\<close>

definition keys_kept :: "int \<Rightarrow> string list \<Rightarrow> string list" where
  "keys_kept t ks = filter (\<lambda>k. take (length (topicPrefix t)) k \<noteq> topicPrefix t) ks"

lemma big_hex_no_colon: "CHR '':'' \<notin> set (big_hex i)"
  using hex_digits_lower [of "nat i"] hex_digits_lower [of "nat (- i)"]
  by (auto simp: big_hex_def list_all_iff is_lower_hex_char_def Let_def)

lemma hex_digits_no_sign: "hex_digits n \<noteq> CHR ''-'' # s"
  using hex_digits_lower [of n] by (auto simp: is_lower_hex_char_def Let_def)

lemma hex_digits_inject: "hex_digits m = hex_digits n \<longleftrightarrow> m = n"
  using hex_val_hex_digits by metis

lemma big_hex_inject: "big_hex i = big_hex j \<longleftrightarrow> i = j"
  using hex_digits_no_sign hex_digits_no_sign [symmetric] by (auto simp: big_hex_def hex_digits_inject nat_eq_iff)

lemma until_colon: "c \<notin> set a \<Longrightarrow> takeWhile (\<lambda>x. x \<noteq> c) (a @ c # xs) = a"
  by (induction a) auto

lemma prefix_of_key: "take (length (topicPrefix s)) (big_hex t @ CHR '':'' # x) = topicPrefix s \<longleftrightarrow> s = t"
proof
  assume "take (length (topicPrefix s)) (big_hex t @ CHR '':'' # x) = topicPrefix s"
  then have "big_hex t @ CHR '':'' # x = big_hex s @ CHR '':'' # drop (length (topicPrefix s)) (big_hex t @ CHR '':'' # x)"
    using append_take_drop_id [of "length (topicPrefix s)" "big_hex t @ CHR '':'' # x"] by (simp add: topicPrefix_def)
  then have "takeWhile (\<lambda>x. x \<noteq> CHR '':'') (big_hex t @ CHR '':'' # x) = takeWhile (\<lambda>x. x \<noteq> CHR '':'') (big_hex s @ CHR '':'' # drop (length (topicPrefix s)) (big_hex t @ CHR '':'' # x))"
    by (rule arg_cong)
  then show "s = t" unfolding until_colon [OF big_hex_no_colon] using big_hex_inject by simp
qed (simp add: topicPrefix_def)

lemma prefix_of_keys [simp]:
  "take (length (topicPrefix s)) (bodyKey t m) = topicPrefix s \<longleftrightarrow> s = t" "take (length (topicPrefix s)) (killKey t m) = topicPrefix s \<longleftrightarrow> s = t"
  using prefix_of_key [of s t m] prefix_of_key [of s t "''kill:'' @ m"] by (simp_all add: bodyKey_def killKey_def)

lemma after_filter: "P k \<Longrightarrow> after k (filter P ks) \<le> after k ks"
proof -
  assume P: "P k"
  have "takeWhile (\<lambda>x. x \<noteq> k) (filter P xs) = filter P (takeWhile (\<lambda>x. x \<noteq> k) xs)" for xs
    using P by (induction xs) auto
  then show ?thesis by (simp add: after_def rev_filter)
qed

lemma reset_keys [simp]: "appDelivered (resetTopicConsumption t d) = keys_kept t (appDelivered d)"
  by (simp add: resetTopicConsumption_def keys_kept_def)

lemma steps_keys [simp]:
  "appDelivered (pubsubSubscribe now t d) = appDelivered d" "appDelivered (pubsubUnsubscribe t d) = keys_kept t (appDelivered d)"
  "appDelivered (applySince now t s d) = (if s = FullReplay then keys_kept t (appDelivered d) else appDelivered d)"
  by (simp add: pubsubSubscribe_def Let_def, simp add: pubsubUnsubscribe_def, cases s) simp_all

lemma resets_reset: "resets t (Unsubscribe t)" "resets t (Since now t FullReplay)"
  by simp_all

lemma dstep_delivered:
  "appDelivered (snd (dstep e d)) = appDelivered d \<or> (\<exists>x. x \<notin> set (appDelivered d) \<and> appDelivered (snd (dstep e d)) = appDelivered (remember x d))
   \<or> (\<exists>s. resets s e \<and> appDelivered (snd (dstep e d)) = keys_kept s (appDelivered d)) \<or> (\<forall>s. resets s e)"
proof (cases e)
  case (Body t j m ts sq)
  then show ?thesis by (auto simp: deliverToApp_def)
next
  case (Kill t m ts sq)
  have r: "appDelivered (remember x (advance t ts d)) = appDelivered (remember x d)" for x by (simp add: remember_def Let_def)
  show ?thesis using r by (auto simp: Kill deliverKillToApp_def Let_def)
next
  case (Since now t s)
  then show ?thesis using resets_reset(2) [of t now] by (cases "s = FullReplay") auto
next
  case (Unsubscribe t)
  then show ?thesis using resets_reset(1) [of t] by auto
next
  case (Ended t g)
  then show ?thesis by (simp add: endedApp_def Let_def) blast
next
  case ResetState
  then have "resets s e" for s by simp
  then show ?thesis by blast
qed simp

text \<open>The key of a topic: what a reset of another topic leaves where it is.\<close>

definition key_of :: "int \<Rightarrow> string \<Rightarrow> bool" where
  "key_of t k \<longleftrightarrow> (\<forall>s. take (length (topicPrefix s)) k = topicPrefix s \<longleftrightarrow> s = t)"

lemma key_of_keys: "key_of t (bodyKey t m)" "key_of t (killKey t m)"
  by (simp_all add: key_of_def)

lemma dstep_holds:
  assumes "holds_key k n d" "n < APP_DEDUP_MAX" "key_of t k" "\<not> resets t e"
  shows "holds_key k (Suc n) (snd (dstep e d))"
proof -
  consider "appDelivered (snd (dstep e d)) = appDelivered d"
    | x where "x \<notin> set (appDelivered d)" "appDelivered (snd (dstep e d)) = appDelivered (remember x d)"
    | s where "resets s e" "appDelivered (snd (dstep e d)) = keys_kept s (appDelivered d)"
    using dstep_delivered [of e d] assms(4) by blast
  then show ?thesis
  proof cases
    case 1
    then show ?thesis using holds_Suc [OF assms(1)] holds_cong by blast
  next
    case 2
    then show ?thesis using holds_remember [OF assms(1,2)] holds_cong by metis
  next
    case 3
    then have k: "take (length (topicPrefix s)) k \<noteq> topicPrefix s" using assms(3,4) unfolding key_of_def by auto
    then have "after k (keys_kept s (appDelivered d)) \<le> after k (appDelivered d)" unfolding keys_kept_def by (rule after_filter)
    then show ?thesis using assms(1) k 3(2) by (simp add: holds_key_def keys_kept_def)
  qed
qed

text \<open>An output guarded by a key: absent while the key is remembered, and remembered with the output.\<close>

definition guarded :: "(dout \<Rightarrow> bool) \<Rightarrow> string \<Rightarrow> bool" where
  "guarded P k \<longleftrightarrow> (\<forall>e d. (k \<in> set (appDelivered d) \<longrightarrow> filter P (fst (dstep e d)) = [])
     \<and> length (filter P (fst (dstep e d))) \<le> 1 \<and> (filter P (fst (dstep e d)) \<noteq> [] \<longrightarrow> holds_key k 1 (snd (dstep e d))))"

lemma guardedD:
  assumes "guarded P k"
  shows "k \<in> set (appDelivered d) \<Longrightarrow> filter P (fst (dstep e d)) = []" "length (filter P (fst (dstep e d))) \<le> 1"
    "filter P (fst (dstep e d)) \<noteq> [] \<Longrightarrow> holds_key k 1 (snd (dstep e d))"
  using assms unfolding guarded_def by blast+

lemma drun_Cons: "fst (drun (e # es) d) = fst (dstep e d) @ fst (drun es (snd (dstep e d)))"
  by (simp add: case_prod_unfold Let_def)

text \<open>While the key is remembered the output needs a reset first; without that, one output is possible before it.\<close>

definition outputs :: "(dout \<Rightarrow> bool) \<Rightarrow> devent list \<Rightarrow> delivery \<Rightarrow> nat" where
  "outputs P es d = length (filter P (fst (drun es d)))"

definition reset_count :: "int \<Rightarrow> devent list \<Rightarrow> nat" where
  "reset_count t es = length (filter (resets t) es)"

lemma outputs_Cons: "outputs P (e # es) d = length (filter P (fst (dstep e d))) + outputs P es (snd (dstep e d))"
  by (simp add: outputs_def drun_Cons del: drun.simps)

lemma resets_silent: "resets t e \<Longrightarrow> fst (dstep e d) = []"
  by (cases e) simp_all

lemma guarded_count:
  assumes g: "guarded P k" and k: "key_of t k"
  shows "length es \<le> APP_DEDUP_MAX \<Longrightarrow> outputs P es d \<le> Suc (reset_count t es)
    \<and> (\<forall>n. holds_key k n d \<longrightarrow> n + length es \<le> APP_DEDUP_MAX \<longrightarrow> outputs P es d \<le> reset_count t es)"
proof (induction es arbitrary: d)
  case (Cons e es)
  define d1 where "d1 = snd (dstep e d)"
  have IH: "outputs P es d1 \<le> Suc (reset_count t es)"
    "holds_key k n d1 \<Longrightarrow> n + length es \<le> APP_DEDUP_MAX \<Longrightarrow> outputs P es d1 \<le> reset_count t es" for n using Cons.IH [of d1] Cons.prems by auto
  have out: "outputs P (e # es) d = length (filter P (fst (dstep e d))) + outputs P es d1" by (simp add: outputs_Cons d1_def)
  have rc: "reset_count t (e # es) = (if resets t e then Suc (reset_count t es) else reset_count t es)" by (simp add: reset_count_def)
  have "outputs P (e # es) d \<le> Suc (reset_count t (e # es))"
  proof (cases "filter P (fst (dstep e d)) = []")
    case False
    then have "outputs P es d1 \<le> reset_count t es" using IH(2) [OF guardedD(3) [OF g False, folded d1_def]] Cons.prems by simp
    then show ?thesis using guardedD(2) [OF g, of e d] out rc by simp
  qed (use IH(1) out rc in simp)
  moreover have "outputs P (e # es) d \<le> reset_count t (e # es)" if h: "holds_key k n d" and n: "n + length (e # es) \<le> APP_DEDUP_MAX" for n
  proof -
    have "filter P (fst (dstep e d)) = []" using guardedD(1) [OF g] h by (simp add: holds_key_def)
    moreover have "\<not> resets t e \<Longrightarrow> holds_key k (Suc n) d1" unfolding d1_def using dstep_holds [OF h _ k] n by simp
    ultimately show ?thesis using IH n out rc by (cases "resets t e") force+
  qed
  ultimately show ?case by blast
qed (simp add: outputs_def)

fun is_message :: "int \<Rightarrow> string \<Rightarrow> dout \<Rightarrow> bool" where
  "is_message t m (AppMessage t' j m' ts sq) \<longleftrightarrow> t' = t \<and> m' = m"
| "is_message t m _ \<longleftrightarrow> False"

fun is_deleted :: "int \<Rightarrow> string \<Rightarrow> dout \<Rightarrow> bool" where
  "is_deleted t m (AppDeleted t' m' ts sq) \<longleftrightarrow> t' = t \<and> m' = m"
| "is_deleted t m _ \<longleftrightarrow> False"

lemma holds_new: "holds_key k 1 (remember k d)" "holds_key k 1 (advance t ts (remember k d))"
  using remember_new [of k d] by (simp_all add: holds_key_def)

lemma guarded_message: "guarded (is_message t m) (bodyKey t m)"
  unfolding guarded_def
proof (intro allI)
  fix e d
  show "(bodyKey t m \<in> set (appDelivered d) \<longrightarrow> filter (is_message t m) (fst (dstep e d)) = []) \<and> length (filter (is_message t m) (fst (dstep e d))) \<le> 1
    \<and> (filter (is_message t m) (fst (dstep e d)) \<noteq> [] \<longrightarrow> holds_key (bodyKey t m) 1 (snd (dstep e d)))"
    by (cases e) (auto simp: deliverToApp_def deliverKillToApp_def Let_def intro: holds_new [unfolded One_nat_def])
qed

lemma guarded_deleted: "guarded (is_deleted t m) (killKey t m)"
  unfolding guarded_def
proof (intro allI)
  fix e d
  show "(killKey t m \<in> set (appDelivered d) \<longrightarrow> filter (is_deleted t m) (fst (dstep e d)) = []) \<and> length (filter (is_deleted t m) (fst (dstep e d))) \<le> 1
    \<and> (filter (is_deleted t m) (fst (dstep e d)) \<noteq> [] \<longrightarrow> holds_key (killKey t m) 1 (snd (dstep e d)))"
    by (cases e) (auto simp: deliverToApp_def deliverKillToApp_def Let_def intro: holds_new [unfolded One_nat_def])
qed

text \<open>C3. The application sees a message once per subscription. In every history of at most \<open>APP_DEDUP_MAX\<close> bodies, kills, ends
  of a generation and steps of subscriptions of any topics, however often a message of a topic or its kill arrives, the callback gets
  the message, and its deletion, at most once more than the history starts the topic anew: \<open>pubsubUnsubscribe\<close> and a
  subscription since 'all' forget what was consumed of their own topic, so that it is delivered again, and of no other
  (\<open>resetState\<close> forgets all). A history that does not start the topic anew delivers each at most once; the initial state is any.\<close>

theorem delivered_once:
  assumes "length es \<le> APP_DEDUP_MAX" "drun es d = (outs, d')"
  shows "length (filter (is_message t m) outs) \<le> Suc (length (filter (resets t) es))
    \<and> length (filter (is_deleted t m) outs) \<le> Suc (length (filter (resets t) es))"
  using guarded_count [OF guarded_message key_of_keys(1) assms(1), of t m d] guarded_count [OF guarded_deleted key_of_keys(2) assms(1), of t m d] assms(2)
  by (simp add: outputs_def reset_count_def)

definition subscribed :: delivery where
  "subscribed = \<lparr>mySubs = [(5, None)], appDelivered = [], lastSeen = []\<rparr>"

definition resubscribe_run :: "devent list" where
  "resubscribe_run = [Body 5 ''j'' ''m'' 1 None, Unsubscribe 6, Body 5 ''j'' ''m'' 1 None, Unsubscribe 5, Since 9 5 FullReplay, Subscribe 9 5, Body 5 ''j'' ''m'' 1 None]"

theorem delivered_once_witness:
  "fst (drun resubscribe_run subscribed) = [Pending 5 ''m'', AppMessage 5 ''j'' ''m'' 1 None, Pending 5 ''m'', AppMessage 5 ''j'' ''m'' 1 None]
   \<and> length (filter (resets 5) resubscribe_run) = 2 \<and> length (filter (is_message 5 ''m'') (fst (drun resubscribe_run subscribed))) \<le> 3"
proof -
  obtain outs d' where r: "drun resubscribe_run subscribed = (outs, d')" by fastforce
  have "length (filter (is_message 5 ''m'') outs) \<le> 3"
    using delivered_once [OF _ r, of 5 "''m''"] by (simp add: APP_DEDUP_MAX_def resubscribe_run_def)
  moreover have "fst (drun resubscribe_run subscribed) = [Pending 5 ''m'', AppMessage 5 ''j'' ''m'' 1 None, Pending 5 ''m'', AppMessage 5 ''j'' ''m'' 1 None]"
    by (simp add: resubscribe_run_def deliverToApp_def subscribed_def remember_def APP_DEDUP_MAX_def pubsubUnsubscribe_def pubsubSubscribe_def
      resetTopicConsumption_def advance_def Let_def mdelete_def)
  ultimately show ?thesis by (simp only: r fst_conv) (simp add: resubscribe_run_def)
qed

section \<open>Migrated deletions\<close>

lemma take_seq_simps [simp]:
  "tombstones (take_seq s r) = tombstones r" "cache (take_seq s r) = cache r" "role_ok (take_seq s r) = role_ok r" "isRoot (take_seq s r) = isRoot r"
  by (simp_all add: take_seq_def role_ok_def split: option.split)

lemma role_ok_tombs [simp]: "role_ok (r\<lparr>tombstones := x\<rparr>) = role_ok r"
  by (simp add: role_ok_def)

text \<open>A kill is refused with nothing changed, or sets the tombstone of its target and drops the target from the cache.\<close>

lemma applyKill_known:
  assumes "applyKill ks ta rr now live tb d c g (Some r) = (ok, outs, ro)" "mget (tombstones r) (d_msgId d) = Some t"
  shows "ro = Some r \<or> (\<exists>t'. ro = Some ((take_seq (d_seq d) r)\<lparr>tombstones := mset_key (d_msgId d) t' (tombstones r)\<rparr>))"
  using assms by (auto simp: applyKill_def Let_def split: if_splits option.splits)

lemma applyKill_new:
  assumes "applyKill ks ta rr now live tb d c g (Some r) = (True, outs, ro)" "mget (tombstones r) (d_msgId d) = None" "cutHolds live r c"
  shows "ro = Some (drop_target (d_msgId d) ((take_seq (d_seq d) r)\<lparr>tombstones := mset_key (d_msgId d)
      (new_tomb now (case d_killTs d of Some t \<Rightarrow> t | None \<Rightarrow> now)
        (if ta then (case d_kill d of Some k \<Rightarrow> if kill_bound ks tb (d_msgId d) k then Some k else None | None \<Rightarrow> None) else None) g d) (tombstones r)\<rparr>))"
  using assms by (simp add: applyKill_def Let_def)

lemma applyKill_cut: "applyKill ks ta rr now live tb d c g (Some r) = (ok, outs, ro) \<Longrightarrow> ok = cutHolds live r c \<and> (\<not> ok \<longrightarrow> ro = Some r)"
  by (auto simp: applyKill_def Let_def split: if_splits option.splits)

lemma applyKill_frame:
  assumes "applyKill ks ta rr now live tb d c g (Some r) = (ok, outs, ro)" "role_ok r"
  shows "\<exists>r'. ro = Some r' \<and> role_ok r' \<and> set (cache r') \<subseteq> set (cache r) \<and> (\<forall>x. x \<noteq> d_msgId d \<longrightarrow> mget (tombstones r') x = mget (tombstones r) x)"
proof (cases "mget (tombstones r) (d_msgId d)")
  case (Some t)
  from applyKill_known [OF assms(1) Some] show ?thesis
  proof
    assume "\<exists>t'. ro = Some ((take_seq (d_seq d) r)\<lparr>tombstones := mset_key (d_msgId d) t' (tombstones r)\<rparr>)"
    then obtain t' where e: "ro = Some ((take_seq (d_seq d) r)\<lparr>tombstones := mset_key (d_msgId d) t' (tombstones r)\<rparr>)" by blast
    show ?thesis unfolding e using assms(2) by simp
  qed (use assms(2) in simp)
next
  case None
  note cu = applyKill_cut [OF assms(1)]
  show ?thesis
  proof (cases ok)
    case True
    define r1 where "r1 = (take_seq (d_seq d) r)\<lparr>tombstones := mset_key (d_msgId d)
      (new_tomb now (case d_killTs d of Some t \<Rightarrow> t | None \<Rightarrow> now)
        (if ta then (case d_kill d of Some k \<Rightarrow> if kill_bound ks tb (d_msgId d) k then Some k else None | None \<Rightarrow> None) else None) g d) (tombstones r)\<rparr>"
    have e: "ro = Some (drop_target (d_msgId d) r1)" unfolding r1_def by (rule applyKill_new) (use assms(1) None True cu in simp_all)
    have "role_ok r1" using assms(2) by (simp add: r1_def)
    from drop_target_spec [OF this, of "d_msgId d"] show ?thesis unfolding e by (auto simp: r1_def)
  next
    case False
    then show ?thesis using cu assms(2) by simp
  qed
qed

lemma accepted_signer: "verifyKill ns vrf k = Accepted s \<Longrightarrow> \<exists>f. fields_of k = Some f \<and> s = str_of (obj_get f ''signerPubkey'')"
  by (auto simp: verifyKill_def split: option.splits if_splits verdict.splits)

lemma lower_char_idem: "lower_char (lower_char c) = lower_char c"
proof (cases "65 \<le> (of_char c :: nat) \<and> (of_char c :: nat) \<le> 90 \<or> 192 \<le> (of_char c :: nat) \<and> (of_char c :: nat) \<le> 222 \<and> (of_char c :: nat) \<noteq> 215")
  case True
  then have "lower_char c = char_of ((of_char c :: nat) + 32)" by (simp add: lower_char_def Let_def)
  moreover have "(of_char (char_of ((of_char c :: nat) + 32) :: char) :: nat) = of_char c + 32" 
  proof -
    have "(of_char c :: nat) + 32 < 256" using True by linarith
    then show ?thesis by (simp add: of_char_of)
  qed
  ultimately show ?thesis using True by (auto simp: lower_char_def Let_def)
next
  case False
  then have "lower_char c = c" unfolding lower_char_def Let_def by (rule if_not_P)
  then show ?thesis by simp
qed

lemma lc_facts: "lc (lc x) = lc x" "lc x = [] \<longleftrightarrow> x = []"
  by (simp_all add: lc_def lower_char_idem)

definition dead_for :: "string \<Rightarrow> string \<Rightarrow> role \<Rightarrow> bool" where
  "dead_for m s r \<longleftrightarrow> m \<notin> cacheIds r \<and> (\<exists>t x. mget (tombstones r) m = Some t \<and> tb_signer t = Some x \<and> x \<noteq> [] \<and> lc x = lc s)"

lemma new_tomb_signer:
  assumes "d_signer d = Some s" "s \<noteq> []" "d' = strip_unverified ks ns vrf ta tb d"
  shows "\<exists>x. tb_signer (new_tomb now kt (if ta then (case d_kill d' of Some k \<Rightarrow> if kill_bound ks tb (d_msgId d') k then Some k else None | None \<Rightarrow> None) else None) g d') = Some x
     \<and> x \<noteq> [] \<and> lc x = lc s"
proof (cases "ta \<and> (\<exists>k. d_kill d' = Some k)")
  case True
  then obtain k where k: "d_kill d' = Some k" by blast
  have v: "verifyBoundKill ks ns vrf tb d"
  proof (rule ccontr)
    assume "\<not> ?thesis"
    then have "d_kill d' = None" using assms(3) True by (simp add: strip_unverified_def)
    then show False using k by simp
  qed
  then have d: "d' = d" using assms(3) by (simp add: strip_unverified_def)
  have kb: "kill_bound ks tb (d_msgId d) k" using v k d by (simp add: verifyBoundKill_def)
  obtain s' where a: "verifyKill ns vrf k = Accepted s'" "lc s = lc s'"
    using v k d assms(1) by (auto simp: verifyBoundKill_def split: verdict.splits)
  from accepted_signer [OF a(1)] have "proof_signer k = lc s'" by (auto simp: proof_signer_def)
  moreover have "s' \<noteq> []" using a(2) assms(2) lc_facts(2) by metis
  ultimately show ?thesis using True k kb d a(2) by (simp add: new_tomb_def lc_facts)
next
  case False
  have "d_signer d' = Some s" using assms(1,3) by (simp add: strip_unverified_def)
  then show ?thesis using False assms(2) by (auto simp: new_tomb_def)
qed

lemma applyKill_kills:
  assumes "applyKill ks ta rr now live tb (strip_unverified ks ns vrf ta tb d) c g (Some r) = (True, outs, ro)" "role_ok r"
    "mget (tombstones r) (d_msgId d) = None" "d_signer d = Some s" "s \<noteq> []"
  shows "\<exists>r'. ro = Some r' \<and> dead_for (d_msgId d) s r'"
proof -
  define d' where "d' = strip_unverified ks ns vrf ta tb d"
  have m: "d_msgId d' = d_msgId d" by (simp add: d'_def strip_unverified_def)
  define t where "t = new_tomb now (case d_killTs d' of Some t \<Rightarrow> t | None \<Rightarrow> now)
        (if ta then (case d_kill d' of Some k \<Rightarrow> if kill_bound ks tb (d_msgId d') k then Some k else None | None \<Rightarrow> None) else None) g d'"
  define r1 where "r1 = (take_seq (d_seq d') r)\<lparr>tombstones := mset_key (d_msgId d') t (tombstones r)\<rparr>"
  have a: "applyKill ks ta rr now live tb d' c g (Some r) = (True, outs, ro)" using assms(1) by (simp add: d'_def)
  have "cutHolds live r c" using applyKill_cut [OF a] by simp
  then have e: "ro = Some (drop_target (d_msgId d') r1)" unfolding r1_def t_def by (intro applyKill_new [OF a]) (use assms(3) m in simp_all)
  obtain x where x: "tb_signer t = Some x" "x \<noteq> []" "lc x = lc s"
    using new_tomb_signer [OF assms(4,5) d'_def] unfolding t_def by blast
  have "role_ok r1" using assms(2) by (simp add: r1_def)
  from drop_target_spec [OF this, of "d_msgId d'"]
  have "d_msgId d' \<notin> cacheIds (drop_target (d_msgId d') r1)" by (auto simp: role_ok_def ids_def)
  then show ?thesis using e x m by (simp add: dead_for_def r1_def)
qed

lemma dead_frame:
  assumes "dead_for m s r" "role_ok r" "role_ok r'" "set (cache r') \<subseteq> set (cache r)" "mget (tombstones r') m = mget (tombstones r) m"
  shows "dead_for m s r'"
  using assms by (auto simp: dead_for_def role_ok_def ids_def)

lemma strip_id [simp]: "d_msgId (strip_unverified ks ns vrf ta tb d) = d_msgId d"
  by (simp add: strip_unverified_def)

lemma applyDels_Cons:
  assumes "applyDels ks ns vrf ta rr now live tb c g (d # ds) (Some r) = (True, outs, ro)" "d_msgId d \<noteq> []" "role_ok r"
  obtains o1 r1 o2 where "applyKill ks ta rr now live tb (strip_unverified ks ns vrf ta tb d) c g (Some r) = (True, o1, Some r1)"
    "applyDels ks ns vrf ta rr now live tb c g ds (Some r1) = (True, o2, ro)" "role_ok r1" "set (cache r1) \<subseteq> set (cache r)"
    "\<forall>x. x \<noteq> d_msgId d \<longrightarrow> mget (tombstones r1) x = mget (tombstones r) x"
proof -
  obtain ok o1 ro1 where k: "applyKill ks ta rr now live tb (strip_unverified ks ns vrf ta tb d) c g (Some r) = (ok, o1, ro1)"
    by (cases "applyKill ks ta rr now live tb (strip_unverified ks ns vrf ta tb d) c g (Some r)") auto
  from applyKill_frame [OF k assms(3)] obtain r1 where r1: "ro1 = Some r1" "role_ok r1" "set (cache r1) \<subseteq> set (cache r)"
    "\<forall>x. x \<noteq> d_msgId d \<longrightarrow> mget (tombstones r1) x = mget (tombstones r) x" by auto
  obtain ok2 o2 ro2 where k2: "applyDels ks ns vrf ta rr now live tb c g ds (Some r1) = (ok2, o2, ro2)"
    by (cases "applyDels ks ns vrf ta rr now live tb c g ds (Some r1)") auto
  have e: "ok \<and> ok2 \<and> ro2 = ro" using assms(1,2) k k2 r1(1) by (auto split: if_splits)
  show thesis by (rule that [of o1 r1 o2]) (use k k2 e r1 in simp_all)
qed

lemma applyDels_keeps_dead:
  assumes "applyDels ks ns vrf ta rr now live tb c g ds (Some r) = (True, outs, ro)" "role_ok r" "dead_for m s r" "m \<notin> d_msgId ` set ds" "[] \<notin> d_msgId ` set ds"
  shows "\<exists>r'. ro = Some r' \<and> dead_for m s r'"
  using assms
proof (induction ds arbitrary: r outs)
  case (Cons d ds)
  from Cons.prems(1) obtain o1 r1 o2 where k: "applyDels ks ns vrf ta rr now live tb c g ds (Some r1) = (True, o2, ro)" "role_ok r1"
    "set (cache r1) \<subseteq> set (cache r)" "\<forall>x. x \<noteq> d_msgId d \<longrightarrow> mget (tombstones r1) x = mget (tombstones r) x"
    by (rule applyDels_Cons) (use Cons.prems in auto)
  have "dead_for m s r1" by (rule dead_frame [OF Cons.prems(3,2) k(2,3)]) (use k(4) Cons.prems(4) in auto)
  from Cons.IH [OF k(1,2) this] Cons.prems(4,5) show ?case by simp
qed auto

lemma applyDels_kills:
  assumes "applyDels ks ns vrf ta rr now live tb c g ds (Some r) = (True, outs, ro)" "role_ok r" "mget (tombstones r) m = None" "[] \<notin> d_msgId ` set ds"
    "distinct (map d_msgId ds)" "d \<in> set ds" "d_msgId d = m" "d_signer d = Some s" "s \<noteq> []"
  shows "\<exists>r'. ro = Some r' \<and> dead_for m s r'"
  using assms
proof (induction ds arbitrary: r outs)
  case (Cons x ds)
  have ne: "d_msgId x \<noteq> []" using Cons.prems(4) by auto
  obtain o1 r1 o2 where k: "applyKill ks ta rr now live tb (strip_unverified ks ns vrf ta tb x) c g (Some r) = (True, o1, Some r1)"
    "applyDels ks ns vrf ta rr now live tb c g ds (Some r1) = (True, o2, ro)" "role_ok r1"
    "\<forall>y. y \<noteq> d_msgId x \<longrightarrow> mget (tombstones r1) y = mget (tombstones r) y"
    by (rule applyDels_Cons [OF Cons.prems(1) ne Cons.prems(2)])
  show ?case
  proof (cases "x = d")
    case True
    have "mget (tombstones r) (d_msgId x) = None" "d_signer x = Some s" using Cons.prems(3,7,8) True by simp_all
    from applyKill_kills [OF k(1) Cons.prems(2) this Cons.prems(9)] have "dead_for m s r1" using Cons.prems(7) True by simp
    moreover have "m \<notin> d_msgId ` set ds" "[] \<notin> d_msgId ` set ds" using Cons.prems(4,5,7) True by auto
    ultimately show ?thesis by (rule applyDels_keeps_dead [OF k(2,3)])
  next
    case False
    then have "d \<in> set ds" using Cons.prems(6) by simp
    moreover from this have "m \<noteq> d_msgId x" using Cons.prems(5,7) by (metis distinct.simps(2) imageI list.set_map list.simps(9))
    then have "mget (tombstones r1) m = None" using k(4) Cons.prems(3) by simp
    moreover have "[] \<notin> d_msgId ` set ds" "distinct (map d_msgId ds)" using Cons.prems(4,5) by auto
    ultimately show ?thesis using Cons.IH [OF k(2,3)] Cons.prems(7-9) by blast
  qed
qed simp

text \<open>C14. A migrated deletion holds at the receiver. Let a role hand over its active deletions and another role, which has no
  tombstone for the message, apply the whole batch. Then the message is not in the receiver's cache, and a copy of it that
  arrives later with the signer of the deletion as its author is dropped, with or without a signed proof in the batch.\<close>

theorem migrated_deletion_holds:
  assumes "minvar (tombstones r1)" "mget (tombstones r1) m = Some t" "tb_exp t > now1" "tb_signer t = Some s" "s \<noteq> []" "[] \<notin> set (mkeys (tombstones r1))"
    and "role_ok r2" "mget (tombstones r2) m = None"
    and "applyDels ks ns vrf ta rr now live tb c g (activeDels ta r1 now1) (Some r2) = (True, outs, ro)"
    and "a \<noteq> []" "lc a = lc s"
  shows "\<exists>r'. ro = Some r' \<and> m \<notin> cacheIds r' \<and> tombstoned ro m (Some a) = (True, ro)"
proof -
  define ts where "ts = filter (\<lambda>(m, t). tb_exp t > now1) (tombstones r1)"
  define del_of where "del_of = (\<lambda>(m, t :: tstone). \<lparr>d_msgId = m, d_killTs = Some (tb_killTs t), d_signer = tb_signer t, d_seq = tb_seq t, d_kill = (if ta then tb_kill t else None)\<rparr>)"
  have ds: "activeDels ta r1 now1 = map del_of ts" by (simp add: activeDels_def ts_def del_of_def)
  have ids: "map d_msgId (map del_of ts) = mkeys ts" by (simp add: del_of_def case_prod_unfold)
  have "(m, t) \<in> set ts" using mget_Some_in [OF assms(2)] assms(3) by (simp add: ts_def)
  then have inD: "del_of (m, t) \<in> set (activeDels ta r1 now1)" unfolding ds by simp
  have "distinct (mkeys ts)" using assms(1) unfolding ts_def minvar_def by (rule distinct_map_filter)
  then have dist: "distinct (map d_msgId (activeDels ta r1 now1))" unfolding ds ids .
  have ne: "[] \<notin> d_msgId ` set (activeDels ta r1 now1)" using assms(6) unfolding ds by (auto simp: del_of_def ts_def image_iff)
  obtain r' where r': "ro = Some r'" "dead_for m s r'"
    using applyDels_kills [OF assms(9,7,8) ne dist inD] assms(4,5) by (auto simp: del_of_def)
  then obtain t' x where t': "mget (tombstones r') m = Some t'" "tb_signer t' = Some x" "x \<noteq> []" "lc x = lc s" "m \<notin> cacheIds r'"
    unfolding dead_for_def by blast
  have "tombstoned ro m (Some a) = (True, ro)" using t'(1-4) assms(10,11) r'(1) by (simp add: tombstoned_def)
  then show ?thesis using r'(1) t'(5) by blast
qed

definition killer_role :: role where
  "killer_role = fresh_role\<lparr>tombstones := [(''m'', \<lparr>tb_exp = 100, tb_killTs = 3, tb_signer = Some ''S'', tb_seq = None, tb_kill = None, tb_gen = None, tb_owners = []\<rparr>)]\<rparr>"

theorem migrated_deletion_holds_witness:
  "\<exists>r'. snd (snd (applyDels production (\<lambda>_. []) (\<lambda>_ _ _. None) False False 10 None 5 None None (activeDels False killer_role 10) (Some fresh_role))) = Some r'
     \<and> ''m'' \<notin> cacheIds r'"
proof -
  obtain ok outs ro where k: "applyDels production (\<lambda>_. []) (\<lambda>_ _ _. None) False False 10 None 5 None None (activeDels False killer_role 10) (Some fresh_role) = (ok, outs, ro)"
    by (cases "applyDels production (\<lambda>_. []) (\<lambda>_ _ _. None) False False 10 None 5 None None (activeDels False killer_role 10) (Some fresh_role)") auto
  have ok: "ok = True" using k by (auto simp: activeDels_def killer_role_def strip_unverified_def applyKill_def cutHolds_def fresh_role_def take_seq_def Let_def)
  have t: "minvar (tombstones killer_role)" "mget (tombstones killer_role) ''m'' = Some \<lparr>tb_exp = 100, tb_killTs = 3, tb_signer = Some ''S'', tb_seq = None, tb_kill = None, tb_gen = None, tb_owners = []\<rparr>"
    by (simp_all add: killer_role_def minvar_def)
  have "\<exists>r'. ro = Some r' \<and> ''m'' \<notin> cacheIds r' \<and> tombstoned ro ''m'' (Some ''S'') = (True, ro)"
    by (rule migrated_deletion_holds [OF t _ _ _ _ fresh_role_ok _ k [unfolded ok]]) (simp_all add: killer_role_def fresh_role_def)
  then show ?thesis unfolding k by auto
qed

end
