(* ===== verification/Durability.thy ===== *)
theory Durability
  imports Prelude
begin

text \<open>
  \<open>pubsub/durability.js\<close>: the durability obligations of a root. A message the root has stamped is
  \<open>pending\<close> until its cohort has shown that it consumed a full snapshot (\<open>verified\<close>), the attempts ran
  out (\<open>expired\<close>) or the message was retracted (\<open>cancelled\<close>).
  \<^item> \<open>dledger\<close> and its operations: the class \<open>DurabilityLedger\<close>, one ledger of one role. The clock is
    the argument \<open>now\<close>; a state that a method returns is a \<open>dstate option\<close>, \<open>None\<close> for \<open>null\<close>.
  \<^item> \<open>dnode\<close>: the facade \<open>RoleScopedDurability\<close>. Roles are objects that callers hold by reference, also
    after the manager has dropped them, so they live in a store \<open>dheap\<close> and \<open>droles\<close> lists the
    addresses that the callback \<open>roles\<close> yields.
  \<^item> the outcome of a replication is a \<open>rep\<close>: its flags are arbitrary JavaScript values, since the
    classifier tests them with \<open>=== true\<close>, its counts are absent or numbers.
\<close>

named_theorems durability_defs \<open>the operations of the ledger\<close>

section \<open>Ledger of one role\<close>

definition DURABILITY_MAX :: nat where "DURABILITY_MAX = 4096"
definition DURABILITY_ATTEMPTS :: int where "DURABILITY_ATTEMPTS = 6"
definition DURABILITY_PER_ROLE_MAX :: nat where "DURABILITY_PER_ROLE_MAX = 1024"

datatype dstate = Pending | Verified | Expired | Cancelled

record dentry =
  de_topic :: int
  de_state :: dstate
  de_attempts :: int
  de_at :: int
  de_reason :: "string option"

record dledger =
  dl_map :: "(string, dentry) jmap"
  dl_max :: nat
  dl_maxAttempts :: int

definition new_dledger :: "nat \<Rightarrow> int \<Rightarrow> dledger" where
  "new_dledger mx ma = \<lparr>dl_map = [], dl_max = mx, dl_maxAttempts = ma\<rparr>"

text \<open>\<open>_prune\<close> and \<open>reclaimTerminal\<close>: the terminal entries, oldest first. \<open>Array.sort\<close> is stable, as \<open>sort_key\<close> is.\<close>

definition terminal_keys :: "dledger \<Rightarrow> string list" where
  "terminal_keys L = map fst (sort_key snd
     (map (\<lambda>(k, e). (k, de_at e)) (filter (\<lambda>(k, e). de_state e \<noteq> Pending) (dl_map L))))"

fun prune_loop :: "nat \<Rightarrow> string list \<Rightarrow> (string, dentry) jmap \<Rightarrow> (string, dentry) jmap" where
  "prune_loop mx [] m = m"
| "prune_loop mx (k # ks) m = (if length m \<le> mx then m else prune_loop mx ks (mdelete k m))"

definition dprune :: "dledger \<Rightarrow> dledger" where
  "dprune L = (if length (dl_map L) \<le> dl_max L then L
     else L\<lparr>dl_map := prune_loop (dl_max L) (terminal_keys L) (dl_map L)\<rparr>)"

definition reclaimTerminal :: "dledger \<Rightarrow> dledger \<times> nat" where
  "reclaimTerminal L = (L\<lparr>dl_map := fold mdelete (terminal_keys L) (dl_map L)\<rparr>, length (terminal_keys L))"

definition dopen :: "int \<Rightarrow> string \<Rightarrow> int \<Rightarrow> dledger \<Rightarrow> dledger" where
  "dopen now msgId topicBig L = (if msgId = [] \<or> mhas (dl_map L) msgId then L
     else dprune (L\<lparr>dl_map := mset_key msgId
       \<lparr>de_topic = topicBig, de_state = Pending, de_attempts = 0, de_at = now, de_reason = None\<rparr> (dl_map L)\<rparr>))"

text \<open>\<open>state\<close>, and the update of an entry in place.\<close>

definition dstate_of :: "string \<Rightarrow> dledger \<Rightarrow> dstate option" where
  "dstate_of msgId L = map_option de_state (mget (dl_map L) msgId)"

definition put_entry :: "string \<Rightarrow> dentry \<Rightarrow> dledger \<Rightarrow> dledger" where
  "put_entry msgId e L = L\<lparr>dl_map := mset_key msgId e (dl_map L)\<rparr>"

definition drecord :: "int \<Rightarrow> string \<Rightarrow> int \<Rightarrow> int \<Rightarrow> dledger \<Rightarrow> dledger \<times> dstate option" where
  "drecord now msgId verified attempted L = (case mget (dl_map L) msgId of
     None \<Rightarrow> (L, None)
   | Some e \<Rightarrow>
       if de_state e \<noteq> Pending then (L, Some (de_state e))
       else if verified > 0 then (put_entry msgId (e\<lparr>de_state := Verified, de_at := now\<rparr>) L, Some Verified)
       else let e1 = e\<lparr>de_attempts := de_attempts e + 1\<rparr> in
         if attempted = 0 \<or> de_attempts e1 \<ge> dl_maxAttempts L
         then (put_entry msgId (e1\<lparr>de_state := Expired, de_at := now\<rparr>) L, Some Expired)
         else (put_entry msgId e1 L, Some Pending))"

definition dexpire :: "int \<Rightarrow> string \<Rightarrow> string \<Rightarrow> dledger \<Rightarrow> dledger" where
  "dexpire now msgId reason L = (case mget (dl_map L) msgId of
     None \<Rightarrow> L
   | Some e \<Rightarrow> if de_state e \<noteq> Pending then L
       else put_entry msgId (e\<lparr>de_state := Expired, de_reason := Some reason, de_at := now\<rparr>) L)"

definition noCohortConfigured :: "int \<Rightarrow> string \<Rightarrow> dledger \<Rightarrow> dledger" where
  "noCohortConfigured now msgId L = dexpire now msgId ''no-replication-configured'' L"

definition noCohortAvailable :: "int \<Rightarrow> string \<Rightarrow> dledger \<Rightarrow> dledger" where
  "noCohortAvailable now msgId L = dexpire now msgId ''no-cohort-available'' L"

definition dcancel :: "int \<Rightarrow> string \<Rightarrow> dledger \<Rightarrow> dledger" where
  "dcancel now msgId L = (case mget (dl_map L) msgId of
     None \<Rightarrow> L
   | Some e \<Rightarrow> if de_state e \<noteq> Pending then L
       else put_entry msgId (e\<lparr>de_state := Cancelled, de_at := now\<rparr>) L)"

section \<open>Replication outcomes\<close>

record rep =
  noCohort :: js
  dispatched :: js
  snapshot :: js
  rep_verified :: "int option"
  rep_attempted :: "int option"

datatype rep_kind = NoCohort | NoDispatch | NoSnapshot | Evidence

definition classify :: "rep \<Rightarrow> rep_kind" where
  "classify r = (if noCohort r = JBool True then NoCohort
     else if dispatched r \<noteq> JBool True then NoDispatch
     else if snapshot r \<noteq> JBool True then NoSnapshot
     else Evidence)"

definition or_zero :: "int option \<Rightarrow> int" where
  "or_zero n = (case n of None \<Rightarrow> 0 | Some x \<Rightarrow> x)"

definition recordOne :: "int \<Rightarrow> string \<Rightarrow> rep \<Rightarrow> dledger \<Rightarrow> dledger \<times> dstate option" where
  "recordOne now msgId r L = (case classify r of
     NoCohort \<Rightarrow> (let L1 = noCohortAvailable now msgId L in (L1, dstate_of msgId L1))
   | Evidence \<Rightarrow> drecord now msgId (or_zero (rep_verified r)) (or_zero (rep_attempted r)) L
   | _ \<Rightarrow> (L, dstate_of msgId L))"

record rec_out =
  ro_verified :: nat
  ro_expired :: nat
  ro_pending :: nat
  ro_kind :: rep_kind

text \<open>One turn of the loop of \<open>recordTopic\<close>. The loop visits the entries in order and changes only
  the entry it is at; the entry is read from the map since the code holds it by reference.\<close>

definition topic_turn :: "int \<Rightarrow> int \<Rightarrow> rep \<Rightarrow> string \<Rightarrow> dledger \<times> rec_out \<Rightarrow> dledger \<times> rec_out" where
  "topic_turn now topicBig r msgId s = (case s of (L, out) \<Rightarrow> case mget (dl_map L) msgId of
     None \<Rightarrow> s
   | Some e \<Rightarrow>
       if de_state e \<noteq> Pending \<or> de_topic e \<noteq> topicBig then s
       else if classify r = NoCohort then (noCohortAvailable now msgId L, out\<lparr>ro_expired := ro_expired out + 1\<rparr>)
       else case drecord now msgId (or_zero (rep_verified r)) (or_zero (rep_attempted r)) L of (L1, st) \<Rightarrow>
         if st = Some Verified then (L1, out\<lparr>ro_verified := ro_verified out + 1\<rparr>)
         else if st = Some Expired then (L1, out\<lparr>ro_expired := ro_expired out + 1\<rparr>)
         else (L1, out\<lparr>ro_pending := ro_pending out + 1\<rparr>))"

definition recordTopic :: "int \<Rightarrow> int \<Rightarrow> rep \<Rightarrow> dledger \<Rightarrow> dledger \<times> rec_out" where
  "recordTopic now topicBig r L =
     (let kind = classify r;
          out = \<lparr>ro_verified = 0, ro_expired = 0, ro_pending = 0, ro_kind = kind\<rparr>
      in if kind = NoDispatch \<or> kind = NoSnapshot
         then (L, out\<lparr>ro_pending := length (filter (\<lambda>(k, e). de_state e = Pending \<and> de_topic e = topicBig) (dl_map L))\<rparr>)
         else fold (topic_turn now topicBig r) (mkeys (dl_map L)) (L, out))"

definition dpending :: "dledger \<Rightarrow> nat" where
  "dpending L = length (filter (\<lambda>(k, e). de_state e = Pending) (dl_map L))"

definition undurable :: "dledger \<Rightarrow> nat" where
  "undurable L = length (filter (\<lambda>(k, e). de_state e = Expired) (dl_map L))"

definition dclear :: "dledger \<Rightarrow> dledger" where
  "dclear L = L\<lparr>dl_map := []\<rparr>"

section \<open>Facade over the roles of a node\<close>

record drole =
  dr_topicId :: int
  dr_durability :: "dledger option"

record dnode =
  dheap :: "nat \<Rightarrow> drole"
  droles :: "nat list"
  nodeMax :: nat
  perRoleMax :: nat
  node_maxAttempts :: int

definition put_ledger :: "nat \<Rightarrow> dledger \<Rightarrow> dnode \<Rightarrow> dnode" where
  "put_ledger a L n = n\<lparr>dheap := (dheap n)(a := (dheap n a)\<lparr>dr_durability := Some L\<rparr>)\<rparr>"

text \<open>\<open>_ledger\<close>: get or create. The second component is the node with the ledger in place.\<close>

definition ledger_of :: "nat \<Rightarrow> dnode \<Rightarrow> dledger \<times> dnode" where
  "ledger_of a n = (case dr_durability (dheap n a) of
     Some L \<Rightarrow> (L, n)
   | None \<Rightarrow> (let L = new_dledger (perRoleMax n) (node_maxAttempts n) in (L, put_ledger a L n)))"

definition role_size :: "drole \<Rightarrow> nat" where
  "role_size r = (case dr_durability r of None \<Rightarrow> 0 | Some L \<Rightarrow> length (dl_map L))"

definition nodeSize :: "dnode \<Rightarrow> nat" where
  "nodeSize n = sum_list (map (\<lambda>a. role_size (dheap n a)) (droles n))"

definition on_ledger :: "(dledger \<Rightarrow> dledger) \<Rightarrow> nat \<Rightarrow> dnode \<Rightarrow> dnode" where
  "on_ledger f a n = (case dr_durability (dheap n a) of None \<Rightarrow> n | Some L \<Rightarrow> put_ledger a (f L) n)"

definition node_open :: "int \<Rightarrow> nat option \<Rightarrow> string \<Rightarrow> dnode \<Rightarrow> dnode" where
  "node_open now role msgId n = (case role of
     None \<Rightarrow> n
   | Some a \<Rightarrow>
       let n1 = snd (ledger_of a n) in
       if nodeSize n1 \<ge> nodeMax n1 then
         (let n2 = fold (on_ledger (fst \<circ> reclaimTerminal)) (droles n1) n1 in
          if nodeSize n2 \<ge> nodeMax n2 then n2
          else on_ledger (dopen now msgId (dr_topicId (dheap n2 a))) a n2)
       else on_ledger (dopen now msgId (dr_topicId (dheap n1 a))) a n1)"

text \<open>The delegations: get or create the ledger, run the operation, return its result.\<close>

definition delegate :: "(dledger \<Rightarrow> dledger \<times> 'a) \<Rightarrow> nat option \<Rightarrow> dnode \<Rightarrow> dnode \<times> 'a option" where
  "delegate f role n = (case role of
     None \<Rightarrow> (n, None)
   | Some a \<Rightarrow> (case ledger_of a n of (L, n1) \<Rightarrow> case f L of (L1, x) \<Rightarrow> (put_ledger a L1 n1, Some x)))"

definition node_record :: "int \<Rightarrow> nat option \<Rightarrow> string \<Rightarrow> int \<Rightarrow> int \<Rightarrow> dnode \<Rightarrow> dnode \<times> dstate option" where
  "node_record now role msgId v att n =
     (case delegate (drecord now msgId v att) role n of (n1, x) \<Rightarrow> (n1, Option.bind x id))"

definition node_recordOne :: "int \<Rightarrow> nat option \<Rightarrow> string \<Rightarrow> rep \<Rightarrow> dnode \<Rightarrow> dnode \<times> dstate option" where
  "node_recordOne now role msgId r n =
     (case delegate (recordOne now msgId r) role n of (n1, x) \<Rightarrow> (n1, Option.bind x id))"

definition node_recordTopic :: "int \<Rightarrow> nat option \<Rightarrow> rep \<Rightarrow> dnode \<Rightarrow> dnode \<times> rec_out option" where
  "node_recordTopic now role r n =
     delegate (recordTopic now (case role of None \<Rightarrow> 0 | Some a \<Rightarrow> dr_topicId (dheap n a)) r) role n"

definition node_noCohortConfigured :: "int \<Rightarrow> nat option \<Rightarrow> string \<Rightarrow> dnode \<Rightarrow> dnode" where
  "node_noCohortConfigured now role msgId n = fst (delegate (\<lambda>L. (noCohortConfigured now msgId L, ())) role n)"

definition node_cancel :: "int \<Rightarrow> nat option \<Rightarrow> string \<Rightarrow> dnode \<Rightarrow> dnode" where
  "node_cancel now role msgId n = fst (delegate (\<lambda>L. (dcancel now msgId L, ())) role n)"

fun find_entry :: "string \<Rightarrow> (nat \<Rightarrow> drole) \<Rightarrow> nat list \<Rightarrow> dentry option" where
  "find_entry msgId h [] = None"
| "find_entry msgId h (a # as) =
     (case Option.bind (dr_durability (h a)) (\<lambda>L. mget (dl_map L) msgId) of
        Some e \<Rightarrow> Some e | None \<Rightarrow> find_entry msgId h as)"

definition node_state :: "string \<Rightarrow> dnode \<Rightarrow> dstate option" where
  "node_state msgId n = map_option de_state (find_entry msgId (dheap n) (droles n))"

definition node_sum :: "(dledger \<Rightarrow> nat) \<Rightarrow> dnode \<Rightarrow> nat" where
  "node_sum f n = sum_list (map (\<lambda>a. case dr_durability (dheap n a) of None \<Rightarrow> 0 | Some L \<Rightarrow> f L) (droles n))"

definition node_pending :: "dnode \<Rightarrow> nat" where "node_pending n = node_sum dpending n"
definition node_undurable :: "dnode \<Rightarrow> nat" where "node_undurable n = node_sum undurable n"

definition node_clear :: "dnode \<Rightarrow> dnode" where
  "node_clear n = fold (on_ledger dclear) (droles n) n"


section \<open>Histories\<close>

text \<open>The calls of the manager and of the peer on the facade, and the roles it takes up and drops. A role is
  taken up as a new object without a ledger. \<open>EvLeave\<close> is \<open>_retireRole\<close>: the role leaves the node with its ledger, so that no sum over the
  roles and no lookup sees its obligations any more. The heap keeps the detached object, because a call in flight that holds
  it (the verdict of a replication that was under way) still addresses it.\<close>

datatype devent =
    EvOpen int "nat option" string
  | EvRecord int "nat option" string int int
  | EvRecordOne int "nat option" string rep
  | EvRecordTopic int "nat option" rep
  | EvNoCohort int "nat option" string
  | EvCancel int "nat option" string
  | EvClear
  | EvJoin nat int
  | EvLeave nat

fun call :: "devent \<Rightarrow> dnode \<Rightarrow> dnode" where
  "call (EvOpen now r k) n = node_open now r k n"
| "call (EvRecord now r k v att) n = fst (node_record now r k v att n)"
| "call (EvRecordOne now r k rp) n = fst (node_recordOne now r k rp n)"
| "call (EvRecordTopic now r rp) n = fst (node_recordTopic now r rp n)"
| "call (EvNoCohort now r k) n = node_noCohortConfigured now r k n"
| "call (EvCancel now r k) n = node_cancel now r k n"
| "call EvClear n = node_clear n"
| "call (EvJoin a t) n =
     n\<lparr>dheap := (dheap n)(a := \<lparr>dr_topicId = t, dr_durability = None\<rparr>), droles := droles n @ [a]\<rparr>"
| "call (EvLeave a) n = n\<lparr>droles := filter (\<lambda>b. b \<noteq> a) (droles n)\<rparr>"

text \<open>A new role is a new object: its address is not that of another role or of a ledger in use.\<close>

fun fresh_join :: "devent \<Rightarrow> dnode \<Rightarrow> bool" where
  "fresh_join (EvJoin a t) n = (a \<notin> set (droles n) \<and> dr_durability (dheap n a) = None)"
| "fresh_join _ n = True"

inductive dsteps :: "dnode \<Rightarrow> devent list \<Rightarrow> dnode \<Rightarrow> bool" where
  dsteps_refl: "dsteps n [] n"
| dsteps_snoc: "dsteps n es n1 \<Longrightarrow> fresh_join e n1 \<Longrightarrow> dsteps n (es @ [e]) (call e n1)"

text \<open>The role an event is addressed to, whether it opens an obligation, and whether it carries evidence
  that the message was consumed.\<close>

fun target :: "devent \<Rightarrow> nat option" where
  "target (EvOpen _ r _) = r"
| "target (EvRecord _ r _ _ _) = r"
| "target (EvRecordOne _ r _ _) = r"
| "target (EvRecordTopic _ r _) = r"
| "target (EvNoCohort _ r _) = r"
| "target (EvCancel _ r _) = r"
| "target EvClear = None"
| "target (EvJoin a _) = Some a"
| "target (EvLeave _) = None"

definition shows_consumed :: "rep \<Rightarrow> bool" where
  "shows_consumed r \<longleftrightarrow> dispatched r = JBool True \<and> snapshot r = JBool True \<and> noCohort r \<noteq> JBool True \<and>
     (\<exists>v. rep_verified r = Some v \<and> v > 0)"

fun opens :: "nat \<Rightarrow> string \<Rightarrow> devent \<Rightarrow> bool" where
  "opens a k (EvOpen _ r k') = (r = Some a \<and> k' = k)"
| "opens a k _ = False"

fun credits :: "nat \<Rightarrow> string \<Rightarrow> devent \<Rightarrow> bool" where
  "credits a k (EvRecord _ r k' v _) = (r = Some a \<and> k' = k \<and> v > 0)"
| "credits a k (EvRecordOne _ r k' rp) = (r = Some a \<and> k' = k \<and> shows_consumed rp)"
| "credits a k (EvRecordTopic _ r rp) = (r = Some a \<and> shows_consumed rp)"
| "credits a k _ = False"

definition obligation :: "dnode \<Rightarrow> nat \<Rightarrow> string \<Rightarrow> dentry option" where
  "obligation n a k = Option.bind (dr_durability (dheap n a)) (\<lambda>L. mget (dl_map L) k)"

text \<open>An obligation the node has: that of a role which is still one of its roles.\<close>

definition live_entry :: "dnode \<Rightarrow> nat \<Rightarrow> string \<Rightarrow> dentry option" where
  "live_entry n a k = (if a \<in> set (droles n) then obligation n a k else None)"

definition new_dnode :: "nat \<Rightarrow> nat \<Rightarrow> int \<Rightarrow> dnode" where
  "new_dnode mx pr ma = \<lparr>dheap = (\<lambda>_. \<lparr>dr_topicId = 0, dr_durability = None\<rparr>), droles = [],
     nodeMax = mx, perRoleMax = pr, node_maxAttempts = ma\<rparr>"

text \<open>A verdict on all messages of a role: a dispatched full snapshot, or nobody to send it to. A list of future events is
  legal when each new role in it is fresh at its time.\<close>

fun judges :: "nat \<Rightarrow> devent \<Rightarrow> bool" where
  "judges a (EvRecordTopic _ r rp) = (r = Some a \<and>
     (noCohort rp = JBool True \<or> (dispatched rp = JBool True \<and> snapshot rp = JBool True)))"
| "judges a _ = False"

fun legal :: "devent list \<Rightarrow> dnode \<Rightarrow> bool" where
  "legal [] n = True"
| "legal (e # es) n = (fresh_join e n \<and> legal es (call e n))"

end
