(* ===== verification/DurabilityLaws.thy ===== *)
theory DurabilityLaws
  imports Durability
begin

text \<open>
  Laws of the durability ledger. The locale \<open>obligation_op\<close> is the contract every operation of a
  ledger keeps: a pending obligation is never dropped, a terminal verdict never changes, \<open>verified\<close>
  needs evidence, and nothing appears that was not opened. It is interpreted on the operations of \<open>Durability\<close>; its
  lemmas lift the contract to the roles of a node, and the histories follow by induction.
\<close>

section \<open>Contract of the ledger operations\<close>

definition keeps_live :: "dentry option \<Rightarrow> dentry option \<Rightarrow> bool" where
  "keeps_live x y \<longleftrightarrow> (\<forall>e. x = Some e \<longrightarrow> de_state e = Pending \<longrightarrow>
     (\<exists>e'. y = Some e' \<and> de_topic e' = de_topic e \<and> (de_state e' = Pending \<longrightarrow> de_attempts e \<le> de_attempts e')))"

definition keeps_final :: "bool \<Rightarrow> dentry option \<Rightarrow> dentry option \<Rightarrow> bool" where
  "keeps_final opened x y \<longleftrightarrow> (\<forall>e. x = Some e \<longrightarrow> de_state e \<noteq> Pending \<longrightarrow>
     y = None \<or> y = Some e \<or> (opened \<and> (\<exists>e'. y = Some e' \<and> de_state e' = Pending)))"

definition keeps_honest :: "bool \<Rightarrow> bool \<Rightarrow> dentry option \<Rightarrow> dentry option \<Rightarrow> bool" where
  "keeps_honest opened credited x y \<longleftrightarrow>
     (\<forall>e'. y = Some e' \<longrightarrow> (x = None \<longrightarrow> opened \<and> de_state e' = Pending) \<and>
        (de_state e' = Verified \<longrightarrow> (\<exists>e. x = Some e \<and> (credited \<or> de_state e = Verified))))"

definition moves :: "bool \<Rightarrow> bool \<Rightarrow> dentry option \<Rightarrow> dentry option \<Rightarrow> bool" where
  "moves opened credited x y \<longleftrightarrow> keeps_live x y \<and> keeps_final opened x y \<and> keeps_honest opened credited x y"

lemma moves_refl [simp, intro]: "moves p q x x"
  by (auto simp: moves_def keeps_live_def keeps_final_def keeps_honest_def)

lemma moves_weaken: "moves p q x y \<Longrightarrow> (p \<Longrightarrow> p') \<Longrightarrow> (q \<Longrightarrow> q') \<Longrightarrow> moves p' q' x y"
  by (auto simp: moves_def keeps_final_def keeps_honest_def)

lemma moves_open: "de_state e = Pending \<Longrightarrow> moves True q None (Some e)"
  by (auto simp: moves_def keeps_live_def keeps_final_def keeps_honest_def)

lemma moves_settle:
  "de_state e = Pending \<Longrightarrow> de_topic e' = de_topic e \<Longrightarrow> (de_state e' = Pending \<Longrightarrow> de_attempts e \<le> de_attempts e')
    \<Longrightarrow> (de_state e' = Verified \<Longrightarrow> q) \<Longrightarrow> moves p q (Some e) (Some e')"
  by (auto simp: moves_def keeps_live_def keeps_final_def keeps_honest_def)

definition evicts :: "dentry option \<Rightarrow> dentry option \<Rightarrow> bool" where
  "evicts x y \<longleftrightarrow> y = x \<or> (y = None \<and> (\<exists>e. x = Some e \<and> de_state e \<noteq> Pending))"

lemma moves_after_evict:
  assumes "evicts x y" and "moves p q y z"
  shows "moves p q x z"
proof (cases "y = x")
  case False
  then obtain e where "y = None" "x = Some e" "de_state e \<noteq> Pending" using assms(1) unfolding evicts_def by blast
  then show ?thesis using assms(2) unfolding moves_def keeps_live_def keeps_final_def keeps_honest_def
    by (cases z) auto
qed (use assms(2) in simp)

lemma evicts_moves: "evicts x y \<Longrightarrow> moves p q x y"
  by (rule moves_after_evict) auto

definition dwf :: "dledger \<Rightarrow> bool" where
  "dwf L \<longleftrightarrow> minvar (dl_map L)"

locale obligation_op =
  fixes f :: "dledger \<Rightarrow> dledger" and opened credited :: "string \<Rightarrow> bool"
  assumes wf: "dwf L \<Longrightarrow> dwf (f L)"
    and entry: "dwf L \<Longrightarrow> moves (opened k) (credited k) (mget (dl_map L) k) (mget (dl_map (f L)) k)"
    and params: "dl_max (f L) = dl_max L \<and> dl_maxAttempts (f L) = dl_maxAttempts L"
begin

lemma pending_present:
  "dwf L \<Longrightarrow> dstate_of k L = Some Pending \<Longrightarrow> dstate_of k (f L) \<noteq> None"
  using entry [of L k] by (fastforce simp: dstate_of_def moves_def keeps_live_def)

end

section \<open>Operations on one entry\<close>

lemma dl_put_entry [simp]:
  "dl_map (put_entry k e L) = mset_key k e (dl_map L)"
  "dl_max (put_entry k e L) = dl_max L" "dl_maxAttempts (put_entry k e L) = dl_maxAttempts L"
  by (simp_all add: put_entry_def)

lemma put_entry_op:
  assumes "dwf L" "mget (dl_map L) k = Some e" "moves p q (Some e) (Some e')"
  shows "dwf (put_entry k e' L)"
    and "moves (p \<and> k' = k) (q \<and> k' = k) (mget (dl_map L) k') (mget (dl_map (put_entry k e' L)) k')"
  using assms by (auto simp: dwf_def)

lemma drecord_cases:
  obtains "fst (drecord now k v att L) = L"
  | e e' where "mget (dl_map L) k = Some e" "fst (drecord now k v att L) = put_entry k e' L"
      "moves False (v > 0) (Some e) (Some e')"
proof (cases "\<exists>e. mget (dl_map L) k = Some e \<and> de_state e = Pending")
  case True
  then obtain e where e: "mget (dl_map L) k = Some e" "de_state e = Pending" by blast
  define e1 where "e1 = e\<lparr>de_attempts := de_attempts e + 1\<rparr>"
  consider "v > 0" | "\<not> v > 0" "att = 0 \<or> de_attempts e + 1 \<ge> dl_maxAttempts L"
    | "\<not> v > 0" "\<not> (att = 0 \<or> de_attempts e + 1 \<ge> dl_maxAttempts L)" by blast
  then show ?thesis
  proof cases
    case 1
    then show ?thesis
      by (intro that(2) [of e "e\<lparr>de_state := Verified, de_at := now\<rparr>"])
         (auto simp: drecord_def e intro!: moves_settle)
  next
    case 2
    then show ?thesis
      by (intro that(2) [of e "e1\<lparr>de_state := Expired, de_at := now\<rparr>"])
         (auto simp: drecord_def e e1_def Let_def intro!: moves_settle)
  next
    case 3
    then show ?thesis
      by (intro that(2) [of e e1]) (auto simp: drecord_def e e1_def Let_def intro!: moves_settle)
  qed
next
  case False
  then show ?thesis by (intro that(1)) (auto simp: drecord_def split: option.splits)
qed

interpretation drecord: obligation_op "\<lambda>L. fst (drecord now k v att L)" "\<lambda>_. False" "\<lambda>k'. k' = k \<and> v > 0"
  for now k v att
proof
  fix L k'
  show "dl_max (fst (drecord now k v att L)) = dl_max L \<and> dl_maxAttempts (fst (drecord now k v att L)) = dl_maxAttempts L"
    by (rule drecord_cases [of now k v att L]) auto
  assume L: "dwf L"
  show "dwf (fst (drecord now k v att L))"
    by (rule drecord_cases [of now k v att L]) (use L in \<open>auto intro: put_entry_op\<close>)
  show "moves False (k' = k \<and> v > 0) (mget (dl_map L) k') (mget (dl_map (fst (drecord now k v att L))) k')"
  proof (rule drecord_cases [of now k v att L])
    fix e e' assume "mget (dl_map L) k = Some e" "fst (drecord now k v att L) = put_entry k e' L" "moves False (v > 0) (Some e) (Some e')"
    then show ?thesis using put_entry_op(2) [OF L, of k e False "v > 0" e' k'] by (simp add: conj_commute)
  qed auto
qed

text \<open>Expiry and cancellation settle a pending entry and touch nothing else.\<close>

lemma dexpire_op:
  assumes "dwf L"
  shows "dwf (dexpire now k rs L) \<and> moves p q (mget (dl_map L) k') (mget (dl_map (dexpire now k rs L)) k')"
  using assms by (auto simp: dexpire_def dwf_def split: option.splits intro: moves_settle)

lemma dcancel_op:
  assumes "dwf L"
  shows "dwf (dcancel now k L) \<and> moves p q (mget (dl_map L) k') (mget (dl_map (dcancel now k L)) k')"
  using assms by (auto simp: dcancel_def dwf_def split: option.splits intro: moves_settle)

interpretation dexpire: obligation_op "dexpire now k rs" "\<lambda>_. False" "\<lambda>_. False" for now k rs
  by unfold_locales (simp_all add: dexpire_op, simp add: dexpire_def split: option.split)

interpretation dcancel: obligation_op "dcancel now k" "\<lambda>_. False" "\<lambda>_. False" for now k
  by unfold_locales (simp_all add: dcancel_op, simp add: dcancel_def split: option.split)

section \<open>Eviction\<close>

lemma terminal_keys_iff:
  "k \<in> set (terminal_keys L) \<longleftrightarrow> (\<exists>e. (k, e) \<in> set (dl_map L) \<and> de_state e \<noteq> Pending)"
  by (force simp: terminal_keys_def)

lemma length_terminal_keys:
  "length (terminal_keys L) = length (filter (\<lambda>(k, e). de_state e \<noteq> Pending) (dl_map L))"
  by (simp add: terminal_keys_def)

lemma prune_loop_minvar: "minvar m \<Longrightarrow> minvar (prune_loop mx ks m)"
  by (induction mx ks m rule: prune_loop.induct) auto

lemma prune_loop_get:
  "mget (prune_loop mx ks m) k = mget m k \<or> (mget (prune_loop mx ks m) k = None \<and> k \<in> set ks)"
  by (induction mx ks m rule: prune_loop.induct) (auto split: if_splits)

lemma fold_mdelete_get: "mget (fold mdelete ks m) k = (if k \<in> set ks then None else mget m k)"
  by (induction ks arbitrary: m) auto

lemma fold_mdelete_minvar: "minvar m \<Longrightarrow> minvar (fold mdelete ks m)"
  by (induction ks arbitrary: m) auto

lemma terminal_key_entry:
  assumes "dwf L" and "k \<in> set (terminal_keys L)"
  shows "\<exists>e. mget (dl_map L) k = Some e \<and> de_state e \<noteq> Pending"
  using assms by (auto simp: terminal_keys_iff dwf_def minvar_get_iff)

lemma dprune_evicts: "dwf L \<Longrightarrow> evicts (mget (dl_map L) k) (mget (dl_map (dprune L)) k)"
  using prune_loop_get [of "dl_max L" "terminal_keys L" "dl_map L" k] terminal_key_entry [of L k]
  by (auto simp: dprune_def evicts_def)

lemma reclaimTerminal_evicts: "dwf L \<Longrightarrow> evicts (mget (dl_map L) k) (mget (dl_map (fst (reclaimTerminal L))) k)"
  using terminal_key_entry [of L k] by (auto simp: reclaimTerminal_def evicts_def fold_mdelete_get)

lemma dprune_wf: "dwf L \<Longrightarrow> dwf (dprune L)"
  by (simp add: dwf_def dprune_def prune_loop_minvar)

lemma reclaimTerminal_wf: "dwf L \<Longrightarrow> dwf (fst (reclaimTerminal L))"
  by (simp add: dwf_def reclaimTerminal_def fold_mdelete_minvar)

lemma dl_reclaim [simp]:
  "dl_max (fst (reclaimTerminal L)) = dl_max L" "dl_maxAttempts (fst (reclaimTerminal L)) = dl_maxAttempts L"
  by (simp_all add: reclaimTerminal_def)

lemma dl_prune [simp]: "dl_max (dprune L) = dl_max L" "dl_maxAttempts (dprune L) = dl_maxAttempts L"
  by (simp_all add: dprune_def)

interpretation reclaim: obligation_op "\<lambda>L. fst (reclaimTerminal L)" "\<lambda>_. False" "\<lambda>_. False"
  by unfold_locales (simp_all add: reclaimTerminal_wf reclaimTerminal_evicts evicts_moves)

text \<open>Pruning stops as soon as the ledger fits, and stops short of that only when every terminal entry is gone.\<close>

lemma prune_loop_full:
  assumes "minvar m" and "mx < length (prune_loop mx ks m)"
  shows "prune_loop mx ks m = fold mdelete ks m"
  using assms(2) by (induction mx ks m rule: prune_loop.induct) (auto split: if_splits)

lemma dprune_bound:
  assumes "dwf L"
  shows "length (dl_map (dprune L)) \<le> dl_max L \<or> (\<forall>(k, e) \<in> set (dl_map (dprune L)). de_state e = Pending)"
proof (cases "length (dl_map (dprune L)) \<le> dl_max L")
  case False
  then have eq: "dl_map (dprune L) = fold mdelete (terminal_keys L) (dl_map L)"
    using prune_loop_full [of "dl_map L" "dl_max L" "terminal_keys L"] assms by (auto simp: dprune_def dwf_def split: if_splits)
  have "de_state e = Pending" if "(k, e) \<in> set (dl_map (dprune L))" for k e
  proof (rule ccontr)
    have get: "mget (dl_map (dprune L)) k = Some e" using that dprune_wf [OF assms] by (simp add: dwf_def minvar_get_iff)
    assume "de_state e \<noteq> Pending"
    moreover have "(k, e) \<in> set (dl_map L)" using get eq by (auto simp: fold_mdelete_get split: if_splits dest: mget_Some_in)
    ultimately have "k \<in> set (terminal_keys L)" by (auto simp: terminal_keys_iff)
    with get show False by (simp add: eq fold_mdelete_get)
  qed
  then show ?thesis by blast
qed simp

section \<open>Opening an obligation\<close>

lemma dopen_known: "k = [] \<or> mhas (dl_map L) k \<Longrightarrow> dopen now k t L = L"
  by (simp add: dopen_def)

definition opened_entry :: "int \<Rightarrow> int \<Rightarrow> dentry" where
  "opened_entry now t = \<lparr>de_topic = t, de_state = Pending, de_attempts = 0, de_at = now, de_reason = None\<rparr>"

lemma dopen_new: "k \<noteq> [] \<Longrightarrow> mget (dl_map L) k = None \<Longrightarrow> dopen now k t L = dprune (put_entry k (opened_entry now t) L)"
  by (simp add: dopen_def put_entry_def opened_entry_def)

lemma evicts_pending: "evicts (Some e) y \<Longrightarrow> de_state e = Pending \<Longrightarrow> y = Some e"
  by (auto simp: evicts_def)

lemma dopen_get:
  assumes "dwf L" "k \<noteq> []" "mget (dl_map L) k = None"
  shows "mget (dl_map (dopen now k t L)) k = Some (opened_entry now t)"
    and "k' \<noteq> k \<Longrightarrow> evicts (mget (dl_map L) k') (mget (dl_map (dopen now k t L)) k')"
proof -
  have wf: "dwf (put_entry k (opened_entry now t) L)" using assms(1) by (simp add: dwf_def)
  note ev = dprune_evicts [OF wf, folded dopen_new [OF assms(2,3)]]
  show "mget (dl_map (dopen now k t L)) k = Some (opened_entry now t)"
    using ev [of k] by (intro evicts_pending) (auto simp: opened_entry_def)
  show "k' \<noteq> k \<Longrightarrow> evicts (mget (dl_map L) k') (mget (dl_map (dopen now k t L)) k')"
    using ev [of k'] by simp
qed

interpretation dopen: obligation_op "dopen now k t" "\<lambda>k'. k' = k" "\<lambda>_. False" for now k t
proof
  fix L k'
  show "dl_max (dopen now k t L) = dl_max L \<and> dl_maxAttempts (dopen now k t L) = dl_maxAttempts L"
    by (simp add: dopen_def)
  assume L: "dwf L"
  show "dwf (dopen now k t L)" using L by (auto simp: dopen_def dwf_def intro: dprune_wf [unfolded dwf_def])
  show "moves (k' = k) False (mget (dl_map L) k') (mget (dl_map (dopen now k t L)) k')"
  proof (cases "k = [] \<or> mhas (dl_map L) k")
    case False
    then have new: "k \<noteq> []" "mget (dl_map L) k = None" by auto
    show ?thesis
    proof (cases "k' = k")
      case True
      then show ?thesis using dopen_get(1) [OF L new] new by (auto simp: opened_entry_def intro: moves_open)
    qed (use dopen_get(2) [OF L new] in \<open>auto intro: evicts_moves\<close>)
  qed (simp add: dopen_known)
qed

section \<open>Recording a verdict\<close>

lemma noCohortAvailable_eq: "noCohortAvailable now k = dexpire now k ''no-cohort-available''"
  by (rule ext) (simp add: noCohortAvailable_def)

lemma noCohortConfigured_eq: "noCohortConfigured now k = dexpire now k ''no-replication-configured''"
  by (rule ext) (simp add: noCohortConfigured_def)

lemma recordOne_fst:
  "fst (recordOne now k r L) = (case classify r of
     NoCohort \<Rightarrow> dexpire now k ''no-cohort-available'' L
   | Evidence \<Rightarrow> fst (drecord now k (or_zero (rep_verified r)) (or_zero (rep_attempted r)) L)
   | _ \<Rightarrow> L)"
  by (simp add: recordOne_def noCohortAvailable_eq Let_def split: rep_kind.split)

lemma shows_consumed_iff: "shows_consumed r \<longleftrightarrow> classify r = Evidence \<and> or_zero (rep_verified r) > 0"
  by (auto simp: shows_consumed_def classify_def or_zero_def split: option.splits)

lemma classify_judged:
  "classify r = Evidence \<or> classify r = NoCohort \<longleftrightarrow>
    noCohort r = JBool True \<or> (dispatched r = JBool True \<and> snapshot r = JBool True)"
  by (auto simp: classify_def)

interpretation recordOne: obligation_op "\<lambda>L. fst (recordOne now k r L)" "\<lambda>_. False" "\<lambda>k'. k' = k \<and> shows_consumed r"
  for now k r
proof
  fix L k'
  show "dl_max (fst (recordOne now k r L)) = dl_max L \<and> dl_maxAttempts (fst (recordOne now k r L)) = dl_maxAttempts L"
    by (simp add: recordOne_fst dexpire.params drecord.params split: rep_kind.split)
  assume L: "dwf L"
  show "dwf (fst (recordOne now k r L))"
    using L by (simp add: recordOne_fst dexpire.wf drecord.wf split: rep_kind.split)
  show "moves False (k' = k \<and> shows_consumed r) (mget (dl_map L) k') (mget (dl_map (fst (recordOne now k r L))) k')"
    using drecord.entry [OF L, of k' k "or_zero (rep_verified r)" now "or_zero (rep_attempted r)"]
    by (auto simp: recordOne_fst shows_consumed_iff dexpire_op [OF L] split: rep_kind.split elim: moves_weaken)
qed

text \<open>The loop of \<open>recordTopic\<close> in closed form: every pending entry of the topic takes the same turn.\<close>

definition acting :: "int \<Rightarrow> dentry \<Rightarrow> bool" where
  "acting t e \<longleftrightarrow> de_state e = Pending \<and> de_topic e = t"

definition turn_entry :: "int \<Rightarrow> int \<Rightarrow> rep \<Rightarrow> int \<Rightarrow> dentry \<Rightarrow> dentry" where
  "turn_entry now t r ma e = (if \<not> acting t e then e
     else if classify r = NoCohort then e\<lparr>de_state := Expired, de_reason := Some ''no-cohort-available'', de_at := now\<rparr>
     else if or_zero (rep_verified r) > 0 then e\<lparr>de_state := Verified, de_at := now\<rparr>
     else let e1 = e\<lparr>de_attempts := de_attempts e + 1\<rparr> in
       if or_zero (rep_attempted r) = 0 \<or> de_attempts e1 \<ge> ma then e1\<lparr>de_state := Expired, de_at := now\<rparr> else e1)"

definition turned :: "dstate \<Rightarrow> int \<Rightarrow> int \<Rightarrow> rep \<Rightarrow> int \<Rightarrow> dentry list \<Rightarrow> nat" where
  "turned st now t r ma es = length (filter (\<lambda>e. acting t e \<and> de_state (turn_entry now t r ma e) = st) es)"

definition tally :: "int \<Rightarrow> int \<Rightarrow> rep \<Rightarrow> int \<Rightarrow> dentry list \<Rightarrow> rec_out \<Rightarrow> rec_out" where
  "tally now t r ma es out = out\<lparr>ro_verified := ro_verified out + turned Verified now t r ma es,
     ro_expired := ro_expired out + turned Expired now t r ma es,
     ro_pending := ro_pending out + turned Pending now t r ma es\<rparr>"

lemma tally_Nil [simp]: "tally now t r ma [] out = out"
  by (simp add: tally_def turned_def)

lemma tally_Cons: "tally now t r ma (e # es) out = tally now t r ma es (tally now t r ma [e] out)"
  by (simp add: tally_def turned_def)

lemma mset_key_mid: "k \<notin> set (mkeys pre) \<Longrightarrow> mset_key k v (pre @ (k, e) # post) = pre @ (k, v) # post"
  by (induction pre) auto

lemma mget_mid: "k \<notin> set (mkeys pre) \<Longrightarrow> mget (pre @ (k, e) # post) k = Some e"
  by (induction pre) auto

lemma topic_turn_mid:
  assumes "k \<notin> set (mkeys pre)"
  shows "topic_turn now t r k (L\<lparr>dl_map := pre @ (k, e) # post\<rparr>, out) =
    (L\<lparr>dl_map := pre @ (k, turn_entry now t r (dl_maxAttempts L) e) # post\<rparr>, tally now t r (dl_maxAttempts L) [e] out)"
proof (cases "acting t e")
  case False
  then show ?thesis by (auto simp: topic_turn_def mget_mid [OF assms] acting_def turn_entry_def tally_def turned_def simp del: map_of_append)
next
  case True
  then show ?thesis
    by (auto simp: topic_turn_def mget_mid [OF assms] acting_def turn_entry_def tally_def turned_def noCohortAvailable_eq
          dexpire_def drecord_def put_entry_def mset_key_mid [OF assms] Let_def simp del: map_of_append)
qed

lemma topic_loop:
  "minvar (pre @ post) \<Longrightarrow> fold (topic_turn now t r) (mkeys post) (L\<lparr>dl_map := pre @ post\<rparr>, out) =
    (L\<lparr>dl_map := pre @ map (\<lambda>(k, e). (k, turn_entry now t r (dl_maxAttempts L) e)) post\<rparr>,
     tally now t r (dl_maxAttempts L) (map snd post) out)"
proof (induction post arbitrary: pre out)
  case (Cons p post)
  obtain k e where p: "p = (k, e)" by (cases p)
  let ?e = "turn_entry now t r (dl_maxAttempts L) e"
  have fresh: "k \<notin> set (mkeys pre)" and inv: "minvar ((pre @ [(k, ?e)]) @ post)"
    using Cons.prems by (auto simp: p minvar_def)
  show ?case
    using Cons.IH [OF inv, of "tally now t r (dl_maxAttempts L) [e] out"] topic_turn_mid [OF fresh]
    by (simp add: p tally_Cons [of _ _ _ _ e "map snd post"])
qed simp

lemma recordTopic_closed:
  assumes "dwf L" and "classify r = Evidence \<or> classify r = NoCohort"
  shows "recordTopic now t r L =
    (L\<lparr>dl_map := map (\<lambda>(k, e). (k, turn_entry now t r (dl_maxAttempts L) e)) (dl_map L)\<rparr>,
     tally now t r (dl_maxAttempts L) (map snd (dl_map L))
       \<lparr>ro_verified = 0, ro_expired = 0, ro_pending = 0, ro_kind = classify r\<rparr>)"
  using topic_loop [of "[]" "dl_map L" now t r L] assms by (auto simp: recordTopic_def Let_def dwf_def)

lemma recordTopic_idle:
  "classify r = NoDispatch \<or> classify r = NoSnapshot \<Longrightarrow> fst (recordTopic now t r L) = L"
  by (auto simp: recordTopic_def)

lemma topic_turn_params:
  "dl_max (fst (topic_turn now t r k s)) = dl_max (fst s) \<and> dl_maxAttempts (fst (topic_turn now t r k s)) = dl_maxAttempts (fst s)"
  using drecord.params [of now k "or_zero (rep_verified r)" "or_zero (rep_attempted r)" "fst s"]
  by (cases s) (auto simp: topic_turn_def noCohortAvailable_eq dexpire.params split: option.split prod.split)

lemma topic_fold_params:
  "dl_max (fst (fold (topic_turn now t r) ks s)) = dl_max (fst s) \<and>
   dl_maxAttempts (fst (fold (topic_turn now t r) ks s)) = dl_maxAttempts (fst s)"
  by (induction ks arbitrary: s) (simp_all add: topic_turn_params)

lemma recordTopic_params:
  "dl_max (fst (recordTopic now t r L)) = dl_max L \<and> dl_maxAttempts (fst (recordTopic now t r L)) = dl_maxAttempts L"
  by (simp add: recordTopic_def Let_def topic_fold_params)

lemma turn_moves: "moves False (classify r \<noteq> NoCohort \<and> or_zero (rep_verified r) > 0) (Some e) (Some (turn_entry now t r ma e))"
  by (auto simp: turn_entry_def acting_def Let_def intro: moves_settle)

lemma mget_map: "mget (map (\<lambda>(k, v). (k, f v)) m) k = map_option f (mget m k)"
  by (simp add: map_of_map)

interpretation recordTopic: obligation_op "\<lambda>L. fst (recordTopic now t r L)" "\<lambda>_. False" "\<lambda>_. shows_consumed r"
  for now t r
proof
  fix L k
  have idle: "classify r = NoDispatch \<or> classify r = NoSnapshot" if "\<not> (classify r = Evidence \<or> classify r = NoCohort)"
    using that by (cases "classify r") auto
  show "dl_max (fst (recordTopic now t r L)) = dl_max L \<and> dl_maxAttempts (fst (recordTopic now t r L)) = dl_maxAttempts L"
    by (rule recordTopic_params)
  assume L: "dwf L"
  show "dwf (fst (recordTopic now t r L))"
    using recordTopic_idle [OF idle] recordTopic_closed [OF L] L
    by (cases "classify r = Evidence \<or> classify r = NoCohort") (auto simp: dwf_def)
  show "moves False (shows_consumed r) (mget (dl_map L) k) (mget (dl_map (fst (recordTopic now t r L))) k)"
  proof (cases "classify r = Evidence \<or> classify r = NoCohort")
    case True
    then show ?thesis unfolding recordTopic_closed [OF L True] 
      using turn_moves [of r _ now t "dl_maxAttempts L"]
      by (cases "mget (dl_map L) k") (auto simp: mget_map shows_consumed_iff elim: moves_weaken)
  qed (use recordTopic_idle [OF idle] in auto)
qed

section \<open>Lifting the contract to the roles of a node\<close>

definition nwf :: "dnode \<Rightarrow> bool" where
  "nwf n \<longleftrightarrow> distinct (droles n) \<and> (\<forall>a L. dr_durability (dheap n a) = Some L \<longrightarrow>
     dwf L \<and> dl_max L = perRoleMax n \<and> dl_maxAttempts L = node_maxAttempts n)"

lemma nwfD:
  assumes "nwf n" and "dr_durability (dheap n a) = Some L"
  shows "dwf L" "dl_max L = perRoleMax n" "dl_maxAttempts L = node_maxAttempts n"
  using assms by (auto simp: nwf_def)

lemma put_ledger_sel [simp]:
  "droles (put_ledger a L n) = droles n" "nodeMax (put_ledger a L n) = nodeMax n"
  "perRoleMax (put_ledger a L n) = perRoleMax n" "node_maxAttempts (put_ledger a L n) = node_maxAttempts n"
  "dr_topicId (dheap (put_ledger a L n) b) = dr_topicId (dheap n b)"
  "dr_durability (dheap (put_ledger a L n) b) = (if b = a then Some L else dr_durability (dheap n b))"
  by (auto simp: put_ledger_def)

lemma nwf_put_ledger:
  "nwf n \<Longrightarrow> dwf L \<Longrightarrow> dl_max L = perRoleMax n \<Longrightarrow> dl_maxAttempts L = node_maxAttempts n \<Longrightarrow> nwf (put_ledger a L n)"
  by (auto simp: nwf_def)

lemma dwf_new [simp]: "dwf (new_dledger mx ma)"
  by (simp add: dwf_def new_dledger_def)

lemma ledger_of_wf:
  assumes "nwf n"
  shows "nwf (snd (ledger_of a n))" "dwf (fst (ledger_of a n))"
    "dl_max (fst (ledger_of a n)) = perRoleMax n" "dl_maxAttempts (fst (ledger_of a n)) = node_maxAttempts n"
  using assms nwfD [OF assms, of a]
  by (auto simp: ledger_of_def Let_def new_dledger_def dwf_def split: option.split intro!: nwf_put_ledger)

lemma ledger_of_sel [simp]:
  "droles (snd (ledger_of a n)) = droles n" "nodeMax (snd (ledger_of a n)) = nodeMax n"
  "perRoleMax (snd (ledger_of a n)) = perRoleMax n" "node_maxAttempts (snd (ledger_of a n)) = node_maxAttempts n"
  "dr_topicId (dheap (snd (ledger_of a n)) b) = dr_topicId (dheap n b)"
  by (simp_all add: ledger_of_def Let_def split: option.split)

lemma ledger_of_entry [simp]: "mget (dl_map (fst (ledger_of a n))) k = obligation n a k"
  by (simp add: ledger_of_def Let_def obligation_def new_dledger_def split: option.split)

lemma obligation_put [simp]: "obligation (put_ledger b L n) a k = (if a = b then mget (dl_map L) k else obligation n a k)"
  by (simp add: obligation_def)

lemma obligation_ledger_of [simp]: "obligation (snd (ledger_of b n)) a k = obligation n a k"
  by (simp add: ledger_of_def Let_def obligation_def new_dledger_def split: option.split)

lemma role_size_put [simp]:
  "role_size (dheap (put_ledger b L n) a) = (if a = b then length (dl_map L) else role_size (dheap n a))"
  by (simp add: role_size_def)

lemma role_size_ledger_of [simp]:
  "role_size (dheap (snd (ledger_of b n)) a) = role_size (dheap n a)"
  "length (dl_map (fst (ledger_of a n))) = role_size (dheap n a)"
  by (simp_all add: ledger_of_def Let_def role_size_def new_dledger_def split: option.split)

lemma nodeSize_mono:
  assumes "droles n' = droles n" and "\<And>a. role_size (dheap n' a) \<le> role_size (dheap n a)"
  shows "nodeSize n' \<le> nodeSize n"
  unfolding nodeSize_def assms(1) by (rule sum_list_mono) (simp add: assms(2))

definition same_node :: "dnode \<Rightarrow> dnode \<Rightarrow> bool" where
  "same_node n n' \<longleftrightarrow> droles n' = droles n \<and> nodeMax n' = nodeMax n \<and> perRoleMax n' = perRoleMax n \<and>
     node_maxAttempts n' = node_maxAttempts n"

lemma delegate_fst: "fst (delegate h (Some a) n) = put_ledger a (fst (h (fst (ledger_of a n)))) (snd (ledger_of a n))"
  by (cases "ledger_of a n"; cases "h (fst (ledger_of a n))") (simp add: delegate_def)

context obligation_op
begin

lemma delegate_node:
  assumes h: "\<And>L. fst (h L) = f L" and n: "nwf n"
  shows "nwf (fst (delegate h role n)) \<and> same_node n (fst (delegate h role n))"
proof (cases role)
  case (Some a)
  obtain L n1 where L: "ledger_of a n = (L, n1)" by fastforce
  note w = ledger_of_wf [OF n, of a, unfolded L, simplified] and s = ledger_of_sel [of a n, unfolded L, simplified]
  have "fst (delegate h role n) = put_ledger a (f L) n1"
    by (simp add: delegate_fst Some L h)
  then show ?thesis using w s wf [of L] params [of L] by (auto simp: same_node_def intro!: nwf_put_ledger)
qed (use n in \<open>simp add: delegate_def same_node_def\<close>)

lemma delegate_entry:
  assumes h: "\<And>L. fst (h L) = f L" and n: "nwf n"
  shows "moves (role = Some a \<and> opened k) (role = Some a \<and> credited k)
      (obligation n a k) (obligation (fst (delegate h role n)) a k)"
    and "role \<noteq> Some a \<Longrightarrow> obligation (fst (delegate h role n)) a k = obligation n a k"
proof -
  have "moves (role = Some a \<and> opened k) (role = Some a \<and> credited k)
      (obligation n a k) (obligation (fst (delegate h role n)) a k) \<and>
    (role \<noteq> Some a \<longrightarrow> obligation (fst (delegate h role n)) a k = obligation n a k)"
  proof (cases role)
    case (Some b)
    obtain L n1 where L: "ledger_of b n = (L, n1)" by fastforce
    have eq: "fst (delegate h role n) = put_ledger b (f L) n1"
      by (simp add: delegate_fst Some L h)
    have ob: "obligation n1 a k = obligation n a k" "mget (dl_map L) k = obligation n b k"
      using obligation_ledger_of [of b n a k] ledger_of_entry [of b n k] by (simp_all add: L)
    have "dwf L" using ledger_of_wf(2) [OF n, of b] by (simp add: L)
    from entry [OF this, of k] show ?thesis by (auto simp: eq [unfolded Some] Some ob)
  qed (simp add: delegate_def)
  then show "moves (role = Some a \<and> opened k) (role = Some a \<and> credited k)
      (obligation n a k) (obligation (fst (delegate h role n)) a k)"
    and "role \<noteq> Some a \<Longrightarrow> obligation (fst (delegate h role n)) a k = obligation n a k" by blast+
qed

lemma no_growth:
  assumes L: "dwf L" and ks: "\<And>k. opened k \<Longrightarrow> k \<in> K" and fin: "finite K"
  shows "length (dl_map (f L)) \<le> length (dl_map L) + card K"
proof -
  have "dom (mget (dl_map (f L))) \<subseteq> dom (mget (dl_map L)) \<union> K"
    using entry [OF L] ks by (fastforce simp: moves_def keeps_honest_def)
  then have "card (dom (mget (dl_map (f L)))) \<le> card (dom (mget (dl_map L)) \<union> K)"
    using fin by (intro card_mono) (auto simp: finite_dom_map_of)
  also have "\<dots> \<le> card (dom (mget (dl_map L))) + card K" by (rule card_Un_le)
  finally show ?thesis using L wf [OF L] by (simp add: dwf_def minvar_card)
qed

lemma delegate_size:
  assumes h: "\<And>L. fst (h L) = f L" and n: "nwf n" and closed: "\<And>k. \<not> opened k"
  shows "nodeSize (fst (delegate h role n)) \<le> nodeSize n"
proof (rule nodeSize_mono)
  show "droles (fst (delegate h role n)) = droles n" using delegate_node [OF h n] by (simp add: same_node_def)
  fix a
  show "role_size (dheap (fst (delegate h role n)) a) \<le> role_size (dheap n a)"
  proof (cases role)
    case (Some b)
    obtain L n1 where L: "ledger_of b n = (L, n1)" by fastforce
    have eq: "fst (delegate h role n) = put_ledger b (f L) n1"
      by (simp add: delegate_fst Some L h)
    have "dwf L" using ledger_of_wf(2) [OF n, of b] by (simp add: L)
    from no_growth [OF this, of "{}"] closed show ?thesis
      using role_size_ledger_of(1) [of b n a] role_size_ledger_of(2) [of b n] by (simp add: eq L)
  qed (simp add: delegate_def)
qed

end

section \<open>Admission under the node budget\<close>

lemma on_ledger_sel [simp]:
  "droles (on_ledger f a n) = droles n" "nodeMax (on_ledger f a n) = nodeMax n"
  "perRoleMax (on_ledger f a n) = perRoleMax n" "node_maxAttempts (on_ledger f a n) = node_maxAttempts n"
  "dr_topicId (dheap (on_ledger f a n) b) = dr_topicId (dheap n b)"
  by (simp_all add: on_ledger_def split: option.split)

lemma obligation_on_ledger:
  "obligation (on_ledger f b n) a k = (if a = b \<and> dr_durability (dheap n b) \<noteq> None
     then mget (dl_map (f (the (dr_durability (dheap n b))))) k else obligation n a k)"
  by (auto simp: on_ledger_def split: option.split)

lemma role_size_on_ledger:
  "role_size (dheap (on_ledger f b n) a) = (if a = b \<and> dr_durability (dheap n b) \<noteq> None
     then length (dl_map (f (the (dr_durability (dheap n b))))) else role_size (dheap n a))"
  by (auto simp: on_ledger_def split: option.split)

lemma obligation_ledger: "dr_durability (dheap n a) = Some L \<Longrightarrow> obligation n a k = mget (dl_map L) k"
  by (simp add: obligation_def)

lemma role_size_ledger: "dr_durability r = Some L \<Longrightarrow> role_size r = length (dl_map L)"
  by (simp add: role_size_def)

lemma nwf_on_ledger:
  assumes "nwf n" and "\<And>L. dwf L \<Longrightarrow> dwf (f L)" and "\<And>L. dl_max (f L) = dl_max L \<and> dl_maxAttempts (f L) = dl_maxAttempts L"
  shows "nwf (on_ledger f a n)"
  using assms nwfD [OF assms(1), of a] by (auto simp: on_ledger_def split: option.split intro!: nwf_put_ledger)

lemma evicts_refl [simp]: "evicts x x"
  by (simp add: evicts_def)

lemma evicts_trans: "evicts x y \<Longrightarrow> evicts y z \<Longrightarrow> evicts x z"
  by (auto simp: evicts_def)

lemma reclaim_size: "dwf L \<Longrightarrow> length (dl_map (fst (reclaimTerminal L))) \<le> length (dl_map L)"
  using reclaim.no_growth [of L "{}"] by simp

text \<open>What a sweep over the roles does: it keeps the node, only evicts, and does not grow.\<close>

definition shrinks :: "dnode \<Rightarrow> dnode \<Rightarrow> bool" where
  "shrinks n n' \<longleftrightarrow> nwf n' \<and> same_node n n' \<and> (\<forall>a k. evicts (obligation n a k) (obligation n' a k)) \<and>
     (\<forall>a. role_size (dheap n' a) \<le> role_size (dheap n a)) \<and>
     (\<forall>a. dr_durability (dheap n a) \<noteq> None \<longrightarrow> dr_durability (dheap n' a) \<noteq> None)"

lemma shrinks_trans: "shrinks n n1 \<Longrightarrow> shrinks n1 n2 \<Longrightarrow> shrinks n n2"
  unfolding shrinks_def same_node_def by (metis evicts_trans order_trans)

lemma reclaim_role_shrinks:
  assumes "nwf n"
  shows "shrinks n (on_ledger (fst \<circ> reclaimTerminal) a n)"
proof -
  have "nwf (on_ledger (fst \<circ> reclaimTerminal) a n)"
    by (rule nwf_on_ledger [OF assms]) (simp_all add: reclaimTerminal_wf)
  moreover have "dr_durability (dheap n b) \<noteq> None \<Longrightarrow> dr_durability (dheap (on_ledger (fst \<circ> reclaimTerminal) a n) b) \<noteq> None" for b
    by (simp add: on_ledger_def split: option.split)
  ultimately show ?thesis using nwfD(1) [OF assms, of a] reclaimTerminal_evicts reclaim_size
    by (auto simp: shrinks_def same_node_def obligation_on_ledger role_size_on_ledger obligation_ledger role_size_ledger)
qed

lemma reclaim_all_shrinks: "nwf n \<Longrightarrow> shrinks n (fold (on_ledger (fst \<circ> reclaimTerminal)) as n)"
proof (induction as arbitrary: n)
  case Nil
  then show ?case by (simp add: shrinks_def same_node_def)
next
  case (Cons a as)
  note s = reclaim_role_shrinks [OF Cons.prems, of a]
  then have "nwf (on_ledger (fst \<circ> reclaimTerminal) a n)" by (simp add: shrinks_def)
  from shrinks_trans [OF s Cons.IH [OF this]] show ?case by (simp only: fold_simps)
qed

lemma ledger_of_shrinks: "nwf n \<Longrightarrow> shrinks n (snd (ledger_of a n))"
  unfolding shrinks_def same_node_def
  by (auto simp: ledger_of_wf) (auto simp: ledger_of_def Let_def split: option.split)

lemma ledger_of_present [simp]: "dr_durability (dheap (snd (ledger_of a n)) a) \<noteq> None"
  by (simp add: ledger_of_def Let_def split: option.split)

text \<open>An admission prepares the node and then either refuses, with the budget used up, or opens.\<close>

lemma node_open_cases:
  assumes "nwf n"
  obtains n' where "shrinks n n'" "nodeSize n' \<ge> nodeMax n'" "node_open now (Some a) k n = n'"
  | n' where "shrinks n n'" "nodeSize n' < nodeMax n'" "dr_durability (dheap n' a) \<noteq> None"
      "node_open now (Some a) k n = on_ledger (dopen now k (dr_topicId (dheap n' a))) a n'"
proof -
  define n1 where "n1 = snd (ledger_of a n)"
  define n2 where "n2 = fold (on_ledger (fst \<circ> reclaimTerminal)) (droles n1) n1"
  have s1: "shrinks n n1" unfolding n1_def by (rule ledger_of_shrinks [OF assms])
  then have s2: "shrinks n1 n2" unfolding n2_def by (intro reclaim_all_shrinks) (simp add: shrinks_def)
  have p1: "dr_durability (dheap n1 a) \<noteq> None" by (simp add: n1_def)
  then have p2: "dr_durability (dheap n2 a) \<noteq> None" using s2 by (simp add: shrinks_def)
  have eq: "node_open now (Some a) k n = (if nodeSize n1 \<ge> nodeMax n1 then (if nodeSize n2 \<ge> nodeMax n2 then n2
      else on_ledger (dopen now k (dr_topicId (dheap n2 a))) a n2) else on_ledger (dopen now k (dr_topicId (dheap n1 a))) a n1)"
    by (simp add: node_open_def n1_def n2_def Let_def)
  consider "nodeSize n1 < nodeMax n1" | "\<not> nodeSize n1 < nodeMax n1" "nodeSize n2 < nodeMax n2"
    | "\<not> nodeSize n1 < nodeMax n1" "\<not> nodeSize n2 < nodeMax n2" by blast
  then show thesis
    by cases (use that(2) [OF s1 _ p1] that(2) [OF shrinks_trans [OF s1 s2] _ p2] that(1) [OF shrinks_trans [OF s1 s2]] in
      \<open>auto simp: eq\<close>)
qed

lemma node_open_keeps:
  assumes "nwf n"
  shows "nwf (node_open now (Some b) k n)" "same_node n (node_open now (Some b) k n)"
  by (rule node_open_cases [OF assms, of now b k];
      auto simp: shrinks_def same_node_def dopen.wf dopen.params intro: nwf_on_ledger)+

lemma node_open_entry:
  assumes "nwf n"
  shows "moves (a = b \<and> k' = k) False (obligation n a k') (obligation (node_open now (Some b) k n) a k')"
    and "a \<noteq> b \<Longrightarrow> evicts (obligation n a k') (obligation (node_open now (Some b) k n) a k')"
proof -
  have "moves (a = b \<and> k' = k) False (obligation n a k') (obligation (node_open now (Some b) k n) a k') \<and>
    (a \<noteq> b \<longrightarrow> evicts (obligation n a k') (obligation (node_open now (Some b) k n) a k'))"
  proof (rule node_open_cases [OF assms, of now b k])
    fix n' assume "shrinks n n'" "node_open now (Some b) k n = n'"
    then show ?thesis by (auto simp: shrinks_def intro: evicts_moves)
  next
    fix n' assume s: "shrinks n n'" and p: "dr_durability (dheap n' b) \<noteq> None"
      and eq: "node_open now (Some b) k n = on_ledger (dopen now k (dr_topicId (dheap n' b))) b n'"
    have ev: "evicts (obligation n a k') (obligation n' a k')" using s by (simp add: shrinks_def)
    show ?thesis
    proof (cases "a = b")
      case True
      obtain L where L: "dr_durability (dheap n' b) = Some L" "dwf L"
        using p s nwfD(1) [of n' b] by (auto simp: shrinks_def)
      have "moves (k' = k) False (obligation n' a k') (obligation (node_open now (Some b) k n) a k')"
        using dopen.entry [OF L(2), of k' k now] by (simp add: eq obligation_on_ledger True L obligation_ledger)
      then show ?thesis using moves_after_evict [OF ev] by (simp add: True)
    qed (use ev in \<open>simp add: eq obligation_on_ledger evicts_moves\<close>)
  qed
  then show "moves (a = b \<and> k' = k) False (obligation n a k') (obligation (node_open now (Some b) k n) a k')"
    and "a \<noteq> b \<Longrightarrow> evicts (obligation n a k') (obligation (node_open now (Some b) k n) a k')" by blast+
qed

end
