(* ===== verification/DurabilityRuns.thy ===== *)
theory DurabilityRuns
  imports DurabilityLaws
begin

text \<open>
  Histories of a node's durability obligations: what one event does to an obligation of a role, by the
  interpretations of \<open>obligation_op\<close>, and what follows for every sequence of events.
\<close>

text \<open>Sample histories for the witnesses: a full snapshot consumed by one replica, one that none consumed, and
  a node of two roles with room for two entries.\<close>

definition good_rep :: rep where
  "good_rep = \<lparr>noCohort = Undefined, dispatched = JBool True, snapshot = JBool True, rep_verified = Some 1, rep_attempted = Some 2\<rparr>"

definition bad_rep :: rep where
  "bad_rep = \<lparr>noCohort = JBool False, dispatched = JBool True, snapshot = JBool True, rep_verified = None, rep_attempted = Some 2\<rparr>"

definition sample_opened :: "devent list" where
  "sample_opened = [EvJoin 0 5, EvJoin 1 6, EvOpen 10 (Some 0) ''m'', EvOpen 11 (Some 1) ''m'']"

definition sample_node :: dnode where "sample_node = new_dnode 2 2 2"

section \<open>One event\<close>

lemma fst_node_calls:
  "fst (node_record now role k v att n) = fst (delegate (drecord now k v att) role n)"
  "fst (node_recordOne now role k r n) = fst (delegate (recordOne now k r) role n)"
  by (simp_all add: node_record_def node_recordOne_def split: prod.split)

lemma clear_wf: "dwf (dclear L)" "dl_max (dclear L) = dl_max L" "dl_maxAttempts (dclear L) = dl_maxAttempts L"
  by (simp_all add: dclear_def dwf_def)

lemma clear_fold:
  assumes "nwf n"
  shows "nwf (fold (on_ledger dclear) as n) \<and> same_node n (fold (on_ledger dclear) as n) \<and>
    (obligation (fold (on_ledger dclear) as n) a k = obligation n a k \<or> obligation (fold (on_ledger dclear) as n) a k = None) \<and>
    (\<forall>a. role_size (dheap (fold (on_ledger dclear) as n) a) \<le> role_size (dheap n a))"
  using assms
proof (induction as arbitrary: n)
  case (Cons b as)
  have wf: "nwf (on_ledger dclear b n)" by (rule nwf_on_ledger [OF Cons.prems]) (simp_all add: clear_wf)
  have one: "obligation (on_ledger dclear b n) a k = obligation n a k \<or> obligation (on_ledger dclear b n) a k = None"
    "role_size (dheap (on_ledger dclear b n) a') \<le> role_size (dheap n a')" for a'
    by (auto simp: obligation_on_ledger role_size_on_ledger dclear_def)
  show ?case using Cons.IH [OF wf] one
    by (auto simp: same_node_def) (meson order_trans)+
qed (simp add: same_node_def)

lemmas delegate_keeps = drecord.delegate_node [OF refl] recordOne.delegate_node [OF refl] recordTopic.delegate_node [OF refl]
  dexpire.delegate_node [OF fst_conv] dcancel.delegate_node [OF fst_conv]

lemmas delegate_others = drecord.delegate_entry(2) [OF refl] recordOne.delegate_entry(2) [OF refl]
  recordTopic.delegate_entry(2) [OF refl] dexpire.delegate_entry(2) [OF fst_conv] dcancel.delegate_entry(2) [OF fst_conv]

lemmas call_defs = fst_node_calls node_recordTopic_def node_noCohortConfigured_def node_cancel_def noCohortConfigured_eq

lemma node_open_None [simp]: "node_open now None k n = n"
  by (simp add: node_open_def)

lemma call_keeps:
  assumes n: "nwf n" and j: "fresh_join e n"
  shows "nwf (call e n)"
proof (cases e)
  case (EvOpen now r k)
  then show ?thesis using node_open_keeps(1) [OF n] n by (cases r) auto
next
  case (EvClear)
  then show ?thesis using clear_fold [OF n] by (simp add: node_clear_def)
next
  case (EvJoin a t)
  then show ?thesis using n j by (auto simp: nwf_def)
next
  case (EvLeave a)
  then show ?thesis using n by (auto simp: nwf_def)
qed (use n in \<open>simp_all add: call_defs delegate_keeps\<close>)

lemma obligation_frame [simp]:
  "obligation (n\<lparr>droles := rs\<rparr>) a k = obligation n a k"
  "obligation (n\<lparr>dheap := (dheap n)(b := \<lparr>dr_topicId = t, dr_durability = None\<rparr>)\<rparr>) a k =
     (if a = b then None else obligation n a k)"
  by (simp_all add: obligation_def)

lemma call_moves:
  assumes n: "nwf n" and j: "fresh_join e n" and c: "e \<noteq> EvClear"
  shows "moves (opens a k e) (credits a k e) (obligation n a k) (obligation (call e n) a k)"
proof (cases e)
  case (EvOpen now r k')
  then show ?thesis
    by (cases r) (auto intro: moves_weaken [OF node_open_entry(1) [OF n]])
next
  case (EvRecord now r k' v att)
  then show ?thesis using drecord.delegate_entry(1) [OF refl n, of r a k k' v now att]
    by (auto simp: call_defs elim: moves_weaken)
next
  case (EvRecordOne now r k' rp)
  then show ?thesis using recordOne.delegate_entry(1) [OF refl n, of r a k k' rp now]
    by (auto simp: call_defs elim: moves_weaken)
next
  case (EvRecordTopic now r rp)
  then show ?thesis by (auto simp: call_defs intro: moves_weaken [OF recordTopic.delegate_entry(1) [OF refl n]])
next
  case (EvNoCohort now r k')
  then show ?thesis using dexpire.delegate_entry(1) [OF fst_conv n, of r a k now k' "''no-replication-configured''"]
    by (auto simp: call_defs elim: moves_weaken)
next
  case (EvCancel now r k')
  then show ?thesis using dcancel.delegate_entry(1) [OF fst_conv n, of r a k now k']
    by (auto simp: call_defs elim: moves_weaken)
next
  case (EvJoin b t)
  then show ?thesis using j by (auto simp: obligation_def)
qed (use c in auto)

lemma call_other:
  assumes n: "nwf n" and c: "e \<noteq> EvClear" and other: "target e \<noteq> Some a"
  shows "evicts (obligation n a k) (obligation (call e n) a k)"
proof (cases e)
  case (EvOpen now r k')
  then show ?thesis using node_open_entry(2) [OF n, of a _ k now k'] other
    by (cases r) auto
qed (use c other n in \<open>simp_all add: call_defs delegate_others\<close>)

section \<open>Histories\<close>

lemma dsteps_append: "legal es n \<Longrightarrow> dsteps n0 xs n \<Longrightarrow> dsteps n0 (xs @ es) (fold call es n)"
proof (induction es arbitrary: xs n)
  case (Cons e es)
  then show ?case using Cons.IH [of "call e n" "xs @ [e]"] dsteps_snoc [of n0 xs n e] by simp
qed simp

lemma dsteps_fold: "legal es n \<Longrightarrow> dsteps n es (fold call es n)"
  using dsteps_append [of es n n "[]"] dsteps_refl by simp

lemma dsteps_nwf: "dsteps n es n' \<Longrightarrow> nwf n \<Longrightarrow> nwf n'"
  by (induction rule: dsteps.induct) (auto intro: call_keeps)

lemma nwf_new: "nwf (new_dnode mx pr ma)"
  by (simp add: nwf_def new_dnode_def)

lemma obligation_new [simp]: "obligation (new_dnode mx pr ma) a k = None"
  by (simp add: obligation_def new_dnode_def)

text \<open>An obligation stems from an opening, a verified one from evidence that came after it.\<close>

definition opened_before :: "devent list \<Rightarrow> nat \<Rightarrow> string \<Rightarrow> bool" where
  "opened_before es a k \<longleftrightarrow> (\<exists>e \<in> set es. opens a k e)"

definition proved_before :: "devent list \<Rightarrow> nat \<Rightarrow> string \<Rightarrow> bool" where
  "proved_before es a k \<longleftrightarrow> (\<exists>xs e ys. es = xs @ e # ys \<and> opened_before xs a k \<and> credits a k e)"

lemma opened_before_snoc: "opened_before (es @ [e]) a k \<longleftrightarrow> opened_before es a k \<or> opens a k e"
  by (auto simp: opened_before_def)

lemma proved_before_snoc:
  "proved_before es a k \<or> (opened_before es a k \<and> credits a k e) \<Longrightarrow> proved_before (es @ [e]) a k"
proof (elim disjE conjE)
  assume "proved_before es a k"
  then obtain xs d ys where "es = xs @ d # ys" "opened_before xs a k" "credits a k d" by (auto simp: proved_before_def)
  then show ?thesis unfolding proved_before_def by (intro exI [of _ xs] exI [of _ d] exI [of _ "ys @ [e]"]) simp
next
  assume "opened_before es a k" "credits a k e"
  then show ?thesis unfolding proved_before_def by (intro exI [of _ es] exI [of _ e] exI [of _ "[]"]) simp
qed

definition justified :: "devent list \<Rightarrow> nat \<Rightarrow> string \<Rightarrow> dentry option \<Rightarrow> bool" where
  "justified es a k x \<longleftrightarrow> (\<forall>e. x = Some e \<longrightarrow> opened_before es a k \<and> (de_state e = Verified \<longrightarrow> proved_before es a k))"

lemma justified_step:
  assumes "justified es a k x" and "moves (opens a k e) (credits a k e) x y"
  shows "justified (es @ [e]) a k y"
  using assms unfolding justified_def moves_def keeps_honest_def
  by (auto simp: opened_before_snoc intro: proved_before_snoc)

lemma justified_extend: "justified es a k x \<Longrightarrow> y = x \<or> y = None \<Longrightarrow> justified (es @ [e]) a k y"
  by (auto simp: justified_def opened_before_snoc intro: proved_before_snoc)

lemma call_justified:
  assumes "nwf n" "fresh_join e n" "justified es a k (obligation n a k)"
  shows "justified (es @ [e]) a k (obligation (call e n) a k)"
proof (cases "e = EvClear")
  case True
  then show ?thesis using clear_fold [OF assms(1), of "droles n" a k] assms(3)
    by (intro justified_extend) (auto simp: node_clear_def)
next
  case False
  show ?thesis by (rule justified_step [OF assms(3) call_moves [OF assms(1,2) False]])
qed

lemma dsteps_justified:
  "dsteps n es n' \<Longrightarrow> nwf n \<Longrightarrow> justified [] a k (obligation n a k) \<Longrightarrow> justified es a k (obligation n' a k)"
  by (induction rule: dsteps.induct) (auto intro: call_justified dsteps_nwf)

text \<open>C5. In every history of a node, an obligation is \<open>verified\<close> only if the history contains, after the message was opened at that
  role, a verdict for that role about a dispatched full snapshot (or for that message) with a positive count
  of replicas that consumed it. Deferrals, keepalives, missing flags, verdicts of other topics and local delivery
  never verify a message.\<close>

theorem verified_needs_evidence:
  assumes "dsteps (new_dnode mx pr ma) es n" and "obligation n a k = Some e" and "de_state e = Verified"
  shows "\<exists>xs d ys. es = xs @ d # ys \<and> (\<exists>o1 \<in> set xs. opens a k o1) \<and> credits a k d"
proof -
  have "justified es a k (obligation n a k)"
    by (rule dsteps_justified [OF assms(1) nwf_new]) (simp add: justified_def)
  then show ?thesis using assms(2,3) by (auto simp: justified_def proved_before_def opened_before_def)
qed

theorem verified_needs_evidence_witness:
  "\<exists>xs d ys. sample_opened @ [EvRecordTopic 20 (Some 0) good_rep] = xs @ d # ys \<and> (\<exists>o1 \<in> set xs. opens 0 ''m'' o1) \<and> credits 0 ''m'' d"
  by (rule verified_needs_evidence [OF dsteps_fold [of _ "new_dnode 2 2 2"], of _ _ _
        "\<lparr>de_topic = 5, de_state = Verified, de_attempts = 0, de_at = 20, de_reason = None\<rparr>"]) code_simp+

text \<open>The obligations of the node are those of the roles it has: a role that has been retired takes its ledger with it.\<close>

lemma call_droles:
  assumes "nwf n"
  shows "droles (call e n) = (case e of EvJoin a t \<Rightarrow> droles n @ [a] | EvLeave a \<Rightarrow> filter (\<lambda>b. b \<noteq> a) (droles n) | _ \<Rightarrow> droles n)"
proof (cases e)
  case (EvOpen now r k)
  then show ?thesis using node_open_keeps(2) [OF assms] by (cases r) (auto simp: same_node_def)
next
  case EvClear
  then show ?thesis using clear_fold [OF assms] by (simp add: node_clear_def same_node_def)
qed (simp_all add: call_defs delegate_keeps [OF assms, unfolded same_node_def])

lemma call_keeps_role:
  assumes "nwf n" and "a \<in> set (droles n)" and "e \<noteq> EvLeave a"
  shows "a \<in> set (droles (call e n))"
  using assms by (auto simp: call_droles split: devent.split)

lemma sum_list_without:
  fixes f :: "'a \<Rightarrow> nat"
  shows "a \<in> set xs \<Longrightarrow> sum_list (map f (filter (\<lambda>b. b \<noteq> a) xs)) + f a \<le> sum_list (map f xs)"
proof (induction xs)
  case (Cons x xs)
  have le: "sum_list (map f (filter P xs)) \<le> sum_list (map f xs)" for P by (induction xs) auto
  show ?case using Cons le [of "\<lambda>b. b \<noteq> a"] by (cases "x = a"; cases "a \<in> set xs") auto
qed simp

lemma dpending_pos: "mget (dl_map L) k = Some e \<Longrightarrow> de_state e = Pending \<Longrightarrow> 0 < dpending L"
  unfolding dpending_def by (auto simp: filter_empty_conv dest: mget_Some_in)

lemma leave_pending:
  assumes "live_entry n a k = Some e" and "de_state e = Pending"
  shows "node_pending (call (EvLeave a) n) < node_pending n"
proof -
  let ?f = "\<lambda>a. case dr_durability (dheap n a) of None \<Rightarrow> 0 | Some L \<Rightarrow> dpending L"
  have a: "a \<in> set (droles n)" "0 < ?f a"
    using assms dpending_pos by (auto simp: live_entry_def obligation_def split: if_splits Option.bind_splits)
  show ?thesis using sum_list_without [OF a(1), of ?f] a(2) by (simp add: node_pending_def node_sum_def)
qed

text \<open>C26. Nothing but the retirement of its role and the shutdown drops a pending obligation of the node. Each other event keeps every pending
  obligation of the roles the node has: it is still there afterwards, under the same topic, and unchanged unless the event was addressed to its
  own role. A terminal verdict is not altered; at most the entry is evicted. Obligations of another topic with the same message id are
  independent. When the role itself is retired, its obligations leave the node with it, whether settled or not, and the node no longer counts them as pending.\<close>

theorem obligations_kept:
  assumes "dsteps (new_dnode mx pr ma) es n" and "fresh_join ev n" and "ev \<noteq> EvClear" and "live_entry n a k = Some e"
  shows "if ev = EvLeave a then live_entry (call ev n) a k = None \<and> (de_state e = Pending \<longrightarrow> node_pending (call ev n) < node_pending n)
    else if de_state e = Pending
    then \<exists>e'. live_entry (call ev n) a k = Some e' \<and> de_topic e' = de_topic e \<and> (target ev \<noteq> Some a \<longrightarrow> e' = e)
    else live_entry (call ev n) a k = None \<or> live_entry (call ev n) a k = Some e
      \<or> (opens a k ev \<and> map_option de_state (live_entry (call ev n) a k) = Some Pending)"
proof (cases "ev = EvLeave a")
  case True
  then have "live_entry (call ev n) a k = None" by (simp add: live_entry_def)
  then show ?thesis using True leave_pending [OF assms(4)] by simp
next
  case stay: False
  have n: "nwf n" by (rule dsteps_nwf [OF assms(1) nwf_new])
  have ob: "a \<in> set (droles n)" "obligation n a k = Some e" using assms(4) by (auto simp: live_entry_def split: if_splits)
  have h: "live_entry (call ev n) a k = obligation (call ev n) a k" using call_keeps_role [OF n ob(1) stay] by (simp add: live_entry_def)
  note m = call_moves [OF n assms(2,3), of a k] and o = call_other [OF n assms(3), of a k]
  show ?thesis
  proof (cases "de_state e = Pending")
    case True
    then obtain e' where "obligation (call ev n) a k = Some e'" "de_topic e' = de_topic e"
      using m ob(2) by (auto simp: moves_def keeps_live_def)
    moreover have "target ev \<noteq> Some a \<Longrightarrow> obligation (call ev n) a k = Some e"
      using o ob(2) True by (auto simp: evicts_def)
    ultimately show ?thesis using True stay unfolding h by auto
  next
    case False
    then show ?thesis using m ob(2) stay unfolding h by (auto simp: moves_def keeps_final_def)
  qed
qed

theorem obligations_kept_witness:
  "live_entry (call (EvRecordTopic 20 (Some 0) good_rep) (fold call sample_opened sample_node)) 1 ''m'' =
    Some \<lparr>de_topic = 6, de_state = Pending, de_attempts = 0, de_at = 11, de_reason = None\<rparr>
   \<and> live_entry (call (EvLeave 1) (fold call sample_opened sample_node)) 1 ''m'' = None"
proof -
  have "legal sample_opened (new_dnode 2 2 2)" by code_simp
  note run = dsteps_fold [OF this]
  have e: "live_entry (fold call sample_opened (new_dnode 2 2 2)) 1 ''m'' =
      Some \<lparr>de_topic = 6, de_state = Pending, de_attempts = 0, de_at = 11, de_reason = None\<rparr>" by code_simp
  show ?thesis
    using obligations_kept [OF run _ _ e, of "EvRecordTopic 20 (Some 0) good_rep"] obligations_kept [OF run _ _ e, of "EvLeave 1"] by (simp add: sample_node_def)
qed

section \<open>Budget and admission\<close>

lemma fold_mdelete_filter: "fold mdelete ks m = filter (\<lambda>p. fst p \<notin> set ks) m"
proof (induction ks arbitrary: m)
  case (Cons k ks)
  show ?case by (simp add: Cons.IH) (simp add: mdelete_def conj_commute)
qed simp

lemma reclaim_pending:
  assumes "dwf L"
  shows "length (dl_map (fst (reclaimTerminal L))) = dpending L"
proof -
  have "fst p \<notin> set (terminal_keys L) \<longleftrightarrow> (case p of (k, e) \<Rightarrow> de_state e = Pending)" if "p \<in> set (dl_map L)" for p
  proof -
    have get: "mget (dl_map L) (fst p) = Some (snd p)" using that assms by (simp add: dwf_def minvar_get_iff)
    have "fst p \<in> set (terminal_keys L) \<longleftrightarrow> de_state (snd p) \<noteq> Pending"
      using terminal_key_entry [OF assms, of "fst p"] get that by (cases p) (auto simp: terminal_keys_iff)
    then show ?thesis by (cases p) simp
  qed
  then show ?thesis
    by (simp add: reclaimTerminal_def dpending_def fold_mdelete_filter cong: filter_cong)
qed

lemma dpending_le: "dpending L \<le> length (dl_map L)"
  by (simp add: dpending_def)

lemma fold_on_ledger_dur:
  "distinct as \<Longrightarrow> dr_durability (dheap (fold (on_ledger f) as n) b) =
    (if b \<in> set as then map_option f (dr_durability (dheap n b)) else dr_durability (dheap n b))"
  by (induction as arbitrary: n) (auto simp: on_ledger_def split: option.split)

lemma fold_topic: "dr_topicId (dheap (fold (on_ledger f) as n) b) = dr_topicId (dheap n b)"
  by (induction as arbitrary: n) simp_all

lemma reclaimed_size:
  assumes "nwf n" and "same_node n n'"
    and "\<And>b. b \<in> set (droles n) \<Longrightarrow> dr_durability (dheap n' b) = map_option (fst \<circ> reclaimTerminal) (dr_durability (dheap n b))"
  shows "nodeSize n' = node_pending n"
  unfolding nodeSize_def node_pending_def node_sum_def
  using assms(2,3) nwfD(1) [OF assms(1)] reclaim_pending
  by (auto simp: same_node_def role_size_def intro!: arg_cong [where f = sum_list] split: option.split)

lemma node_pending_le: "node_pending n \<le> nodeSize n"
  unfolding nodeSize_def node_pending_def node_sum_def
  by (rule sum_list_mono) (auto simp: role_size_def dpending_le split: option.split)

lemma node_pending_ledger_of: "node_pending (snd (ledger_of a n)) = node_pending n"
  unfolding node_pending_def node_sum_def
  by (auto simp: ledger_of_def Let_def new_dledger_def dpending_def intro!: arg_cong [where f = sum_list] split: option.split)

lemma shrinks_None:
  assumes "shrinks n n'" and "obligation n a k = None"
  shows "obligation n' a k = None"
proof -
  have "evicts (obligation n a k) (obligation n' a k)" using assms(1) by (simp add: shrinks_def)
  then show ?thesis using assms(2) by (auto simp: evicts_def)
qed

lemma admit_fresh:
  assumes s: "shrinks n n'" and p: "dr_durability (dheap n' a) \<noteq> None" and k: "k \<noteq> []" "obligation n a k = None"
  shows "obligation (on_ledger (dopen now k t) a n') a k = Some (opened_entry now t)"
proof -
  obtain L where L: "dr_durability (dheap n' a) = Some L" "dwf L" using p s nwfD(1) [of n' a] by (auto simp: shrinks_def)
  have "mget (dl_map L) k = None"
    using shrinks_None [OF s k(2)] obligation_ledger [OF L(1), of k] by simp
  then show ?thesis using dopen_get(1) [OF L(2) k(1)] L by (simp add: obligation_on_ledger)
qed

text \<open>Admission is exact: a role that opens a message it does not hold gets a pending obligation, with no attempts used, exactly when the
  live obligations of the node leave room in the node budget, however many finished entries fill it.\<close>

theorem open_admission:
  assumes "dsteps (new_dnode mx pr ma) es n" and "k \<noteq> []" and "obligation n a k = None"
  shows "obligation (node_open now (Some a) k n) a k = (if node_pending n < nodeMax n
    then Some \<lparr>de_topic = dr_topicId (dheap n a), de_state = Pending, de_attempts = 0, de_at = now, de_reason = None\<rparr> else None)"
proof -
  have n: "nwf n" by (rule dsteps_nwf [OF assms(1) nwf_new])
  define n1 where "n1 = snd (ledger_of a n)"
  define n2 where "n2 = fold (on_ledger (fst \<circ> reclaimTerminal)) (droles n1) n1"
  have w1: "nwf n1" unfolding n1_def by (rule ledger_of_wf(1) [OF n])
  have s1: "shrinks n n1" unfolding n1_def by (rule ledger_of_shrinks [OF n])
  have s2: "shrinks n1 n2" unfolding n2_def by (rule reclaim_all_shrinks [OF w1])
  have size2: "nodeSize n2 = node_pending n"
    using reclaimed_size [OF w1, of n2] fold_on_ledger_dur [of "droles n1" "fst \<circ> reclaimTerminal" n1] s2 w1
    by (simp add: n2_def shrinks_def nwf_def node_pending_ledger_of [of a n, folded n1_def])
  have p1: "dr_durability (dheap n1 a) \<noteq> None" by (simp add: n1_def)
  then have p2: "dr_durability (dheap n2 a) \<noteq> None" using s2 by (simp add: shrinks_def)
  have t: "dr_topicId (dheap n1 a) = dr_topicId (dheap n a)" "dr_topicId (dheap n2 a) = dr_topicId (dheap n a)"
    "nodeMax n1 = nodeMax n" "nodeMax n2 = nodeMax n"
    using s1 s2 by (simp_all add: shrinks_def same_node_def n1_def n2_def fold_topic)
  have eq: "node_open now (Some a) k n = (if nodeSize n1 \<ge> nodeMax n then (if node_pending n \<ge> nodeMax n then n2
      else on_ledger (dopen now k (dr_topicId (dheap n a))) a n2) else on_ledger (dopen now k (dr_topicId (dheap n a))) a n1)"
    using t size2 by (simp add: node_open_def Let_def flip: n1_def n2_def)
  have le: "node_pending n \<le> nodeSize n1" using node_pending_le [of n1] node_pending_ledger_of [of a n] by (simp add: n1_def)
  have gone: "obligation n2 a k = None" by (rule shrinks_None [OF shrinks_trans [OF s1 s2] assms(3)])
  show ?thesis
    using le gone admit_fresh [OF s1 p1 assms(2,3)] admit_fresh [OF shrinks_trans [OF s1 s2] p2 assms(2,3)]
    by (auto simp: eq opened_entry_def)
qed

theorem open_admission_witness:
  "obligation (node_open 30 (Some 0) ''x'' (fold call (sample_opened @ [EvCancel 25 (Some 1) ''m'']) sample_node)) 0 ''x'' =
    Some \<lparr>de_topic = 5, de_state = Pending, de_attempts = 0, de_at = 30, de_reason = None\<rparr>"
proof -
  have "legal (sample_opened @ [EvCancel 25 (Some 1) ''m'']) (new_dnode 2 2 2)" by code_simp
  note run = dsteps_fold [OF this]
  have facts: "obligation (fold call (sample_opened @ [EvCancel 25 (Some 1) ''m'']) (new_dnode 2 2 2)) 0 ''x'' = None"
    "node_pending (fold call (sample_opened @ [EvCancel 25 (Some 1) ''m'']) (new_dnode 2 2 2)) = 1"
    "nodeMax (fold call (sample_opened @ [EvCancel 25 (Some 1) ''m'']) (new_dnode 2 2 2)) = 2"
    "dr_topicId (dheap (fold call (sample_opened @ [EvCancel 25 (Some 1) ''m'']) (new_dnode 2 2 2)) 0) = 5"
    by code_simp+
  show ?thesis unfolding sample_node_def using open_admission [OF run _ facts(1), of 30] facts(2-4) by simp
qed

text \<open>The node size grows by at most the one entry that an admission adds.\<close>

lemma sum_list_one_more:
  fixes f g :: "'a \<Rightarrow> nat"
  assumes "distinct xs" and "\<And>x. x \<noteq> a \<Longrightarrow> g x \<le> f x" and "g a \<le> Suc (f a)"
  shows "sum_list (map g xs) \<le> Suc (sum_list (map f xs))"
proof (cases "a \<in> set xs")
  case False
  then have "sum_list (map g xs) \<le> sum_list (map f xs)" by (intro sum_list_mono assms(2)) auto
  then show ?thesis by simp
next
  case True
  then obtain ys zs where xs: "xs = ys @ a # zs" by (auto dest: split_list)
  have "sum_list (map g ys) \<le> sum_list (map f ys)" "sum_list (map g zs) \<le> sum_list (map f zs)"
    using assms(1) unfolding xs by (auto intro!: sum_list_mono assms(2))
  then show ?thesis using assms(3) by (simp add: xs)
qed

lemma node_open_size:
  assumes n: "nwf n" and le: "nodeSize n \<le> nodeMax n"
  shows "nodeSize (node_open now (Some a) k n) \<le> nodeMax n"
proof (rule node_open_cases [OF n, of now a k])
  fix n' assume "shrinks n n'" "node_open now (Some a) k n = n'"
  then show ?thesis using nodeSize_mono [of n' n] le by (simp add: shrinks_def same_node_def)
next
  fix n' assume s: "shrinks n n'" and room: "nodeSize n' < nodeMax n'" and p: "dr_durability (dheap n' a) \<noteq> None"
    and eq: "node_open now (Some a) k n = on_ledger (dopen now k (dr_topicId (dheap n' a))) a n'"
  obtain L where L: "dr_durability (dheap n' a) = Some L" "dwf L" using p s nwfD(1) [of n' a] by (auto simp: shrinks_def)
  have "length (dl_map (dopen now k t L)) \<le> Suc (length (dl_map L))" for t
    using dopen.no_growth [OF L(2), of k "{k}" now t] by simp
  then have "nodeSize (node_open now (Some a) k n) \<le> Suc (nodeSize n')"
    unfolding nodeSize_def eq using s L
    by (auto simp: role_size_on_ledger role_size_ledger shrinks_def nwf_def intro!: sum_list_one_more [where a = a])
  then show ?thesis using room s by (simp add: shrinks_def same_node_def)
qed

lemmas delegate_shrinks = drecord.delegate_size [OF refl] recordOne.delegate_size [OF refl] recordTopic.delegate_size [OF refl]
  dexpire.delegate_size [OF fst_conv] dcancel.delegate_size [OF fst_conv]

lemma call_same:
  assumes "nwf n"
  shows "nodeMax (call e n) = nodeMax n \<and> perRoleMax (call e n) = perRoleMax n \<and> node_maxAttempts (call e n) = node_maxAttempts n"
proof (cases e)
  case (EvOpen now r k)
  then show ?thesis using node_open_keeps(2) [OF assms] by (cases r) (auto simp: same_node_def)
next
  case EvClear
  then show ?thesis using clear_fold [OF assms] by (simp add: node_clear_def same_node_def)
qed (simp_all add: call_defs delegate_keeps [OF assms, unfolded same_node_def])

lemma call_size:
  assumes n: "nwf n" and j: "fresh_join e n" and le: "nodeSize n \<le> nodeMax n"
  shows "nodeSize (call e n) \<le> nodeMax n"
proof (cases e)
  case (EvOpen now r k)
  then show ?thesis using node_open_size [OF n le] le by (cases r) auto
next
  case EvClear
  have "nodeSize (node_clear n) \<le> nodeSize n"
    using clear_fold [OF n, of "droles n"] by (intro nodeSize_mono) (auto simp: node_clear_def same_node_def)
  then show ?thesis using le EvClear by simp
next
  case (EvJoin a t)
  then have "nodeSize (call e n) = nodeSize n"
    using j by (auto simp: nodeSize_def role_size_def intro!: arg_cong [where f = sum_list])
  then show ?thesis using le by simp
next
  case (EvLeave a)
  have "sum_list (map g (filter P xs)) \<le> sum_list (map g xs)" for g :: "nat \<Rightarrow> nat" and P xs
    by (induction xs) auto
  then have "nodeSize (call e n) \<le> nodeSize n" by (simp add: nodeSize_def EvLeave)
  then show ?thesis using le by simp
qed (simp_all add: call_defs order_trans [OF delegate_shrinks(1) [OF n] le] order_trans [OF delegate_shrinks(2) [OF n] le]
  order_trans [OF delegate_shrinks(3) [OF n] le] order_trans [OF delegate_shrinks(4) [OF n] le] order_trans [OF delegate_shrinks(5) [OF n] le])

lemma dsteps_budget:
  "dsteps n es n' \<Longrightarrow> nwf n \<Longrightarrow> nodeSize n \<le> nodeMax n \<Longrightarrow>
    nodeSize n' \<le> nodeMax n \<and> nodeMax n' = nodeMax n \<and> perRoleMax n' = perRoleMax n"
  by (induction rule: dsteps.induct) (use call_size call_same dsteps_nwf in \<open>fastforce+\<close>)

text \<open>The bound of one role, at the place where it grows.\<close>

definition live_only :: "dledger \<Rightarrow> bool" where
  "live_only L \<longleftrightarrow> (\<forall>(k, e) \<in> set (dl_map L). de_state e = Pending)"

lemma dopen_bound:
  assumes "dwf L" and "k \<noteq> []" and "mget (dl_map L) k = None"
  shows "length (dl_map (dopen now k t L)) \<le> dl_max L \<or> live_only (dopen now k t L)"
  using dprune_bound [of "put_entry k (opened_entry now t) L"] assms by (simp add: dopen_new dwf_def live_only_def)

text \<open>The node-wide budget holds in every history, whatever roles come and go: the ledgers of the node's roles together
  hold at most \<open>nodeMax\<close> entries.\<close>

theorem node_budget:
  assumes "dsteps (new_dnode mx pr ma) es n"
  shows "nodeSize n \<le> mx"
  using dsteps_budget [OF assms nwf_new] by (simp add: new_dnode_def nodeSize_def)

theorem node_budget_witness: "nodeSize (fold call sample_opened sample_node) \<le> 2"
  unfolding sample_node_def by (rule node_budget [OF dsteps_fold]) code_simp

section \<open>Every obligation is settled\<close>

definition entry_ok :: "dnode \<Rightarrow> bool" where
  "entry_ok n \<longleftrightarrow> (\<forall>a k e. obligation n a k = Some e \<longrightarrow> de_state e = Pending \<longrightarrow>
     de_topic e = dr_topicId (dheap n a) \<and> 0 \<le> de_attempts e)"

lemma fst_delegate_topic: "dr_topicId (dheap (fst (delegate h role n)) a) = dr_topicId (dheap n a)"
  by (cases role) (simp_all add: delegate_fst, simp add: delegate_def)

lemma node_open_topic: "dr_topicId (dheap (node_open now role k n) a) = dr_topicId (dheap n a)"
  by (cases role) (simp_all add: node_open_def Let_def fold_topic)

lemma call_topic: "(\<And>t. e \<noteq> EvJoin a t) \<Longrightarrow> dr_topicId (dheap (call e n) a) = dr_topicId (dheap n a)"
  by (cases e) (auto simp: call_defs fst_delegate_topic node_open_topic node_clear_def fold_topic)

lemma pending_origin:
  assumes "moves p q x (Some e)" and "de_state e = Pending" and "\<not> p"
  obtains e0 where "x = Some e0" "de_state e0 = Pending" "de_topic e = de_topic e0" "de_attempts e0 \<le> de_attempts e"
  using assms by (cases x) (auto simp: moves_def keeps_live_def keeps_final_def keeps_honest_def)

lemma open_pending:
  assumes n: "nwf n" and e: "obligation (node_open now (Some a) k n) a k = Some e" "de_state e = Pending"
  shows "obligation n a k = Some e \<or> (de_topic e = dr_topicId (dheap n a) \<and> de_attempts e = 0)"
proof (rule node_open_cases [OF n, of now a k])
  fix n' assume "shrinks n n'" "node_open now (Some a) k n = n'"
  then have "evicts (obligation n a k) (Some e)" using e by (metis shrinks_def)
  then show ?thesis by (auto simp: evicts_def)
next
  fix n' assume s: "shrinks n n'" and p: "dr_durability (dheap n' a) \<noteq> None"
    and eq: "node_open now (Some a) k n = on_ledger (dopen now k (dr_topicId (dheap n' a))) a n'"
  have t: "dr_topicId (dheap n' a) = dr_topicId (dheap n a)"
    using node_open_topic [of now "Some a" k n a] by (simp add: eq)
  obtain L where L: "dr_durability (dheap n' a) = Some L" "dwf L" using p s nwfD(1) [of n' a] by (auto simp: shrinks_def)
  have e': "mget (dl_map (dopen now k (dr_topicId (dheap n a)) L)) k = Some e"
    using e(1) by (simp add: eq obligation_on_ledger L t)
  show ?thesis
  proof (cases "k = [] \<or> mhas (dl_map L) k")
    case True
    then have "obligation n' a k = Some e" using e' by (simp add: dopen_known obligation_ledger [OF L(1)])
    then have "evicts (obligation n a k) (Some e)" using s by (metis shrinks_def)
    then show ?thesis by (auto simp: evicts_def)
  next
    case False
    then show ?thesis using dopen_get(1) [OF L(2), of k now "dr_topicId (dheap n a)"] e' by (auto simp: opened_entry_def)
  qed
qed

lemma call_entry_ok:
  assumes n: "nwf n" and j: "fresh_join ev n" and ok: "entry_ok n"
  shows "entry_ok (call ev n)"
  unfolding entry_ok_def
proof (intro allI impI)
  fix a k e assume e: "obligation (call ev n) a k = Some e" "de_state e = Pending"
  have join: "ev \<noteq> EvJoin a t" for t using e by auto
  show "de_topic e = dr_topicId (dheap (call ev n) a) \<and> 0 \<le> de_attempts e"
  proof (cases "opens a k ev")
    case True
    then obtain now where ev: "ev = EvOpen now (Some a) k" by (cases ev) auto
    show ?thesis using open_pending [OF n, of now a k e] e ok by (auto simp: ev node_open_topic entry_ok_def)
  next
    case closed: False
    obtain e0 where "obligation n a k = Some e0" "de_state e0 = Pending" "de_topic e = de_topic e0" "de_attempts e0 \<le> de_attempts e"
    proof (cases "ev = EvClear")
      case True
      then have "obligation n a k = Some e" using clear_fold [OF n, of "droles n" a k] e(1) by (auto simp: node_clear_def)
      then show ?thesis using that e(2) by blast
    next
      case False
      then show ?thesis using pending_origin [OF call_moves [OF n j False, of a k, unfolded e(1)] e(2) closed] that by blast
    qed
    then show ?thesis using ok by (fastforce simp: call_topic [OF join] entry_ok_def)
  qed
qed

lemma dsteps_entry_ok: "dsteps n es n' \<Longrightarrow> nwf n \<Longrightarrow> entry_ok n \<Longrightarrow> entry_ok n'"
  by (induction rule: dsteps.induct) (auto intro: call_entry_ok dsteps_nwf)

lemma turn_pending:
  assumes "acting t e" and "de_state (turn_entry now t r ma e) = Pending"
  shows "de_attempts (turn_entry now t r ma e) = de_attempts e + 1 \<and> de_attempts e + 1 < ma"
  using assms by (auto simp: turn_entry_def Let_def split: if_splits)

lemma judge_step:
  assumes n: "nwf n" and ok: "entry_ok n" and ev: "judges a ev"
    and e: "obligation n a k = Some e" "de_state e = Pending"
    and e': "obligation (call ev n) a k = Some e'" "de_state e' = Pending"
  shows "de_attempts e' = de_attempts e + 1 \<and> de_attempts e + 1 < node_maxAttempts n"
proof -
  obtain now r where r: "ev = EvRecordTopic now (Some a) r" "classify r = Evidence \<or> classify r = NoCohort"
    using ev by (cases ev) (auto simp: classify_judged)
  let ?L = "fst (ledger_of a n)" and ?t = "dr_topicId (dheap n a)"
  note w = ledger_of_wf [OF n, of a]
  have "obligation (call ev n) a k = mget (dl_map (fst (recordTopic now ?t r ?L))) k"
    by (simp add: r(1) node_recordTopic_def delegate_fst)
  also have "\<dots> = Some (turn_entry now ?t r (node_maxAttempts n) e)"
    using e(1) by (simp add: recordTopic_closed [OF w(2) r(2)] mget_map w(4))
  finally have eq: "e' = turn_entry now ?t r (node_maxAttempts n) e" using e'(1) by simp
  have "acting ?t e" using ok e by (simp add: entry_ok_def acting_def)
  then show ?thesis using turn_pending [of ?t e now r "node_maxAttempts n"] e'(2) by (simp add: eq)
qed

lemma dsteps_maxAttempts: "dsteps n es n' \<Longrightarrow> nwf n \<Longrightarrow> node_maxAttempts n' = node_maxAttempts n"
  by (induction rule: dsteps.induct) (auto simp: call_same dsteps_nwf)

definition is_pending :: "dnode \<Rightarrow> nat \<Rightarrow> string \<Rightarrow> bool" where
  "is_pending n a k \<longleftrightarrow> (\<exists>e. obligation n a k = Some e \<and> de_state e = Pending)"

lemma settles_gen:
  assumes "nwf n" "entry_ok n" "legal fs n" "obligation n a k = Some e" "de_state e = Pending" "EvClear \<notin> set fs"
    and "0 < length (filter (judges a) fs)"
    and "node_maxAttempts n \<le> de_attempts e + int (length (filter (judges a) fs))"
  shows "\<exists>xs ys. fs = xs @ ys \<and> \<not> is_pending (fold call xs n) a k"
  using assms
proof (induction fs arbitrary: n e)
  case (Cons f fs)
  show ?case
  proof (cases "is_pending (call f n) a k")
    case False
    then show ?thesis by (intro exI [of _ "[f]"] exI [of _ fs]) simp
  next
    case True
    then obtain e1 where e1: "obligation (call f n) a k = Some e1" "de_state e1 = Pending" by (auto simp: is_pending_def)
    have f: "fresh_join f n" "legal fs (call f n)" "f \<noteq> EvClear" "EvClear \<notin> set fs" using Cons.prems(3,6) by auto
    have w: "nwf (call f n)" "entry_ok (call f n)" using Cons.prems(1,2) f(1) by (auto intro: call_keeps call_entry_ok)
    have ma: "node_maxAttempts (call f n) = node_maxAttempts n" using call_same [OF Cons.prems(1)] by blast
    have mono: "de_attempts e \<le> de_attempts e1"
      using call_moves [OF Cons.prems(1) f(1,3), of a k] Cons.prems(4,5) e1 by (auto simp: moves_def keeps_live_def)
    have step: "de_attempts e1 = de_attempts e + 1 \<and> de_attempts e + 1 < node_maxAttempts n" if "judges a f"
      by (rule judge_step [OF Cons.prems(1,2) that Cons.prems(4,5) e1])
    have "0 < length (filter (judges a) fs)" "node_maxAttempts n \<le> de_attempts e1 + int (length (filter (judges a) fs))"
      using Cons.prems(7,8) mono step by (cases "judges a f"; auto)+
    then obtain xs ys where "fs = xs @ ys" "\<not> is_pending (fold call xs (call f n)) a k"
      using Cons.IH [OF w f(2) e1 f(4)] ma by auto
    then show ?thesis by (intro exI [of _ "f # xs"] exI [of _ ys]) simp
  qed
qed simp

text \<open>C27. Every obligation is settled: a pending message is no longer pending at some point of every continuation, short of a shutdown, in
  which its role has received as many verdicts on a full snapshot as attempts are allowed, whatever the verdicts say and whatever
  happens in between.\<close>

theorem obligation_settles:
  assumes "dsteps (new_dnode mx pr ma) es n" and "is_pending n a k"
    and "legal fs n" and "EvClear \<notin> set fs"
    and "max 1 ma \<le> int (length (filter (judges a) fs))"
  shows "\<exists>xs ys. fs = xs @ ys \<and> \<not> is_pending (fold call xs n) a k"
proof -
  have n: "nwf n" by (rule dsteps_nwf [OF assms(1) nwf_new])
  have ok: "entry_ok n" by (rule dsteps_entry_ok [OF assms(1) nwf_new]) (simp add: entry_ok_def)
  obtain e where e: "obligation n a k = Some e" "de_state e = Pending" using assms(2) by (auto simp: is_pending_def)
  have "0 \<le> de_attempts e" using ok e by (simp add: entry_ok_def)
  moreover have "node_maxAttempts n = ma" using dsteps_maxAttempts [OF assms(1) nwf_new] by (simp add: new_dnode_def)
  ultimately show ?thesis using assms(5) by (intro settles_gen [OF n ok assms(3) e assms(4)]) linarith+
qed

theorem obligation_settles_witness:
  "\<exists>xs ys. [EvRecordTopic 20 (Some 0) bad_rep, EvCancel 25 (Some 1) ''m'', EvRecordTopic 30 (Some 0) bad_rep] = xs @ ys \<and>
    \<not> is_pending (fold call xs (fold call sample_opened sample_node)) 0 ''m''"
proof -
  have "legal sample_opened (new_dnode 2 2 2)" by code_simp
  note run = dsteps_fold [OF this]
  have "obligation (fold call sample_opened (new_dnode 2 2 2)) 0 ''m'' =
      Some \<lparr>de_topic = 5, de_state = Pending, de_attempts = 0, de_at = 10, de_reason = None\<rparr>" by code_simp
  then have pend: "is_pending (fold call sample_opened (new_dnode 2 2 2)) 0 ''m''" by (simp add: is_pending_def)
  show ?thesis unfolding sample_node_def
    by (rule obligation_settles [OF run pend]) (simp, simp, simp add: bad_rep_def classify_def)
qed

text \<open>The verdict of one turn, when the verdict carries evidence.\<close>

lemma turn_state:
  assumes "classify r = Evidence" and "acting t e"
  shows "de_state (turn_entry now t r ma e) = (if or_zero (rep_verified r) > 0 then Verified
    else if or_zero (rep_attempted r) = 0 \<or> de_attempts e + 1 \<ge> ma then Expired else Pending)"
  using assms by (auto simp: turn_entry_def acting_def Let_def)

lemma turned_counts:
  fixes t ma :: int
  assumes "classify r = Evidence"
  defines "out \<equiv> \<lambda>e. or_zero (rep_verified r) \<le> 0 \<and> (or_zero (rep_attempted r) = 0 \<or> de_attempts e + 1 \<ge> ma)"
  shows "turned Verified now t r ma es = (if or_zero (rep_verified r) > 0 then length (filter (acting t) es) else 0)"
    and "turned Expired now t r ma es = length (filter out (filter (acting t) es))"
    and "turned Pending now t r ma es =
      (if or_zero (rep_verified r) > 0 then 0 else length (filter (\<lambda>e. \<not> out e) (filter (acting t) es)))"
  unfolding turned_def out_def
  by (induction es) (auto simp: turn_state [OF assms(1)])

text \<open>A topic-wide verdict is one pass: every pending message of the topic takes the same transition, all other entries and the order of the
  ledger stay, and the three counts that it returns are the numbers of those messages by their new state.\<close>

theorem recordTopic_pass:
  assumes "minvar (dl_map L)" and "classify r = Evidence"
  shows "recordTopic now t r L =
    (let hit = (\<lambda>e. de_state e = Pending \<and> de_topic e = t);
         v = or_zero (rep_verified r);
         out = (\<lambda>e. v \<le> 0 \<and> (or_zero (rep_attempted r) = 0 \<or> de_attempts e + 1 \<ge> dl_maxAttempts L));
         upd = (\<lambda>e. if \<not> hit e then e else if v > 0 then e\<lparr>de_state := Verified, de_at := now\<rparr>
           else if out e then e\<lparr>de_attempts := de_attempts e + 1, de_state := Expired, de_at := now\<rparr>
           else e\<lparr>de_attempts := de_attempts e + 1\<rparr>);
         es = filter hit (map snd (dl_map L))
     in (L\<lparr>dl_map := map (\<lambda>(k, e). (k, upd e)) (dl_map L)\<rparr>,
         \<lparr>ro_verified = if v > 0 then length es else 0, ro_expired = length (filter out es),
          ro_pending = if v > 0 then 0 else length (filter (\<lambda>e. \<not> out e) es), ro_kind = Evidence\<rparr>))"
proof -
  have hit: "(\<lambda>e. de_state e = Pending \<and> de_topic e = t) = acting t" by (rule ext) (simp add: acting_def)
  have "recordTopic now t r L = (L\<lparr>dl_map := map (\<lambda>(k, e). (k, turn_entry now t r (dl_maxAttempts L) e)) (dl_map L)\<rparr>,
     tally now t r (dl_maxAttempts L) (map snd (dl_map L)) \<lparr>ro_verified = 0, ro_expired = 0, ro_pending = 0, ro_kind = Evidence\<rparr>)"
    using recordTopic_closed [of L r now t] assms by (simp add: dwf_def)
  moreover have "turn_entry now t r (dl_maxAttempts L) e = (if \<not> acting t e then e
      else if or_zero (rep_verified r) > 0 then e\<lparr>de_state := Verified, de_at := now\<rparr>
      else if or_zero (rep_verified r) \<le> 0 \<and> (or_zero (rep_attempted r) = 0 \<or> de_attempts e + 1 \<ge> dl_maxAttempts L)
      then e\<lparr>de_attempts := de_attempts e + 1, de_state := Expired, de_at := now\<rparr>
      else e\<lparr>de_attempts := de_attempts e + 1\<rparr>)" for e
    using assms(2) by (simp add: turn_entry_def Let_def)
  ultimately show ?thesis unfolding Let_def hit
    by (simp only: tally_def turned_counts [OF assms(2)]) simp
qed

theorem recordTopic_pass_witness:
  "snd (recordTopic 20 5 bad_rep (dopen 11 ''b'' 6 (dopen 10 ''a'' 5 (new_dledger 4 2)))) =
    \<lparr>ro_verified = 0, ro_expired = 0, ro_pending = 1, ro_kind = Evidence\<rparr>"
proof -
  have "minvar (dl_map (dopen 11 ''b'' 6 (dopen 10 ''a'' 5 (new_dledger 4 2))))" and "classify bad_rep = Evidence" by code_simp+
  from recordTopic_pass [OF this, of 20 5] show ?thesis by (simp only: snd_conv Let_def) code_simp
qed

end
