(* ===== verification/LifetimeLaws.thy ===== *)
theory LifetimeLaws
  imports TopicLifetime
begin

text \<open>
  Laws of the topic lifetime. The sweeps of a tick visit every role; the locale \<open>topic_step\<close> states that what a sweep
  does to one topic neither depends on nor touches the others, and derives what the whole sweep does to
  each topic. It is interpreted on the three sweeps. The rest are the laws of the LEFT records, of the grants
  a backup accepts, of the end of a generation and of the notice.
\<close>

section \<open>Sweeps, one topic at a time\<close>

text \<open>Two managers that agree on everything the rules read about a topic.\<close>

definition same_at :: "int \<Rightarrow> lman \<Rightarrow> lman \<Rightarrow> bool" where
  "same_at t m m' \<longleftrightarrow> mget (lm_roles m') t = mget (lm_roles m) t \<and> lm_me m' = lm_me m \<and> lm_app m' = lm_app m \<and>
     lm_hosted m' = lm_hosted m \<and> standingLease m' = standingLease m \<and> dropMs m' = dropMs m \<and>
     mget (lm_upstream m') t = mget (lm_upstream m) t \<and> mget (lm_attach m') t = mget (lm_attach m) t \<and>
     (t \<in> set (lm_backups m') \<longleftrightarrow> t \<in> set (lm_backups m)) \<and> childMinReaders m' = childMinReaders m \<and>
     childStepDownMs m' = childStepDownMs m \<and> childMinStayMs m' = childMinStayMs m \<and> topicLifetime m' = topicLifetime m"

lemma same_at_refl [simp]: "same_at t m m"
  by (simp add: same_at_def)

lemma same_at_trans: "same_at t m m1 \<Longrightarrow> same_at t m1 m2 \<Longrightarrow> same_at t m m2"
  by (simp add: same_at_def)

lemma topic_sweep_Nil [simp]: "topic_sweep f [] m = ([], m)"
  by (simp add: topic_sweep_def)

lemma topic_sweep_acc: "fold (\<lambda>t (out, m). case f t m of (o1, m1) \<Rightarrow> (out @ o1, m1)) ts (acc, m) =
   (acc @ fst (topic_sweep f ts m), snd (topic_sweep f ts m))"
proof (induction ts arbitrary: acc m)
  case (Cons t ts)
  obtain o1 m1 where f: "f t m = (o1, m1)" by fastforce
  show ?case unfolding topic_sweep_def using Cons.IH [of "acc @ o1" m1] Cons.IH [of o1 m1] by (simp add: f)
qed simp

lemma topic_sweep_Cons [simp]:
  "topic_sweep f (t # ts) m = (fst (f t m) @ fst (topic_sweep f ts (snd (f t m))), snd (topic_sweep f ts (snd (f t m))))"
  unfolding topic_sweep_def using topic_sweep_acc [of f ts "fst (f t m)" "snd (f t m)"]
  by (simp add: split_def topic_sweep_def)

locale topic_step =
  fixes f :: "int \<Rightarrow> lman \<Rightarrow> lout list \<times> lman"
  assumes other: "t' \<noteq> t \<Longrightarrow> same_at t' m (snd (f t m))"
    and local_out: "same_at t m m' \<Longrightarrow> fst (f t m') = fst (f t m)"
    and local_role: "same_at t m m' \<Longrightarrow> same_at t (snd (f t m)) (snd (f t m'))"
begin

lemma sweep_other: "t \<notin> set ts \<Longrightarrow> same_at t m (snd (topic_sweep f ts m))"
proof (induction ts arbitrary: m)
  case (Cons a ts)
  then show ?case using same_at_trans [OF other [of t a m] Cons.IH [of "snd (f a m)"]] by simp
qed simp

lemma sweep_at: "distinct ts \<Longrightarrow> t \<in> set ts \<Longrightarrow> same_at t (snd (f t m)) (snd (topic_sweep f ts m))"
proof (induction ts arbitrary: m)
  case (Cons a ts)
  show ?case
  proof (cases "a = t")
    case True
    then show ?thesis using Cons.prems sweep_other [of t ts "snd (f t m)"] by simp
  next
    case False
    then have "same_at t (snd (f t (snd (f a m)))) (snd (topic_sweep f ts (snd (f a m))))" using Cons by simp
    then show ?thesis using same_at_trans [OF local_role [OF other [of t a m]]] False by simp
  qed
qed simp

lemma sweep_out: "distinct ts \<Longrightarrow> x \<in> set (fst (topic_sweep f ts m)) \<longleftrightarrow> (\<exists>t \<in> set ts. x \<in> set (fst (f t m)))"
proof (induction ts arbitrary: m)
  case (Cons a ts)
  have "fst (f t (snd (f a m))) = fst (f t m)" if "t \<in> set ts" for t
    by (rule local_out, rule other) (use that Cons.prems in auto)
  then show ?case using Cons by simp
qed simp

end

lemma lm_put_role [simp]:
  "lm_roles (put_role t r m) = mset_key t r (lm_roles m)" "lm_me (put_role t r m) = lm_me m" "lm_app (put_role t r m) = lm_app m"
  "lm_hosted (put_role t r m) = lm_hosted m" "standingLease (put_role t r m) = standingLease m" "dropMs (put_role t r m) = dropMs m"
  "lm_upstream (put_role t r m) = lm_upstream m" "lm_attach (put_role t r m) = lm_attach m" "lm_backups (put_role t r m) = lm_backups m"
  "childMinReaders (put_role t r m) = childMinReaders m" "childStepDownMs (put_role t r m) = childStepDownMs m"
  "childMinStayMs (put_role t r m) = childMinStayMs m" "topicLifetime (put_role t r m) = topicLifetime m"
  "lm_left (put_role t r m) = lm_left m" "lm_genHighWater (put_role t r m) = lm_genHighWater m"
  "lm_grantHoldUntil (put_role t r m) = lm_grantHoldUntil m"
  by (simp_all add: put_role_def)

lemma same_at_put_other: "t' \<noteq> t \<Longrightarrow> same_at t' m m1 \<Longrightarrow> same_at t' m (put_role t r m1)"
  by (simp add: same_at_def)

lemma same_at_put: "same_at t m m' \<Longrightarrow> same_at t (put_role t r m) (put_role t r m')"
  by (simp add: same_at_def)

text \<open>Updates of the fields the rules do not read.\<close>

lemma same_at_frame [simp]:
  "same_at t m (m1\<lparr>lm_left := x1\<rparr>) = same_at t m m1" "same_at t (m\<lparr>lm_left := x1\<rparr>) m1 = same_at t m m1"
  "same_at t m (m1\<lparr>lm_genHighWater := x2\<rparr>) = same_at t m m1" "same_at t (m\<lparr>lm_genHighWater := x2\<rparr>) m1 = same_at t m m1"
  "same_at t m (m1\<lparr>lm_terminated := x3\<rparr>) = same_at t m m1" "same_at t (m\<lparr>lm_terminated := x3\<rparr>) m1 = same_at t m m1"
  "same_at t m (m1\<lparr>lm_steppedDown := x3\<rparr>) = same_at t m m1" "same_at t (m\<lparr>lm_steppedDown := x3\<rparr>) m1 = same_at t m m1"
  "same_at t m (m1\<lparr>lm_standbyLapsed := x3\<rparr>) = same_at t m m1" "same_at t (m\<lparr>lm_standbyLapsed := x3\<rparr>) m1 = same_at t m m1"
  "same_at t m (m1\<lparr>lm_childCooldown := x4\<rparr>) = same_at t m m1" "same_at t m (m1\<lparr>lm_grantHoldUntil := x5\<rparr>) = same_at t m m1"
  "same_at t m (m1\<lparr>lm_lastClocks := x6\<rparr>) = same_at t m m1"
  by (simp_all add: same_at_def)

lemma has_sub_same: "same_at t m m' \<Longrightarrow> has_sub m' x = has_sub m x"
  by (simp add: same_at_def has_sub_def)

lemma retireBackup_other: "t' \<noteq> t \<Longrightarrow> same_at t' m m1 \<Longrightarrow> same_at t' m (retireBackup t m1)"
  by (auto simp: retireBackup_def same_at_def split: option.split)

lemma retireBackup_same: "same_at t m m' \<Longrightarrow> same_at t (retireBackup t m) (retireBackup t m')"
  by (auto simp: retireBackup_def same_at_def split: option.split)

lemma retireRole_other: "t' \<noteq> t \<Longrightarrow> same_at t' m m1 \<Longrightarrow> same_at t' m (retireRole t m1)"
  by (auto simp: retireRole_def same_at_def)

lemma retireRole_same: "same_at t m m' \<Longrightarrow> same_at t (retireRole t m) (retireRole t m')"
  by (auto simp: retireRole_def same_at_def has_sub_def)

lemma leftWrite_same [simp]:
  "same_at t m (snd (leftWrite mo t' rt ep up m1)) = same_at t m m1"
  "same_at t (snd (leftWrite mo t' rt ep up m)) m1 = same_at t m m1"
  by (auto simp: leftWrite_def Let_def split: option.split)

lemma same_atD:
  assumes "same_at t m m'"
  shows "mget (lm_roles m') t = mget (lm_roles m) t" "lm_me m' = lm_me m" "has_sub m' t = has_sub m t"
    "lm_hosted m' = lm_hosted m" "standingLease m' = standingLease m" "dropMs m' = dropMs m"
    "upstreamOf m' t = upstreamOf m t" "attachedGenOf m' t = attachedGenOf m t"
    "(t \<in> set (lm_backups m')) = (t \<in> set (lm_backups m))" "childMinReaders m' = childMinReaders m"
    "childStepDownMs m' = childStepDownMs m" "childMinStayMs m' = childMinStayMs m" "topicLifetime m' = topicLifetime m"
  using assms by (auto simp: same_at_def has_sub_def upstreamOf_def attachedGenOf_def)

lemma noticeTargets_same: "lm_me m' = lm_me m \<Longrightarrow> noticeTargets m' r = noticeTargets m r"
  by (simp add: noticeTargets_def)

lemma terminateStep_other: "t' \<noteq> t \<Longrightarrow> same_at t' m m1 \<Longrightarrow> same_at t' m (snd (terminateStep mo t m1))"
  by (auto simp: terminateStep_def Let_def intro!: same_at_put_other retireRole_other retireBackup_other split: option.split)

lemma terminateStep_same:
  assumes "same_at t m m'"
  shows "fst (terminateStep mo t m') = fst (terminateStep mo t m)" and "same_at t (snd (terminateStep mo t m)) (snd (terminateStep mo t m'))"
proof -
  note d = same_atD [OF assms]
  have g: "genOf m' r = genOf m r" for r using d(2) by (simp add: genOf_def)
  show "fst (terminateStep mo t m') = fst (terminateStep mo t m)"
    unfolding terminateStep_def d(1) noticeTargets_same [OF d(2)] g by (simp add: Let_def split: option.split)
  show "same_at t (snd (terminateStep mo t m)) (snd (terminateStep mo t m'))"
    unfolding terminateStep_def d(1) noticeTargets_same [OF d(2)] using assms
    by (auto simp: Let_def intro!: same_at_put retireRole_same retireBackup_same split: option.split)
qed

interpretation trm: topic_step "terminate_role now mo" for now mo
proof
  fix t t' :: int and m m' :: lman
  show "t' \<noteq> t \<Longrightarrow> same_at t' m (snd (terminate_role now mo t m))"
    by (auto simp: terminate_role_def intro!: terminateStep_other same_at_put_other split: option.split)
  assume s: "same_at t m m'"
  note d = same_atD [OF s]
  have h: "heldOpen now t r m' = heldOpen now t r m" for r
    using d by (simp add: heldOpen_def standingLeased_def)
  show "fst (terminate_role now mo t m') = fst (terminate_role now mo t m)"
    unfolding terminate_role_def d(1) h using terminateStep_same(1) [OF s] terminateStep_same(1) [OF same_at_put [OF s]]
    by (simp split: option.split)
  show "same_at t (snd (terminate_role now mo t m)) (snd (terminate_role now mo t m'))"
    unfolding terminate_role_def d(1) h using terminateStep_same(2) [OF s] terminateStep_same(2) [OF same_at_put [OF s]] s
    by (simp split: option.split)
qed

lemma stepDownChild_same:
  assumes s: "same_at t m m'"
  shows "fst (stepDownChild mo t up m') = fst (stepDownChild mo t up m)"
    and "same_at t (snd (stepDownChild mo t up m)) (snd (stepDownChild mo t up m'))"
proof -
  note d = same_atD [OF s]
  have r: "relay_seats m' r = relay_seats m r" for r using d(2) by (simp add: relay_seats_def)
  have l: "same_at t (snd (leftWrite mo t None 0 (Some up) m)) (snd (leftWrite mo t None 0 (Some up) m'))" using s by simp
  have sub: "has_sub (retireRole t (snd (leftWrite mo t None 0 (Some up) x))) t = has_sub x t" for x
    using has_sub_same [of t x "snd (leftWrite mo t None 0 (Some up) x)" t] by (simp add: retireRole_def has_sub_def)
  show "fst (stepDownChild mo t up m') = fst (stepDownChild mo t up m)"
    unfolding stepDownChild_def d(1) Let_def r sub d(3) d(8) by (simp split: option.split)
  show "same_at t (snd (stepDownChild mo t up m)) (snd (stepDownChild mo t up m'))"
    unfolding stepDownChild_def d(1) Let_def using s by (auto intro: retireRole_same [OF l] split: option.split)
qed

interpretation thin: topic_step "thin_role reach now mo" for reach now mo
proof
  fix t t' :: int and m m' :: lman
  show "t' \<noteq> t \<Longrightarrow> same_at t' m (snd (thin_role reach now mo t m))"
    by (auto simp: thin_role_def stepDownChild_def Let_def intro: retireRole_other same_at_put_other split: option.split)
  assume s: "same_at t m m'"
  note d = same_atD [OF s]
  show "fst (thin_role reach now mo t m') = fst (thin_role reach now mo t m)"
    unfolding thin_role_def d using stepDownChild_same(1) [OF s] by (simp split: option.split)
  show "same_at t (snd (thin_role reach now mo t m)) (snd (thin_role reach now mo t m'))"
    unfolding thin_role_def d using stepDownChild_same(2) [OF s] same_at_put [OF s] s by (simp split: option.split)
qed

text \<open>The lease sweep has no outputs.\<close>

lemma standbyLeaseSweep_sweep: "standbyLeaseSweep now mo m = snd (topic_sweep (\<lambda>t m. ([], lapse_role now mo t m)) (lm_backups m) m)"
proof -
  have "fold (lapse_role now mo) ts m = snd (topic_sweep (\<lambda>t m. ([], lapse_role now mo t m)) ts m)" for ts
    by (induction ts arbitrary: m) auto
  then show ?thesis by (simp add: standbyLeaseSweep_def)
qed

definition lapsed_role :: "int \<Rightarrow> int \<Rightarrow> string option \<Rightarrow> int \<Rightarrow> string option \<Rightarrow> lman \<Rightarrow> lman" where
  "lapsed_role mo t rt ep up m = (let m2 = retireBackup t (snd (leftWrite mo t rt ep up m)) in
     case mget (lm_roles m2) t of None \<Rightarrow> m2
     | Some r2 \<Rightarrow> put_role t (r2\<lparr>lr_standbyGen := None\<rparr>) (m2\<lparr>lm_standbyLapsed := lm_standbyLapsed m2 + 1\<rparr>))"

lemma lapsed_role_same:
  assumes "same_at t m m'"
  shows "same_at t (lapsed_role mo t rt ep up m) (lapsed_role mo t rt ep up m')"
proof -
  have l: "same_at t (retireBackup t (snd (leftWrite mo t rt ep up m))) (retireBackup t (snd (leftWrite mo t rt ep up m')))"
    using assms by (intro retireBackup_same) simp
  show ?thesis unfolding lapsed_role_def Let_def same_atD(1) [OF l] using l by (auto intro!: same_at_put split: option.split)
qed

lemma lapse_role_eq:
  "mget (lm_roles x) t = Some r \<Longrightarrow> lapse_role now mo t x = (case lr_backupOf r of None \<Rightarrow> x | Some prin \<Rightarrow>
    if isRoot r \<or> now - lr_lastReplicaAt r \<le> STANDBY_LEASE_MS \<or> cache r \<noteq> [] \<or> custodyAlive r now then x
    else (case lr_standbyGen r of None \<Rightarrow> lapsed_role mo t (Some prin) 0 (Some prin) x
      | Some g \<Rightarrow> lapsed_role mo t (Some (fst g)) (snd g) (Some prin) x))"
  by (auto simp: lapse_role_def lapsed_role_def Let_def split: option.split)

interpretation lapse: topic_step "\<lambda>t m. ([], lapse_role now mo t m)" for now mo
proof
  fix t t' :: int and m m' :: lman
  show "t' \<noteq> t \<Longrightarrow> same_at t' m (snd ([], lapse_role now mo t m))"
    by (auto simp: lapse_role_def Let_def intro!: same_at_put_other retireBackup_other split: option.split)
  assume s: "same_at t m m'"
  note d = same_atD [OF s]
  show "fst ([]::lout list, lapse_role now mo t m') = fst ([], lapse_role now mo t m)" by simp
  show "same_at t (snd ([], lapse_role now mo t m)) (snd ([], lapse_role now mo t m'))"
  proof (cases "mget (lm_roles m) t")
    case (Some r)
    show ?thesis using lapse_role_eq [of m t r now mo] lapse_role_eq [of m' t r now mo] Some d(1) s lapsed_role_same [OF s]
      by (simp split: option.split)
  qed (use s d(1) in \<open>simp add: lapse_role_def\<close>)
qed
end
