(* ===== verification/LifetimeRuns.thy ===== *)
theory LifetimeRuns
  imports LifetimeLaws
begin

text \<open>
  What the lifetime rules guarantee. A tick is reduced to what it does at one topic; from that follow
  that a topic in use survives every tick, that an idle one ends after four ticks with its seats told, that a branch steps down only
  without custody, that a generation left behind is not re-entered, and that the principal of a backup moves up the election order.
\<close>

text \<open>Sample states for the witnesses: a root of topic 7 with one seat and one replica, a relay of topic 7 under the parent \<open>cc\<close>, a
  backup of the root \<open>cc\<close> at epoch 2, and frames that name a generation.\<close>

definition sample_root :: "seat_kind \<Rightarrow> lman" where
  "sample_root k = put_role 7 ((new_lrole 1 7 True 0)\<lparr>lr_subs := [(''bb'', \<lparr>se_kind = k, se_demand = 1\<rparr>)], lr_replicas := [''dd''], lr_epoch := 1\<rparr>)
     (new_lman ''aa'' True False)"

definition sample_relay :: lman where
  "sample_relay = put_role 7 ((new_lrole 2 7 False 0)\<lparr>lr_subs := [(''bb'', \<lparr>se_kind = Reader, se_demand = 1\<rparr>)], lr_thinSince := Some 100,
     cache := [\<lparr>ce_msgId = ''m'', ce_json = None, ce_ts = 1, ce_bytes = 80\<rparr>], cacheIds := {''m''}, lr_upstreamHeld := Some {''m''}\<rparr>)
     ((new_lman ''aa'' True False)\<lparr>lm_upstream := [(7, [''cc''])]\<rparr>)"

definition sample_gen :: "string \<Rightarrow> int \<Rightarrow> js" where
  "sample_gen r e = JObj [(''root'', JStr r), (''epoch'', jint e)]"

definition sample_backup :: lman where
  "sample_backup = snd (onReplicateGrant 1000 1000 3 7 (Some ''cc'') (sample_gen ''cc'' 2) (Some 990) (new_lman ''aa'' True False))"

section \<open>A tick at one topic\<close>

definition lman_ok :: "lman \<Rightarrow> bool" where
  "lman_ok m \<longleftrightarrow> minvar (lm_roles m) \<and> distinct (lm_backups m)"

definition pruned :: "lrole \<Rightarrow> lrole" where
  "pruned r = (case lr_upstreamHeld r of None \<Rightarrow> r | Some held \<Rightarrow> r\<lparr>lr_upstreamHeld := Some (held \<inter> cacheIds r)\<rparr>)"

definition prepared :: "int \<Rightarrow> int \<Rightarrow> lman \<Rightarrow> lman" where
  "prepared now mo m = (let m1 = leftPrune mo (wallJumpCheck now mo m) in
     metadataPrune (m1\<lparr>lm_childCooldown := filter (\<lambda>(h, u). u > now) (lm_childCooldown m1)\<rparr>))"

lemma metadataPrune_roles: "lm_roles (metadataPrune m) = map (\<lambda>(t, r). (t, pruned r)) (lm_roles m)"
  by (auto simp: metadataPrune_def pruned_def)

lemma wallJumpCheck_roles [simp]:
  "lm_roles (wallJumpCheck now mo m) = lm_roles m" "lm_backups (wallJumpCheck now mo m) = lm_backups m"
  by (simp_all add: wallJumpCheck_def split: option.split prod.split)

lemma prepared_roles:
  "lm_roles (prepared now mo m) = map (\<lambda>(t, r). (t, pruned r)) (lm_roles m)" "lm_backups (prepared now mo m) = lm_backups m"
  by (simp_all add: prepared_def metadataPrune_roles leftPrune_def Let_def) (simp add: metadataPrune_def)

lemma prepared_same: "mget (lm_roles m) t = None \<or> True \<Longrightarrow>
  lm_me (prepared now mo m) = lm_me m \<and> lm_app (prepared now mo m) = lm_app m \<and> lm_hosted (prepared now mo m) = lm_hosted m \<and>
  standingLease (prepared now mo m) = standingLease m \<and> dropMs (prepared now mo m) = dropMs m \<and>
  lm_upstream (prepared now mo m) = lm_upstream m \<and> lm_attach (prepared now mo m) = lm_attach m \<and>
  childMinReaders (prepared now mo m) = childMinReaders m \<and> childStepDownMs (prepared now mo m) = childStepDownMs m \<and>
  childMinStayMs (prepared now mo m) = childMinStayMs m \<and> topicLifetime (prepared now mo m) = topicLifetime m"
  by (simp add: prepared_def metadataPrune_def leftPrune_def wallJumpCheck_def Let_def split: option.split prod.split)

lemma prepared_get: "mget (lm_roles (prepared now mo m)) t = map_option pruned (mget (lm_roles m) t)"
  by (simp add: prepared_roles map_of_map)

text \<open>The steps keep the shape of the manager.\<close>

lemma retireBackup_ok: "lman_ok m \<Longrightarrow> lman_ok (retireBackup t m)"
  by (auto simp: retireBackup_def lman_ok_def split: option.split)

lemma retireRole_ok: "lman_ok m \<Longrightarrow> lman_ok (retireRole t m)"
  by (auto simp: retireRole_def lman_ok_def)

lemma put_role_ok: "lman_ok m \<Longrightarrow> lman_ok (put_role t r m)"
  by (auto simp: lman_ok_def)

lemma lman_ok_frame [simp]:
  "lman_ok (m\<lparr>lm_left := x1\<rparr>) = lman_ok m" "lman_ok (m\<lparr>lm_genHighWater := x2\<rparr>) = lman_ok m"
  "lman_ok (m\<lparr>lm_terminated := x3\<rparr>) = lman_ok m" "lman_ok (m\<lparr>lm_steppedDown := x3\<rparr>) = lman_ok m"
  "lman_ok (m\<lparr>lm_standbyLapsed := x3\<rparr>) = lman_ok m"
  by (simp_all add: lman_ok_def)

lemma leftWrite_ok [simp]: "lman_ok (snd (leftWrite mo t rt ep up m)) = lman_ok m"
  by (auto simp: leftWrite_def Let_def split: option.split)

lemma lapse_ok: "lman_ok m \<Longrightarrow> lman_ok (lapse_role now mo t m)"
  by (auto simp: lapse_role_def Let_def intro!: put_role_ok retireBackup_ok split: option.split)

lemma terminateStep_ok: "lman_ok m \<Longrightarrow> lman_ok (snd (terminateStep mo t m))"
  by (auto simp: terminateStep_def Let_def intro!: put_role_ok retireBackup_ok retireRole_ok split: option.split)

lemma terminate_ok: "lman_ok m \<Longrightarrow> lman_ok (snd (terminate_role now mo t m))"
  by (auto simp: terminate_role_def intro!: put_role_ok terminateStep_ok split: option.split)

lemma thin_ok: "lman_ok m \<Longrightarrow> lman_ok (snd (thin_role reach now mo t m))"
  by (auto simp: thin_role_def stepDownChild_def Let_def intro!: put_role_ok retireRole_ok split: option.split)

lemma sweep_ok: "(\<And>t m. lman_ok m \<Longrightarrow> lman_ok (snd (f t m))) \<Longrightarrow> lman_ok m \<Longrightarrow> lman_ok (snd (topic_sweep f ts m))"
  by (induction ts arbitrary: m) auto

lemma prepared_ok: "lman_ok m \<Longrightarrow> lman_ok (prepared now mo m)"
  by (simp add: lman_ok_def prepared_roles)

definition lapse_at :: "int \<Rightarrow> int \<Rightarrow> int \<Rightarrow> lman \<Rightarrow> lman" where
  "lapse_at now mo t m = (if t \<in> set (lm_backups m) then lapse_role now mo t m else m)"

definition after_lapse :: "int \<Rightarrow> int \<Rightarrow> lman \<Rightarrow> lman" where
  "after_lapse now mo m = standbyLeaseSweep now mo (prepared now mo m)"

definition after_term :: "int \<Rightarrow> int \<Rightarrow> lman \<Rightarrow> lman" where
  "after_term now mo m = snd (terminationSweep now mo (after_lapse now mo m))"

lemma tick_unfold:
  "topicLifetime m \<Longrightarrow> lifetimeTick reach now mo m =
    (fst (terminationSweep now mo (after_lapse now mo m)) @ fst (thinBranchSweep reach now mo (after_term now mo m)),
     snd (thinBranchSweep reach now mo (after_term now mo m)))"
  by (simp add: lifetimeTick_def after_term_def after_lapse_def prepared_def Let_def split_def)

lemma after_lapse_at:
  assumes "lman_ok m"
  shows "same_at t (lapse_at now mo t (prepared now mo m)) (after_lapse now mo m)" and "lman_ok (after_lapse now mo m)"
proof -
  have d: "distinct (lm_backups (prepared now mo m))" using prepared_ok [OF assms] by (simp add: lman_ok_def)
  show "same_at t (lapse_at now mo t (prepared now mo m)) (after_lapse now mo m)"
    using lapse.sweep_at [OF d, of t now mo "prepared now mo m"] lapse.sweep_other [of t _ "prepared now mo m" now mo]
    by (auto simp: lapse_at_def after_lapse_def standbyLeaseSweep_sweep)
  show "lman_ok (after_lapse now mo m)"
    unfolding after_lapse_def standbyLeaseSweep_sweep by (rule sweep_ok) (simp_all add: lapse_ok prepared_ok assms)
qed

lemma idle_without_role:
  "mget (lm_roles m) t = None \<Longrightarrow> terminate_role now mo t m = ([], m) \<and> thin_role reach now mo t m = ([], m)"
  by (simp add: terminate_role_def thin_role_def)

lemma term_sweep_at:
  assumes "lman_ok m"
  shows "same_at t (snd (terminate_role now mo t m)) (snd (terminationSweep now mo m))"
proof (cases "t \<in> set (mkeys (lm_roles m))")
  case True
  then show ?thesis using trm.sweep_at [of "mkeys (lm_roles m)" t now mo m] assms
    by (simp add: terminationSweep_def lman_ok_def minvar_def)
next
  case False
  then show ?thesis using trm.sweep_other [OF False, of m now mo] idle_without_role [of m t now mo]
    by (simp add: terminationSweep_def mget_None_iff)
qed

lemma thin_sweep_at:
  assumes "lman_ok m"
  shows "same_at t (snd (thin_role reach now mo t m)) (snd (thinBranchSweep reach now mo m))"
proof (cases "t \<in> set (mkeys (lm_roles m))")
  case True
  then show ?thesis using thin.sweep_at [of "mkeys (lm_roles m)" t reach now mo m] assms
    by (simp add: thinBranchSweep_def lman_ok_def minvar_def)
next
  case False
  then show ?thesis using thin.sweep_other [OF False, of m reach now mo] idle_without_role [of m t now mo reach]
    by (simp add: thinBranchSweep_def mget_None_iff)
qed

lemma after_term_ok: "lman_ok m \<Longrightarrow> lman_ok (after_term now mo m)"
  unfolding after_term_def terminationSweep_def by (rule sweep_ok) (simp_all add: terminate_ok after_lapse_at)

lemma tick_ok: "lman_ok m \<Longrightarrow> lman_ok (snd (lifetimeTick reach now mo m))"
proof (cases "topicLifetime m")
  case True
  assume "lman_ok m"
  then show ?thesis unfolding tick_unfold [OF True] snd_conv thinBranchSweep_def
    by (intro sweep_ok) (simp_all add: thin_ok after_term_ok)
qed (simp add: lifetimeTick_def)

text \<open>The outputs of a tick that concern one topic.\<close>

definition out_topic :: "lout \<Rightarrow> int" where
  "out_topic x = (case x of SendTerminated h t g \<Rightarrow> t | SendRehome h t u g \<Rightarrow> t | SendUnsubStepped t u \<Rightarrow> t
     | AppTerminated t g \<Rightarrow> t | FastRenewal t \<Rightarrow> t | SendSubscribe t \<Rightarrow> t)"

lemma terminate_out: "x \<in> set (fst (terminate_role now mo t m)) \<Longrightarrow> out_topic x = t \<and> (\<exists>h g. x = SendTerminated h t g)"
  by (auto simp: terminate_role_def terminateStep_def Let_def out_topic_def split: option.splits if_splits)

lemma thin_out: "x \<in> set (fst (thin_role reach now mo t m)) \<Longrightarrow> out_topic x = t \<and> (\<forall>h g. x \<noteq> SendTerminated h t g)"
  by (auto simp: thin_role_def stepDownChild_def Let_def out_topic_def split: option.splits if_splits)

lemma tick_out:
  assumes "lman_ok m" and "topicLifetime m" and "out_topic x = t"
  shows "x \<in> set (fst (lifetimeTick reach now mo m)) \<longleftrightarrow>
    x \<in> set (fst (terminate_role now mo t (after_lapse now mo m))) \<or> x \<in> set (fst (thin_role reach now mo t (after_term now mo m)))"
proof -
  have d: "distinct (mkeys (lm_roles (after_lapse now mo m)))" "distinct (mkeys (lm_roles (after_term now mo m)))"
    using after_lapse_at(2) [OF assms(1)] after_term_ok [OF assms(1)] by (simp_all add: lman_ok_def minvar_def)
  have "x \<in> set (fst (terminationSweep now mo (after_lapse now mo m))) \<longleftrightarrow> x \<in> set (fst (terminate_role now mo t (after_lapse now mo m)))"
    unfolding terminationSweep_def trm.sweep_out [OF d(1)] using terminate_out idle_without_role assms(3)
    by (metis empty_iff fst_conv list.set(1) mget_None_iff)
  moreover have "x \<in> set (fst (thinBranchSweep reach now mo (after_term now mo m))) \<longleftrightarrow> x \<in> set (fst (thin_role reach now mo t (after_term now mo m)))"
    unfolding thinBranchSweep_def thin.sweep_out [OF d(2)] using thin_out idle_without_role assms(3)
    by (metis empty_iff fst_conv list.set(1) mget_None_iff)
  ultimately show ?thesis by (simp add: tick_unfold [OF assms(2)])
qed

section \<open>A topic in use, an idle topic\<close>

text \<open>What is left of a root by the preparation and the lease sweep: everything but the custody evidence of a child.\<close>

lemma pruned_sel [simp]:
  "isRoot (pruned r) = isRoot r" "dismantling (pruned r) = dismantling r" "cache (pruned r) = cache r" "lr_subs (pruned r) = lr_subs r"
  "lr_sends (pruned r) = lr_sends r" "lr_replicas (pruned r) = lr_replicas r" "lr_epoch (pruned r) = lr_epoch r" "gen (pruned r) = gen r"
  "tombstones (pruned r) = tombstones r" "lr_backupOf (pruned r) = lr_backupOf r" "lr_lastReplicaAt (pruned r) = lr_lastReplicaAt r"
  "lr_thinSince (pruned r) = lr_thinSince r" "lr_createdAt (pruned r) = lr_createdAt r" "custodyOpen (pruned r) now = custodyOpen r now"
  "roleDemand (pruned r) = roleDemand r" "noticeTargets m (pruned r) = noticeTargets m r" "heldOpen now t (pruned r) m = heldOpen now t r m"
  "relay_seats m (pruned r) = relay_seats m r" "genOf m (pruned r) = genOf m r"
  by (simp_all add: pruned_def custodyOpen_def roleDemand_def noticeTargets_def heldOpen_def standingLeased_def relay_seats_def genOf_def
      split: option.split)

lemma root_after_lapse:
  assumes ok: "lman_ok m" and r: "mget (lm_roles m) t = Some r" "isRoot r"
  shows "mget (lm_roles (after_lapse now mo m)) t = Some (pruned r)"
    and "heldOpen now t r (after_lapse now mo m) = heldOpen now t r m"
    and "noticeTargets (after_lapse now mo m) r = noticeTargets m r" "genOf (after_lapse now mo m) r = genOf m r"
    and "topicLifetime (after_lapse now mo m) = topicLifetime m"
proof -
  have p: "mget (lm_roles (prepared now mo m)) t = Some (pruned r)" using r(1) by (simp add: prepared_get)
  have "lapse_at now mo t (prepared now mo m) = prepared now mo m"
    using p r(2) by (simp add: lapse_at_def lapse_role_def split: option.split)
  then have s: "same_at t (prepared now mo m) (after_lapse now mo m)" using after_lapse_at(1) [OF ok, of t now mo] by simp
  note d = same_atD [OF s] and q = prepared_same [of m t now mo, simplified]
  show "mget (lm_roles (after_lapse now mo m)) t = Some (pruned r)" using d(1) p by simp
  show "heldOpen now t r (after_lapse now mo m) = heldOpen now t r m"
    using d q by (simp add: heldOpen_def standingLeased_def has_sub_def)
  show "noticeTargets (after_lapse now mo m) r = noticeTargets m r" "genOf (after_lapse now mo m) r = genOf m r"
    using d q by (simp_all add: noticeTargets_def genOf_def)
  show "topicLifetime (after_lapse now mo m) = topicLifetime m" using d q by simp
qed

lemma root_not_thin:
  "mget (lm_roles m) t = Some r \<Longrightarrow> isRoot r \<Longrightarrow> thin_role reach now mo t m = ([], m)"
  by (simp add: thin_role_def)

lemma after_term_at: "lman_ok m \<Longrightarrow> same_at t (snd (terminate_role now mo t (after_lapse now mo m))) (after_term now mo m)"
  unfolding after_term_def by (rule term_sweep_at [OF after_lapse_at(2)])

text \<open>A root keeps its place in a tick exactly as \<open>terminate_role\<close> says; the rest of the tick leaves it alone.\<close>

lemma root_tick:
  assumes ok: "lman_ok m" and arm: "topicLifetime m" and r: "mget (lm_roles m) t = Some r" "isRoot r"
    and r2: "mget (lm_roles (snd (terminate_role now mo t (after_lapse now mo m)))) t = x" "\<And>r'. x = Some r' \<Longrightarrow> isRoot r'"
  shows "mget (lm_roles (snd (lifetimeTick reach now mo m))) t = x"
    and "topicLifetime (snd (lifetimeTick reach now mo m))"
    and "out_topic y = t \<Longrightarrow> y \<in> set (fst (lifetimeTick reach now mo m)) \<longleftrightarrow> y \<in> set (fst (terminate_role now mo t (after_lapse now mo m)))"
proof -
  note st = same_atD [OF after_term_at [OF ok, of t now mo]]
  have x: "mget (lm_roles (after_term now mo m)) t = x" using st(1) r2(1) by simp
  have thin: "thin_role reach now mo t (after_term now mo m) = ([], after_term now mo m)"
    using x r2(2) by (cases x) (simp_all add: idle_without_role root_not_thin)
  have s: "same_at t (after_term now mo m) (snd (lifetimeTick reach now mo m))"
    using thin_sweep_at [OF after_term_ok [OF ok], of t reach now mo now mo] by (simp add: tick_unfold [OF arm] thin)
  show "mget (lm_roles (snd (lifetimeTick reach now mo m))) t = x" using same_atD(1) [OF s] x by simp
  have "topicLifetime (snd (terminate_role now mo t (after_lapse now mo m))) = topicLifetime (after_lapse now mo m)"
    using trm.other [of "t + 1" t "after_lapse now mo m" now mo] by (simp add: same_at_def)
  then show "topicLifetime (snd (lifetimeTick reach now mo m))"
    using same_atD(13) [OF s] st(13) root_after_lapse(5) [OF ok r, of now mo] arm by simp
  show "out_topic y = t \<Longrightarrow> y \<in> set (fst (lifetimeTick reach now mo m)) \<longleftrightarrow> y \<in> set (fst (terminate_role now mo t (after_lapse now mo m)))"
    using tick_out [OF ok arm, of y t reach now mo] thin by simp
qed

lemma retired_gone: "mget (lm_roles (retireRole t m)) t = None"
  by (simp add: retireRole_def)

text \<open>A termination that has begun takes its next step in every tick.\<close>

lemma dismantling_tick:
  assumes ok: "lman_ok m" and arm: "topicLifetime m" and r: "mget (lm_roles m) t = Some r" "isRoot r" "dismantling r"
  shows "mget (lm_roles (snd (lifetimeTick reach now mo m))) t = Some r' \<Longrightarrow>
      isRoot r' \<and> dismantling r' \<and> lr_sends r' = lr_sends r + 1 \<and> lr_sends r < TOPIC_TERMINATE_TRIES"
    and "topicLifetime (snd (lifetimeTick reach now mo m))"
proof -
  note l = root_after_lapse [OF ok r(1,2), of now mo]
  define y where "y = mget (lm_roles (snd (terminate_role now mo t (after_lapse now mo m)))) t"
  have step: "terminate_role now mo t (after_lapse now mo m) = terminateStep mo t (after_lapse now mo m)"
    using l(1) r by (simp add: terminate_role_def)
  have "y = None \<or> (lr_sends r < TOPIC_TERMINATE_TRIES \<and> y = Some ((pruned r)\<lparr>lr_sends := lr_sends r + 1\<rparr>))"
    unfolding y_def step terminateStep_def l(1) by (simp add: Let_def retired_gone)
  then have y: "\<And>r'. y = Some r' \<Longrightarrow> isRoot r' \<and> dismantling r' \<and> lr_sends r' = lr_sends r + 1 \<and> lr_sends r < TOPIC_TERMINATE_TRIES"
    using r by auto
  note t = root_tick [OF ok arm r(1,2) y_def [symmetric], where reach = reach]
  show "mget (lm_roles (snd (lifetimeTick reach now mo m))) t = Some r' \<Longrightarrow>
      isRoot r' \<and> dismantling r' \<and> lr_sends r' = lr_sends r + 1 \<and> lr_sends r < TOPIC_TERMINATE_TRIES"
    using t(1) y by metis
  show "topicLifetime (snd (lifetimeTick reach now mo m))" using t(2) y by blast
qed

text \<open>C7. A tick never begins to end a topic that is in use. While a root whose termination has not begun holds a message, an exchange or a pin
  is open, the node itself subscribes to or hosts the topic, a metrics or standing lease runs, a reader or a child with readers is seated,
  or the last demand is at most \<open>dropMs\<close> old, the tick leaves the role in place with its messages, deletions and seats, does not move its
  generation (so that writes in flight still commit), and announces no termination of the topic. Use that comes after the termination
  has begun does not stop it: the role is closed to writes, and a tick of an armed node counts one more round of notices or removes it.\<close>

theorem topic_in_use_survives:
  assumes "lman_ok m" and "mget (lm_roles m) t = Some r" and "isRoot r"
    and use: "cache r \<noteq> [] \<or> custodyOpen r now \<or> has_sub m t \<or> t \<in> lm_hosted m \<or> lasts_past (lr_metricsOn r) now \<or>
      (standingLease m \<and> lasts_past (lr_standingUntil r) now) \<or> roleDemand r > 0 \<or>
      now - (case lr_lastDemandAt r of Some a \<Rightarrow> a | None \<Rightarrow> lr_createdAt r) \<le> dropMs m"
  shows "if \<not> dismantling r then
      (\<exists>r'. mget (lm_roles (snd (lifetimeTick reach now mo m))) t = Some r' \<and> isRoot r' \<and> \<not> dismantling r' \<and> gen r' = gen r \<and>
        cache r' = cache r \<and> tombstones r' = tombstones r \<and> lr_subs r' = lr_subs r) \<and>
      (\<forall>h g. SendTerminated h t g \<notin> set (fst (lifetimeTick reach now mo m)))
    else topicLifetime m \<longrightarrow> (\<forall>r'. mget (lm_roles (snd (lifetimeTick reach now mo m))) t = Some r' \<longrightarrow>
      dismantling r' \<and> lr_sends r' = lr_sends r + 1 \<and> (\<forall>live c. \<not> cutHolds live (role.truncate r') c))"
proof (cases "topicLifetime m \<and> \<not> dismantling r")
  case False
  have "\<not> cutHolds live (role.truncate r') c" if "dismantling r'" for live c and r' :: lrole
    using that by (simp add: cutHolds_def role.truncate_def)
  then show ?thesis using False assms dismantling_tick(1) [OF assms(1) _ assms(2,3)] by (auto simp: lifetimeTick_def)
next
  case True
  then have arm: "topicLifetime m" and nd: "\<not> dismantling r" by simp_all
  note l = root_after_lapse [OF assms(1-3), of now mo]
  have h: "heldOpen now t r m" using use by (auto simp: heldOpen_def standingLeased_def)
  have step: "terminate_role now mo t (after_lapse now mo m) = ([], after_lapse now mo m)"
    using l(1,2) assms(3) nd h by (simp add: terminate_role_def)
  have x: "mget (lm_roles (snd (terminate_role now mo t (after_lapse now mo m)))) t = Some (pruned r)" using l(1) by (simp add: step)
  note t = root_tick [OF assms(1) arm assms(2,3) x, where reach = reach]
  have "SendTerminated h t g \<notin> set (fst (lifetimeTick reach now mo m))" for h g
    using t(3) [of "SendTerminated h t g"] assms(3) by (simp add: step out_topic_def)
  moreover have "mget (lm_roles (snd (lifetimeTick reach now mo m))) t = Some (pruned r)" using t(1) assms(3) by simp
  ultimately show ?thesis using assms(3) nd by auto
qed

theorem topic_in_use_survives_witness:
  "\<exists>r'. mget (lm_roles (snd (lifetimeTick (\<lambda>_. True) 500000 500000 (sample_root Reader)))) 7 = Some r' \<and> isRoot r'"
proof -
  have "lman_ok (sample_root Reader)" by (simp add: lman_ok_def sample_root_def new_lman_def minvar_def)
  moreover obtain r where r: "mget (lm_roles (sample_root Reader)) 7 = Some r" "isRoot r" "\<not> dismantling r" "roleDemand r = 1"
    by (simp add: sample_root_def new_lrole_def roleDemand_def seat_demand_def)
  ultimately show ?thesis using topic_in_use_survives [of "sample_root Reader" 7 r 500000 "\<lambda>_. True" 500000] by (auto simp: r(3))
qed

text \<open>A root that is being dismantled.\<close>

definition ending :: "int \<Rightarrow> nat \<Rightarrow> lman \<Rightarrow> bool" where
  "ending t k m \<longleftrightarrow> topicLifetime m \<and> lman_ok m \<and> (case mget (lm_roles m) t of None \<Rightarrow> True
     | Some r \<Rightarrow> isRoot r \<and> dismantling r \<and> lr_sends r \<le> TOPIC_TERMINATE_TRIES \<and> TOPIC_TERMINATE_TRIES - lr_sends r < k)"

lemma retireBackup_get: "mget (lm_roles (retireBackup t m)) t' = None \<longleftrightarrow> mget (lm_roles m) t' = None"
  by (auto simp: retireBackup_def split: option.split)

lemma ending_no_role:
  assumes "ending t k m" and "mget (lm_roles m) t = None"
  shows "topicLifetime (snd (lifetimeTick reach now mo m)) \<and> mget (lm_roles (snd (lifetimeTick reach now mo m))) t = None"
proof -
  have ok: "lman_ok m" and arm: "topicLifetime m" using assms(1) by (auto simp: ending_def)
  have p: "mget (lm_roles (prepared now mo m)) t = None" using assms(2) by (simp add: prepared_get)
  have "same_at t (prepared now mo m) (after_lapse now mo m)"
    using after_lapse_at(1) [OF ok, of t now mo] p by (simp add: lapse_at_def lapse_role_def split: if_splits)
  note l = same_atD [OF this]
  have a: "mget (lm_roles (after_lapse now mo m)) t = None" "topicLifetime (after_lapse now mo m)"
    using l p prepared_same [of m t now mo] arm by simp_all
  have "same_at t (after_lapse now mo m) (after_term now mo m)"
    using after_term_at [OF ok, of t now mo] idle_without_role [OF a(1), of now mo] by simp
  note b = same_atD [OF this]
  have "same_at t (after_term now mo m) (snd (lifetimeTick reach now mo m))"
    using thin_sweep_at [OF after_term_ok [OF ok], of t reach now mo now mo] idle_without_role [of "after_term now mo m" t now mo reach] b(1) a(1)
    by (simp add: tick_unfold [OF arm])
  note c = same_atD [OF this]
  show ?thesis using a b c by simp
qed

lemma ending_tick:
  assumes "ending t (Suc k) m"
  shows "ending t k (snd (lifetimeTick reach now mo m))"
proof (cases "mget (lm_roles m) t")
  case None
  then show ?thesis using ending_no_role [OF assms None, of reach now mo] assms tick_ok by (simp add: ending_def)
next
  case (Some r)
  have ok: "lman_ok m" and arm: "topicLifetime m" and r: "isRoot r" "dismantling r" "TOPIC_TERMINATE_TRIES - lr_sends r < Suc k"
    using assms Some by (auto simp: ending_def)
  note d = dismantling_tick [OF ok arm Some r(1,2)]
  show ?thesis using d(1) [of reach now mo] d(2) [of reach now mo] r(3) tick_ok [OF ok, of reach now mo]
    by (fastforce simp: ending_def split: option.split)
qed

definition run_ticks :: "(string \<Rightarrow> bool) \<Rightarrow> (int \<times> int) list \<Rightarrow> lman \<Rightarrow> lman" where
  "run_ticks reach ts m = fold (\<lambda>(now, mo) m. snd (lifetimeTick reach now mo m)) ts m"

lemma run_ticks_simps [simp]:
  "run_ticks reach [] m = m" "run_ticks reach ((now, mo) # ts) m = run_ticks reach ts (snd (lifetimeTick reach now mo m))"
  by (simp_all add: run_ticks_def)

lemma ending_run: "ending t k m \<Longrightarrow> length ts \<le> k \<Longrightarrow> ending t (k - length ts) (run_ticks reach ts m)"
proof (induction ts arbitrary: k m)
  case (Cons a ts)
  obtain now mo k' where [simp]: "a = (now, mo)" "k = Suc k'" using Cons.prems(2) by (cases a; cases k) auto
  show ?case using Cons.IH [OF ending_tick [of t k' m reach now mo]] Cons.prems by simp
qed simp

text \<open>C6. An idle topic ends. When nothing holds the topic of a root open, the next tick tells every seat and replica that this generation ends and closes the role to
  writes (no commit, captured before or after, passes the cut), and when three more ticks have run, and nothing else has, the role is gone, whatever seats
  it has and whatever the clocks read.\<close>

theorem idle_topic_ends:
  assumes "lman_ok m" and "topicLifetime m" and "mget (lm_roles m) t = Some r" and "isRoot r" and "\<not> dismantling r"
    and "\<not> heldOpen now t r m" and "length ts = TOPIC_TERMINATE_TRIES"
  shows "(\<forall>h \<in> set (noticeTargets m r). SendTerminated h t (genOf m r) \<in> set (fst (lifetimeTick reach now mo m))) \<and>
    (\<forall>r' live c. mget (lm_roles (snd (lifetimeTick reach now mo m))) t = Some r' \<longrightarrow> \<not> cutHolds live (role.truncate r') c) \<and>
    mget (lm_roles (run_ticks reach ((now, mo) # ts) m)) t = None"
proof -
  note l = root_after_lapse [OF assms(1,3,4), of now mo]
  define ml where "ml = after_lapse now mo m"
  define rd where "rd = (pruned r)\<lparr>dismantling := True, lr_dism_at := now, lr_sends := 0, gen := gen (pruned r) + 1\<rparr>"
  define x where "x = mget (lm_roles (snd (terminate_role now mo t ml))) t"
  have step: "terminate_role now mo t ml = terminateStep mo t (put_role t rd ml)"
    using l(1,2) assms(4-6) by (simp add: terminate_role_def ml_def rd_def)
  have nt: "noticeTargets (put_role t rd ml) rd = noticeTargets m r"
    using l(3) by (simp add: noticeTargets_def ml_def rd_def)
  have gn: "genOf (put_role t rd ml) rd = genOf m r"
    using l(4) by (simp add: genOf_def ml_def rd_def)
  have "x = None \<or> x = Some (rd\<lparr>lr_sends := 1\<rparr>)"
    unfolding x_def step terminateStep_def by (simp add: Let_def retired_gone rd_def)
  then have x: "\<And>r'. x = Some r' \<Longrightarrow> isRoot r' \<and> dismantling r' \<and> lr_sends r' = 1" using assms(4) by (auto simp: rd_def)
  note k = root_tick [OF assms(1-4) x_def [unfolded ml_def, symmetric], where reach = reach]
  have gone: "mget (lm_roles (snd (lifetimeTick reach now mo m))) t = x" "topicLifetime (snd (lifetimeTick reach now mo m))"
    using k(1,2) x by blast+
  have out: "SendTerminated h t (genOf m r) \<in> set (fst (lifetimeTick reach now mo m))" if "h \<in> set (noticeTargets m r)" for h
  proof -
    have ne: "noticeTargets m r \<noteq> []" using that by auto
    have "fst (terminate_role now mo t ml) = map (\<lambda>h. SendTerminated h t (genOf m r)) (noticeTargets m r)"
      unfolding step terminateStep_def using ne nt gn by (simp add: rd_def TOPIC_TERMINATE_TRIES_def)
    then show ?thesis using k(3) [of "SendTerminated h t (genOf m r)"] x that by (auto simp: out_topic_def ml_def)
  qed
  have "ending t TOPIC_TERMINATE_TRIES (snd (lifetimeTick reach now mo m))"
    using gone x tick_ok [OF assms(1), of reach now mo] by (auto simp: ending_def TOPIC_TERMINATE_TRIES_def split: option.split)
  from ending_run [OF this, of ts reach] assms(7)
  have "mget (lm_roles (run_ticks reach ((now, mo) # ts) m)) t = None" by (auto simp: ending_def split: option.splits)
  moreover have "\<not> cutHolds live (role.truncate r') c" if "mget (lm_roles (snd (lifetimeTick reach now mo m))) t = Some r'" for r' live c
    using that gone(1) x [of r'] by (simp add: cutHolds_def role.truncate_def)
  ultimately show ?thesis using out by blast
qed

theorem idle_topic_ends_witness:
  "SendTerminated ''bb'' 7 (''aa'', 1) \<in> set (fst (lifetimeTick (\<lambda>_. True) 500000 500000 (sample_root Standby))) \<and>
   mget (lm_roles (run_ticks (\<lambda>_. True) [(500000, 500000), (520000, 520000), (540000, 540000), (560000, 560000)] (sample_root Standby))) 7 = None"
proof -
  let ?m = "sample_root Standby" and ?r = "the (mget (lm_roles (sample_root Standby)) 7)"
  have a: "lman_ok ?m" by (simp add: lman_ok_def sample_root_def new_lman_def minvar_def)
  have b: "topicLifetime ?m" "mget (lm_roles ?m) 7 = Some ?r" "isRoot ?r" "\<not> dismantling ?r"
    by (simp_all add: sample_root_def new_lman_def new_lrole_def)
  have c: "\<not> heldOpen 500000 7 ?r ?m" by code_simp
  have d: "noticeTargets ?m ?r = [''bb'', ''dd'']" "genOf ?m ?r = (''aa'', 1)" by code_simp+
  show ?thesis
    using idle_topic_ends [OF a b c, of "[(520000, 520000), (540000, 540000), (560000, 560000)]" "\<lambda>_. True" 500000] d
    by (simp add: TOPIC_TERMINATE_TRIES_def)
qed

section \<open>A thin branch\<close>

lemma leftWrite_roles [simp]: "lm_roles (snd (leftWrite mo t' rt ep up m)) = lm_roles m"
  by (simp add: leftWrite_def Let_def split: option.split)

lemma retireBackup_own:
  assumes "mget (lm_roles m) t = Some r"
  shows "\<exists>p. mget (lm_roles (retireBackup t m)) t = Some (r\<lparr>lr_backupOf := p\<rparr>)"
proof (cases "lr_backupOf r = None \<and> t \<notin> set (lm_backups m)")
  case True
  have "r = r\<lparr>lr_backupOf := lr_backupOf r\<rparr>" by simp
  then show ?thesis using assms True by (intro exI [of _ "lr_backupOf r"]) (simp add: retireBackup_def)
next
  case False
  then show ?thesis using assms by (intro exI [of _ None]) (auto simp: retireBackup_def)
qed

lemma lapsed_role_own:
  assumes "mget (lm_roles m) t = Some r"
  shows "\<exists>p. mget (lm_roles (lapsed_role mo t rt ep up m)) t = Some (r\<lparr>lr_backupOf := p, lr_standbyGen := None\<rparr>)"
proof -
  obtain p where "mget (lm_roles (retireBackup t (snd (leftWrite mo t rt ep up m)))) t = Some (r\<lparr>lr_backupOf := p\<rparr>)"
    using retireBackup_own [of "snd (leftWrite mo t rt ep up m)" t r] assms by auto
  then show ?thesis by (auto simp: lapsed_role_def Let_def)
qed

lemma lapse_at_own:
  assumes "mget (lm_roles m) t = Some r"
  obtains "lapse_at now mo t m = m" | p where "mget (lm_roles (lapse_at now mo t m)) t = Some (r\<lparr>lr_backupOf := p, lr_standbyGen := None\<rparr>)"
proof (cases "lapse_at now mo t m = m")
  case False
  have "lapse_role now mo t m = m \<or> (\<exists>rt ep up. lapse_role now mo t m = lapsed_role mo t rt ep up m)"
    using lapse_role_eq [OF assms, of now mo] by (auto split: option.splits if_splits)
  then obtain rt ep up where "lapse_at now mo t m = lapsed_role mo t rt ep up m" using False by (auto simp: lapse_at_def split: if_splits)
  moreover obtain p where "mget (lm_roles (lapsed_role mo t rt ep up m)) t = Some (r\<lparr>lr_backupOf := p, lr_standbyGen := None\<rparr>)"
    using lapsed_role_own [OF assms] by blast
  ultimately show ?thesis using that(2) [of p] by simp
qed (rule that)

lemma lapsed_fields:
  assumes "mget (lm_roles m) t = Some r"
  obtains r' where "mget (lm_roles (lapse_at now mo t m)) t = Some r'"
    "isRoot r' = isRoot r" "cache r' = cache r" "lr_subs r' = lr_subs r" "lr_upstreamHeld r' = lr_upstreamHeld r"
    "lr_thinSince r' = lr_thinSince r" "custodyOpen r' now = custodyOpen r now" "lr_createdAt r' = lr_createdAt r"
proof (rule lapse_at_own [OF assms, of now mo])
  assume "lapse_at now mo t m = m"
  with assms show thesis by (intro that [of r]) simp_all
next
  fix p assume p: "mget (lm_roles (lapse_at now mo t m)) t = Some (r\<lparr>lr_backupOf := p, lr_standbyGen := None\<rparr>)"
  show thesis by (rule that [OF p]) (simp_all add: custodyOpen_def split: option.split)
qed

lemma thin_role_removes:
  assumes r: "mget (lm_roles m) t = Some r" and gone: "mget (lm_roles (snd (thin_role reach now mo t m))) t = None"
  obtains up since where "upstreamOf m t = Some up" "up \<noteq> lc (lm_me m)" "reach up"
    "\<forall>c \<in> set (cache r). \<exists>held. lr_upstreamHeld r = Some held \<and> ce_msgId c \<in> held"
    "roleDemand r < childMinReaders m" "lr_thinSince r = Some since"
    "now - since > childStepDownMs m" "now - lr_createdAt r > childMinStayMs m" "\<not> custodyOpen r now"
    "fst (thin_role reach now mo t m) = fst (stepDownChild mo t up m)"
proof -
  have stay: "snd (thin_role reach now mo t m) \<noteq> m" using r gone by auto
  have open1: "\<not> (isRoot r \<or> lr_backupOf r \<noteq> None \<or> t \<in> set (lm_backups m) \<or> lr_readHolder r)" "lr_subs r \<noteq> []"
    using r stay by (auto simp: thin_role_def split: if_splits)
  have d: "\<not> roleDemand r \<ge> childMinReaders m" using r gone open1 by (auto simp: thin_role_def split: if_splits)
  obtain since where since: "lr_thinSince r = Some since" using r gone open1 d by (auto simp: thin_role_def split: if_splits option.splits)
  have t1: "\<not> now - since \<le> childStepDownMs m" "\<not> now - lr_createdAt r \<le> childMinStayMs m"
    using r stay open1 d since by (auto simp: thin_role_def split: if_splits)
  obtain up where up: "upstreamOf m t = Some up" using r stay open1 d since t1 by (auto simp: thin_role_def split: if_splits option.splits)
  have u: "\<not> (up = lc (lm_me m) \<or> \<not> reach up)" using r stay open1 d since t1 up by (auto simp: thin_role_def split: if_splits)
  have c: "\<not> custodyOpen r now" using r stay open1 d since t1 up u by (auto simp: thin_role_def split: if_splits)
  have l: "\<not> list_ex (\<lambda>c. case lr_upstreamHeld r of None \<Rightarrow> True | Some held \<Rightarrow> ce_msgId c \<notin> held) (cache r)"
    using r stay open1 d since t1 up u c by (auto simp: thin_role_def split: if_splits)
  have eq: "thin_role reach now mo t m = stepDownChild mo t up m"
    using r open1 d since t1 up u c l by (simp add: thin_role_def)
  show thesis
    by (rule that [OF up _ _ _ _ since _ _ c]) (use d t1 u l eq in \<open>auto simp: list_ex_iff split: option.splits\<close>)
qed

lemma lapse_at_config:
  "lm_me (lapse_at now mo t m) = lm_me m \<and> lm_upstream (lapse_at now mo t m) = lm_upstream m \<and> lm_attach (lapse_at now mo t m) = lm_attach m \<and>
   childMinReaders (lapse_at now mo t m) = childMinReaders m \<and> childStepDownMs (lapse_at now mo t m) = childStepDownMs m \<and>
   childMinStayMs (lapse_at now mo t m) = childMinStayMs m"
proof -
  have w: "lm_me (snd (leftWrite mo t rt ep up m)) = lm_me m \<and> lm_upstream (snd (leftWrite mo t rt ep up m)) = lm_upstream m \<and>
     lm_attach (snd (leftWrite mo t rt ep up m)) = lm_attach m \<and> childMinReaders (snd (leftWrite mo t rt ep up m)) = childMinReaders m \<and>
     childStepDownMs (snd (leftWrite mo t rt ep up m)) = childStepDownMs m \<and> childMinStayMs (snd (leftWrite mo t rt ep up m)) = childMinStayMs m" for rt ep up
    by (simp add: leftWrite_def Let_def split: option.split)
  have b: "lm_me (retireBackup t x) = lm_me x \<and> lm_upstream (retireBackup t x) = lm_upstream x \<and> lm_attach (retireBackup t x) = lm_attach x \<and>
     childMinReaders (retireBackup t x) = childMinReaders x \<and> childStepDownMs (retireBackup t x) = childStepDownMs x \<and>
     childMinStayMs (retireBackup t x) = childMinStayMs x" for x
    by (simp add: retireBackup_def split: option.split)
  have l: "lm_me (lapsed_role mo t rt ep up m) = lm_me m \<and> lm_upstream (lapsed_role mo t rt ep up m) = lm_upstream m \<and>
     lm_attach (lapsed_role mo t rt ep up m) = lm_attach m \<and> childMinReaders (lapsed_role mo t rt ep up m) = childMinReaders m \<and>
     childStepDownMs (lapsed_role mo t rt ep up m) = childStepDownMs m \<and> childMinStayMs (lapsed_role mo t rt ep up m) = childMinStayMs m" for rt ep up
    using w b by (simp add: lapsed_role_def Let_def split: option.split)
  show ?thesis
  proof (cases "mget (lm_roles m) t")
    case None
    then show ?thesis by (simp add: lapse_at_def lapse_role_def)
  next
    case (Some r)
    then show ?thesis using l by (simp add: lapse_at_def lapse_role_eq [OF Some] split: option.split)
  qed
qed

lemma term_nonroot: "mget (lm_roles m) t = Some r \<Longrightarrow> \<not> isRoot r \<Longrightarrow> terminate_role now mo t m = ([], m)"
  by (simp add: terminate_role_def)

text \<open>C20. A relay leaves the tree only without custody. If a tick removes the role of a node that is not the root, then the node had a reachable upstream, its demand has been
  below the threshold for longer than the step-down time and it has been there for its minimum stay, no exchange was open, every message it caches is one
  that its upstream sent it, and every seat below it that is not a standby is told to move to that upstream.\<close>

theorem step_down_without_custody:
  assumes "lman_ok m" and "mget (lm_roles m) t = Some r" and "\<not> isRoot r"
    and "mget (lm_roles (snd (lifetimeTick reach now mo m))) t = None"
  shows "\<exists>up since. upstreamOf m t = Some up \<and> up \<noteq> lc (lm_me m) \<and> reach up \<and>
    roleDemand r < childMinReaders m \<and> lr_thinSince r = Some since \<and> now - since > childStepDownMs m \<and>
    now - lr_createdAt r > childMinStayMs m \<and> \<not> custodyOpen r now \<and>
    (\<forall>c \<in> set (cache r). \<exists>held. lr_upstreamHeld r = Some held \<and> ce_msgId c \<in> held) \<and>
    (\<forall>h \<in> set (relay_seats m r). SendRehome h t up (attachedGenOf m t) \<in> set (fst (lifetimeTick reach now mo m)))"
proof -
  have arm: "topicLifetime m" using assms(2,4) by (auto simp: lifetimeTick_def split: if_splits)
  have p: "mget (lm_roles (prepared now mo m)) t = Some (pruned r)" using assms(2) by (simp add: prepared_get)
  obtain r1 where r1: "mget (lm_roles (lapse_at now mo t (prepared now mo m))) t = Some r1" "isRoot r1 = isRoot r" "cache r1 = cache r"
    "lr_subs r1 = lr_subs r" "lr_upstreamHeld r1 = lr_upstreamHeld (pruned r)" "lr_thinSince r1 = lr_thinSince r"
    "custodyOpen r1 now = custodyOpen r now" "lr_createdAt r1 = lr_createdAt r"
    by (rule lapsed_fields [OF p, of now mo]) simp
  note a = same_atD [OF after_lapse_at(1) [OF assms(1), of t now mo]]
  have l: "mget (lm_roles (after_lapse now mo m)) t = Some r1" using a(1) r1(1) by simp
  have at: "after_term now mo m = snd (terminationSweep now mo (after_lapse now mo m))" by (simp add: after_term_def)
  have "same_at t (after_lapse now mo m) (after_term now mo m)"
    using after_term_at [OF assms(1), of t now mo] term_nonroot [OF l, of now mo] r1(2) assms(3) by simp
  note b = same_atD [OF this]
  have b1: "mget (lm_roles (after_term now mo m)) t = Some r1" using b(1) l by simp
  have "mget (lm_roles (snd (thin_role reach now mo t (after_term now mo m)))) t = None"
    using same_atD(1) [OF thin_sweep_at [OF after_term_ok [OF assms(1)], of t reach now mo now mo]] assms(4) by (simp add: tick_unfold [OF arm])
  from thin_role_removes [OF b1 this] obtain up since where u: "upstreamOf (after_term now mo m) t = Some up" "up \<noteq> lc (lm_me (after_term now mo m))" "reach up"
    "\<forall>c \<in> set (cache r1). \<exists>held. lr_upstreamHeld r1 = Some held \<and> ce_msgId c \<in> held"
    "roleDemand r1 < childMinReaders (after_term now mo m)" "lr_thinSince r1 = Some since"
    "now - since > childStepDownMs (after_term now mo m)" "now - lr_createdAt r1 > childMinStayMs (after_term now mo m)" "\<not> custodyOpen r1 now"
    "fst (thin_role reach now mo t (after_term now mo m)) = fst (stepDownChild mo t up (after_term now mo m))" .
  have e: "upstreamOf (after_term now mo m) t = upstreamOf m t" "lm_me (after_term now mo m) = lm_me m"
    "childMinReaders (after_term now mo m) = childMinReaders m" "childStepDownMs (after_term now mo m) = childStepDownMs m"
    "childMinStayMs (after_term now mo m) = childMinStayMs m" "attachedGenOf (after_term now mo m) t = attachedGenOf m t"
    using a b lapse_at_config [of now mo t "prepared now mo m"] prepared_same [of m t now mo]
    by (simp_all add: upstreamOf_def attachedGenOf_def)
  have d: "roleDemand r1 = roleDemand r" "relay_seats (after_term now mo m) r1 = relay_seats m r"
    using r1(4) e(2) by (simp_all add: roleDemand_def relay_seats_def)
  have "SendRehome h t up (attachedGenOf m t) \<in> set (fst (lifetimeTick reach now mo m))" if "h \<in> set (relay_seats m r)" for h
    using tick_out [OF assms(1) arm, of "SendRehome h t up (attachedGenOf m t)" t reach now mo] that b1 d(2) e(6)
    by (simp add: out_topic_def u(10) stepDownChild_def Let_def)
  moreover have "\<exists>held. lr_upstreamHeld r = Some held \<and> ce_msgId c \<in> held" if "c \<in> set (cache r)" for c
    using u(4) that r1(3,5) by (auto simp: pruned_def split: option.splits)
  ultimately show ?thesis using u e d r1(6-8) by (intro exI [of _ up] exI [of _ since]) simp
qed

theorem step_down_without_custody_witness:
  "SendRehome ''bb'' 7 ''cc'' None \<in> set (fst (lifetimeTick (\<lambda>_. True) 100000 100000 sample_relay))"
proof -
  let ?r = "the (mget (lm_roles sample_relay) 7)"
  have a: "lman_ok sample_relay" by (simp add: lman_ok_def sample_relay_def new_lman_def minvar_def)
  have b: "mget (lm_roles sample_relay) 7 = Some ?r" "\<not> isRoot ?r" by (simp_all add: sample_relay_def new_lman_def new_lrole_def)
  have c: "mget (lm_roles (snd (lifetimeTick (\<lambda>_. True) 100000 100000 sample_relay))) 7 = None" by code_simp
  have d: "upstreamOf sample_relay 7 = Some ''cc''" "attachedGenOf sample_relay 7 = None" "relay_seats sample_relay ?r = [''bb'']" by code_simp+
  show ?thesis using step_down_without_custody [OF a b c] d by auto
qed

section \<open>A generation left behind\<close>

datatype left_event = LeftWrite int int "string option" int "string option" | LeftGet int int | LeftPrune int

fun left_step :: "left_event \<Rightarrow> lman \<Rightarrow> lman" where
  "left_step (LeftWrite mo t rt ep up) m = snd (leftWrite mo t rt ep up m)"
| "left_step (LeftGet mo t) m = snd (leftGet mo t m)"
| "left_step (LeftPrune mo) m = leftPrune mo m"

text \<open>The event happens before \<open>u\<close> on the monotonic clock and writes no record of \<open>t\<close>.\<close>

fun spares :: "int \<Rightarrow> int \<Rightarrow> left_event \<Rightarrow> bool" where
  "spares t u (LeftWrite mo t' _ _ _) = (t' \<noteq> t \<and> mo < u)"
| "spares t u (LeftGet mo t') = (mo < u)"
| "spares t u (LeftPrune mo) = (mo < u)"

lemma leftVictim_expired: "leftVictim mo l = Some v \<Longrightarrow> \<exists>r. (v, r) \<in> set l \<and> lf_until r \<le> mo"
  by (auto simp: leftVictim_def find_Some_iff) (metis nth_mem)

lemma spares_keeps:
  assumes "minvar (lm_left m)" and "mget (lm_left m) t = Some rec" and "spares t (lf_until rec) e"
  shows "mget (lm_left (left_step e m)) t = Some rec"
proof (cases e)
  case (LeftWrite mo t' rt ep up)
  have "v \<noteq> t" if vic: "leftVictim mo (lm_left m) = Some v" for v
  proof
    assume "v = t"
    then obtain r where r: "(t, r) \<in> set (lm_left m)" "lf_until r \<le> mo" using leftVictim_expired [OF vic] by auto
    then have "r = rec" using assms(1,2) minvar_get_iff [of "lm_left m" t r] by simp
    then show False using r(2) assms(3) LeftWrite by simp
  qed
  then show ?thesis using assms LeftWrite by (auto simp: leftWrite_def Let_def split: option.split)
next
  case (LeftGet mo t')
  then show ?thesis using assms by (auto simp: leftGet_def split: option.split)
next
  case (LeftPrune mo)
  have "(t, rec) \<in> set (filter (\<lambda>(k, r). lf_until r > mo) (lm_left m))"
    using assms LeftPrune by (auto simp: minvar_get_iff)
  then show ?thesis using assms(1) LeftPrune by (simp add: leftPrune_def minvar_get_iff minvar_filter)
qed

lemma left_step_bound:
  assumes "minvar (lm_left m)" "length (lm_left m) \<le> LEFT_RECORD_MAX"
  shows "minvar (lm_left (left_step e m)) \<and> length (lm_left (left_step e m)) \<le> LEFT_RECORD_MAX"
proof (cases e)
  case (LeftWrite mo t' rt ep up)
  have v: "mhas (lm_left m) v" if "leftVictim mo (lm_left m) = Some v" for v
    using leftVictim_expired [OF that] assms(1) by (auto simp: minvar_get_iff)
  have pos: "0 < length (lm_left m)" if "mhas (lm_left m) v" for v using that by (cases "lm_left m") auto
  have del: "length (mset_key t' x (mdelete v (lm_left m))) \<le> length (lm_left m)" if "leftVictim mo (lm_left m) = Some v" for v x
    using v [OF that] pos [OF v [OF that]] assms(1) by (auto simp: length_mset_key length_mdelete)
  show ?thesis using assms del LeftWrite
    by (auto simp: leftWrite_def Let_def length_mset_key split: option.split intro: order_trans)
next
  case (LeftGet mo t')
  then show ?thesis using assms length_mdelete_le [of t' "lm_left m"]
    by (auto simp: leftGet_def split: option.split intro: order_trans)
next
  case (LeftPrune mo)
  then show ?thesis using assms order_trans [OF length_filter_le assms(2)] by (simp add: leftPrune_def minvar_filter)
qed

lemma left_run:
  assumes "list_all (spares t u) es" and "minvar (lm_left m)" "length (lm_left m) \<le> LEFT_RECORD_MAX"
    and "mget (lm_left m) t = Some rec" and "lf_until rec = u"
  shows "mget (lm_left (fold left_step es m)) t = Some rec \<and> length (lm_left (fold left_step es m)) \<le> LEFT_RECORD_MAX"
  using assms
proof (induction es arbitrary: m)
  case (Cons e es)
  have "spares t (lf_until rec) e" using Cons.prems(1,5) by simp
  then show ?case
    using Cons.IH [of "left_step e m"] left_step_bound [OF Cons.prems(2,3), of e] spares_keeps [OF Cons.prems(2,4)] Cons.prems(1,5) by simp
qed simp

lemma i32_i32 [simp]: "i32 (i32 x) = i32 x"
  by (simp add: i32_def)

lemma left_step_arm [simp]: "topicLifetime (fold left_step es m) = topicLifetime m"
proof (induction es arbitrary: m)
  case (Cons e es)
  have "topicLifetime (left_step e m) = topicLifetime m"
    by (cases e) (auto simp: leftWrite_def leftGet_def leftPrune_def Let_def split: option.split)
  with Cons show ?case by simp
qed simp

lemma leftWrite_true:
  assumes "leftWrite mo t rt ep up m = (True, m1)" "minvar (lm_left m)" "length (lm_left m) \<le> LEFT_RECORD_MAX"
  shows "mget (lm_left m1) t = Some (leftRecord mo rt ep up)" "minvar (lm_left m1)" "length (lm_left m1) \<le> LEFT_RECORD_MAX"
    "topicLifetime m1 = topicLifetime m"
proof -
  show "mget (lm_left m1) t = Some (leftRecord mo rt ep up)" "topicLifetime m1 = topicLifetime m"
    using assms(1) by (auto simp: leftWrite_def Let_def split: if_splits option.splits)
  show "minvar (lm_left m1)" "length (lm_left m1) \<le> LEFT_RECORD_MAX"
    using left_step_bound [OF assms(2,3), of "LeftWrite mo t rt ep up"] assms(1) by simp_all
qed

text \<open>C22. A generation a node has left is not re-entered by a late frame. From a successful write of a LEFT record until its time has passed on the monotonic clock, whatever records of other topics are written,
  read, evicted or pruned, every appointment that names the same root and epoch is refused for that reason, an appointment to a generation that differs is never
  refused for it, and the records never exceed their cap.\<close>

theorem left_generation_refused:
  assumes "topicLifetime m" and "minvar (lm_left m)" and "length (lm_left m) \<le> LEFT_RECORD_MAX"
    and "leftWrite mo t (Some rt) ep up m = (True, m1)" and "rt \<noteq> []"
    and "list_all (spares t (mo + leftSpan)) es" and "mo' < mo + leftSpan" and "genValid raw"
  shows "(fst (onReplicateGrant now mo' ref t from raw iss (fold left_step es m1)) = Some LeftRecord \<longleftrightarrow> sameGen (genNorm raw) (lc rt, ep)) \<and>
    length (lm_left (fold left_step es m1)) \<le> LEFT_RECORD_MAX"
proof -
  note w = leftWrite_true [OF assms(4,2,3)]
  have u: "lf_until (leftRecord mo (Some rt) ep up) = mo + leftSpan" by (simp add: leftRecord_def)
  let ?m = "fold left_step es m1"
  have r: "mget (lm_left ?m) t = Some (leftRecord mo (Some rt) ep up)" "length (lm_left ?m) \<le> LEFT_RECORD_MAX"
    using left_run [OF assms(6) w(2,3,1) u] by auto
  have lr: "leftRefuses mo' t (Some (genNorm raw)) ?m = (sameGen (genNorm raw) (lc rt, ep), ?m)"
    using assms(5,7) r(1) u by (auto simp: leftRefuses_def leftGet_def sameGen_def leftRecord_def)
  have "fst (grantRefusal now mo' t from raw iss ?m) = Some LeftRecord \<longleftrightarrow> sameGen (genNorm raw) (lc rt, ep)"
    using assms(1,8) w(4) lr by (auto simp: grantRefusal_def Let_def split: option.split)
  then have "fst (onReplicateGrant now mo' ref t from raw iss ?m) = Some LeftRecord \<longleftrightarrow> sameGen (genNorm raw) (lc rt, ep)"
    by (auto simp: onReplicateGrant_def Let_def split: option.split prod.split)
  with r(2) show ?thesis by simp
qed

theorem left_generation_refused_witness:
  "fst (onReplicateGrant 2000 200000 9 7 (Some ''cc'') (sample_gen ''cc'' 2) (Some 1990)
    (fold left_step [LeftPrune 150000, LeftGet 160000 8] (snd (leftWrite 100 7 (Some ''cc'') 2 (Some ''cc'') (new_lman ''aa'' True False))))) = Some LeftRecord"
proof -
  let ?m = "new_lman ''aa'' True False" and ?m1 = "snd (leftWrite 100 7 (Some ''cc'') 2 (Some ''cc'') (new_lman ''aa'' True False))"
  have a: "topicLifetime ?m" "minvar (lm_left ?m)" "length (lm_left ?m) \<le> LEFT_RECORD_MAX"
    by (simp_all add: new_lman_def LEFT_RECORD_MAX_def)
  have b: "leftWrite 100 7 (Some ''cc'') 2 (Some ''cc'') ?m = (True, ?m1)"
    by (simp add: leftWrite_def new_lman_def LEFT_RECORD_MAX_def)
  have c: "list_all (spares 7 (100 + leftSpan)) [LeftPrune 150000, LeftGet 160000 8]" "200000 < 100 + leftSpan"
    by (simp_all add: leftSpan_def STANDBY_LEASE_MS_def DROP_MS_def APPOINTMENT_SKEW_MS_def APPOINTMENT_DELAY_MS_def)
  have d: "genValid (sample_gen ''cc'' 2)" "sameGen (genNorm (sample_gen ''cc'' 2)) (lc ''cc'', 2)" by code_simp+
  show ?thesis using left_generation_refused [OF a b _ c d(1), of 2000 9 "Some ''cc''" "Some 1990"] d(2) by simp
qed

section \<open>The principal of a backup\<close>

definition versioned :: "gen_id \<Rightarrow> bool" where
  "versioned g \<longleftrightarrow> 1 \<le> snd g \<and> snd g < 2 ^ 31 \<and> lc (fst g) = fst g"

lemma claimWins_trans: "versioned a \<Longrightarrow> versioned b \<Longrightarrow> versioned c \<Longrightarrow> claimWins t a b \<Longrightarrow> claimWins t b c \<Longrightarrow> claimWins t a c"
  by (auto simp: claimWins_def versioned_def split: if_splits)

lemma claimWins_asym: "claimWins t a b \<Longrightarrow> \<not> claimWins t b a"
  by (auto simp: claimWins_def split: if_splits)

lemma i32_small: "0 \<le> x \<Longrightarrow> x < 2 ^ 31 \<Longrightarrow> i32 x = x"
  unfolding i32_def by (simp add: signed_of_int signed_take_bit_int_eq_self)

text \<open>A REPLICATE as it arrives: clocks, identity of a role made for it, sender, generation named, stamp.\<close>

record grant =
  gr_now :: int
  gr_mono :: int
  gr_ref :: nat
  gr_from :: string
  gr_gen :: js
  gr_issued :: "int option"

definition take_grant :: "int \<Rightarrow> grant \<Rightarrow> lman \<Rightarrow> lman" where
  "take_grant t e m = snd (onReplicateGrant (gr_now e) (gr_mono e) (gr_ref e) t (Some (gr_from e)) (gr_gen e) (gr_issued e) m)"

definition appointment :: "lman \<Rightarrow> int \<Rightarrow> (int \<times> gen_id) option" where
  "appointment m t = (case mget (lm_roles m) t of None \<Rightarrow> None
     | Some r \<Rightarrow> if lr_backupOf r = None then None else map_option (\<lambda>g. (lr_lastReplicaAt r, g)) (lr_standbyGen r))"

text \<open>Each grant of the sequence comes while the lease that the last accepted one opened is live.\<close>

fun lease_live :: "int \<Rightarrow> grant list \<Rightarrow> lman \<Rightarrow> bool" where
  "lease_live t [] m = True"
| "lease_live t (e # es) m = ((case appointment m t of None \<Rightarrow> False | Some (at0, g) \<Rightarrow> gr_now e - at0 < STANDBY_LEASE_MS)
     \<and> lease_live t es (take_grant t e m))"

lemma leftRefuses_frame:
  "lm_roles (snd (leftRefuses mo t g m)) = lm_roles m" "topicLifetime (snd (leftRefuses mo t g m)) = topicLifetime m"
  "lm_backups (snd (leftRefuses mo t g m)) = lm_backups m"
  by (auto simp: leftRefuses_def leftGet_def split: option.split prod.split)

lemma grantRefusal_frame:
  "grantRefusal now mo t fr raw iss m = (w, g, m1) \<Longrightarrow> lm_roles m1 = lm_roles m \<and> topicLifetime m1 = topicLifetime m"
  using leftRefuses_frame [of mo t "Some (genNorm raw)" m] by (auto simp: grantRefusal_def Let_def split: if_splits prod.splits)

lemma lc_idem: "lc (lc s) = lc s"
proof -
  have "lower_char (lower_char c) = lower_char c" for c
    by (rule of_char_eq_iff [where 'a = nat, THEN iffD1]) (auto simp: lower_char_def Let_def)
  then show ?thesis by (simp add: lc_def)
qed

lemma genNorm_lc: "lc (fst (genNorm raw)) = fst (genNorm raw)"
  by (auto simp: genNorm_def lc_idem split: js.split) (simp_all add: lc_def)

lemma genNorm_nonneg: "0 \<le> snd (genNorm raw)"
  by (auto simp: genNorm_def Let_def split: js.split)

text \<open>What an accepted grant means under a live lease.\<close>

lemma accepted_grant:
  assumes arm: "topicLifetime m" and r: "mget (lm_roles m) t = Some r" "lr_backupOf r \<noteq> None" "lr_standbyGen r = Some sg" "versioned sg"
    and live: "now - lr_lastReplicaAt r < STANDBY_LEASE_MS"
    and ok: "grantRefusal now mo t fr raw iss m = (None, g, m1)"
  shows "g = None \<or> (g = Some (genNorm raw) \<and> 1 \<le> snd (genNorm raw) \<and> (genNorm raw = sg \<or> claimWins t (genNorm raw) sg))"
proof (cases "genValid raw")
  case False
  then show ?thesis using ok arm r by (auto simp: grantRefusal_def Let_def split: if_splits)
next
  case True
  let ?g = "genNorm raw"
  have i: "i32 (snd sg) = snd sg" using r(4) by (intro i32_small) (auto simp: versioned_def)
  have "g = Some ?g" "snd ?g \<ge> 1" "\<not> (fst sg = fst ?g \<and> snd ?g < i32 (snd sg))"
    "\<not> (fst sg \<noteq> fst ?g \<and> \<not> claimWins t ?g sg)"
    using ok arm True r live by (auto simp: grantRefusal_def Let_def split: prod.splits if_splits option.splits)
  moreover have "claimWins t ?g sg" if "fst sg = fst ?g" "snd sg < snd ?g"
    using that r(4) by (simp add: claimWins_def versioned_def)
  ultimately show ?thesis using i by (cases "fst sg = fst ?g") (auto simp: prod_eq_iff not_less le_less)
qed

lemma grant_step:
  assumes arm: "topicLifetime m" and a: "appointment m t = Some (at0, sg)" "versioned sg" and live: "gr_now e - at0 < STANDBY_LEASE_MS"
    and small: "snd (genNorm (gr_gen e)) < 2 ^ 31"
  shows "\<exists>at1 sg1. appointment (take_grant t e m) t = Some (at1, sg1) \<and> versioned sg1 \<and> (sg1 = sg \<or> claimWins t sg1 sg) \<and> topicLifetime (take_grant t e m)"
proof -
  obtain r where r: "mget (lm_roles m) t = Some r" "lr_backupOf r \<noteq> None" "lr_standbyGen r = Some sg" "at0 = lr_lastReplicaAt r"
    using a(1) by (auto simp: appointment_def split: option.splits if_splits)
  obtain w g m1 where gr: "grantRefusal (gr_now e) (gr_mono e) t (Some (gr_from e)) (gr_gen e) (gr_issued e) m = (w, g, m1)"
    by (cases "grantRefusal (gr_now e) (gr_mono e) t (Some (gr_from e)) (gr_gen e) (gr_issued e) m") auto
  note f = grantRefusal_frame [OF gr]
  show ?thesis
  proof (cases w)
    case (Some why)
    then have "take_grant t e m = m1\<lparr>lm_grantsRefused := lm_grantsRefused m1 + 1\<rparr>"
      by (simp add: take_grant_def onReplicateGrant_def gr)
    then show ?thesis using a arm f by (simp add: appointment_def)
  next
    case None
    have "take_grant t e m = becomeBackup (gr_now e) t (Some (gr_from e)) g (gr_issued e) r m1"
      using r(1) f arm by (simp add: take_grant_def onReplicateGrant_def gr None)
    then have app: "appointment (take_grant t e m) t = Some (gr_now e, case g of None \<Rightarrow> sg | Some g \<Rightarrow> (lc (fst g), snd g))"
      and arm1: "topicLifetime (take_grant t e m)"
      using r(3) f arm by (auto simp: becomeBackup_def appointment_def Let_def prod_eq_iff split: option.split)
    have "g = None \<or> (g = Some (genNorm (gr_gen e)) \<and> 1 \<le> snd (genNorm (gr_gen e)) \<and> (genNorm (gr_gen e) = sg \<or> claimWins t (genNorm (gr_gen e)) sg))"
      by (rule accepted_grant [OF arm r(1-3) a(2)]) (use live r(4) gr None in auto)
    then show ?thesis using app arm1 a(2) small genNorm_lc [of "gr_gen e"] by (auto simp: versioned_def prod_eq_iff)
  qed
qed

text \<open>A stored epoch of \<open>2 ^ 31\<close> or more is read modulo 32 bits by the test for the same root, so an older epoch of that root passes it.\<close>

lemma high_epoch_moves_down:
  "\<exists>m1 m2. m1 = take_grant 7 \<lparr>gr_now = 2000, gr_mono = 2000, gr_ref = 0, gr_from = ''cc'', gr_gen = sample_gen ''cc'' (2 ^ 31), gr_issued = Some 1990\<rparr> sample_backup
    \<and> m2 = take_grant 7 \<lparr>gr_now = 3000, gr_mono = 3000, gr_ref = 0, gr_from = ''cc'', gr_gen = sample_gen ''cc'' 2, gr_issued = Some 2990\<rparr> m1
    \<and> appointment m1 7 = Some (2000, (''cc'', 2 ^ 31)) \<and> appointment m2 7 = Some (3000, (''cc'', 2)) \<and> claimWins 7 (''cc'', 2 ^ 31) (''cc'', 2)"
  by (intro exI conjI, rule refl, rule refl) code_simp+

text \<open>C8. While its lease is live a backup moves only up the election order. Start from a principal with an epoch from 1 to \<open>2 ^ 31 - 1\<close>. Along any sequence of
  grants of any roots, old, delayed, repeated or without a generation, each of which comes while the lease is live and names an epoch below \<open>2 ^ 31\<close>, the principal
  is at the end the one it had or one that wins against it (by epoch, then by distance to the topic), so a principal that was replaced never comes back with the same
  claim and two live roots cannot make the backup alternate between them. The bound is needed: see \<open>high_epoch_moves_down\<close>.\<close>

theorem principal_only_rises:
  assumes "topicLifetime m" and "appointment m t = Some (at0, sg)" and "versioned sg"
    and "lease_live t es m" and "\<forall>e \<in> set es. snd (genNorm (gr_gen e)) < 2 ^ 31"
  shows "\<exists>at1 sg1. appointment (fold (take_grant t) es m) t = Some (at1, sg1) \<and> versioned sg1 \<and>
    (sg1 = sg \<or> (claimWins t sg1 sg \<and> \<not> claimWins t sg sg1))"
  using assms
proof (induction es arbitrary: m at0 sg)
  case Nil
  then show ?case by simp
next
  case (Cons e es)
  have live: "gr_now e - at0 < STANDBY_LEASE_MS" "lease_live t es (take_grant t e m)" using Cons.prems(2,4) by simp_all
  obtain at1 sg1 where s: "appointment (take_grant t e m) t = Some (at1, sg1)" "versioned sg1" "sg1 = sg \<or> claimWins t sg1 sg"
    "topicLifetime (take_grant t e m)"
    using grant_step [OF Cons.prems(1-3) live(1)] Cons.prems(5) by auto
  obtain at2 sg2 where e: "appointment (fold (take_grant t) es (take_grant t e m)) t = Some (at2, sg2)" "versioned sg2"
    "sg2 = sg1 \<or> (claimWins t sg2 sg1 \<and> \<not> claimWins t sg1 sg2)"
    using Cons.IH [OF s(4,1,2) live(2)] Cons.prems(5) by auto
  have "sg2 = sg \<or> claimWins t sg2 sg" using e(3) s(3) claimWins_trans [OF e(2) s(2) Cons.prems(3), of t] by blast
  then show ?case using e(1,2) claimWins_asym [of t sg2 sg] by auto
qed

theorem principal_only_rises_witness:
  "\<exists>at1 sg1. appointment (fold (take_grant 7)
      [\<lparr>gr_now = 2000, gr_mono = 2000, gr_ref = 0, gr_from = ''dd'', gr_gen = sample_gen ''dd'' 1, gr_issued = Some 1990\<rparr>,
       \<lparr>gr_now = 3000, gr_mono = 3000, gr_ref = 0, gr_from = ''dd'', gr_gen = sample_gen ''dd'' 3, gr_issued = Some 2990\<rparr>] sample_backup) 7 = Some (at1, sg1) \<and>
    versioned sg1 \<and> (sg1 = (''cc'', 2) \<or> (claimWins 7 sg1 (''cc'', 2) \<and> \<not> claimWins 7 (''cc'', 2) sg1))"
proof -
  have a: "topicLifetime sample_backup" "appointment sample_backup 7 = Some (1000, (''cc'', 2))" "versioned (''cc'', 2)" by code_simp+
  show ?thesis by (rule principal_only_rises [OF a]) code_simp+
qed

section \<open>Epochs at the edge of 32 bits\<close>

text \<open>C39. An epoch is an arbitrary safe integer where it is heard and a 32-bit one where it is named. A node that has cached a beacon with the largest epoch that the
  receiver lets through becomes root with an epoch that its own frames spell as 0, and every armed node refuses its appointments.\<close>

theorem poisoned_epoch_unappointable:
  assumes "mget (lm_roles m) t = None" and "mget (lm_beacons m) t = Some b" and "bc_epoch b = Some max_safe_integer"
    and "mget (lm_rootTombs m) t = None" and "mget (lm_genHighWater m) t = None" and "ps_isHexId (lc (lm_me m))"
    and "topicLifetime backup"
  shows "snd (genOf m ((new_lrole ref t True now)\<lparr>lr_epoch := mintEpoch mo t m\<rparr>)) = 0 \<and>
    fst (onReplicateGrant now' mo' ref' t from (JObj [(''root'', JStr (lc (lm_me m))),
      (''epoch'', jint (snd (genOf m ((new_lrole ref t True now)\<lparr>lr_epoch := mintEpoch mo t m\<rparr>))))]) iss backup) \<noteq> None"
proof -
  have me: "mintEpoch mo t m = 2 ^ 53" using assms(1-5) by (simp add: mintEpoch_def knownEpoch_def raise_to_def max_safe_integer_def)
  have "word_of_int (2 ^ 53) = (0 :: 32 word)" by (simp add: word_of_int_eq_0_iff)
  then have z: "i32 (2 ^ 53) = 0" by (simp only: i32_def) simp
  have g: "snd (genOf m ((new_lrole ref t True now)\<lparr>lr_epoch := mintEpoch mo t m\<rparr>)) = 0"
    using z by (simp add: genOf_def me)
  let ?raw = "JObj [(''root'', JStr (lc (lm_me m))), (''epoch'', jint 0)]"
  have v: "genValid ?raw" using assms(6) by (simp add: genValid_def obj_get_def lc_idem)
  have n: "snd (genNorm ?raw) = 0" by (simp add: genNorm_def obj_get_def Let_def)
  have "fst (grantRefusal now' mo' t from ?raw iss backup) \<noteq> None"
    using v n assms(7) by (simp add: grantRefusal_def Let_def split: prod.split)
  then have "fst (onReplicateGrant now' mo' ref' t from ?raw iss backup) \<noteq> None"
    by (cases "grantRefusal now' mo' t from ?raw iss backup") (auto simp: onReplicateGrant_def split: option.split)
  then show ?thesis unfolding g by simp
qed

theorem poisoned_epoch_unappointable_witness:
  "fst (onReplicateGrant 2000 2000 9 7 (Some ''aa'') (JObj [(''root'', JStr ''aa''), (''epoch'', jint 0)]) (Some 1990) sample_backup) \<noteq> None"
proof -
  let ?m = "(new_lman ''aa'' True False)\<lparr>lm_beacons := [(7, \<lparr>bc_root = ''bb'', bc_at = 0, bc_exp = 50000, bc_epoch = Some max_safe_integer, bc_verified = False\<rparr>)]\<rparr>"
  let ?b = "\<lparr>bc_root = ''bb'', bc_at = 0, bc_exp = 50000, bc_epoch = Some max_safe_integer, bc_verified = False\<rparr>"
  have a: "mget (lm_roles ?m) 7 = None" "mget (lm_beacons ?m) 7 = Some ?b" "bc_epoch ?b = Some max_safe_integer" "mget (lm_rootTombs ?m) 7 = None"
    "mget (lm_genHighWater ?m) 7 = None" "lc (lm_me ?m) = ''aa''"
    by (simp_all add: new_lman_def) code_simp
  have b: "ps_isHexId (lc (lm_me ?m))" "topicLifetime sample_backup" by code_simp+
  note p = poisoned_epoch_unappointable [OF a(1-5) b, of 1 0 0 2000 2000 9 "Some ''aa''" "Some 1990"]
  show ?thesis using p [THEN conjunct2] unfolding p [THEN conjunct1] a(6) .
qed

section \<open>The notice\<close>

lemma on_role_get: "mget (lm_roles (on_role t f m)) t = map_option f (mget (lm_roles m) t)"
  by (simp add: on_role_def split: option.split)

lemma on_role_frame [simp]:
  "lm_app (on_role t f m) = lm_app m" "lm_upstream (on_role t f m) = lm_upstream m" "lm_attach (on_role t f m) = lm_attach m"
  by (simp_all add: on_role_def split: option.split)

lemma retireBackup_frame [simp]:
  "lm_app (retireBackup t m) = lm_app m" "lm_upstream (retireBackup t m) = lm_upstream m" "lm_attach (retireBackup t m) = lm_attach m"
  by (simp_all add: retireBackup_def split: option.split)

lemma end_appointment_frame [simp]:
  "lm_app (end_appointment t m) = lm_app m" "lm_upstream (end_appointment t m) = lm_upstream m" "lm_attach (end_appointment t m) = lm_attach m"
  by (simp_all add: end_appointment_def split: option.split)

lemma end_attachment_role:
  "mget (lm_roles (snd (end_attachment t g m))) t =
    map_option (\<lambda>r. dropOwned (attachedGenOf m t) (r\<lparr>lr_subs := [], lr_children := {}, lr_upstreamHeld := Some {}\<rparr>)) (mget (lm_roles m) t)"
  by (auto simp: end_attachment_def Let_def endSubscription_def endedApp_def on_role_get split: prod.split)

text \<open>A tombstone that another duty owns as well keeps that owner.\<close>

lemma dropOwned_in:
  assumes "(k, tb) \<in> set (tombstones r)"
    and "x \<in> set (if tb_owners tb \<noteq> [] then
       (case owner of None \<Rightarrow> [(k, tb)]
        | Some g \<Rightarrow> let os = filter (\<lambda>x. x \<noteq> (fst g, word_of_int (snd g))) (tb_owners tb)
            in if os = [] then [] else [(k, tb\<lparr>tb_owners := os\<rparr>)])
     else (if owner = None then [] else [(k, tb)]))"
  shows "x \<in> set (tombstones (dropOwned owner r))"
proof -
  have eq: "tombstones (r\<lparr>tombstones := ts\<rparr>) = ts" for ts by simp
  show ?thesis unfolding dropOwned_def eq set_concat set_map
    by (rule UnionI [OF imageI [OF imageI [OF assms(1)]]]) (use assms(2) in \<open>simp only: prod.case\<close>)
qed

lemma dropOwned_keeps:
  fixes h :: gen_id
  assumes tb: "(k, tb) \<in> set (tombstones r)" and h: "(fst h, word_of_int (snd h)) \<in> set (tb_owners tb)"
    and other: "\<And>g. owner = Some g \<Longrightarrow> \<not> sameGen g h"
  shows "\<exists>tb'. (k, tb') \<in> set (tombstones (dropOwned owner r)) \<and> (fst h, word_of_int (snd h)) \<in> set (tb_owners tb')"
proof -
  have ne: "tb_owners tb \<noteq> []" using h by auto
  show ?thesis
  proof (cases owner)
    case None
    have "(k, tb) \<in> set (tombstones (dropOwned owner r))"
      by (rule dropOwned_in [OF tb]) (simp add: ne None)
    then show ?thesis using h by blast
  next
    case (Some g)
    let ?os = "filter (\<lambda>x. x \<noteq> (fst g, word_of_int (snd g))) (tb_owners tb)"
    have "(fst h, word_of_int (snd h) :: 32 word) \<noteq> (fst g, word_of_int (snd g))"
      using other [OF Some] by (auto simp: sameGen_def i32_def)
    then have i: "(fst h, word_of_int (snd h)) \<in> set ?os" using h by simp
    then have "?os \<noteq> []" by (metis empty_iff list.set(1))
    then have "(k, tb\<lparr>tb_owners := ?os\<rparr>) \<in> set (tombstones (dropOwned owner r))"
      by (intro dropOwned_in [OF tb]) (simp only: ne Some option.case Let_def not_False_eq_True if_True if_False list.set insert_iff, rule disjI1, rule refl)
    then show ?thesis using i by (intro exI [of _ "tb\<lparr>tb_owners := ?os\<rparr>"]) simp
  qed
qed

lemma dropOwned_sel [simp]:
  "lr_backupOf (dropOwned x r) = lr_backupOf r" "lr_standbyGen (dropOwned x r) = lr_standbyGen r" "cache (dropOwned x r) = cache r"
  "lr_lastReplicaAt (dropOwned x r) = lr_lastReplicaAt r" "lr_subs (dropOwned x r) = lr_subs r" "isRoot (dropOwned x r) = isRoot r"
  by (simp_all add: dropOwned_def)

text \<open>A notice is ignored, or it ends the obligations it names.\<close>

definition notice_act :: "int \<Rightarrow> gen_id \<Rightarrow> string option \<Rightarrow> lman \<Rightarrow> lout list \<times> lman" where
  "notice_act t g from m = (let m1 = (if appointmentMatch g (mget (lm_roles m) t) then end_appointment t m else m);
     (o2, m2) = (if attachmentMatch g from t m then end_attachment t g m1 else ([], m1)) in (o2, settle_role t m2))"

lemma notice_cases:
  obtains "onTopicTerminated forMe topic raw from m = ([], m)"
  | t where "topic = Some t" "onTopicTerminated forMe topic raw from m = notice_act t (genNorm raw) from m"
      "\<And>r. mget (lm_roles m) t = Some r \<Longrightarrow> \<not> isRoot r"
      "\<And>r. mget (lm_roles m) t = Some r \<Longrightarrow> appointmentMatch (genNorm raw) (Some r) \<Longrightarrow> cache r = []"
proof (cases topic)
  case (Some t)
  let ?role = "mget (lm_roles m) t"
  let ?bad = "\<not> forMe \<or> \<not> topicLifetime m \<or> \<not> genValid raw \<or> (case ?role of None \<Rightarrow> False | Some r \<Rightarrow> isRoot r)
    \<or> (\<not> appointmentMatch (genNorm raw) ?role \<and> \<not> attachmentMatch (genNorm raw) from t m)
    \<or> (appointmentMatch (genNorm raw) ?role \<and> (case ?role of None \<Rightarrow> False | Some r \<Rightarrow> cache r \<noteq> []))"
  show ?thesis
  proof (cases ?bad)
    case True
    then show ?thesis using Some by (intro that(1)) (auto simp only: onTopicTerminated_def Let_def option.case if_True if_False split: if_split)
  next
    case False
    then have "onTopicTerminated forMe topic raw from m = notice_act t (genNorm raw) from m"
      using Some by (simp only: onTopicTerminated_def notice_act_def Let_def option.case if_True if_False de_Morgan_disj not_not) simp
    then show ?thesis using False Some by (intro that(2)) auto
  qed
qed (intro that(1), simp add: onTopicTerminated_def)

lemma settle_role_backup: "mget (lm_roles m) t = Some r \<Longrightarrow> lr_backupOf r \<noteq> None \<Longrightarrow> settle_role t m = m"
  by (auto simp: settle_role_def)

lemma settle_role_reader: "has_sub m t \<Longrightarrow> settle_role t m = m"
  by (simp add: settle_role_def split: option.split)

lemma notice_keeps_appointment:
  assumes "mget (lm_roles m) t = Some r" and "lr_backupOf r \<noteq> None" and "\<not> appointmentMatch g (Some r)"
  shows "mget (lm_roles (snd (notice_act t g from m))) t = Some r \<or>
    mget (lm_roles (snd (notice_act t g from m))) t = Some (dropOwned (attachedGenOf m t)
      (r\<lparr>lr_subs := [], lr_children := {}, lr_upstreamHeld := Some {}\<rparr>))"
proof (cases "attachmentMatch g from t m")
  case True
  obtain o2 m2 where e: "end_attachment t g m = (o2, m2)" by fastforce
  let ?r = "dropOwned (attachedGenOf m t) (r\<lparr>lr_subs := [], lr_children := {}, lr_upstreamHeld := Some {}\<rparr>)"
  have r2: "mget (lm_roles m2) t = Some ?r" using end_attachment_role [of t g m] assms(1) by (simp add: e)
  moreover have "settle_role t m2 = m2" by (rule settle_role_backup [OF r2]) (simp add: assms(2))
  ultimately show ?thesis using True assms by (simp add: notice_act_def e)
next
  case False
  then show ?thesis using assms settle_role_backup [OF assms(1,2)] by (simp add: notice_act_def)
qed

text \<open>C21. A notice ends the obligation it names and no other. Whatever notice arrives, from whomever: a backup of a generation that the notice does not name keeps
  its appointment, its lease, its messages and every deletion delivered with it; a reader whose attachment the notice does not name keeps its subscription, its parent
  and its generation, and the application sees nothing; and a root, or a backup that holds a message, does not obey at all.\<close>

theorem notice_ends_what_it_names:
  assumes "onTopicTerminated forMe (Some t) raw from m = (o1, m')" and "mget (lm_roles m) t = Some r"
  shows "(lr_backupOf r \<noteq> None \<and> \<not> appointmentMatch (genNorm raw) (Some r) \<longrightarrow>
      (\<exists>r'. mget (lm_roles m') t = Some r' \<and> lr_backupOf r' = lr_backupOf r \<and> lr_standbyGen r' = lr_standbyGen r \<and>
        lr_lastReplicaAt r' = lr_lastReplicaAt r \<and> cache r' = cache r \<and>
        (\<forall>h k tb. (k, tb) \<in> set (tombstones r) \<and> (fst h, word_of_int (snd h)) \<in> set (tb_owners tb) \<and>
            (\<forall>g. attachedGenOf m t = Some g \<longrightarrow> \<not> sameGen g h) \<longrightarrow>
          (\<exists>tb'. (k, tb') \<in> set (tombstones r') \<and> (fst h, word_of_int (snd h)) \<in> set (tb_owners tb'))))) \<and>
    (has_sub m t \<and> \<not> attachmentMatch (genNorm raw) from t m \<longrightarrow>
      has_sub m' t \<and> upstreamOf m' t = upstreamOf m t \<and> attachedGenOf m' t = attachedGenOf m t \<and> o1 = []) \<and>
    (isRoot r \<or> (appointmentMatch (genNorm raw) (Some r) \<and> cache r \<noteq> []) \<longrightarrow> m' = m \<and> o1 = [])"
proof (rule notice_cases [of forMe "Some t" raw "from" m])
  assume "onTopicTerminated forMe (Some t) raw from m = ([], m)"
  then show ?thesis using assms by auto
next
  fix t1 assume t1: "Some t = Some t1" "onTopicTerminated forMe (Some t) raw from m = notice_act t1 (genNorm raw) from m"
    and bar: "\<And>r. mget (lm_roles m) t1 = Some r \<Longrightarrow> \<not> isRoot r"
      "\<And>r. mget (lm_roles m) t1 = Some r \<Longrightarrow> appointmentMatch (genNorm raw) (Some r) \<Longrightarrow> cache r = []"
  have act: "notice_act t (genNorm raw) from m = (o1, m')" using t1 assms(1) by simp
  have keep: "\<exists>r'. mget (lm_roles m') t = Some r' \<and> lr_backupOf r' = lr_backupOf r \<and> lr_standbyGen r' = lr_standbyGen r \<and>
      lr_lastReplicaAt r' = lr_lastReplicaAt r \<and> cache r' = cache r \<and>
      (\<forall>h k tb. (k, tb) \<in> set (tombstones r) \<and> (fst h, word_of_int (snd h)) \<in> set (tb_owners tb) \<and>
          (\<forall>g. attachedGenOf m t = Some g \<longrightarrow> \<not> sameGen g h) \<longrightarrow>
        (\<exists>tb'. (k, tb') \<in> set (tombstones r') \<and> (fst h, word_of_int (snd h)) \<in> set (tb_owners tb')))"
    if b: "lr_backupOf r \<noteq> None" "\<not> appointmentMatch (genNorm raw) (Some r)"
    using notice_keeps_appointment [OF assms(2) b, of "from"] dropOwned_keeps [where owner = "attachedGenOf m t"]
    by (elim disjE) (auto simp: act)
  have reader: "has_sub m' t \<and> upstreamOf m' t = upstreamOf m t \<and> attachedGenOf m' t = attachedGenOf m t \<and> o1 = []"
    if s: "has_sub m t" "\<not> attachmentMatch (genNorm raw) from t m"
  proof -
    let ?m1 = "if appointmentMatch (genNorm raw) (mget (lm_roles m) t) then end_appointment t m else m"
    have s1: "has_sub ?m1 t" using s(1) by (simp add: has_sub_def)
    have "(o1, m') = ([], ?m1)" using act s(2) settle_role_reader [OF s1] by (simp add: notice_act_def Let_def)
    then show ?thesis using s(1) by (auto simp: has_sub_def upstreamOf_def attachedGenOf_def)
  qed
  show ?thesis using keep reader bar t1(1) assms(2) by blast
qed

theorem notice_ends_what_it_names_witness:
  "lr_backupOf (the (mget (lm_roles (snd (onTopicTerminated True (Some 7) (sample_gen ''cc'' 1) (Some ''cc'') sample_backup))) 7)) = Some ''cc''"
proof -
  let ?r = "the (mget (lm_roles sample_backup) 7)"
  obtain o1 m' where e: "onTopicTerminated True (Some 7) (sample_gen ''cc'' 1) (Some ''cc'') sample_backup = (o1, m')" by fastforce
  have a: "mget (lm_roles sample_backup) 7 = Some ?r" "lr_backupOf ?r = Some ''cc''" "\<not> appointmentMatch (genNorm (sample_gen ''cc'' 1)) (Some ?r)"
    by code_simp+
  show ?thesis using notice_ends_what_it_names [OF e a(1)] a(2,3) by (auto simp: e)
qed

end
