(* ===== verification/RootClaim.thy ===== *)
theory RootClaim
  imports TopicLifetime WriteFlight
begin

text \<open>
  Root claims: \<open>src/src/pubsub/rootClaim.js\<close>, the one place where \<open>isRoot\<close> of a role changes, with the beacons and the
  verification verdict of \<open>rootElection.js\<close>, the candidate entry, the admission of roles and the birth of roots of
  \<open>AxonaManager.js\<close>, step 5 of the merge (\<open>mergeMachine.js\<close>) and the inherited state of a backup (\<open>syncEngine.js\<close>). They work on the manager
  \<open>lman\<close> of the topic lifetime.
  \<^item> The adapter is the record \<open>mesh\<close>: its neighbours and the bridge as the bigints it hands out, whether it can serve, and
    the capacity measurement. The clocks, the identity of a new role object and the frames are arguments.
  \<^item> A call returns what it sends (\<open>rout\<close>) and the new manager, and before them its result. The exchange a candidate starts
    (\<open>_mergeOffer\<close>) and the probe of an empty root are outputs.
  \<^item> Log lines, their rate limits, the refusal counters and the diagnostic record of the last refused flip are left out.
\<close>

section \<open>Identifiers and the adapter\<close>

definition BEACON_MS :: int where "BEACON_MS = 20000"
definition BEACON_SEEN_MS :: int where "BEACON_SEEN_MS = 60000"
definition ROOT_VERIFY_FIRST_MS :: int where "ROOT_VERIFY_FIRST_MS = 6000"
definition ROOT_VERIFY_MS :: int where "ROOT_VERIFY_MS = 45000"
definition ROOT_VERIFY_BATCH :: nat where "ROOT_VERIFY_BATCH = 3"
definition METRICS_LEASE_MS :: int where "METRICS_LEASE_MS = 70000"

record mesh =
  ms_neighbors :: "int list option"
  ms_bridge :: "int option"
  ms_serving :: "bool option"
  ms_saturated :: bool

text \<open>\<open>idBig\<close> of a hex string (\<open>None\<close>: it throws) and the own id as a number.\<close>

definition idBigOf :: "string \<Rightarrow> int option" where
  "idBigOf h = (case asId production (JStr h) of Inl _ \<Rightarrow> None | Inr i \<Rightarrow> Some i)"

definition nodeId :: "lman \<Rightarrow> int" where
  "nodeId m = int (hex_val (lm_me m))"

datatype rout =
    RSubscribe int
  | RFast int
  | RReplay int string int
  | RBeacon int "string \<times> int list \<times> int list \<times> string \<times> int"
  | ROffer int
  | RProbe int

section \<open>Guards\<close>

definition isReachableId :: "mesh \<Rightarrow> string \<Rightarrow> bool" where
  "isReachableId ms h = (case ms_neighbors ms of None \<Rightarrow> True
     | Some ns \<Rightarrow> (case idBigOf h of None \<Rightarrow> True | Some w \<Rightarrow> w \<in> set ns))"

text \<open>\<open>_rootTombstoned\<close> drops a conviction whose time has passed.\<close>

definition convicted :: "int \<Rightarrow> int \<Rightarrow> string \<Rightarrow> int option \<Rightarrow> lman \<Rightarrow> bool \<times> lman" where
  "convicted now t h ep m = (case mget (lm_rootTombs m) t of
     None \<Rightarrow> (False, m)
   | Some c \<Rightarrow> if now \<ge> cv_exp c then (False, m\<lparr>lm_rootTombs := mdelete t (lm_rootTombs m)\<rparr>)
       else (lc h = cv_root c \<and> (case ep of None \<Rightarrow> 0 | Some e \<Rightarrow> e) \<le> cv_epoch c, m))"

definition recent :: "int \<Rightarrow> beacon \<Rightarrow> bool" where
  "recent now b \<longleftrightarrow> 2 * (now - bc_at b) < 3 * BEACON_MS"

definition liveCloserRoot :: "int \<Rightarrow> mesh \<Rightarrow> bool \<Rightarrow> int \<Rightarrow> lman \<Rightarrow> string option \<times> lman" where
  "liveCloserRoot now ms requireReachable t m = (case mget (lm_beacons m) t of
     None \<Rightarrow> (None, m)
   | Some b \<Rightarrow>
       if now \<ge> bc_exp b \<or> bc_root b = lc (lm_me m) then (None, m)
       else case idBigOf (bc_root b) of
         None \<Rightarrow> (None, m)
       | Some rb \<Rightarrow>
           if rb XOR t \<ge> nodeId m XOR t then (None, m)
           else (case convicted now t (bc_root b) (bc_epoch b) m of (c, m1) \<Rightarrow>
             (if c then None
              else if bc_verified b \<and> recent now b then Some (bc_root b)
              else if isReachableId ms (bc_root b) then Some (bc_root b)
              else if \<not> requireReachable \<and> recent now b then Some (bc_root b)
              else None, m1)))"

definition meshBare :: "mesh \<Rightarrow> bool" where
  "meshBare ms \<longleftrightarrow> (case ms_neighbors ms of None \<Rightarrow> False | Some ns \<Rightarrow> list_all (\<lambda>n. ms_bridge ms = Some n) ns)"

definition selfClosestReachable :: "mesh \<Rightarrow> int \<Rightarrow> lman \<Rightarrow> bool" where
  "selfClosestReachable ms t m \<longleftrightarrow> (case ms_neighbors ms of None \<Rightarrow> True
     | Some ns \<Rightarrow> list_all (\<lambda>n. n = nodeId m \<or> ms_bridge ms = Some n \<or> \<not> n XOR t < nodeId m XOR t) ns)"

definition closer_of :: "int \<Rightarrow> int \<Rightarrow> int \<Rightarrow> int" where
  "closer_of t n best = (if n XOR t < best XOR t then n else best)"

definition bestKnownClosest :: "mesh \<Rightarrow> int \<Rightarrow> lman \<Rightarrow> int" where
  "bestKnownClosest ms t m =
     (let b1 = (case ms_neighbors ms of None \<Rightarrow> nodeId m
          | Some ns \<Rightarrow> fold (\<lambda>n best. if ms_bridge ms = Some n then best else closer_of t n best) ns (nodeId m))
      in case mget (lm_beacons m) t of None \<Rightarrow> b1
         | Some b \<Rightarrow> (case idBigOf (bc_root b) of None \<Rightarrow> b1 | Some rb \<Rightarrow> closer_of t rb b1))"

definition roleNature :: "lrole \<Rightarrow> string" where
  "roleNature r = (if isRoot r then ''root'' else if lr_backupOf r \<noteq> None then ''backup'' else ''child'')"

section \<open>Claims and custody\<close>

text \<open>\<open>wins\<close>: the claim wins over the claim of this node.\<close>

definition myClaim :: "int \<Rightarrow> lman \<Rightarrow> gen_id" where
  "myClaim t m = (lc (lm_me m), case mget (lm_roles m) t of None \<Rightarrow> 0 | Some r \<Rightarrow> if isRoot r then i32 (lr_epoch r) else 0)"

definition wins :: "int \<Rightarrow> gen_id \<Rightarrow> lman \<Rightarrow> bool" where
  "wins t c m \<longleftrightarrow> claimWins t c (myClaim t m)"

definition hasCustody :: "lrole \<Rightarrow> int \<Rightarrow> bool" where
  "hasCustody r now \<longleftrightarrow> cache r \<noteq> [] \<or> list_ex (\<lambda>(k, tb). tb_exp tb > now) (tombstones r)"

definition makeMergeState :: lmerge where
  "makeMergeState = \<lparr>lm_token = None, lm_candidate = None, lm_completing = False, lm_accepted = None, lm_pendingDelegation = 0\<rparr>"

definition merge_of :: "lrole \<Rightarrow> lmerge" where
  "merge_of r = (case lr_merge r of None \<Rightarrow> makeMergeState | Some g \<Rightarrow> g)"

section \<open>The transition\<close>

text \<open>Readers inherited from the principal are seated and replayed to.\<close>

definition seed_sub :: "int \<Rightarrow> string \<times> int \<times> bool \<Rightarrow> rout list \<times> lrole \<Rightarrow> rout list \<times> lrole" where
  "seed_sub t e p = (case e of (h, since, child) \<Rightarrow> case p of (out, r) \<Rightarrow>
     if mhas (lr_subs r) h then (out, r)
     else (out @ [RReplay t h since],
       r\<lparr>lr_subs := mset_key h \<lparr>se_kind = Reader, se_demand = 1\<rparr> (lr_subs r),
         lr_children := (if child then insert h (lr_children r) else lr_children r)\<rparr>))"

definition seedInherited :: "int \<Rightarrow> lman \<Rightarrow> lrole \<Rightarrow> rout list \<times> lrole" where
  "seedInherited t m r = (if replicateSubs m \<and> lr_inheritedSubs r \<noteq> []
     then (case fold (seed_sub t) (lr_inheritedSubs r) ([], r) of (out, r1) \<Rightarrow> (out, r1\<lparr>lr_inheritedSubs := []\<rparr>))
     else ([], r))"

definition later :: "int \<Rightarrow> int \<Rightarrow> int option \<Rightarrow> int option" where
  "later now x cur = (if x > now \<and> x > (case cur of None \<Rightarrow> 0 | Some c \<Rightarrow> c) then Some x else cur)"

definition inheritLeases :: "int \<Rightarrow> lman \<Rightarrow> lrole \<Rightarrow> lrole" where
  "inheritLeases now m r =
     (let r1 = (if replicateSubs m \<and> lr_inheritedMetrics r \<noteq> 0
            then r\<lparr>lr_metricsOn := later now (lr_inheritedMetrics r) (lr_metricsOn r), lr_inheritedMetrics := 0\<rparr> else r)
      in if lr_inheritedStanding r1 \<noteq> 0
         then r1\<lparr>lr_standingUntil := later now (lr_inheritedStanding r1) (lr_standingUntil r1), lr_inheritedStanding := 0\<rparr> else r1)"

definition refuses_flip :: "int \<Rightarrow> lman \<Rightarrow> lrole \<Rightarrow> string option \<Rightarrow> bool" where
  "refuses_flip now m r tok \<longleftrightarrow> mergeCapable m \<and> hasCustody r now
     \<and> (lm_token (merge_of r) = None \<or> tok \<noteq> lm_token (merge_of r))"

text \<open>\<open>_set\<close>. The result says whether the flip is committed.\<close>

definition setRoot :: "int \<Rightarrow> int \<Rightarrow> int \<Rightarrow> bool \<Rightarrow> string option \<Rightarrow> lman \<Rightarrow> bool \<times> rout list \<times> lman" where
  "setRoot now mo t b tok m = (case mget (lm_roles m) t of
     None \<Rightarrow> (True, [], m)
   | Some r \<Rightarrow>
       if isRoot r = b then (True, [], m)
       else if \<not> b then
         (if refuses_flip now m r tok then (False, [], put_role t (r\<lparr>lr_merge := Some (merge_of r)\<rparr>) m)
          else let r1 = (if mergeCapable m \<and> hasCustody r now then r\<lparr>lr_merge := Some ((merge_of r)\<lparr>lm_token := None\<rparr>)\<rparr> else r)
            in (True, [], put_role t (r1\<lparr>isRoot := False\<rparr>) m))
       else
         let r1 = r\<lparr>lr_epoch := mintEpoch mo t m\<rparr>;
             m1 = put_role t r1 (m\<lparr>lm_stepDownHold := mdelete t (lm_stepDownHold m)\<rparr>);
             m2 = (if lr_backupOf r1 \<noteq> None then retireBackup t m1 else m1);
             r2 = r1\<lparr>lr_backupOf := None, isRoot := True\<rparr>;
             (out, r3) = seedInherited t m2 r2
         in (True, out, put_role t (inheritLeases now m2 r3) m2))"

section \<open>The step-down hold\<close>

definition holdFor :: "int \<Rightarrow> int \<Rightarrow> lman \<Rightarrow> hold option \<times> lman" where
  "holdFor now t m = (case mget (lm_stepDownHold m) t of
     None \<Rightarrow> (None, m)
   | Some h \<Rightarrow>
       if \<not> stepDownHoldMs m > 0 \<or> now - ho_at h \<ge> stepDownHoldMs m then
         (None, on_role t (\<lambda>r. case lr_merge r of None \<Rightarrow> r
            | Some g \<Rightarrow> (case lm_accepted g of None \<Rightarrow> r
              | Some a \<Rightarrow> if ac_id a = ho_to h then r\<lparr>lr_merge := Some (g\<lparr>lm_accepted := None\<rparr>)\<rparr> else r))
           (m\<lparr>lm_stepDownHold := mdelete t (lm_stepDownHold m)\<rparr>))
       else (Some h, m))"

definition holdBlocks :: "int \<Rightarrow> int \<Rightarrow> lman \<Rightarrow> bool \<times> lman" where
  "holdBlocks now t m = (case holdFor now t m of (h, m1) \<Rightarrow> (h \<noteq> None, m1))"

definition holdTarget :: "int \<Rightarrow> mesh \<Rightarrow> bool \<Rightarrow> int \<Rightarrow> lman \<Rightarrow> string option \<times> lman" where
  "holdTarget now ms requireReachable t m = (case holdFor now t m of
     (None, m1) \<Rightarrow> (None, m1)
   | (Some h, m1) \<Rightarrow>
       let accepted = (case mget (lm_roles m1) t of None \<Rightarrow> None | Some r \<Rightarrow> Option.bind (lr_merge r) lm_accepted) in
       if (case accepted of None \<Rightarrow> False | Some a \<Rightarrow> ac_id a = ho_to h \<and> ac_exp a > now) then (Some (ho_to h), m1)
       else if isReachableId ms (ho_to h) then (Some (ho_to h), m1)
       else (case liveCloserRoot now ms requireReachable t m1 of
           (None, m2) \<Rightarrow> (None, m2)
         | (Some c, m2) \<Rightarrow> (if lc c = ho_to h then Some (ho_to h) else None, m2)))"

section \<open>Yielding\<close>

definition demote :: "int \<Rightarrow> int \<Rightarrow> int \<Rightarrow> string \<Rightarrow> string option \<Rightarrow> bool \<Rightarrow> lman \<Rightarrow> bool \<times> rout list \<times> lman" where
  "demote now mo t toId tok holdAlways m = (case mget (lm_roles m) t of
     None \<Rightarrow> (False, [], m)
   | Some r \<Rightarrow>
       if \<not> isRoot r then (False, [], m)
       else case idBigOf toId of None \<Rightarrow> (False, [], m)
       | Some to' \<Rightarrow>
           if to' = nodeId m then (False, [], m)
           else case setRoot now mo t False tok m of (ok, out, m1) \<Rightarrow>
             if \<not> ok then (False, out, m1)
             else let m2 = m1\<lparr>lm_upstream := mset_key t [lc toId] (lm_upstream m1)\<rparr>;
                      m3 = (if holdAlways \<or> to' XOR t < nodeId m XOR t
                        then m2\<lparr>lm_stepDownHold := mset_key t \<lparr>ho_to = lc toId, ho_at = now\<rparr> (lm_stepDownHold m2)\<rparr> else m2)
                  in (True, out @ [RSubscribe t], m3))"

text \<open>\<open>_mergeCandidate\<close>, the one entry of every path that sheds a claim.\<close>

definition mergeCandidate :: "int \<Rightarrow> int \<Rightarrow> int \<Rightarrow> string \<Rightarrow> int option \<Rightarrow> lman \<Rightarrow> rout list \<times> lman" where
  "mergeCandidate now mo t winnerHex winnerEpoch m = (case mget (lm_roles m) t of
     None \<Rightarrow> snd (demote now mo t winnerHex None False m)
   | Some r \<Rightarrow>
       if \<not> mergeCapable m \<or> \<not> isRoot r \<or> \<not> hasCustody r now then snd (demote now mo t winnerHex None False m)
       else let w = lc winnerHex; c = (w, case winnerEpoch of None \<Rightarrow> 0 | Some e \<Rightarrow> e) in
         if w = lc (lm_me m) then ([], m)
         else if \<not> wins t c m then ([], m)
         else let r1 = r\<lparr>lr_merge := Some (merge_of r)\<rparr> in
           if (case lm_candidate (merge_of r) of None \<Rightarrow> False | Some p \<Rightarrow> \<not> claimWins t c p) then ([], put_role t r1 m)
           else ([ROffer t], put_role t (r\<lparr>lr_merge := Some ((merge_of r)\<lparr>lm_candidate := Some c\<rparr>)\<rparr>) m))"

text \<open>\<open>_mergeStep5\<close> after its lease check: the export is pinned, the token is minted, the winner accepted and the claim given up.
  \<open>pinned\<close> is the manifest, \<open>tok\<close> the fresh token. The rest of the completion belongs to the merge.\<close>

definition mergeStep5 :: "int \<Rightarrow> int \<Rightarrow> int \<Rightarrow> string \<Rightarrow> int \<Rightarrow> string set \<Rightarrow> string \<Rightarrow> lman \<Rightarrow> bool \<times> rout list \<times> lman" where
  "mergeStep5 now mo t winner winnerEpoch pinned tok m =
     (let g = (\<lambda>r. (merge_of r)\<lparr>lm_token := Some tok,
             lm_accepted := Some \<lparr>ac_id = winner, ac_epoch = i32 winnerEpoch, ac_exp = now + i32 (stepDownHoldMs m)\<rparr>\<rparr>);
          m1 = on_role t (\<lambda>r. r\<lparr>pins := pins r \<union> pinned, lr_merge := Some (g r)\<rparr>) m
      in case demote now mo t winner (Some tok) True m1 of (ok, out, m2) \<Rightarrow>
        if ok then (True, out, m2)
        else (False, out, on_role t (\<lambda>r. r\<lparr>lr_merge := Some ((merge_of r)\<lparr>lm_token := None, lm_accepted := None\<rparr>)\<rparr>) m2))"

section \<open>Beacons\<close>

definition nearest_first :: "int \<Rightarrow> int list \<Rightarrow> int list" where
  "nearest_first self ns = sort_key (\<lambda>n. n XOR self) ns"

definition rooted :: "lman \<Rightarrow> (int \<times> int) list" where
  "rooted m = map (\<lambda>(t, r). (t, lr_epoch r)) (filter (\<lambda>(t, r). isRoot r \<and> \<not> dismantling r) (lm_roles m))"

definition beaconId :: "int \<Rightarrow> lman \<Rightarrow> string" where
  "beaconId now m = take 10 (idHex (nodeId m)) @ ''-'' @ int_text now @ ''-'' @ int_text (int (lm_beaconSeq m))"

definition emitRootBeacons :: "int \<Rightarrow> mesh \<Rightarrow> lman \<Rightarrow> rout list \<times> lman" where
  "emitRootBeacons now ms m = (case ms_neighbors ms of
     None \<Rightarrow> ([], m)
   | Some ns0 \<Rightarrow>
       let ns = filter (\<lambda>n. n \<noteq> nodeId m) ns0; rs = rooted m in
       if rs = [] \<or> ns = [] then ([], m)
       else let basin = take (beaconFanout m) (nearest_first (nodeId m) ns);
                i = beaconId now m;
                frame = (lc (idHex (nodeId m)), map fst rs, map snd rs, i, beaconLayers m)
            in (map (\<lambda>n. RBeacon n frame) basin,
                m\<lparr>lm_beaconSeq := lm_beaconSeq m + 1, lm_beaconSeen := mset_key i (now + BEACON_SEEN_MS) (lm_beaconSeen m)\<rparr>))"

definition announceRoot :: "int \<Rightarrow> mesh \<Rightarrow> int \<Rightarrow> lman \<Rightarrow> rout list \<times> lman" where
  "announceRoot now ms t m =
     (if ms_neighbors ms = None then ([], m)
      else if 2 * (now - (case mget (lm_lastAnnounce m) t of None \<Rightarrow> 0 | Some a \<Rightarrow> a)) < BEACON_MS then ([], m)
      else emitRootBeacons now ms (m\<lparr>lm_lastAnnounce := mset_key t now (lm_lastAnnounce m)\<rparr>))"

text \<open>A received beacon: \<open>None\<close> where a field has the wrong type (\<open>beaconId\<close>: is falsy).\<close>

record bframe =
  bf_root :: "string option"
  bf_topics :: "string list option"
  bf_epochs :: "js list option"
  bf_id :: "string option"
  bf_layer :: int

definition beaconEpoch :: "js list option \<Rightarrow> nat \<Rightarrow> int" where
  "beaconEpoch es i = (case es of None \<Rightarrow> 0
     | Some l \<Rightarrow> if i < length l \<and> num_is_integer (l ! i) \<and> num_int (l ! i) \<ge> 0 then min (num_int (l ! i)) max_safe_integer else 0)"

text \<open>A beacon of the accepted winner, at its epoch or above, extends the record and the hold.\<close>

definition refreshWinner :: "int \<Rightarrow> int \<Rightarrow> string \<Rightarrow> int \<Rightarrow> lman \<Rightarrow> lman" where
  "refreshWinner now t rootHex epoch m =
     (case Option.bind (Option.bind (mget (lm_roles m) t) lr_merge) lm_accepted of
        None \<Rightarrow> m
      | Some a \<Rightarrow>
          if ac_id a = lc rootHex \<and> epoch \<ge> ac_epoch a then
            (let m1 = on_role t (\<lambda>r. r\<lparr>lr_merge := Some ((merge_of r)\<lparr>lm_accepted :=
                   Some (a\<lparr>ac_epoch := epoch, ac_exp := now + i32 (stepDownHoldMs m)\<rparr>)\<rparr>)\<rparr>) m
             in case mget (lm_stepDownHold m1) t of None \<Rightarrow> m1
                | Some h \<Rightarrow> if ho_to h = ac_id a then m1\<lparr>lm_stepDownHold := mset_key t (h\<lparr>ho_at := now\<rparr>) (lm_stepDownHold m1)\<rparr> else m1)
          else m)"

definition seenEpoch :: "int \<Rightarrow> lman \<Rightarrow> int" where
  "seenEpoch t m = (case Option.bind (mget (lm_beacons m) t) bc_epoch of None \<Rightarrow> 0 | Some e \<Rightarrow> e)"

definition supersedesMine :: "int \<Rightarrow> int \<Rightarrow> lman \<Rightarrow> bool" where
  "supersedesMine t epoch m = (case mget (lm_roles m) t of None \<Rightarrow> False
     | Some r \<Rightarrow> isRoot r \<and> lr_epoch r > 0 \<and> epoch > lr_epoch r)"

definition reattach :: "int \<Rightarrow> string \<Rightarrow> int \<Rightarrow> int \<Rightarrow> lman \<Rightarrow> rout list \<times> lman" where
  "reattach t rootHex epoch prevEpoch m =
     (if subTerminalVerify m \<and> has_sub m t \<and> \<not> (case mget (lm_roles m) t of None \<Rightarrow> False | Some r \<Rightarrow> isRoot r)
         \<and> lc rootHex \<noteq> lc (lm_me m) \<and> Some (lc rootHex) \<noteq> upstreamOf m t \<and> epoch > prevEpoch
      then ([RFast t, RSubscribe t], m\<lparr>lm_upstream := mdelete t (lm_upstream m)\<rparr>) else ([], m))"

definition beacon_topic :: "int \<Rightarrow> int \<Rightarrow> mesh \<Rightarrow> string \<Rightarrow> int \<Rightarrow> int \<Rightarrow> int \<Rightarrow> lman \<Rightarrow> rout list \<times> lman" where
  "beacon_topic now mo ms rootHex rootBig epoch t m =
     (let sup = supersedesMine t epoch m;
          m1 = refreshWinner now t rootHex epoch m
      in if \<not> sup \<and> rootBig XOR t > bestKnownClosest ms t m1 XOR t then ([], m1)
         else let prevEpoch = seenEpoch t m1;
                  m2 = m1\<lparr>lm_beacons := mset_key t \<lparr>bc_root = lc rootHex, bc_at = now, bc_exp = now + BEACON_TTL_MS,
                    bc_epoch = Some (max epoch prevEpoch), bc_verified = False\<rparr> (lm_beacons m1)\<rparr>;
                  (stale, m3) = convicted now t rootHex (Some epoch) m2;
                  (o4, m4) = (if sup \<or> (rootBig XOR t < nodeId m XOR t \<and> \<not> stale)
                    then mergeCandidate now mo t (lc rootHex) (Some epoch) m3 else ([], m3));
                  (o5, m5) = reattach t rootHex epoch prevEpoch m4
              in (o4 @ o5, m5))"

definition beacon_entry :: "int \<Rightarrow> int \<Rightarrow> mesh \<Rightarrow> string \<Rightarrow> int \<Rightarrow> js list option \<Rightarrow> nat \<times> string \<Rightarrow> rout list \<times> lman \<Rightarrow> rout list \<times> lman" where
  "beacon_entry now mo ms rootHex rootBig es e p = (case e of (i, th) \<Rightarrow>
     (if \<not> ps_isHexId (lc th) then p
      else case idBigOf th of None \<Rightarrow> p
      | Some t \<Rightarrow> (case beacon_topic now mo ms rootHex rootBig (beaconEpoch es i) t (snd p) of (o1, m1) \<Rightarrow> (fst p @ o1, m1))))"

definition forwardBeacon :: "mesh \<Rightarrow> bframe \<Rightarrow> int option \<Rightarrow> lman \<Rightarrow> (int \<times> bframe) list" where
  "forwardBeacon ms f from m = (if bf_layer f > 1 then (case ms_neighbors ms of None \<Rightarrow> []
     | Some ns \<Rightarrow> map (\<lambda>n. (n, f\<lparr>bf_layer := bf_layer f - 1\<rparr>))
         (take (beaconFanout m) (nearest_first (nodeId m) (filter (\<lambda>n. n \<noteq> nodeId m \<and> Some n \<noteq> from) ns)))) else [])"

definition onRootBeacon :: "int \<Rightarrow> int \<Rightarrow> mesh \<Rightarrow> bframe \<Rightarrow> int option \<Rightarrow> lman \<Rightarrow> rout list \<times> (int \<times> bframe) list \<times> lman" where
  "onRootBeacon now mo ms f from m = (case (bf_root f, bf_topics f, bf_id f) of
     (Some rt, Some ts, Some i) \<Rightarrow>
       if mhas (lm_beaconSeen m) i then ([], [], m)
       else let m1 = m\<lparr>lm_beaconSeen := mset_key i (now + BEACON_SEEN_MS) (lm_beaconSeen m)\<rparr> in
         if \<not> ps_isHexId (lc rt) then ([], [], m1)
         else (case idBigOf rt of None \<Rightarrow> ([], [], m1)
         | Some rb \<Rightarrow> (case fold (beacon_entry now mo ms rt rb (bf_epochs f)) (enumerate 0 (take 256 ts)) ([], m1) of
             (out, m2) \<Rightarrow> (out, forwardBeacon ms f from m2, m2)))
   | _ \<Rightarrow> ([], [], m))"

section \<open>Verification\<close>

text \<open>The topics whose verification starts now, in the order of the roles. \<open>inflight\<close>: those under way.\<close>

definition verify_due :: "int \<Rightarrow> lrole \<Rightarrow> bool" where
  "verify_due now r = (if lr_lastVerify r \<noteq> 0 then now - lr_lastVerify r \<ge> ROOT_VERIFY_MS else now - lr_formedAt r \<ge> ROOT_VERIFY_FIRST_MS)"

definition verifyRoots :: "int \<Rightarrow> int set \<Rightarrow> lman \<Rightarrow> int list \<times> lman" where
  "verifyRoots now inflight m =
     (let ts = take ROOT_VERIFY_BATCH (map fst (filter (\<lambda>(t, r). isRoot r \<and> t \<notin> inflight \<and> verify_due now r) (lm_roles m)))
      in (ts, m\<lparr>lm_roles := map (\<lambda>(t, r). (t, if t \<in> set ts then r\<lparr>lr_lastVerify := now\<rparr> else r)) (lm_roles m)\<rparr>))"

text \<open>The closest node that the walk visited, without this node, and without the bridge under \<open>cutover\<close>.\<close>

definition closest_visited :: "int \<Rightarrow> mesh \<Rightarrow> int list \<Rightarrow> lman \<Rightarrow> int option" where
  "closest_visited t ms path m = fold (\<lambda>b best.
     if b = nodeId m \<or> (cutover m \<and> ms_bridge ms = Some b) then best
     else case best of None \<Rightarrow> Some b | Some c \<Rightarrow> if b XOR t < c XOR t then Some b else best) path None"

definition verifyVerdict :: "int \<Rightarrow> int \<Rightarrow> mesh \<Rightarrow> int \<Rightarrow> int list \<Rightarrow> lman \<Rightarrow> rout list \<times> lman" where
  "verifyVerdict now mo ms t path m = (case closest_visited t ms path m of
     None \<Rightarrow> ([], m)
   | Some c \<Rightarrow>
       if c XOR t \<ge> nodeId m XOR t then ([], m)
       else if \<not> (case mget (lm_roles m) t of None \<Rightarrow> False | Some r \<Rightarrow> isRoot r) then ([], m)
       else let h = lc (idHex c);
                m1 = (if cutover m then m else m\<lparr>lm_beacons := mset_key t \<lparr>bc_root = h, bc_at = now,
                  bc_exp = now + 2 * ROOT_VERIFY_MS, bc_epoch = None, bc_verified = True\<rparr> (lm_beacons m)\<rparr>)
            in mergeCandidate now mo t h None m1)"

section \<open>Admission and birth\<close>

definition seated :: "int \<Rightarrow> mesh \<Rightarrow> lman \<Rightarrow> bool" where
  "seated now ms m \<longleftrightarrow> \<not> now - joinedAt m < roleGraceMs m \<and> \<not> meshBare ms"

datatype admission = Admitted | HardRefusal | SoftRefusal

definition canAcceptRole :: "int \<Rightarrow> mesh \<Rightarrow> lman \<Rightarrow> admission \<times> lman" where
  "canAcceptRole now ms m =
     (if neverRoot m then (HardRefusal, m)
      else if \<not> seated now ms m then (SoftRefusal, m)
      else if ms_saturated ms then (SoftRefusal, m)
      else let m1 = (if now - lm_admitTickAt m \<ge> refreshIntervalMs m then m\<lparr>lm_admitTickAt := now, lm_admitTickCount := 0\<rparr> else m)
        in if lm_admitTickCount m1 \<ge> roleAdmitPerTick m1 then (SoftRefusal, m1) else (Admitted, m1))"

definition admitRole :: "int \<Rightarrow> mesh \<Rightarrow> bool \<Rightarrow> lman \<Rightarrow> bool \<times> lman" where
  "admitRole now ms hasAlternative m = (case canAcceptRole now ms m of (v, m1) \<Rightarrow>
     if v = HardRefusal \<or> (v = SoftRefusal \<and> hasAlternative) then (False, m1)
     else (True, m1\<lparr>lm_admitTickCount := lm_admitTickCount m1 + 1\<rparr>))"

definition admitPushedRole :: "mesh \<Rightarrow> lman \<Rightarrow> bool" where
  "admitPushedRole ms m \<longleftrightarrow> \<not> neverRoot m \<and> \<not> ms_saturated ms"

text \<open>\<open>ref\<close> is the identity of the new role object.\<close>

definition become :: "int \<Rightarrow> int \<Rightarrow> mesh \<Rightarrow> nat \<Rightarrow> int \<Rightarrow> lman \<Rightarrow> bool \<times> rout list \<times> lman" where
  "become now mo ms ref t m = (case admitRole now ms False m of (ok, m1) \<Rightarrow>
     if \<not> ok then (False, [], m1)
     else let r = (new_lrole ref t True now)\<lparr>lr_epoch := mintEpoch mo t m1, lr_formedAt := now, lr_lastVerify := 0\<rparr>
       in case announceRoot now ms t (put_role t r m1) of (out, m2) \<Rightarrow> (True, out @ [RProbe t], m2))"

definition becomeRoot :: "int \<Rightarrow> int \<Rightarrow> mesh \<Rightarrow> nat \<Rightarrow> int \<Rightarrow> lman \<Rightarrow> bool \<times> rout list \<times> lman" where
  "becomeRoot now mo ms ref t m =
     (if ms_serving ms = Some False then (False, [], m\<lparr>lm_rootBirthsRefused := lm_rootBirthsRefused m + 1\<rparr>)
      else become now mo ms ref t m)"

definition promote :: "int \<Rightarrow> int \<Rightarrow> mesh \<Rightarrow> bool \<Rightarrow> bool \<Rightarrow> int \<Rightarrow> lman \<Rightarrow> rout list \<times> lman" where
  "promote now mo ms viaEmpty isTerminal t m = (case mget (lm_roles m) t of
     None \<Rightarrow> ([], m)
   | Some r \<Rightarrow>
       if \<not> (viaEmpty \<and> isTerminal \<and> \<not> isRoot r) then ([], m)
       else if ms_serving ms = Some False then ([], m)
       else case liveCloserRoot now ms True t m of (c, m1) \<Rightarrow>
         if c \<noteq> None then ([], m1)
         else case holdBlocks now t m1 of (blocked, m2) \<Rightarrow>
           if blocked then ([], m2)
           else case setRoot now mo t True None m2 of (_, o3, m3) \<Rightarrow>
             case announceRoot now ms t (m3\<lparr>lm_upstream := mdelete t (lm_upstream m3)\<rparr>) of (o4, m4) \<Rightarrow>
               (o3 @ o4, on_role t (\<lambda>r. r\<lparr>lr_formedAt := now, lr_lastVerify := 0,
                  lr_metricsOn := (case mget (lm_metricsWanted m4) t of None \<Rightarrow> lr_metricsOn r | Some w \<Rightarrow> later now w (lr_metricsOn r))\<rparr>) m4))"

definition claimReachable :: "int \<Rightarrow> int \<Rightarrow> mesh \<Rightarrow> nat \<Rightarrow> int \<Rightarrow> lman \<Rightarrow> bool \<times> rout list \<times> lman" where
  "claimReachable now mo ms ref t m = (case holdBlocks now t m of (blocked, m1) \<Rightarrow>
     if blocked then (False, [], m1)
     else case (if mhas (lm_roles m1) t then (True, [], m1) else become now mo ms ref t m1) of (ok, o2, m2) \<Rightarrow>
       if \<not> ok then (False, o2, m2)
       else case setRoot now mo t True None m2 of (_, o3, m3) \<Rightarrow>
         (True, o2 @ o3, m3\<lparr>lm_upstream := mdelete t (lm_upstream m3), lm_hints := lm_hints m3 - {t}, lm_unattached := lm_unattached m3 - {t}\<rparr>))"

definition adoptChild :: "int \<Rightarrow> int \<Rightarrow> nat \<Rightarrow> string \<Rightarrow> int \<Rightarrow> lman \<Rightarrow> bool \<times> lman" where
  "adoptChild now mo ref parentHex t m =
     (let m1 = (if mhas (lm_roles m) t then m else put_role t (new_lrole ref t False now) m) in
      case setRoot now mo t False None m1 of (ok, _, m2) \<Rightarrow>
        if \<not> ok then (False, m2) else (True, m2\<lparr>lm_upstream := mset_key t [lc parentHex] (lm_upstream m2)\<rparr>))"

definition handoffArrived :: "int \<Rightarrow> int \<Rightarrow> mesh \<Rightarrow> string option \<Rightarrow> int \<Rightarrow> lman \<Rightarrow> rout list \<times> lman" where
  "handoffArrived now mo ms leaver t m =
     (let m1 = (if leaver \<noteq> None \<and> map_option bc_root (mget (lm_beacons m) t) = leaver
          then m\<lparr>lm_beacons := mdelete t (lm_beacons m)\<rparr> else m)
      in case liveCloserRoot now ms True t m1 of (c, m2) \<Rightarrow>
        (case c of None \<Rightarrow> ([], m2)
         | Some h \<Rightarrow> if c \<noteq> leaver then mergeCandidate now mo t h None m2 else ([], m2)))"

section \<open>What a backup inherits\<close>

text \<open>The part of a full REPLICATE that a backup keeps for its promotion: the subscriber list (\<open>None\<close>: absent; an entry is the id, \<open>since\<close>
  and the child flag, malformed ids dropped), and the remaining leases.\<close>

definition stash_subs :: "lman \<Rightarrow> (string \<times> int \<times> bool) list \<Rightarrow> (string, int \<times> bool) jmap" where
  "stash_subs m es = fold (\<lambda>(h, v) l. if ps_isHexId (lc h) \<and> lc h \<noteq> lc (lm_me m) then mset_key (lc h) v l else l) es []"

definition remaining :: "int \<Rightarrow> int \<Rightarrow> int \<Rightarrow> int" where
  "remaining now cap rem = (let x = min (max 0 rem) cap in if x > 0 then now + x else 0)"

definition stashInherited :: "int \<Rightarrow> int \<Rightarrow> (string \<times> int \<times> bool) list option \<Rightarrow> int option \<Rightarrow> int option \<Rightarrow> lman \<Rightarrow> lman" where
  "stashInherited now t subs standingRem metricsRem m = on_role t (\<lambda>r.
     let r1 = (case subs of Some es \<Rightarrow> if replicateSubs m then r\<lparr>lr_inheritedSubs := stash_subs m es\<rparr> else r | None \<Rightarrow> r);
         r2 = (case standingRem of Some x \<Rightarrow> if standingLease m then r1\<lparr>lr_inheritedStanding := remaining now STANDING_LEASE_MAX_MS x\<rparr> else r1
           | None \<Rightarrow> r1)
     in case metricsRem of Some x \<Rightarrow> if replicateSubs m then r2\<lparr>lr_inheritedMetrics := remaining now METRICS_LEASE_MS x\<rparr> else r2 | None \<Rightarrow> r2) m"

end
