(* ===== verification/RootLaws.thy ===== *)
theory RootLaws
  imports RootClaim
begin

text \<open>
  Laws of the root claims. Every operation of \<open>RootClaim\<close> is reduced to a few primitive changes of the roles and the holds (\<open>claim_prim\<close>):
  a flip through \<open>setRoot\<close>, an update of a role that leaves its claim alone, a hold that is armed, extended or expires, and the birth of a
  role. What holds of every run is then shown once per primitive.
\<close>

section \<open>Primitive changes\<close>

text \<open>The claim of a role: everything but the merge records, the leases, the seats and the verification times.\<close>

definition same_claim :: "lrole \<Rightarrow> lrole \<Rightarrow> bool" where
  "same_claim r r' \<longleftrightarrow> isRoot r' = isRoot r \<and> cache r' = cache r \<and> tombstones r' = tombstones r \<and> lr_epoch r' = lr_epoch r \<and>
     lr_backupOf r' = lr_backupOf r \<and> lm_token (merge_of r') = lm_token (merge_of r)"

definition quiet :: "lman \<Rightarrow> lman \<Rightarrow> bool" where
  "quiet m m' \<longleftrightarrow> lm_roles m' = lm_roles m \<and> lm_stepDownHold m' = lm_stepDownHold m \<and> mergeCapable m' = mergeCapable m \<and>
     stepDownHoldMs m' = stepDownHoldMs m \<and> lm_me m' = lm_me m"

definition held :: "int \<Rightarrow> int \<Rightarrow> lman \<Rightarrow> bool" where
  "held now t m \<longleftrightarrow> (case mget (lm_stepDownHold m) t of None \<Rightarrow> False
     | Some h \<Rightarrow> stepDownHoldMs m > 0 \<and> now - ho_at h < stepDownHoldMs m)"

inductive claim_prim :: "int \<Rightarrow> lman \<Rightarrow> lman \<Rightarrow> bool" for now :: int where
  quietly: "quiet m m' \<Longrightarrow> claim_prim now m m'"
| flip: "b \<longrightarrow> \<not> held now t m \<Longrightarrow> claim_prim now m (snd (snd (setRoot now mo t b tok m)))"
| benign: "mget (lm_roles m) t = Some r \<Longrightarrow> same_claim r r' \<Longrightarrow> claim_prim now m (put_role t r' m)"
| arm: "claim_prim now m (m\<lparr>lm_stepDownHold := mset_key t \<lparr>ho_to = w, ho_at = now\<rparr> (lm_stepDownHold m)\<rparr>)"
| release: "\<not> held now t m \<Longrightarrow> claim_prim now m (m\<lparr>lm_stepDownHold := mdelete t (lm_stepDownHold m)\<rparr>)"
| birth: "mget (lm_roles m) t = None \<Longrightarrow> lr_backupOf r = None \<Longrightarrow> claim_prim now m (put_role t r m)"

abbreviation claim_prims :: "int \<Rightarrow> lman \<Rightarrow> lman \<Rightarrow> bool" where
  "claim_prims now \<equiv> (claim_prim now)\<^sup>*\<^sup>*"

named_theorems prims

lemma prims_refl [prims]: "claim_prims now m m"
  by simp

lemma prims_step: "claim_prims now m m' \<Longrightarrow> claim_prim now m' m'' \<Longrightarrow> claim_prims now m m''"
  by (rule rtranclp.rtrancl_into_rtrancl)

lemma prims_trans [trans]: "claim_prims now m m' \<Longrightarrow> claim_prims now m' m'' \<Longrightarrow> claim_prims now m m''"
  by (rule rtranclp_trans)

lemma prims_quiet: "claim_prims now m m' \<Longrightarrow> quiet m' m'' \<Longrightarrow> claim_prims now m m''"
  by (rule prims_step, assumption, rule quietly)

lemma same_claim_refl [simp]: "same_claim r r"
  by (simp add: same_claim_def)

lemma merge_of_upd [simp]: "merge_of (r\<lparr>lr_merge := Some g\<rparr>) = g"
  by (simp add: merge_of_def)

lemma prims_on_role: "(\<And>r. mget (lm_roles m) t = Some r \<Longrightarrow> same_claim r (f r)) \<Longrightarrow> claim_prims now m (on_role t f m)"
  by (cases "mget (lm_roles m) t") (auto simp: on_role_def intro!: benign)

section \<open>The operations as primitives\<close>

lemma put_role_keeps [simp]: "lm_stepDownHold (put_role t r m) = lm_stepDownHold m" "mergeCapable (put_role t r m) = mergeCapable m"
  "stepDownHoldMs (put_role t r m) = stepDownHoldMs m" "lm_me (put_role t r m) = lm_me m" "replicateSubs (put_role t r m) = replicateSubs m"
  "lm_beacons (put_role t r m) = lm_beacons m" "lm_rootTombs (put_role t r m) = lm_rootTombs m" "lm_upstream (put_role t r m) = lm_upstream m"
  "lm_genHighWater (put_role t r m) = lm_genHighWater m"
  by (simp_all add: put_role_def)

lemma convicted_quiet: "quiet m (snd (convicted now t h ep m))"
  by (simp add: convicted_def quiet_def split: option.split)

lemma liveCloserRoot_quiet: "quiet m (snd (liveCloserRoot now ms rr t m))"
  by (auto simp: liveCloserRoot_def quiet_def convicted_def split: option.split prod.split)

lemma announce_quiet: "quiet m (snd (announceRoot now ms t m))"
  by (auto simp: announceRoot_def emitRootBeacons_def quiet_def Let_def split: option.split)

lemma quiet_trans: "quiet m m' \<Longrightarrow> quiet m' m'' \<Longrightarrow> quiet m m''"
  by (simp add: quiet_def)

lemma quiet_held: "quiet m m' \<Longrightarrow> held now t m' = held now t m"
  by (simp add: quiet_def held_def split: option.split)

lemma holdFor_None: "fst (holdFor now t m) = None \<longleftrightarrow> \<not> held now t m"
  by (auto simp: holdFor_def held_def split: option.split)

lemma on_role_hold [simp]: "lm_stepDownHold (on_role t f m) = lm_stepDownHold m" "stepDownHoldMs (on_role t f m) = stepDownHoldMs m"
  "mergeCapable (on_role t f m) = mergeCapable m" "lm_me (on_role t f m) = lm_me m" "lm_beacons (on_role t f m) = lm_beacons m"
  "lm_upstream (on_role t f m) = lm_upstream m" "lm_rootTombs (on_role t f m) = lm_rootTombs m"
  by (simp_all add: on_role_def put_role_def split: option.split)

lemma holdFor_held: "held now t (snd (holdFor now t m)) = held now t m"
  by (auto simp: holdFor_def held_def split: option.split)

lemma holdFor_prims: "claim_prims now m (snd (holdFor now t m))"
proof (cases "fst (holdFor now t m) = None \<and> mget (lm_stepDownHold m) t \<noteq> None")
  case True
  then obtain h where h: "mget (lm_stepDownHold m) t = Some h" by blast
  have nh: "\<not> held now t m" using True holdFor_None by blast
  let ?m = "m\<lparr>lm_stepDownHold := mdelete t (lm_stepDownHold m)\<rparr>"
  have "claim_prims now m ?m" using release [OF nh] by blast
  moreover have "claim_prims now ?m (snd (holdFor now t m))"
    using h nh by (auto simp: holdFor_def held_def same_claim_def merge_of_def intro!: prims_on_role split: option.split)
  ultimately show ?thesis by (rule prims_trans)
next
  case False
  then show ?thesis by (auto simp: holdFor_def split: option.split if_splits)
qed

lemma setRoot_prims: "(b \<longrightarrow> \<not> held now t m) \<Longrightarrow> claim_prims now m (snd (snd (setRoot now mo t b tok m)))"
  using flip by blast

lemma demote_prims [prims]: "claim_prims now m (snd (snd (demote now mo t h tok al m)))"
proof -
  obtain ok out m1 where s: "setRoot now mo t False tok m = (ok, out, m1)" by (cases "setRoot now mo t False tok m")
  have p: "claim_prims now m m1" using setRoot_prims [of False now t m mo tok] s by simp
  have q: "claim_prims now m (m1\<lparr>lm_upstream := u\<rparr>)" for u by (rule prims_quiet [OF p]) (simp add: quiet_def)
  have a: "claim_prims now m ((m1\<lparr>lm_upstream := u\<rparr>)\<lparr>lm_stepDownHold := mset_key t \<lparr>ho_to = w, ho_at = now\<rparr> (lm_stepDownHold m1)\<rparr>)" for u w
    using prims_step [OF q [of u] arm [of now _ t w]] by simp
  show ?thesis using p q a by (auto simp: demote_def s Let_def split: option.split)
qed

lemma candidate_prims [prims]: "claim_prims now m (snd (mergeCandidate now mo t w e m))"
  by (auto simp: mergeCandidate_def Let_def same_claim_def intro!: demote_prims benign split: option.split)

lemma winner_prims: "claim_prims now m (refreshWinner now t h e m)"
proof (cases "Option.bind (Option.bind (mget (lm_roles m) t) lr_merge) lm_accepted")
  case (Some a)
  let ?m = "on_role t (\<lambda>r. r\<lparr>lr_merge := Some ((merge_of r)\<lparr>lm_accepted :=
                   Some (a\<lparr>ac_epoch := e, ac_exp := now + i32 (stepDownHoldMs m)\<rparr>)\<rparr>)\<rparr>) m"
  have p: "claim_prims now m ?m" by (rule prims_on_role) (simp add: same_claim_def)
  have "claim_prims now m (?m\<lparr>lm_stepDownHold := mset_key t (hh\<lparr>ho_at := now\<rparr>) (lm_stepDownHold ?m)\<rparr>)" for hh
    using prims_step [OF p arm [of now ?m t "ho_to hh"]] by (cases hh) simp
  then show ?thesis using p Some by (auto simp: refreshWinner_def Let_def split: option.split)
qed (simp add: refreshWinner_def)

lemma reattach_quiet: "quiet m (snd (reattach t h e pe m))"
  by (simp add: reattach_def quiet_def)

lemma beacon_topic_prims: "claim_prims now m (snd (beacon_topic now mo ms h rb e t m))"
proof -
  define m1 where "m1 = refreshWinner now t h e m"
  have p1: "claim_prims now m m1" unfolding m1_def by (rule winner_prims)
  define b where "b = \<lparr>bc_root = lc h, bc_at = now, bc_exp = now + BEACON_TTL_MS, bc_epoch = Some (max e (seenEpoch t m1)), bc_verified = False\<rparr>"
  define m2 where "m2 = m1\<lparr>lm_beacons := mset_key t b (lm_beacons m1)\<rparr>"
  define m3 where "m3 = snd (convicted now t h (Some e) m2)"
  have p3: "claim_prims now m m3"
    by (rule prims_quiet [OF p1]) (use convicted_quiet [of m2 now t h "Some e"] in \<open>simp add: m3_def m2_def quiet_def\<close>)
  have p4: "claim_prims now m (snd (mergeCandidate now mo t (lc h) (Some e) m3))"
    using p3 candidate_prims by (rule prims_trans)
  have p5: "claim_prims now m (snd (reattach t h e (seenEpoch t m1) x))" if "claim_prims now m x" for x
    using that reattach_quiet by (rule prims_quiet)
  show ?thesis
    using p1 p5 [OF p4] p5 [OF p3]
    by (auto simp: beacon_topic_def Let_def m1_def [symmetric] b_def [symmetric] m2_def [symmetric] m3_def split_def)
qed

lemma beacon_fold_prims: "claim_prims now (snd p) (snd (fold (beacon_entry now mo ms h rb es) l p))"
proof (induction l arbitrary: p)
  case (Cons e l)
  have "claim_prims now (snd p) (snd (beacon_entry now mo ms h rb es e p))"
    using beacon_topic_prims by (simp add: beacon_entry_def split_def split: option.split)
  then show ?case using Cons.IH [of "beacon_entry now mo ms h rb es e p"] by (auto intro: prims_trans)
qed simp

lemma beacon_prims [prims]: "claim_prims now m (snd (snd (onRootBeacon now mo ms f from m)))"
proof -
  let ?m = "\<lambda>i. m\<lparr>lm_beaconSeen := mset_key i (now + BEACON_SEEN_MS) (lm_beaconSeen m)\<rparr>"
  have q: "claim_prims now m (?m i)" for i by (rule prims_quiet [OF prims_refl]) (simp add: quiet_def)
  have "claim_prims now m (snd (fold (beacon_entry now mo ms h rb es) l ([], ?m i)))" for h rb es l i
    using prims_trans [OF q [of i]] beacon_fold_prims [of now "([], ?m i)" mo ms h rb es l] by simp
  then show ?thesis using q by (simp add: onRootBeacon_def Let_def split_def split: option.split)
qed

lemma verify_prims [prims]: "claim_prims now m (snd (verifyVerdict now mo ms t path m))"
proof -
  let ?m = "\<lambda>b. m\<lparr>lm_beacons := b\<rparr>"
  have q: "claim_prims now m (?m b)" for b by (rule prims_quiet [OF prims_refl]) (simp add: quiet_def)
  have "claim_prims now m (snd (mergeCandidate now mo t w e (?m b)))" for w e b
    using q candidate_prims by (rule prims_trans)
  then show ?thesis using candidate_prims by (simp add: verifyVerdict_def Let_def split: option.split)
qed

lemma admitRole_quiet: "quiet m (snd (admitRole now ms alt m))"
  by (auto simp: admitRole_def canAcceptRole_def quiet_def Let_def split: prod.splits if_splits)

definition born :: "int \<Rightarrow> int \<Rightarrow> nat \<Rightarrow> int \<Rightarrow> lman \<Rightarrow> lrole" where
  "born now mo ref t m = (new_lrole ref t True now)\<lparr>lr_epoch := mintEpoch mo t m, lr_formedAt := now, lr_lastVerify := 0\<rparr>"

lemma become_state:
  obtains (refused) "fst (become now mo ms ref t m) = False" "quiet m (snd (snd (become now mo ms ref t m)))"
  | (born) m1 where "fst (become now mo ms ref t m)" "quiet m m1"
      "quiet (put_role t (born now mo ref t m1) m1) (snd (snd (become now mo ms ref t m)))"
proof -
  obtain ok m1 where a: "admitRole now ms False m = (ok, m1)" by (cases "admitRole now ms False m")
  have q: "quiet m m1" using admitRole_quiet [of m now ms False] a by simp
  show ?thesis
  proof (cases ok)
    case False
    with q a show ?thesis by (intro refused) (simp_all add: become_def)
  next
    case True
    then show ?thesis using announce_quiet [of "put_role t (born now mo ref t m1) m1" now ms t]
      by (intro born [OF _ q]) (simp_all add: become_def a born_def Let_def split_def)
  qed
qed

lemma born_backup [simp]: "lr_backupOf (born now mo ref t m) = None" "isRoot (born now mo ref t m)"
  "lr_epoch (born now mo ref t m) = mintEpoch mo t m"
  by (simp_all add: born_def new_lrole_def)

lemma become_prims:
  assumes "mget (lm_roles m) t = None"
  shows "claim_prims now m (snd (snd (become now mo ms ref t m)))"
proof (cases rule: become_state [of now mo ms ref t m])
  case refused
  from prims_quiet [OF prims_refl refused(2)] show ?thesis .
next
  case (born m1)
  have "mget (lm_roles m1) t = None" using assms born(2) by (simp add: quiet_def)
  then have "claim_prims now m (put_role t (born now mo ref t m1) m1)"
    using prims_step [OF prims_quiet [OF prims_refl born(2)] birth] by simp
  then show ?thesis using born(3) by (rule prims_quiet)
qed

lemma put_role_held [simp]: "held now x (put_role t r m) = held now x m"
  by (simp add: held_def put_role_def split: option.split)

lemma become_held: "held now x (snd (snd (become now mo ms ref t m))) = held now x m"
proof (cases rule: become_state [of now mo ms ref t m])
  case refused
  then show ?thesis using quiet_held by blast
next
  case (born m1)
  show ?thesis by (simp only: quiet_held [OF born(3)] put_role_held quiet_held [OF born(2)])
qed

lemma becomeRoot_prims: "mget (lm_roles m) t = None \<Longrightarrow> claim_prims now m (snd (snd (becomeRoot now mo ms ref t m)))"
  by (auto simp: becomeRoot_def become_prims quiet_def intro!: quietly)

lemma holdBlocks_prims: "claim_prims now m (snd (holdBlocks now t m))"
  using holdFor_prims [of now m t] by (simp add: holdBlocks_def split_def)

lemma holdBlocks_iff: "fst (holdBlocks now t m) = held now t m"
  using holdFor_None [of now t m] by (auto simp: holdBlocks_def split_def)

lemma holdBlocks_held: "held now t (snd (holdBlocks now t m)) = held now t m"
  by (simp add: holdBlocks_def split_def holdFor_held)

lemma promote_prims [prims]: "claim_prims now m (snd (promote now mo ms ve it t m))"
proof (cases "mget (lm_roles m) t")
  case (Some r)
  define m1 where "m1 = snd (liveCloserRoot now ms True t m)"
  define m2 where "m2 = snd (holdBlocks now t m1)"
  define m3 where "m3 = snd (snd (setRoot now mo t True None m2))"
  define m4 where "m4 = snd (announceRoot now ms t (m3\<lparr>lm_upstream := mdelete t (lm_upstream m3)\<rparr>))"
  have p1: "claim_prims now m m1" unfolding m1_def by (rule prims_quiet [OF prims_refl liveCloserRoot_quiet])
  have p2: "claim_prims now m m2" unfolding m2_def using p1 holdBlocks_prims by (rule prims_trans)
  have p4: "claim_prims now m m4" if "\<not> fst (holdBlocks now t m1)"
  proof -
    have "\<not> held now t m2" using that holdBlocks_iff holdBlocks_held m2_def by simp
    then have p3: "claim_prims now m m3" unfolding m3_def using p2 setRoot_prims by (blast intro: prims_trans)
    have "claim_prims now m (m3\<lparr>lm_upstream := mdelete t (lm_upstream m3)\<rparr>)" by (rule prims_quiet [OF p3]) (simp add: quiet_def)
    then show ?thesis unfolding m4_def using announce_quiet by (rule prims_quiet)
  qed
  have p5: "claim_prims now m (on_role t (\<lambda>r. r\<lparr>lr_formedAt := x, lr_lastVerify := 0, lr_metricsOn := y r\<rparr>) m4)"
    if "\<not> fst (holdBlocks now t m1)" for x y
    using p4 [OF that] by (rule prims_trans) (rule prims_on_role, simp add: same_claim_def merge_of_def)
  show ?thesis using Some p1 p2 p5
    by (auto simp: promote_def m1_def [symmetric] m2_def [symmetric] m3_def [symmetric] m4_def [symmetric] split_def)
qed (simp add: promote_def)

lemma claimReachable_prims [prims]: "claim_prims now m (snd (snd (claimReachable now mo ms ref t m)))"
proof -
  define m1 where "m1 = snd (holdBlocks now t m)"
  have p1: "claim_prims now m m1" unfolding m1_def by (rule holdBlocks_prims)
  define p where "p = (if mhas (lm_roles m1) t then (True, [], m1) else become now mo ms ref t m1)"
  define m2 where "m2 = snd (snd p)"
  have p2: "claim_prims now m m2"
    using p1 become_prims [of m1 t now mo ms ref] by (auto simp: m2_def p_def intro: prims_trans)
  have h2: "held now t m2 = held now t m"
    using holdBlocks_held [of now t m] by (simp add: m2_def p_def m1_def become_held)
  have p3: "claim_prims now m (snd (snd (setRoot now mo t True None m2)))" if "\<not> held now t m"
    using p2 setRoot_prims [of True now t m2 mo None] h2 that by (blast intro: prims_trans)
  then have "claim_prims now m ((snd (snd (setRoot now mo t True None m2)))\<lparr>lm_upstream := u, lm_hints := v, lm_unattached := w\<rparr>)"
    if "\<not> held now t m" for u v w
    using that p3 by (intro prims_quiet [OF p3]) (simp_all add: quiet_def)
  then show ?thesis using p1 p2 holdBlocks_iff [of now t m]
    unfolding claimReachable_def split_def m1_def [symmetric] p_def [symmetric] m2_def [symmetric] by simp
qed

lemma adopt_prims [prims]: "claim_prims now m (snd (adoptChild now mo ref h t m))"
proof -
  define m1 where "m1 = (if mhas (lm_roles m) t then m else put_role t (new_lrole ref t False now) m)"
  have p1: "claim_prims now m m1" by (auto simp: m1_def new_lrole_def intro!: birth)
  obtain ok out m2 where s: "setRoot now mo t False None m1 = (ok, out, m2)" by (cases "setRoot now mo t False None m1")
  have p2: "claim_prims now m m2" using prims_trans [OF p1 setRoot_prims [of False now t m1 mo None]] s by simp
  have "claim_prims now m (m2\<lparr>lm_upstream := u\<rparr>)" for u by (rule prims_quiet [OF p2]) (simp add: quiet_def)
  then show ?thesis using p2 unfolding adoptChild_def Let_def m1_def [symmetric] s by simp
qed

lemma handoff_prims [prims]: "claim_prims now m (snd (handoffArrived now mo ms lv t m))"
proof -
  define m1 where "m1 = (if lv \<noteq> None \<and> map_option bc_root (mget (lm_beacons m) t) = lv then m\<lparr>lm_beacons := mdelete t (lm_beacons m)\<rparr> else m)"
  have "quiet m m1" by (simp add: m1_def quiet_def)
  then have "quiet m (snd (liveCloserRoot now ms True t m1))" using liveCloserRoot_quiet by (rule quiet_trans)
  then have p: "claim_prims now m (snd (liveCloserRoot now ms True t m1))" by (rule prims_quiet [OF prims_refl])
  have "claim_prims now m (snd (mergeCandidate now mo t h e (snd (liveCloserRoot now ms True t m1))))" for h e
    using p candidate_prims by (rule prims_trans)
  then show ?thesis using p unfolding handoffArrived_def Let_def m1_def [symmetric] split_def by (simp split: option.split)
qed

lemma target_prims [prims]: "claim_prims now m (snd (holdTarget now ms rr t m))"
proof -
  have p: "claim_prims now m (snd (holdFor now t m))" by (rule holdFor_prims)
  have "claim_prims now m (snd (liveCloserRoot now ms rr t (snd (holdFor now t m))))" using p liveCloserRoot_quiet by (rule prims_quiet)
  then show ?thesis using p by (simp add: holdTarget_def Let_def split_def split: option.split prod.split)
qed

lemma stash_prims [prims]: "claim_prims now m (stashInherited now' t ss sr mr m)"
  unfolding stashInherited_def
  by (rule prims_on_role) (auto simp: same_claim_def merge_of_def Let_def split: option.split)

end
