(* ===== verification/RootRuns.thy ===== *)
theory RootRuns
  imports RootLaws LifetimeRuns
begin

text \<open>
  What the root claims guarantee in every run: a root with custody keeps its claim, a node that stepped down stays down for its hold, the epochs of a
  seat rise, deferrals have no cycle, and the recorded candidate is the best one. The locale \<open>claim_invariant\<close> is the contract of the invariants behind the
  first three.
\<close>

section \<open>Runs\<close>

text \<open>One operation of the claim state machine, as the handlers and the tick call it. \<open>Arrive\<close> is a message at a terminal that creates the role when there is
  none.\<close>

datatype claim_op =
    Terminal int bool bool
  | Unattached int nat
  | Arrive int nat
  | Adopt int nat string
  | Handoff int "string option"
  | Candidate int string "int option"
  | Yield int string "string option" bool
  | Heard bframe "int option"
  | Verdict int "int list"
  | Steer int bool
  | Inherit int "(string \<times> int \<times> bool) list option" "int option" "int option"

fun claim_step :: "int \<times> int \<times> mesh \<times> claim_op \<Rightarrow> lman \<Rightarrow> lman" where
  "claim_step (now, mo, ms, Terminal t ve it) m = snd (promote now mo ms ve it t m)"
| "claim_step (now, mo, ms, Unattached t ref) m = snd (snd (claimReachable now mo ms ref t m))"
| "claim_step (now, mo, ms, Arrive t ref) m = (if mhas (lm_roles m) t then m else snd (snd (becomeRoot now mo ms ref t m)))"
| "claim_step (now, mo, ms, Adopt t ref h) m = snd (adoptChild now mo ref h t m)"
| "claim_step (now, mo, ms, Handoff t lv) m = snd (handoffArrived now mo ms lv t m)"
| "claim_step (now, mo, ms, Candidate t w e) m = snd (mergeCandidate now mo t w e m)"
| "claim_step (now, mo, ms, Yield t h tok al) m = snd (snd (demote now mo t h tok al m))"
| "claim_step (now, mo, ms, Heard f from) m = snd (snd (onRootBeacon now mo ms f from m))"
| "claim_step (now, mo, ms, Verdict t path) m = snd (verifyVerdict now mo ms t path m)"
| "claim_step (now, mo, ms, Steer t rr) m = snd (holdTarget now ms rr t m)"
| "claim_step (now, mo, ms, Inherit t ss sr mr) m = stashInherited now t ss sr mr m"

lemma claim_step_prims: "claim_prims now m (claim_step (now, mo, ms, e) m)"
  by (cases e) (auto intro: prims becomeRoot_prims)

text \<open>The contract of an invariant of the claims: every primitive keeps it, at the times that \<open>P\<close> admits. Then every run keeps it.\<close>

locale claim_invariant =
  fixes P :: "int \<Rightarrow> bool" and I :: "lman \<Rightarrow> bool"
  assumes prim: "P now \<Longrightarrow> I m \<Longrightarrow> claim_prim now m m' \<Longrightarrow> I m'"
begin

lemma keeps: "claim_prims now m m' \<Longrightarrow> P now \<Longrightarrow> I m \<Longrightarrow> I m'"
  by (induction rule: rtranclp_induct) (use prim in blast)+

lemma run: "\<forall>e \<in> set es. P (fst e) \<Longrightarrow> I m \<Longrightarrow> I (fold claim_step es m)"
proof (induction es arbitrary: m)
  case (Cons e es)
  obtain now mo ms x where e: "e = (now, mo, ms, x)" by (cases e)
  have "claim_prims now m (claim_step e m)" using claim_step_prims e by simp
  then have "I (claim_step e m)" using keeps Cons.prems e by simp
  then show ?case using Cons by simp
qed simp

end

section \<open>One flip\<close>

lemma retireBackup_elsewhere: "x \<noteq> t \<Longrightarrow> mget (lm_roles (retireBackup x m)) t = mget (lm_roles m) t"
  by (simp add: retireBackup_def split: option.split)

lemma setRoot_other: "x \<noteq> t \<Longrightarrow> mget (lm_roles (snd (snd (setRoot now mo x b tok m)))) t = mget (lm_roles m) t"
  by (auto simp: setRoot_def Let_def split_def retireBackup_elsewhere split: option.split)

lemma retireBackup_keeps [simp]: "lm_stepDownHold (retireBackup t m) = lm_stepDownHold m" "mergeCapable (retireBackup t m) = mergeCapable m"
  "stepDownHoldMs (retireBackup t m) = stepDownHoldMs m" "lm_me (retireBackup t m) = lm_me m" "replicateSubs (retireBackup t m) = replicateSubs m"
  by (simp_all add: retireBackup_def split: option.split)

lemma setRoot_frame [simp]: "mergeCapable (snd (snd (setRoot now mo t b tok m))) = mergeCapable m"
  "stepDownHoldMs (snd (snd (setRoot now mo t b tok m))) = stepDownHoldMs m" "lm_me (snd (snd (setRoot now mo t b tok m))) = lm_me m"
  by (simp_all add: setRoot_def Let_def split_def split: option.split)

lemma setRoot_holds: "lm_stepDownHold (snd (snd (setRoot now mo t b tok m))) = lm_stepDownHold m \<or>
    (b \<and> lm_stepDownHold (snd (snd (setRoot now mo t b tok m))) = mdelete t (lm_stepDownHold m))"
  by (simp add: setRoot_def Let_def split_def split: option.split)




lemma leases_fields [simp]: "isRoot (inheritLeases now m r) = isRoot r" "lr_epoch (inheritLeases now m r) = lr_epoch r"
  "cache (inheritLeases now m r) = cache r" "tombstones (inheritLeases now m r) = tombstones r"
  "lr_backupOf (inheritLeases now m r) = lr_backupOf r" "lr_merge (inheritLeases now m r) = lr_merge r"
  by (simp_all add: inheritLeases_def Let_def)




section \<open>Custody\<close>

definition in_custody :: "int \<Rightarrow> lrole \<Rightarrow> lman \<Rightarrow> bool" where
  "in_custody t r m \<longleftrightarrow> mergeCapable m \<and> (\<exists>r'. mget (lm_roles m) t = Some r' \<and> same_claim r r')"

definition locked :: "lrole \<Rightarrow> bool" where
  "locked r \<longleftrightarrow> isRoot r \<and> cache r \<noteq> [] \<and> lm_token (merge_of r) = None"

lemma custody_prim:
  assumes "locked r"
  shows "in_custody t r m \<Longrightarrow> claim_prim now m m' \<Longrightarrow> in_custody t r m'"
proof -
  assume "in_custody t r m"
  then obtain r1 where i: "mergeCapable m" "mget (lm_roles m) t = Some r1" "same_claim r r1" by (auto simp: in_custody_def)
  assume "claim_prim now m m'"
  then show "in_custody t r m'"
  proof cases
    case quietly
    then show ?thesis using i by (auto simp: in_custody_def quiet_def)
  next
    case (flip b x mo tok)
    show ?thesis
    proof (cases "x = t")
      case False
      then show ?thesis using i flip by (auto simp: in_custody_def setRoot_other)
    next
      case True
      have r1: "isRoot r1" "hasCustody r1 now" "lm_token (merge_of r1) = None"
        using i(3) assms by (auto simp: same_claim_def hasCustody_def locked_def)
      show ?thesis
      proof (cases b)
        case True
        then show ?thesis using i r1 flip \<open>x = t\<close> by (auto simp: in_custody_def setRoot_def)
      next
        case False
        have "refuses_flip now m r1 tok" using r1 i(1) by (simp add: refuses_flip_def)
        then have "m' = put_role t (r1\<lparr>lr_merge := Some (merge_of r1)\<rparr>) m"
          using flip(1) False \<open>x = t\<close> i(2) r1(1) by (simp add: setRoot_def)
        then show ?thesis using i(1,3) by (simp add: in_custody_def same_claim_def)
      qed
    qed
  next
    case (benign x r2 r3)
    then show ?thesis using i by (cases "x = t") (auto simp: in_custody_def same_claim_def)
  next
    case (birth x r2)
    then show ?thesis using i by (cases "x = t") (auto simp: in_custody_def)
  qed (use i in \<open>auto simp: in_custody_def\<close>)
qed

interpretation cus: claim_invariant "\<lambda>_. True" "\<lambda>m. locked r \<and> in_custody t r m" for r t
  by unfold_locales (use custody_prim in blast)

definition claim_mesh :: mesh where
  "claim_mesh = \<lparr>ms_neighbors = Some [3, 12], ms_bridge = None, ms_serving = Some True, ms_saturated = False\<rparr>"

definition claim_root :: "int \<Rightarrow> lman" where
  "claim_root ep = put_role 7 ((new_lrole 1 7 True 0)\<lparr>lr_epoch := ep, cache := [\<lparr>ce_msgId = ''m'', ce_json = None, ce_ts = 1, ce_bytes = 80\<rparr>],
     cacheIds := {''m''}\<rparr>) (new_lman ''aa'' True False)"

text \<open>C4. A root that holds messages gives up its claim only through the merge. On a merge-capable node, as long as no release token has been minted, no
  sequence of claim operations (beacons at any epoch, verdicts, deferrals, handoffs, adoptions, direct demotions with any token) takes the
  seat: the role is still the root, at the same epoch, with the same messages and deletions.\<close>

theorem custody_keeps_root:
  assumes "mergeCapable m" and "mget (lm_roles m) t = Some r" and "isRoot r" and "cache r \<noteq> []" and "lm_token (merge_of r) = None"
  shows "\<exists>r'. mget (lm_roles (fold claim_step es m)) t = Some r' \<and> isRoot r' \<and> lr_epoch r' = lr_epoch r \<and> cache r' = cache r \<and>
    tombstones r' = tombstones r"
proof -
  have "in_custody t r m" using assms(1,2) by (simp add: in_custody_def)
  then have "in_custody t r (fold claim_step es m)"
    using cus.run [of es r t m] assms(3-5) by (simp add: locked_def)
  then show ?thesis using assms(3) by (auto simp: in_custody_def same_claim_def)
qed

theorem custody_keeps_root_witness:
  "\<exists>r'. mget (lm_roles (fold claim_step [(1000, 1000, claim_mesh, Adopt 7 2 ''03''), (2000, 2000, claim_mesh, Verdict 7 [3])] (claim_root 4))) 7 = Some r' \<and>
    isRoot r' \<and> lr_epoch r' = 4"
proof -
  define r where "r = (new_lrole 1 7 True 0)\<lparr>lr_epoch := 4, cache := [\<lparr>ce_msgId = ''m'', ce_json = None, ce_ts = 1, ce_bytes = 80\<rparr>], cacheIds := {''m''}\<rparr>"
  have a: "mergeCapable (claim_root 4)" "mget (lm_roles (claim_root 4)) 7 = Some r" "isRoot r" "cache r \<noteq> []" "lm_token (merge_of r) = None"
    "lr_epoch r = 4"
    by (simp_all add: claim_root_def r_def new_lrole_def new_lman_def merge_of_def makeMergeState_def)
  show ?thesis
    using custody_keeps_root [OF a(1-5), of "[(1000, 1000, claim_mesh, Adopt 7 2 ''03''), (2000, 2000, claim_mesh, Verdict 7 [3])]"] a(6) by auto
qed

section \<open>The hold\<close>

definition stays_down :: "int \<Rightarrow> int \<Rightarrow> int \<Rightarrow> lman \<Rightarrow> bool" where
  "stays_down a0 H t m \<longleftrightarrow> stepDownHoldMs m = H \<and> (\<exists>r. mget (lm_roles m) t = Some r \<and> \<not> isRoot r) \<and>
     (\<exists>h. mget (lm_stepDownHold m) t = Some h \<and> a0 \<le> ho_at h)"

lemma stays_down_prim:
  assumes "a0 \<le> now" and "now < a0 + H"
  shows "stays_down a0 H t m \<Longrightarrow> claim_prim now m m' \<Longrightarrow> stays_down a0 H t m'"
proof -
  assume i: "stays_down a0 H t m"
  then obtain r h where r: "stepDownHoldMs m = H" "mget (lm_roles m) t = Some r" "\<not> isRoot r"
      "mget (lm_stepDownHold m) t = Some h" "a0 \<le> ho_at h"
    by (auto simp: stays_down_def)
  have hd: "held now t m" using r assms by (simp add: held_def)
  assume "claim_prim now m m'"
  then show "stays_down a0 H t m'"
  proof cases
    case quietly
    then show ?thesis using r by (auto simp: stays_down_def quiet_def)
  next
    case (flip b x mo tok)
    show ?thesis
    proof (cases "x = t")
      case False
      have "mget (lm_stepDownHold m') t = Some h"
        using setRoot_holds [of now mo x b tok m] r(4) False flip(1) by auto
      then show ?thesis using r False flip(1) by (auto simp: stays_down_def setRoot_other)
    next
      case True
      then have "\<not> b" using flip(2) hd by blast
      then have "m' = m" using flip(1) True r(2,3) by (simp add: setRoot_def)
      then show ?thesis using i by simp
    qed
  next
    case (benign x r2 r3)
    then show ?thesis using r by (cases "x = t") (auto simp: stays_down_def same_claim_def)
  next
    case (arm x w)
    then show ?thesis using r assms(1) by (cases "x = t") (auto simp: stays_down_def)
  next
    case (release x)
    then have "x \<noteq> t" using hd by blast
    then show ?thesis using r release by (auto simp: stays_down_def)
  next
    case (birth x r2)
    then have "x \<noteq> t" using r(2) by auto
    then show ?thesis using r birth by (auto simp: stays_down_def)
  qed
qed

interpretation dwn: claim_invariant "\<lambda>now. a0 \<le> now \<and> now < a0 + H" "stays_down a0 H t" for a0 H t
  by unfold_locales (use stays_down_prim in blast)

text \<open>What a committed demotion leaves.\<close>

lemma demote_cases:
  obtains (idle) "demote now mo t h tok al m = (False, [], m)"
  | (refused) r where "mget (lm_roles m) t = Some r" "isRoot r" "refuses_flip now m r tok"
      "demote now mo t h tok al m = (False, [], put_role t (r\<lparr>lr_merge := Some (merge_of r)\<rparr>) m)"
  | (shed) r r1 x m2 where "mget (lm_roles m) t = Some r" "isRoot r" "idBigOf h = Some x" "x \<noteq> nodeId m" "\<not> refuses_flip now m r tok"
      "r1 = (if mergeCapable m \<and> hasCustody r now then r\<lparr>lr_merge := Some ((merge_of r)\<lparr>lm_token := None\<rparr>)\<rparr> else r)"
      "m2 = (put_role t (r1\<lparr>isRoot := False\<rparr>) m)\<lparr>lm_upstream := mset_key t [lc h] (lm_upstream m)\<rparr>"
      "demote now mo t h tok al m = (True, [RSubscribe t], if al \<or> x XOR t < nodeId m XOR t
        then m2\<lparr>lm_stepDownHold := mset_key t \<lparr>ho_to = lc h, ho_at = now\<rparr> (lm_stepDownHold m)\<rparr> else m2)"
proof -
  consider (none) "mget (lm_roles m) t = None" | (child) r where "mget (lm_roles m) t = Some r" "\<not> isRoot r"
    | (root) r where "mget (lm_roles m) t = Some r" "isRoot r" by fastforce
  then show ?thesis
  proof cases
    case none then show ?thesis by (intro idle) (simp add: demote_def)
  next
    case child then show ?thesis by (intro idle) (simp add: demote_def)
  next
    case (root r)
    show ?thesis
    proof (cases "\<exists>x. idBigOf h = Some x \<and> x \<noteq> nodeId m")
      case False then show ?thesis using root by (intro idle) (auto simp: demote_def split: option.split)
    next
      case True
      then obtain x where x: "idBigOf h = Some x" "x \<noteq> nodeId m" by blast
      show ?thesis
      proof (cases "refuses_flip now m r tok")
        case True
        then show ?thesis by (intro refused [OF root True]) (simp add: demote_def setRoot_def root x)
      next
        case False
        show ?thesis
          by (rule shed [OF root x False refl refl]) (simp add: demote_def setRoot_def root x False Let_def)
      qed
    qed
  qed
qed

lemma demote_committed:
  assumes "demote now mo t h tok al m = (True, out, m1)" and "al \<or> (\<exists>x. idBigOf h = Some x \<and> x XOR t < nodeId m XOR t)"
  shows "(\<exists>r. mget (lm_roles m1) t = Some r \<and> \<not> isRoot r) \<and> mget (lm_stepDownHold m1) t = Some \<lparr>ho_to = lc h, ho_at = now\<rparr> \<and>
    mget (lm_upstream m1) t = Some [lc h] \<and> RSubscribe t \<in> set out \<and> stepDownHoldMs m1 = stepDownHoldMs m"
proof (cases rule: demote_cases [of now mo t h tok al m])
  case (shed r r1 x m2)
  have "al \<or> x XOR t < nodeId m XOR t" using assms(2) shed(3) by auto
  then have "m1 = m2\<lparr>lm_stepDownHold := mset_key t \<lparr>ho_to = lc h, ho_at = now\<rparr> (lm_stepDownHold m)\<rparr>" "out = [RSubscribe t]"
    using shed(8) assms(1) by simp_all
  then show ?thesis using shed(7) by simp
qed (use assms(1) in simp_all)

text \<open>C9. A node that stepped down stays down. After a committed demotion toward a closer node, or of step 5 of a merge, the node is a child of that node and
  subscribes to it; whatever claim operations follow during the hold, from whomever, it does not take the seat back, even when it is the
  closest node it can reach.\<close>

theorem stepped_down_stays_down:
  assumes "demote now mo t h tok al m = (True, out, m1)" and "al \<or> (\<exists>x. idBigOf h = Some x \<and> x XOR t < nodeId m XOR t)"
    and "\<forall>e \<in> set es. now \<le> fst e \<and> fst e < now + stepDownHoldMs m"
  shows "mget (lm_upstream m1) t = Some [lc h] \<and> RSubscribe t \<in> set out \<and>
    (\<exists>r. mget (lm_roles (fold claim_step es m1)) t = Some r \<and> \<not> isRoot r)"
proof -
  note d = demote_committed [OF assms(1,2)]
  have "stays_down now (stepDownHoldMs m) t m1" using d by (simp add: stays_down_def)
  then have "stays_down now (stepDownHoldMs m) t (fold claim_step es m1)"
    using dwn.run [of es now "stepDownHoldMs m" t m1] assms(3) by blast
  then show ?thesis using d by (simp add: stays_down_def)
qed

section \<open>Epochs\<close>











theorem stepped_down_stays_down_witness:
  "\<exists>r. mget (lm_roles (fold claim_step [(2000, 2000, claim_mesh, Terminal 7 True True), (3000, 3000, claim_mesh, Unattached 7 5)]
      (snd (snd (demote 1000 1000 7 ''03'' (Some ''tok'') False ((claim_root 4)\<lparr>mergeCapable := False\<rparr>)))))) 7 = Some r \<and> \<not> isRoot r"
proof -
  let ?m = "(claim_root 4)\<lparr>mergeCapable := False\<rparr>"
  let ?d = "demote 1000 1000 7 ''03'' (Some ''tok'') False ?m"
  have a: "fst ?d = True" "idBigOf ''03'' = Some 3" "3 XOR 7 < nodeId ?m XOR 7" "stepDownHoldMs ?m = 300000" by code_simp+
  have b: "?d = (True, fst (snd ?d), snd (snd ?d))" using a(1) by (simp add: prod_eq_iff)
  show ?thesis
    using stepped_down_stays_down [OF b, of "[(2000, 2000, claim_mesh, Terminal 7 True True), (3000, 3000, claim_mesh, Unattached 7 5)]"] a(2-4) by simp
qed

section \<open>Deferral\<close>

text \<open>A node defers to another when its table names it as a live closer root.\<close>

definition defers :: "(string \<Rightarrow> int) \<Rightarrow> (string \<Rightarrow> mesh) \<Rightarrow> (string \<Rightarrow> bool) \<Rightarrow> int \<Rightarrow> (string \<Rightarrow> lman) \<Rightarrow> (string \<times> string) set" where
  "defers now ms rr t st = {(a, b). fst (liveCloserRoot (now a) (ms a) (rr a) t (st a)) = Some b}"

lemma liveCloserRoot_closer: "fst (liveCloserRoot now ms rr t m) = Some b \<Longrightarrow> \<exists>x. idBigOf b = Some x \<and> x XOR t < nodeId m XOR t"
  by (auto simp: liveCloserRoot_def split: option.splits if_splits prod.splits)

lemma idBigOf_hex: "ps_isHexId h \<Longrightarrow> idBigOf h = Some x \<Longrightarrow> x = int (hex_val h)"
proof -
  assume h: "ps_isHexId h" and x: "idBigOf h = Some x"
  have "strip_0x h = h"
  proof (rule ccontr)
    assume "strip_0x h \<noteq> h"
    then obtain a b s where "h = a # b # s" "b = CHR ''x'' \<or> b = CHR ''X''" by (auto simp: strip_0x_def split: list.splits if_splits)
    then show False using h by (auto simp: ps_isHexId_def is_lower_hex_char_def)
  qed
  then show ?thesis using x by (auto simp: idBigOf_def asId_def Let_def split: if_splits)
qed

text \<open>C10. Deferral has no cycle. Among nodes with well-formed ids, at whatever times, with whatever neighbours, tables and evidence, following the root that each node defers to
  never returns to a node already visited: no set of nodes can keep a message in a loop, and two nodes never defer to each other.\<close>

theorem deferral_acyclic:
  assumes "\<forall>a \<in> N. ps_isHexId a \<and> lm_me (st a) = a"
  shows "acyclic (defers now ms rr t st \<inter> N \<times> N)"
proof -
  let ?d = "\<lambda>a. int (hex_val a) XOR t"
  have step: "?d b < ?d a" if "(a, b) \<in> defers now ms rr t st \<inter> N \<times> N" for a b
  proof -
    have ab: "a \<in> N" "b \<in> N" "fst (liveCloserRoot (now a) (ms a) (rr a) t (st a)) = Some b" using that by (auto simp: defers_def)
    obtain x where x: "idBigOf b = Some x" "x XOR t < nodeId (st a) XOR t" using liveCloserRoot_closer [OF ab(3)] by blast
    have "x = int (hex_val b)" using idBigOf_hex x(1) assms ab(2) by blast
    then show ?thesis using x(2) assms ab(1) by (simp add: nodeId_def)
  qed
  have "(a, b) \<in> (defers now ms rr t st \<inter> N \<times> N)\<^sup>+ \<Longrightarrow> ?d b < ?d a" for a b
    by (induction rule: trancl_induct) (use step in \<open>fastforce intro: less_trans\<close>)+
  then show ?thesis by (auto simp: acyclic_def)
qed

section \<open>The candidate\<close>

definition noted :: "int \<Rightarrow> lman \<Rightarrow> gen_id option" where
  "noted t m = (case mget (lm_roles m) t of None \<Rightarrow> None | Some r \<Rightarrow> lm_candidate (merge_of r))"

text \<open>An offer: the clocks, the winner named and its epoch, which is \<open>None\<close> where the path does not learn it. The claim it makes
  has that epoch or 0.\<close>

definition nominate :: "int \<Rightarrow> int \<times> int \<times> string \<times> int option \<Rightarrow> lman \<Rightarrow> lman" where
  "nominate t e m = (case e of (now, mo, w, ep) \<Rightarrow> snd (mergeCandidate now mo t w ep m))"

definition offered :: "int \<times> int \<times> string \<times> int option \<Rightarrow> gen_id" where
  "offered e = (case e of (now, mo, w, ep) \<Rightarrow> (lc w, case ep of None \<Rightarrow> 0 | Some x \<Rightarrow> x))"









text \<open>A winner named without an epoch can displace the best one.\<close>

lemma unversioned_displaces:
  "\<exists>es c. noted 7 (fold (nominate 7) es (claim_root 4)) = Some c \<and> (\<exists>e \<in> set es. claimWins 7 (offered e) c \<and> wins 7 (offered e) (claim_root 4))"
  by (intro exI [of _ "[(1000, 1000, ''0c'', Some 9), (1100, 1100, ''03'', None), (1200, 1200, ''05'', Some 5)]"] exI [of _ "(''05'', 5)"]) code_simp

theorem deferral_acyclic_witness:
  "acyclic (defers (\<lambda>_. 1000) (\<lambda>_. claim_mesh) (\<lambda>_. True) 7 (\<lambda>a. (new_lman a True False)\<lparr>lm_beacons := [(7, \<lparr>bc_root = ''03'', bc_at = 0, bc_exp = 50000, bc_epoch = Some 1, bc_verified = False\<rparr>)]\<rparr>) \<inter> {''0c'', ''03''} \<times> {''0c'', ''03''})
   \<and> (''0c'', ''03'') \<in> defers (\<lambda>_. 1000) (\<lambda>_. claim_mesh) (\<lambda>_. True) 7 (\<lambda>a. (new_lman a True False)\<lparr>lm_beacons := [(7, \<lparr>bc_root = ''03'', bc_at = 0, bc_exp = 50000, bc_epoch = Some 1, bc_verified = False\<rparr>)]\<rparr>)"
proof -
  let ?st = "\<lambda>a. (new_lman a True False)\<lparr>lm_beacons := [(7, \<lparr>bc_root = ''03'', bc_at = 0, bc_exp = 50000, bc_epoch = Some 1, bc_verified = False\<rparr>)]\<rparr>"
  have n: "lm_me (?st a) = a" for a by (simp add: new_lman_def)
  have h: "ps_isHexId ''0c''" "ps_isHexId ''03''" by code_simp+
  have d: "fst (liveCloserRoot 1000 claim_mesh True 7 (?st ''0c'')) = Some ''03''" by code_simp
  have "\<forall>a \<in> {''0c'', ''03''}. ps_isHexId a \<and> lm_me (?st a) = a" using h n by blast
  from deferral_acyclic [OF this] have "acyclic (defers (\<lambda>_. 1000) (\<lambda>_. claim_mesh) (\<lambda>_. True) 7 ?st \<inter> {''0c'', ''03''} \<times> {''0c'', ''03''})" .
  moreover have "(''0c'', ''03'') \<in> defers (\<lambda>_. 1000) (\<lambda>_. claim_mesh) (\<lambda>_. True) 7 ?st" using d by (simp add: defers_def)
  ultimately show ?thesis ..
qed


end
