(* ===== verification/RootBeacons.thy ===== *)
theory RootBeacons
  imports RootRuns
begin

text \<open>
  What one operation guarantees: a beacon diverts nobody to a farther node, when a terminal takes the seat, what step 5 of a merge leaves, and
  which epoch a verification forgets.
\<close>

section \<open>What a beacon can do\<close>

text \<open>Nothing in a beacon makes a root, and what stays root keeps its epoch.\<close>

definition no_new_root :: "lman \<Rightarrow> lman \<Rightarrow> bool" where
  "no_new_root m m' \<longleftrightarrow> lm_me m' = lm_me m \<and>
     (\<forall>x r'. mget (lm_roles m') x = Some r' \<longrightarrow> isRoot r' \<longrightarrow> (\<exists>r. mget (lm_roles m) x = Some r \<and> isRoot r \<and> lr_epoch r' = lr_epoch r))"

lemma no_new_root_refl [simp]: "no_new_root m m"
  by (simp add: no_new_root_def)

lemma no_new_root_trans: "no_new_root m m' \<Longrightarrow> no_new_root m' m'' \<Longrightarrow> no_new_root m m''"
  by (fastforce simp: no_new_root_def)

lemma no_new_root_put: "mget (lm_roles m) t = Some r \<Longrightarrow> (isRoot r' \<longrightarrow> isRoot r \<and> lr_epoch r' = lr_epoch r) \<Longrightarrow> no_new_root m (put_role t r' m)"
  by (auto simp: no_new_root_def)

lemma no_new_root_frame: "lm_roles m' = lm_roles m \<Longrightarrow> lm_me m' = lm_me m \<Longrightarrow> no_new_root m m'"
  by (simp add: no_new_root_def)

lemma no_new_root_frame2: "no_new_root m m' \<Longrightarrow> lm_roles m'' = lm_roles m' \<Longrightarrow> lm_me m'' = lm_me m' \<Longrightarrow> no_new_root m m''"
  using no_new_root_trans no_new_root_frame by blast

lemma demote_no_new_root: "no_new_root m (snd (snd (demote now mo t h tok al m)))"
  "lm_beacons (snd (snd (demote now mo t h tok al m))) = lm_beacons m"
proof -
  have "no_new_root m (snd (snd (demote now mo t h tok al m))) \<and> lm_beacons (snd (snd (demote now mo t h tok al m))) = lm_beacons m"
  proof (cases rule: demote_cases [of now mo t h tok al m])
    case (refused r)
    then show ?thesis by (simp add: no_new_root_put)
  next
    case (shed r r1 x m2)
    have "no_new_root m (put_role t (r1\<lparr>isRoot := False\<rparr>) m)" using shed(1) by (simp add: no_new_root_put)
    then have "no_new_root m m2" using shed(7) by (simp add: no_new_root_frame2)
    then show ?thesis using shed(7,8) by (simp add: no_new_root_frame2)
  qed simp
  then show "no_new_root m (snd (snd (demote now mo t h tok al m)))"
    "lm_beacons (snd (snd (demote now mo t h tok al m))) = lm_beacons m" by blast+
qed

lemma candidate_no_new_root: "no_new_root m (snd (mergeCandidate now mo t w e m))"
  "lm_beacons (snd (mergeCandidate now mo t w e m)) = lm_beacons m"
  by (auto simp: mergeCandidate_def Let_def demote_no_new_root intro!: no_new_root_put split: option.split)

lemma winner_no_new_root: "no_new_root m (refreshWinner now t h e m)" "lm_beacons (refreshWinner now t h e m) = lm_beacons m"
proof -
  let ?f = "\<lambda>a r. r\<lparr>lr_merge := Some ((merge_of r)\<lparr>lm_accepted := Some (a\<lparr>ac_epoch := e, ac_exp := now + i32 (stepDownHoldMs m)\<rparr>)\<rparr>)\<rparr>"
  have n: "no_new_root m (on_role t (?f a) m)" for a
    by (cases "mget (lm_roles m) t") (simp_all add: on_role_def no_new_root_put)
  then have "no_new_root m ((on_role t (?f a) m)\<lparr>lm_stepDownHold := y\<rparr>)" for a y by (rule no_new_root_frame2) simp_all
  then show "no_new_root m (refreshWinner now t h e m)" using n by (simp add: refreshWinner_def Let_def split: option.split)
  show "lm_beacons (refreshWinner now t h e m) = lm_beacons m" by (simp add: refreshWinner_def Let_def split: option.split)
qed

text \<open>The nodes whose distance a pointer has to match: this one and its neighbours, without the bridge.\<close>

definition known_nodes :: "mesh \<Rightarrow> lman \<Rightarrow> int set" where
  "known_nodes ms m = insert (nodeId m) {n. \<exists>ns. ms_neighbors ms = Some ns \<and> n \<in> set ns \<and> ms_bridge ms \<noteq> Some n}"

lemma closest_fold: "fold (\<lambda>n best. if ms_bridge ms = Some n then best else closer_of t n best) ns b0 XOR t \<le> b0 XOR t \<and>
    (\<forall>n \<in> set ns. ms_bridge ms \<noteq> Some n \<longrightarrow> fold (\<lambda>n best. if ms_bridge ms = Some n then best else closer_of t n best) ns b0 XOR t \<le> n XOR t)"
proof (induction ns arbitrary: b0)
  case (Cons a ns)
  let ?b = "if ms_bridge ms = Some a then b0 else closer_of t a b0"
  have b: "?b XOR t \<le> b0 XOR t" "ms_bridge ms \<noteq> Some a \<Longrightarrow> ?b XOR t \<le> a XOR t" by (simp_all add: closer_of_def)
  show ?case using Cons.IH [of ?b] b by force
qed simp

lemma bestKnown_le: "n \<in> known_nodes ms m \<Longrightarrow> bestKnownClosest ms t m XOR t \<le> n XOR t"
proof -
  assume n: "n \<in> known_nodes ms m"
  let ?b = "case ms_neighbors ms of None \<Rightarrow> nodeId m
          | Some ns \<Rightarrow> fold (\<lambda>n best. if ms_bridge ms = Some n then best else closer_of t n best) ns (nodeId m)"
  have "?b XOR t \<le> n XOR t" using n closest_fold [of ms t _ "nodeId m"] by (auto simp: known_nodes_def split: option.split)
  moreover have "bestKnownClosest ms t m XOR t \<le> ?b XOR t"
    by (auto simp: bestKnownClosest_def closer_of_def Let_def split: option.split)
  ultimately show ?thesis by simp
qed

definition pointer_ok :: "mesh \<Rightarrow> string \<Rightarrow> int \<Rightarrow> int \<Rightarrow> lman \<Rightarrow> beacon \<Rightarrow> bool" where
  "pointer_ok ms h rb t m b \<longleftrightarrow> bc_root b = lc h \<and>
     ((\<forall>n \<in> known_nodes ms m. rb XOR t \<le> n XOR t) \<or>
      (\<exists>r e. mget (lm_roles m) t = Some r \<and> isRoot r \<and> 0 < lr_epoch r \<and> bc_epoch b = Some e \<and> lr_epoch r < e))"

definition heard_ok :: "mesh \<Rightarrow> string \<Rightarrow> int \<Rightarrow> int \<Rightarrow> lman \<Rightarrow> lman \<Rightarrow> bool" where
  "heard_ok ms h rb t m m' \<longleftrightarrow> no_new_root m m' \<and> seenEpoch t m \<le> seenEpoch t m' \<and>
     (mget (lm_beacons m') t = mget (lm_beacons m) t \<or> (\<exists>b. mget (lm_beacons m') t = Some b \<and> pointer_ok ms h rb t m b))"

lemma known_same: "no_new_root m m' \<Longrightarrow> known_nodes ms m' = known_nodes ms m"
  by (simp add: known_nodes_def no_new_root_def nodeId_def)

lemma pointer_ok_back: "no_new_root m m' \<Longrightarrow> pointer_ok ms h rb t m' b \<Longrightarrow> pointer_ok ms h rb t m b"
  using known_same by (fastforce simp: pointer_ok_def no_new_root_def)

lemma heard_ok_trans: "heard_ok ms h rb t m m' \<Longrightarrow> heard_ok ms h rb t m' m'' \<Longrightarrow> heard_ok ms h rb t m m''"
proof -
  assume a: "heard_ok ms h rb t m m'" and b: "heard_ok ms h rb t m' m''"
  have n: "no_new_root m m'" "no_new_root m' m''" using a b by (simp_all add: heard_ok_def)
  have "mget (lm_beacons m'') t = mget (lm_beacons m) t \<or> (\<exists>x. mget (lm_beacons m'') t = Some x \<and> pointer_ok ms h rb t m x)"
    using a b pointer_ok_back [OF n(1)] unfolding heard_ok_def by fastforce
  moreover have "seenEpoch t m \<le> seenEpoch t m''" using a b by (simp add: heard_ok_def)
  ultimately show ?thesis using no_new_root_trans [OF n] by (simp add: heard_ok_def)
qed

lemma heard_ok_quiet: "no_new_root m m' \<Longrightarrow> lm_beacons m' = lm_beacons m \<Longrightarrow> heard_ok ms h rb t m m'"
  by (simp add: heard_ok_def seenEpoch_def)

lemma convicted_frame [simp]: "lm_roles (snd (convicted now t h e m)) = lm_roles m" "lm_me (snd (convicted now t h e m)) = lm_me m"
  "lm_beacons (snd (convicted now t h e m)) = lm_beacons m"
  by (simp_all add: convicted_def split: option.split)

lemma reattach_frame [simp]: "lm_roles (snd (reattach t h e pe m)) = lm_roles m" "lm_me (snd (reattach t h e pe m)) = lm_me m"
  "lm_beacons (snd (reattach t h e pe m)) = lm_beacons m"
  by (simp_all add: reattach_def)

lemma heard_other: "no_new_root m m' \<Longrightarrow> mget (lm_beacons m') t = mget (lm_beacons m) t \<Longrightarrow> heard_ok ms h rb t m m'"
  by (simp add: heard_ok_def seenEpoch_def)

lemma beacon_topic_cases:
  obtains (skipped) "no_new_root m (snd (beacon_topic now mo ms h rb e x m))" "lm_beacons (snd (beacon_topic now mo ms h rb e x m)) = lm_beacons m"
  | (cached) b where "no_new_root m (snd (beacon_topic now mo ms h rb e x m))"
      "lm_beacons (snd (beacon_topic now mo ms h rb e x m)) = mset_key x b (lm_beacons m)"
      "bc_root b = lc h" "bc_epoch b = Some (max e (seenEpoch x m))"
      "supersedesMine x e m \<or> (\<forall>n \<in> known_nodes ms m. rb XOR x \<le> n XOR x)"
proof -
  define m1 where "m1 = refreshWinner now x h e m"
  have n1: "no_new_root m m1" "lm_beacons m1 = lm_beacons m" unfolding m1_def by (rule winner_no_new_root)+
  define pe where "pe = seenEpoch x m1"
  define b where "b = \<lparr>bc_root = lc h, bc_at = now, bc_exp = now + BEACON_TTL_MS, bc_epoch = Some (max e pe), bc_verified = False\<rparr>"
  define m2 where "m2 = m1\<lparr>lm_beacons := mset_key x b (lm_beacons m1)\<rparr>"
  define m3 where "m3 = snd (convicted now x h (Some e) m2)"
  have n2: "no_new_root m m2" using n1(1) by (rule no_new_root_frame2) (simp_all add: m2_def)
  have n3: "no_new_root m m3" "lm_beacons m3 = mset_key x b (lm_beacons m)"
    using no_new_root_frame2 [OF n2] n1(2) by (simp_all add: m3_def m2_def)
  have n4: "no_new_root m (snd (mergeCandidate now mo x (lc h) (Some e) m3))"
    "lm_beacons (snd (mergeCandidate now mo x (lc h) (Some e) m3)) = mset_key x b (lm_beacons m)"
    using no_new_root_trans [OF n3(1) candidate_no_new_root(1)] candidate_no_new_root(2) n3(2) by simp_all
  have n5: "no_new_root m (snd (reattach x h e pe y)) \<and> lm_beacons (snd (reattach x h e pe y)) = mset_key x b (lm_beacons m)"
    if "no_new_root m y" "lm_beacons y = mset_key x b (lm_beacons m)" for y
    using that no_new_root_frame2 [OF that(1)] by simp
  let ?skip = "\<not> supersedesMine x e m \<and> rb XOR x > bestKnownClosest ms x m1 XOR x"
  have form: "snd (beacon_topic now mo ms h rb e x m) = (if ?skip then m1 else
      snd (reattach x h e pe (if supersedesMine x e m \<or> (rb XOR x < nodeId m XOR x \<and> \<not> fst (convicted now x h (Some e) m2))
        then snd (mergeCandidate now mo x (lc h) (Some e) m3) else m3)))"
    unfolding beacon_topic_def Let_def m1_def [symmetric] pe_def [symmetric] b_def [symmetric] m2_def [symmetric] m3_def
    by (simp add: split_def)
  show ?thesis
  proof (cases ?skip)
    case True
    then show ?thesis using n1 form by (intro skipped) simp_all
  next
    case False
    have near: "supersedesMine x e m \<or> (\<forall>n \<in> known_nodes ms m. rb XOR x \<le> n XOR x)"
      using False bestKnown_le [of _ ms m1 x] known_same [OF n1(1)] order_trans by fastforce
    show ?thesis
      using near n5 [OF n4] n5 [OF n3] form False n1(2)
      by (intro cached [of b]) (simp_all add: b_def pe_def seenEpoch_def split: if_splits)
  qed
qed

lemma beacon_topic_heard: "heard_ok ms h rb t m (snd (beacon_topic now mo ms h rb e x m))"
proof (cases rule: beacon_topic_cases [of m now mo ms h rb e x])
  case skipped
  then show ?thesis by (simp add: heard_other)
next
  case (cached b)
  show ?thesis
  proof (cases "x = t")
    case False
    then show ?thesis using cached by (simp add: heard_other)
  next
    case True
    have "pointer_ok ms h rb t m b"
      using cached(3-5) True by (auto simp: supersedesMine_def pointer_ok_def split: option.splits)
    moreover have "seenEpoch t m \<le> seenEpoch t (snd (beacon_topic now mo ms h rb e x m))"
      using cached(2,4) True by (simp add: seenEpoch_def)
    ultimately show ?thesis using cached(1,2) True by (simp add: heard_ok_def)
  qed
qed

lemma beacon_fold_heard: "heard_ok ms h rb t (snd p) (snd (fold (beacon_entry now mo ms h rb es) l p))"
proof (induction l arbitrary: p)
  case Nil
  show ?case by (simp add: heard_other)
next
  case (Cons a l)
  have "heard_ok ms h rb t (snd p) (snd (beacon_entry now mo ms h rb es a p))"
    using beacon_topic_heard by (simp add: beacon_entry_def split_def heard_other split: option.split)
  then show ?case using Cons.IH [of "beacon_entry now mo ms h rb es a p"] by (auto intro: heard_ok_trans)
qed

lemma onRootBeacon_state:
  obtains (same) "lm_beacons (snd (snd (onRootBeacon now mo ms f from m))) = lm_beacons m" "lm_roles (snd (snd (onRootBeacon now mo ms f from m))) = lm_roles m"
  | (run) h ts i rb where "bf_root f = Some h" "idBigOf h = Some rb"
      "snd (snd (onRootBeacon now mo ms f from m)) = snd (fold (beacon_entry now mo ms h rb (bf_epochs f)) (enumerate 0 (take 256 ts))
        ([], m\<lparr>lm_beaconSeen := mset_key i (now + BEACON_SEEN_MS) (lm_beaconSeen m)\<rparr>))"
proof (cases "bf_root f")
  case None
  then show ?thesis by (intro same) (simp_all add: onRootBeacon_def)
next
  case h: (Some h)
  show ?thesis
  proof (cases "bf_topics f")
    case None
    then show ?thesis using h by (intro same) (simp_all add: onRootBeacon_def)
  next
    case ts: (Some ts)
    show ?thesis
    proof (cases "bf_id f")
      case None
      then show ?thesis using h ts by (intro same) (simp_all add: onRootBeacon_def)
    next
      case i: (Some i)
      show ?thesis
      proof (cases "mhas (lm_beaconSeen m) i \<or> \<not> ps_isHexId (lc h) \<or> idBigOf h = None")
        case True
        then show ?thesis using h ts i by (intro same) (auto simp: onRootBeacon_def Let_def)
      next
        case False
        then obtain rb where "idBigOf h = Some rb" by blast
        with False h ts i show ?thesis by (intro run [of h rb ts i]) (simp_all add: onRootBeacon_def Let_def split_def)
      qed
    qed
  qed
qed

text \<open>C11. A beacon diverts nobody to a farther node. Whatever a beacon claims, whoever sent it, and however often it names the topic: it makes no node a root and changes no root's
  epoch, the highest epoch seen for the topic does not fall, and the pointer it leaves names a node at least as close to the topic as this node and
  each of its neighbours, unless this node is the root itself and the beacon names a higher epoch than its own.\<close>

theorem beacon_cannot_divert:
  assumes "mget (lm_beacons (snd (snd (onRootBeacon now mo ms f from m)))) t = Some b" and "mget (lm_beacons m) t \<noteq> Some b"
  shows "(\<exists>h rb. bf_root f = Some h \<and> bc_root b = lc h \<and> idBigOf h = Some rb \<and>
      ((\<forall>n \<in> known_nodes ms m. rb XOR t \<le> n XOR t) \<or>
       (\<exists>r e. mget (lm_roles m) t = Some r \<and> isRoot r \<and> bc_epoch b = Some e \<and> lr_epoch r < e))) \<and>
    seenEpoch t m \<le> seenEpoch t (snd (snd (onRootBeacon now mo ms f from m))) \<and>
    (\<forall>x r'. mget (lm_roles (snd (snd (onRootBeacon now mo ms f from m)))) x = Some r' \<longrightarrow> isRoot r' \<longrightarrow>
      (\<exists>r. mget (lm_roles m) x = Some r \<and> isRoot r \<and> lr_epoch r' = lr_epoch r))"
proof (cases rule: onRootBeacon_state [of now mo ms f "from" m])
  case same
  then show ?thesis using assms by simp
next
  case (run h ts i rb)
  let ?s = "m\<lparr>lm_beaconSeen := mset_key i (now + BEACON_SEEN_MS) (lm_beaconSeen m)\<rparr>"
  have "heard_ok ms h rb t m ?s" by (rule heard_other) (simp_all add: no_new_root_def)
  then have k: "heard_ok ms h rb t m (snd (snd (onRootBeacon now mo ms f from m)))"
    using beacon_fold_heard [of ms h rb t "([], ?s)" now mo "bf_epochs f" "enumerate 0 (take 256 ts)"] run(3) heard_ok_trans by simp
  then have p: "pointer_ok ms h rb t m b" using assms by (auto simp: heard_ok_def)
  from k p run(1,2) show ?thesis unfolding heard_ok_def no_new_root_def pointer_ok_def by blast
qed

theorem beacon_cannot_divert_witness:
  "seenEpoch 7 (claim_root 4) \<le> seenEpoch 7 (snd (snd (onRootBeacon 1000 1000 claim_mesh \<lparr>bf_root = Some ''03'', bf_topics = Some [''07''], bf_epochs = Some [jint 9], bf_id = Some ''b'', bf_layer = 1\<rparr> None (claim_root 4))))"
proof -
  let ?f = "\<lparr>bf_root = Some ''03'', bf_topics = Some [''07''], bf_epochs = Some [jint 9], bf_id = Some ''b'', bf_layer = 1\<rparr>"
  let ?m = "snd (snd (onRootBeacon 1000 1000 claim_mesh ?f None (claim_root 4)))"
  have a: "mget (lm_beacons ?m) 7 = Some \<lparr>bc_root = ''03'', bc_at = 1000, bc_exp = 51000, bc_epoch = Some 9, bc_verified = False\<rparr>"
    "mget (lm_beacons (claim_root 4)) 7 = None" by code_simp+
  then show ?thesis using beacon_cannot_divert [OF a(1)] by simp
qed

section \<open>Taking the seat\<close>

lemma announce_frame [simp]: "lm_roles (snd (announceRoot now ms t m)) = lm_roles m" "lm_stepDownHold (snd (announceRoot now ms t m)) = lm_stepDownHold m"
  "lm_upstream (snd (announceRoot now ms t m)) = lm_upstream m"
  by (auto simp: announceRoot_def emitRootBeacons_def Let_def split: option.split)

lemma closer_frame [simp]: "lm_roles (snd (liveCloserRoot now ms rr t m)) = lm_roles m" "lm_beacons (snd (liveCloserRoot now ms rr t m)) = lm_beacons m"
  "lm_upstream (snd (liveCloserRoot now ms rr t m)) = lm_upstream m"
  by (auto simp: liveCloserRoot_def convicted_def split: option.split prod.split)






section \<open>Step 5 of a merge\<close>

text \<open>The merge releases a claim exactly once. At step 5 a root yields to the winner in one transition: it is a child of the winner afterwards, keeps its messages and deletions with the
  exported ones pinned, has consumed its token (so no later transition can use it), names the winner as accepted and holds toward it, even when
  the winner is farther from the topic.\<close>

theorem handover_commits:
  assumes "mget (lm_roles m) t = Some r" and "isRoot r" and "idBigOf w = Some x" and "x \<noteq> nodeId m" and "mergeCapable m" and "hasCustody r now"
  shows "\<exists>m' r'. mergeStep5 now mo t w we pinned tok m = (True, [RSubscribe t], m') \<and> mget (lm_roles m') t = Some r' \<and> \<not> isRoot r' \<and>
    cache r' = cache r \<and> tombstones r' = tombstones r \<and> lr_epoch r' = lr_epoch r \<and> pins r' = pins r \<union> pinned \<and> lm_token (merge_of r') = None \<and>
    lm_accepted (merge_of r') = Some \<lparr>ac_id = w, ac_epoch = i32 we, ac_exp = now + i32 (stepDownHoldMs m)\<rparr> \<and>
    mget (lm_stepDownHold m') t = Some \<lparr>ho_to = lc w, ho_at = now\<rparr> \<and> mget (lm_upstream m') t = Some [lc w]"
proof -
  define g where "g = (merge_of r)\<lparr>lm_token := Some tok, lm_accepted := Some \<lparr>ac_id = w, ac_epoch = i32 we, ac_exp = now + i32 (stepDownHoldMs m)\<rparr>\<rparr>"
  define r1 where "r1 = r\<lparr>pins := pins r \<union> pinned, lr_merge := Some g\<rparr>"
  define m1 where "m1 = put_role t r1 m"
  have m1: "mget (lm_roles m1) t = Some r1" "isRoot r1" "nodeId m1 = nodeId m" using assms(2) by (simp_all add: m1_def r1_def nodeId_def)
  have nr: "\<not> refuses_flip now m1 r1 (Some tok)" by (simp add: refuses_flip_def r1_def g_def)
  have cu: "mergeCapable m1" "hasCustody r1 now" using assms(5,6) by (simp_all add: m1_def r1_def hasCustody_def)
  have s: "setRoot now mo t False (Some tok) m1 = (True, [], put_role t (r1\<lparr>lr_merge := Some (g\<lparr>lm_token := None\<rparr>), isRoot := False\<rparr>) m1)"
    using m1 nr cu by (simp add: setRoot_def r1_def)
  have st: "mergeStep5 now mo t w we pinned tok m = (case demote now mo t w (Some tok) True m1 of (ok, out, m2) \<Rightarrow>
        if ok then (True, out, m2)
        else (False, out, on_role t (\<lambda>r. r\<lparr>lr_merge := Some ((merge_of r)\<lparr>lm_token := None, lm_accepted := None\<rparr>)\<rparr>) m2))"
    using assms(1) by (simp add: mergeStep5_def on_role_def m1_def r1_def g_def)
  have d: "demote now mo t w (Some tok) True m1 = (True, [RSubscribe t],
      (put_role t (r1\<lparr>lr_merge := Some (g\<lparr>lm_token := None\<rparr>), isRoot := False\<rparr>) m1)
        \<lparr>lm_upstream := mset_key t [lc w] (lm_upstream m1), lm_stepDownHold := mset_key t \<lparr>ho_to = lc w, ho_at = now\<rparr> (lm_stepDownHold m1)\<rparr>)"
    using m1 assms(3,4) s by (simp add: demote_def Let_def)
  show ?thesis unfolding st d by (simp add: r1_def g_def merge_of_def)
qed

theorem handover_commits_witness:
  "fst (mergeStep5 1000 1000 7 ''0c'' 9 {''m''} ''tok'' (claim_root 4)) = True"
proof -
  define r where "r = the (mget (lm_roles (claim_root 4)) 7)"
  have r: "mget (lm_roles (claim_root 4)) 7 = Some r" "isRoot r" "hasCustody r 1000" "mergeCapable (claim_root 4)"
    by (simp_all add: r_def claim_root_def new_lrole_def new_lman_def hasCustody_def)
  have x: "idBigOf ''0c'' = Some 12" "(12::int) \<noteq> nodeId (claim_root 4)" by code_simp+
  from handover_commits [OF r(1,2) x r(4,3), of 1000 9 "{''m''}" "''tok''"] show ?thesis by auto
qed

section \<open>The epoch that a verification forgets\<close>

lemma candidate_epoch:
  assumes "mget (lm_roles m) t = Some r"
  shows "\<exists>r'. mget (lm_roles (snd (mergeCandidate now mo t w e m))) t = Some r' \<and> lr_epoch r' = lr_epoch r"
    and "lm_rootTombs (snd (mergeCandidate now mo t w e m)) = lm_rootTombs m" and "lm_genHighWater (snd (mergeCandidate now mo t w e m)) = lm_genHighWater m"
proof -
  have d: "(\<exists>r'. mget (lm_roles (snd (snd (demote now mo t w tok al m)))) t = Some r' \<and> lr_epoch r' = lr_epoch r) \<and>
    lm_rootTombs (snd (snd (demote now mo t w tok al m))) = lm_rootTombs m \<and> lm_genHighWater (snd (snd (demote now mo t w tok al m))) = lm_genHighWater m" for tok al
  proof (cases rule: demote_cases [of now mo t w tok al m])
    case (shed r0 r1 x m2)
    have "lr_epoch r1 = lr_epoch r" using shed(1,6) assms by simp
    then show ?thesis using shed(7,8) by simp
  qed (use assms in simp_all)
  show "\<exists>r'. mget (lm_roles (snd (mergeCandidate now mo t w e m))) t = Some r' \<and> lr_epoch r' = lr_epoch r"
    "lm_rootTombs (snd (mergeCandidate now mo t w e m)) = lm_rootTombs m" "lm_genHighWater (snd (mergeCandidate now mo t w e m)) = lm_genHighWater m"
    using assms d by (auto simp: mergeCandidate_def Let_def split: option.split)
qed

text \<open>C40. The epoch mark of a seat is not kept through a verification. A root (which kept its claim because it holds messages) has seen a beacon with a higher epoch than its own; when its
  verification then finds a closer node, the record it plants has no epoch and replaces the beacon, so the highest epoch the node
  knows falls back to its own, and the next root it mints is not above the one it had heard of.\<close>

theorem verify_forgets_epoch:
  assumes "mget (lm_roles m) t = Some r" and "isRoot r" and "0 \<le> lr_epoch r" and "lr_epoch r < seenEpoch t m" and "\<not> cutover m"
    and "mget (lm_rootTombs m) t = None" and "mget (lm_genHighWater m) t = None"
    and "closest_visited t ms path m = Some c" and "c XOR t < nodeId m XOR t"
  shows "mintEpoch mo t (snd (verifyVerdict now mo ms t path m)) = lr_epoch r + 1 \<and>
    mintEpoch mo t (snd (verifyVerdict now mo ms t path m)) \<le> seenEpoch t m"
proof -
  define b where "b = \<lparr>bc_root = lc (idHex c), bc_at = now, bc_exp = now + 2 * ROOT_VERIFY_MS, bc_epoch = None, bc_verified = True\<rparr>"
  define m1 where "m1 = m\<lparr>lm_beacons := mset_key t b (lm_beacons m)\<rparr>"
  have m1: "mget (lm_roles m1) t = Some r" "lm_beacons m1 = mset_key t b (lm_beacons m)" "lm_rootTombs m1 = lm_rootTombs m" "lm_genHighWater m1 = lm_genHighWater m"
    using assms(1) by (simp_all add: m1_def)
  have v: "snd (verifyVerdict now mo ms t path m) = snd (mergeCandidate now mo t (lc (idHex c)) None m1)"
    using assms(1,2,5,8,9) by (simp add: verifyVerdict_def m1_def b_def Let_def)
  define m2 where "m2 = snd (mergeCandidate now mo t (lc (idHex c)) None m1)"
  obtain r' where r': "mget (lm_roles m2) t = Some r'" "lr_epoch r' = lr_epoch r" using candidate_epoch(1) [OF m1(1), of now mo "lc (idHex c)" None] unfolding m2_def by blast
  have f: "lm_beacons m2 = mset_key t b (lm_beacons m)" "lm_rootTombs m2 = lm_rootTombs m" "lm_genHighWater m2 = lm_genHighWater m"
    using candidate_no_new_root(2) candidate_epoch(2,3) [OF m1(1)] m1 by (simp_all add: m2_def)
  have "mintEpoch mo t m2 = lr_epoch r + 1"
    using r' f assms(3,6,7) by (auto simp: mintEpoch_def knownEpoch_def raise_to_def b_def Let_def)
  then show ?thesis unfolding v m2_def [symmetric] using assms(4) by simp
qed

theorem verify_forgets_epoch_witness:
  "mintEpoch 2000 7 (snd (verifyVerdict 2000 2000 claim_mesh 7 [3] (snd (snd (onRootBeacon 1000 1000 claim_mesh
     \<lparr>bf_root = Some ''03'', bf_topics = Some [''07''], bf_epochs = Some [jint 9], bf_id = Some ''b'', bf_layer = 1\<rparr> None (claim_root 4)))))) = 5"
proof -
  let ?m = "snd (snd (onRootBeacon 1000 1000 claim_mesh
     \<lparr>bf_root = Some ''03'', bf_topics = Some [''07''], bf_epochs = Some [jint 9], bf_id = Some ''b'', bf_layer = 1\<rparr> None (claim_root 4)))"
  define r where "r = the (mget (lm_roles ?m) 7)"
  have q: "map_option isRoot (mget (lm_roles ?m) 7) = Some True" "map_option lr_epoch (mget (lm_roles ?m) 7) = Some 4" by code_simp+
  then have r: "mget (lm_roles ?m) 7 = Some r" "isRoot r" "0 \<le> lr_epoch r" "lr_epoch r = 4" by (auto simp: r_def)
  have s: "seenEpoch 7 ?m = 9" "\<not> cutover ?m" "mget (lm_rootTombs ?m) 7 = None" "mget (lm_genHighWater ?m) 7 = None"
    "closest_visited 7 claim_mesh [3] ?m = Some 3" "3 XOR 7 < nodeId ?m XOR 7" by code_simp+
  have l: "lr_epoch r < seenEpoch 7 ?m" using r(4) s(1) by simp
  from verify_forgets_epoch [OF r(1-3) l s(2-6), of 2000 2000] r(4) show ?thesis by simp
qed

end
