(* ===== verification/Spec2Isabelle.thy ===== *)
theory Spec2Isabelle
  imports TombstoneLaws DeadPeers AttemptGuard LedgerLaws EnvelopeLaws FlightLaws StoreLaws DurabilityRuns LifetimeRuns RootBeacons
begin

text \<open>
  A verification library for the kernel of the Axona protocol (\<open>src/src\<close>): a peer-to-peer
  publish/subscribe network. Topics and nodes have 264-bit ids, a region byte followed by a hash. The node
  closest to a topic in XOR distance is its root; it orders, caches and fans out signed messages. A
  message can be deleted by its author with a signed kill. The library models the parts of the kernel
  that carry its own state and decisions; the network between them is a sequence of events.

  \<^bold>\<open>Theories and sources.\<close>
  \<^item> \<open>Prelude\<close>: JavaScript values, numbers and clock values, insertion-ordered maps, and the shared
    lemmas (collections \<open>jmap_simps\<close> and others). \<open>mget\<close>, \<open>mset_key\<close>, \<open>mdelete\<close> are \<open>Map.get\<close>, \<open>set\<close>,
    \<open>delete\<close>; the locale \<open>finite_map\<close> states their laws and is interpreted on them.
  \<^item> \<open>HexId\<close>: \<open>utils/hexid.js\<close> and \<open>pubsub/ids.js\<close>, the keyspace profile, the hex codec, id
    composition, XOR distance and stratum.
  \<^item> \<open>Canonical\<close>: \<open>pubsub/post.js\<close>, canonical JSON and topic ids. \<open>SignedExpiry\<close>:
    \<open>pubsub/signedExpiry.js\<close>.
  \<^item> \<open>TombstoneStores\<close>, \<open>TombstoneAuth\<close>, \<open>TombstoneLaws\<close>: \<open>pubsub/tombstoneAuth.js\<close>, the bounded stores of
    deletions, candidates and bodies, the authority over them, and its laws over event histories.
  \<^item> \<open>Pacing\<close>, \<open>DeadPeers\<close>, \<open>AttemptGuard\<close>: \<open>dht/DeadPeers.js\<close> and \<open>dht/attemptGuard.js\<close>, the pacing of dials;
    \<open>Pacing\<close> holds the locale both are interpreted in.
  \<^item> \<open>ChannelLedger\<close>, \<open>LedgerLaws\<close>: \<open>transport/web/channel_ledger.js\<close> and \<open>pool_profile.js\<close>.
  \<^item> \<open>ByteCodec\<close>, \<open>SignedFrames\<close>, \<open>FrameLaws\<close>: the byte codecs and the binary transcripts of
    \<open>pubsub/ackProof.js\<close>, \<open>capAttest.js\<close> and \<open>handoffBinding.js\<close>.
  \<^item> \<open>Envelopes\<close>, \<open>EnvelopeLaws\<close>: the signed JSON objects of \<open>pubsub/kill.js\<close>, \<open>touch.js\<close>, \<open>unpub.js\<close> and
    \<open>envelope.js\<close>.
  \<^item> \<open>WriteFlight\<close>, \<open>FlightLaws\<close>: \<open>pubsub/writeFlight.js\<close> with \<open>_onIngestAck\<close> of \<open>wireHandlers.js\<close>.
  \<^item> \<open>TopicStore\<close>, \<open>StoreLaws\<close>: \<open>pubsub/topicStore.js\<close> with the cut check of \<open>mergeMachine.js\<close>, \<open>_applyKill\<close>
    of \<open>wireHandlers.js\<close>, \<open>_taVerifyBoundKill\<close> of \<open>tombstoneAuthWiring.js\<close>, the metric-name test of \<open>metrics.js\<close>, and the steps of a
    subscription at the application (\<open>pubsubSubscribe\<close>, \<open>pubsubUnsubscribe\<close>, \<open>pubsubResetTopicConsumption\<close> of \<open>AxonaManager.js\<close>, \<open>_applySince\<close> of \<open>AxonaPeer.js\<close>).
  \<^item> \<open>Durability\<close>, \<open>DurabilityLaws\<close>, \<open>DurabilityRuns\<close>: \<open>pubsub/durability.js\<close>, the ledger of the messages a root still has to
    replicate and the facade over the roles of a node. The locale \<open>obligation_op\<close> is the contract of its operations.
  \<^item> \<open>TopicLifetime\<close>, \<open>LifetimeLaws\<close>, \<open>LifetimeRuns\<close>: \<open>pubsub/topicLifetime.js\<close> and \<open>standingLease.js\<close>, with the grant rule of
    \<open>syncEngine.js\<close>, \<open>claimWins\<close>, \<open>becomeBackup\<close> and \<open>retireBackup\<close> of \<open>rootClaim.js\<close>, \<open>_knownEpoch\<close> of \<open>rootElection.js\<close>,
    \<open>_retireRole\<close> of \<open>repairPlane.js\<close>, \<open>_custodyAlive\<close> of \<open>mergeMachine.js\<close> and \<open>_onUnsub\<close> of \<open>wireHandlers.js\<close> at the parent. The
    locale \<open>topic_step\<close> states that a step of a sweep touches its own topic only; it is interpreted on the three sweeps of a tick.
  \<^item> \<open>RootClaim\<close>, \<open>RootLaws\<close>, \<open>RootRuns\<close>, \<open>RootBeacons\<close>: \<open>pubsub/rootClaim.js\<close>, the beacons, reachability tests and
    verification verdict of \<open>rootElection.js\<close>, \<open>_mergeCandidate\<close>, the admission of roles and \<open>_becomeRoot\<close> of \<open>AxonaManager.js\<close>, step 5 of
    \<open>mergeMachine.js\<close> and the inherited state of \<open>syncEngine.js\<close>, on the manager of the topic lifetime. Every operation is a sequence of primitive
    changes (\<open>claim_prim\<close>); the locale \<open>claim_invariant\<close> turns what a primitive keeps into what a run keeps and is interpreted on three invariants.

  \<^bold>\<open>Correspondence.\<close> A class or an object of state is a record, a method a function on it that returns the
  new state and what the method returns; refusals and exceptions are values of a sum or option type.
  Names are those of the code. The clock, random strings and neighbour lists are arguments. What a method sends or
  calls outside its component is a list of outputs. Doubles are exact rationals where fractions
  occur, \<open>x | 0\<close> and byte arithmetic are machine words. Objects compared by identity carry a
  number. Code outside the sources is a parameter: SHA-256 (\<open>dig\<close>), Ed25519 signing (\<open>sg\<close>) and verification
  (\<open>vrf\<close>), and the rendering of numbers (\<open>ns\<close>). Hypotheses on them are explicit: injectivity of the
  digest for the ids, and, for the authenticity theorems, that what verifies under a key was signed by its owner.

  \<^bold>\<open>What is shown.\<close>
  \<^item> Deletion: the stores of the authority stay within their caps, every tombstone traces back to a verified body
    and a kill of the same signer, a live tombstone survives every later event and suppresses every copy; kill
    and body commute; a deletion migrated with a role's cache suppresses the message at the receiver.
  \<^item> Storage: the cache of a role with its id set and byte counter refines a plain list with a declarative
    eviction rule; the caps hold unless only pinned messages are left; expiry is a filter when stamps are in
    order (and not otherwise); the application sees a message once for each time its topic is started anew, by an unsubscription or a
    subscription since 'all'.
  \<^item> Writes: in every timed run a flight probes at most twice, a write is promoted at most four times, a
    flight ends within five stages, an eviction accounts for every write, and an ack closes only
    the write it is about. A signed negative receipt is shown to close a write as well. The operation of an accepted proof is
    known by its text only.
  \<^item> Durability: a message is verified only by its own role's verdict on a full snapshot, live obligations are never
    evicted and leave the node only with their role, the node budget holds and admission is exact, and every obligation is settled after a
    bounded number of verdicts.
  \<^item> Topic lifetime: a topic in use survives every tick unless its termination had begun before, an idle one tells its seats and is gone four ticks later, a relay
    leaves only without custody and moves its seats, a generation that was left is not re-entered, the principal of a backup
    moves only up the election order while the epochs are below \<open>2 ^ 31\<close> (and can move down from there), a notice ends only the obligation it names. A root minted above the largest epoch a beacon
    may carry is shown to name epoch 0, so that no armed backup takes its appointments.
  \<^item> Root claims: a root with custody gives up its claim only with the token of a merge, a node that stepped down stays down for its hold,
    epochs rise with every seat taken, deferrals between any nodes have no cycle, the recorded winner wins over the own claim and is the best one offered when all have an epoch, and a
    beacon diverts nobody to a farther node. A verification is shown to forget the epoch mark of a topic.
  \<^item> Signed objects: transcripts are injective and domain separated, so accepted proofs, attestations,
    handovers, kills, touches, unpubs and envelopes were signed as such; built objects verify.
  \<^item> Ids and encodings: canonical JSON is injective up to its documented identifications, topic ids authenticate
    descriptors, codecs are inverse, the stratum is the common prefix length.
  \<^item> Dialling and channels: exhausted peers are paced, an identity is not dialled again until its attempt is ended, released or overdue at a sweep, completion
    tokens act once, the two pools bound charges and reservations, channel records leave only by a confirmed
    close and the pointers to them are valid.

  \<^bold>\<open>Bounds and loops.\<close> All functions are total. The eviction loop of the cache takes the loop's own guard,
  one more than the length, and \<open>evict_loop_spec\<close> shows that it is enough; the expiry loop terminates by the entries
  left. The exactly-once theorem covers histories as long as the dedup memory (8192), beyond which the code
  forgets, from any state. The rules that compare epochs are shown for epochs from 1 to \<open>2 ^ 31 - 1\<close> (\<open>versioned\<close>): the code reads a missing epoch
  as 0, which \<open>claimWins\<close> compares by distance alone, and wraps larger ones with \<open>| 0\<close> in some places. The life of a flight is bounded relative to the largest gap between sweeps, the end of a topic by ticks, the lease of a
  backup by the times its grants arrive.

  \<^bold>\<open>Interleaving.\<close> A method is one step of a history. Two methods await inside: \<open>_flightCompleteSigned\<close>, between the tests of an entry and its
  removal, and \<open>_onDeliver\<close>, once per role, between the test for a held message and the push. The first is modelled as one step; of the
  second the push is the step, and the theorems on the cache assume that no held message is pushed (\<open>clegal\<close>), which that await can break. A role that
  is retired while a call is in flight stays in the heap of \<open>Durability\<close>, out of the reach of the node.

  \<^bold>\<open>Not modelled.\<close> The peer core and routing (\<open>dht/AxonaPeer.js\<close>), the manager that composes the mixins, the lookups behind root
  hints, the frames of a merge round, the repair plane, replication and sync beyond the grant rule and the inherited state, the
  transports and handshakes, the frame registries, geometry, persistence and applications: they are driven by timers, sockets and the answers of
  other nodes, and their local decisions are taken by the components above. Of the topic lifetime and the root claims, log lines,
  counters, the diagnostic \<open>_lifetimeInspect\<close> and the handlers that fill their state (seats, demand stamps, held bodies, the visited nodes kept for
  replicas) are left out: the theorems hold for whatever they write. Cryptographic primitives are vendored.
\<close>

end
